(* ===== verification/Prelude.thy ===== *)
theory Prelude
  imports Main "HOL-Library.Word" "HOL-Library.AList"
begin

text \<open>
  What every theory of the development shares: the names of Go's basic types, the
  sequencing of fallible steps, and the few facts on lists and association lists the
  component proofs use.

  Go strings are byte sequences, as \<^typ>\<open>string\<close> is (\<^typ>\<open>char\<close> is a byte);
  \<open>int32\<close>, \<open>uint32\<close>, \<open>int64\<close> and \<open>uint64\<close> are words; instants and durations are
  nanosecond counts of type \<^typ>\<open>int\<close>.  A Go \<open>map\<close> is an association list whose
  keys are distinct, so that the operations that range over a map stay executable:
  \<open>map_of m k\<close> is \<open>m[k]\<close>, \<open>AList.update\<close> the assignment, \<open>AList.delete\<close> the
  builtin \<open>delete\<close>.
\<close>

section \<open>Names for the types of the Go code\<close>

type_synonym i32 = "32 word"
type_synonym u32 = "32 word"
type_synonym i64 = "64 word"
type_synonym u64 = "64 word"
type_synonym bytes = "8 word list"
type_synonym instant = int
type_synonym duration = int

abbreviation millisecond :: duration where
  "millisecond \<equiv> 1000000"

abbreviation second :: duration where
  "second \<equiv> 1000000000"

abbreviation minute :: duration where
  "minute \<equiv> 60000000000"

abbreviation keys :: "('k \<times> 'v) list \<Rightarrow> 'k set" where
  "keys m \<equiv> fst ` set m"

abbreviation wf_map :: "('k \<times> 'v) list \<Rightarrow> bool" where
  "wf_map m \<equiv> distinct (map fst m)"

section \<open>Lemma collections\<close>

named_theorems go_defs \<open>one-line definitions of the model, to be unfolded together\<close>
named_theorems map_ops \<open>what the operations on Go maps do to a lookup\<close>
named_theorems inv_intros \<open>introduction rules for the invariants of the components\<close>

section \<open>Go maps\<close>

lemma map_of_update [map_ops, simp]:
  "map_of (AList.update k v m) k' = (if k' = k then Some v else map_of m k')"
  by (simp add: update_conv')

lemma map_of_delete [map_ops, simp]:
  "map_of (AList.delete k m) k' = (if k' = k then None else map_of m k')"
  by (simp add: delete_conv')

lemma wf_map_update [simp, inv_intros]: "wf_map m \<Longrightarrow> wf_map (AList.update k v m)"
  by (rule distinct_update)

lemma wf_map_delete [simp, inv_intros]: "wf_map m \<Longrightarrow> wf_map (AList.delete k m)"
  by (rule distinct_delete)

lemma keys_map_of: "k \<in> keys m \<longleftrightarrow> map_of m k \<noteq> None"
  by (simp add: map_of_eq_None_iff)

lemma wf_map_filter [simp, inv_intros]: "wf_map m \<Longrightarrow> wf_map (filter P m)"
  by (rule distinct_map_filter)

lemma map_of_filter_wf:
  "wf_map m \<Longrightarrow> map_of (filter P m) k =
    (case map_of m k of None \<Rightarrow> None | Some v \<Rightarrow> if P (k, v) then Some v else None)"
proof (induction m)
  case Nil
  then show ?case by simp
next
  case (Cons p m)
  obtain a b where p: "p = (a, b)" by (cases p)
  show ?case
  proof (cases "k = a")
    case True
    then have "map_of m k = None"
      using Cons.prems p by (simp add: map_of_eq_None_iff)
    then show ?thesis using Cons p True by simp
  next
    case False
    then show ?thesis using Cons p by simp
  qed
qed

lemma map_of_in_set_iff: "wf_map m \<Longrightarrow> (k, v) \<in> set m \<longleftrightarrow> map_of m k = Some v"
  by (auto dest: map_of_SomeD)

section \<open>Fallible steps\<close>

text \<open>
  A Go function with results \<open>(T, error)\<close> returns a value of \<open>error + T\<close>:
  \<open>Inl\<close> is the early return with a non-nil error.
\<close>

fun bindR :: "'e + 'a \<Rightarrow> ('a \<Rightarrow> 'e + 'b) \<Rightarrow> 'e + 'b" where
  "bindR (Inl e) f = Inl e"
| "bindR (Inr x) f = f x"

lemma bindR_Inr_iff: "bindR r f = Inr y \<longleftrightarrow> (\<exists>x. r = Inr x \<and> f x = Inr y)"
  by (cases r) auto

lemma bindR_Inl_iff: "bindR r f = Inl e \<longleftrightarrow> r = Inl e \<or> (\<exists>x. r = Inr x \<and> f x = Inl e)"
  by (cases r) auto

text \<open>A loop over a slice that returns at the first error.\<close>

fun mapR :: "('a \<Rightarrow> 'e + 'b) \<Rightarrow> 'a list \<Rightarrow> 'e + 'b list" where
  "mapR f [] = Inr []"
| "mapR f (x # xs) =
    (case f x of
      Inl e \<Rightarrow> Inl e
    | Inr y \<Rightarrow> (case mapR f xs of Inl e \<Rightarrow> Inl e | Inr ys \<Rightarrow> Inr (y # ys)))"

lemma mapR_length: "mapR f xs = Inr ys \<Longrightarrow> length ys = length xs"
  by (induction xs arbitrary: ys) (auto split: sum.splits)

lemma mapR_nth: "mapR f xs = Inr ys \<Longrightarrow> i < length xs \<Longrightarrow> f (xs ! i) = Inr (ys ! i)"
  by (induction xs arbitrary: ys i) (auto split: sum.splits simp: nth_Cons')

lemma mapR_total: "(\<And>x. x \<in> set xs \<Longrightarrow> f x = Inr (g x)) \<Longrightarrow> mapR f xs = Inr (map g xs)"
  by (induction xs) auto

lemma mapR_error: "mapR f xs = Inl e \<Longrightarrow> \<exists>x \<in> set xs. f x = Inl e"
  by (induction xs) (auto split: sum.splits)

section \<open>Lists\<close>

lemma nth_update_other: "i \<noteq> j \<Longrightarrow> xs[i := x] ! j = xs ! j"
  by simp

lemma all_nth_snoc:
  "(\<forall>i < Suc n. P i) \<longleftrightarrow> (\<forall>i < n. P i) \<and> P n"
  using less_Suc_eq by auto

end
