(* ===== verification/GoText.thy ===== *)
theory GoText
  imports Prelude
begin

text \<open>
  Go's text functions as far as the server uses them (\<open>strings.HasPrefix\<close>,
  \<open>IndexByte\<close>, \<open>Index\<close>, \<open>Split\<close>, \<open>TrimSpace\<close>, \<open>ToUpper\<close>, \<open>strconv.FormatInt\<close>,
  \<open>strconv.ParseInt\<close>).

  \<open>TrimSpace\<close> strips every UTF-8 encoding of a Unicode space.  \<open>ToUpper\<close> is exact
  on ASCII and on the two non-ASCII runes whose upper case is an ASCII letter (U+0131 and
  U+017F); it leaves the bytes of every other non-ASCII rune as they are, where Go may
  replace them by other non-ASCII bytes.  The classification of SQL texts only compares the text with
  ASCII prefixes and looks at one following byte, so the difference is not visible to it.
\<close>

section \<open>Prefixes, searching, splitting\<close>

definition hasPrefix :: "string \<Rightarrow> string \<Rightarrow> bool" where
  "hasPrefix s p \<longleftrightarrow> take (length p) s = p"

definition hasSuffix :: "string \<Rightarrow> string \<Rightarrow> bool" where
  "hasSuffix s p \<longleftrightarrow> hasPrefix (rev s) (rev p)"

fun indexByte :: "string \<Rightarrow> char \<Rightarrow> nat option" where
  "indexByte [] c = None"
| "indexByte (x # xs) c = (if x = c then Some 0 else map_option Suc (indexByte xs c))"

fun strIndex :: "string \<Rightarrow> string \<Rightarrow> nat option" where
  "strIndex [] sub = (if sub = [] then Some 0 else None)"
| "strIndex (x # xs) sub =
    (if hasPrefix (x # xs) sub then Some 0 else map_option Suc (strIndex xs sub))"

fun splitByte :: "char \<Rightarrow> string \<Rightarrow> string list" where
  "splitByte c [] = [[]]"
| "splitByte c (x # xs) =
    (if x = c then [] # splitByte c xs
     else (case splitByte c xs of [] \<Rightarrow> [[x]] | y # ys \<Rightarrow> (x # y) # ys))"

lemma hasPrefix_iff: "hasPrefix s p \<longleftrightarrow> (\<exists>t. s = p @ t)"
  unfolding hasPrefix_def by (metis append_eq_conv_conj append_take_drop_id)

lemma hasPrefix_append [simp]: "hasPrefix (p @ t) p"
  by (auto simp: hasPrefix_iff)

lemma hasPrefix_Nil [simp]: "hasPrefix [] p \<longleftrightarrow> p = []"
  by (auto simp: hasPrefix_def)

lemma hasPrefix_Cons [simp]:
  "hasPrefix (x # xs) (y # ys) \<longleftrightarrow> x = y \<and> hasPrefix xs ys"
  by (simp add: hasPrefix_def)

lemma hasPrefix_empty [simp]: "hasPrefix s []"
  by (simp add: hasPrefix_def)

lemma hasPrefix_length: "hasPrefix s p \<Longrightarrow> length p \<le> length s"
  by (auto simp: hasPrefix_iff)

lemma hasSuffix_iff: "hasSuffix s p \<longleftrightarrow> (\<exists>t. s = t @ p)"
  unfolding hasSuffix_def hasPrefix_iff by (metis rev_append rev_rev_ident)

lemma indexByte_Some: "indexByte s c = Some i \<Longrightarrow> i < length s \<and> s ! i = c \<and> c \<notin> set (take i s)"
  by (induction s arbitrary: i) (auto split: if_splits)

lemma indexByte_None [simp]: "indexByte s c = None \<longleftrightarrow> c \<notin> set s"
  by (induction s) auto

lemma indexByte_absent [simp]: "c \<notin> set s \<Longrightarrow> indexByte s c = None"
  by simp

lemma indexByte_append: "c \<notin> set a \<Longrightarrow> indexByte (a @ c # b) c = Some (length a)"
  by (induction a) auto

lemma strIndex_Some:
  "strIndex s sub = Some i \<Longrightarrow> i + length sub \<le> length s \<and> hasPrefix (drop i s) sub"
  by (induction s sub arbitrary: i rule: strIndex.induct)
    (auto split: if_splits dest: hasPrefix_length)

lemma splitByte_nonempty [simp]: "splitByte c s \<noteq> []"
  by (induction s) (auto split: list.splits)

lemma splitByte_no_sep: "t \<in> set (splitByte c s) \<Longrightarrow> c \<notin> set t"
  by (induction s arbitrary: t) (auto split: if_splits list.splits)

lemma splitByte_append:
  "c \<notin> set a \<Longrightarrow> splitByte c (a @ c # b) = a # splitByte c b"
  by (induction a) auto

lemma splitByte_single: "c \<notin> set a \<Longrightarrow> splitByte c a = [a]"
  by (induction a) auto

section \<open>Trimming\<close>

text \<open>The UTF-8 encodings of the runes for which \<open>unicode.IsSpace\<close> holds.\<close>

definition spaceRunes :: "string list" where
  "spaceRunes =
    [[CHR 0x09], [CHR 0x0A], [CHR 0x0B], [CHR 0x0C], [CHR 0x0D], [CHR 0x20],
     [CHR 0xC2, CHR 0x85], [CHR 0xC2, CHR 0xA0], [CHR 0xE1, CHR 0x9A, CHR 0x80],
     [CHR 0xE2, CHR 0x80, CHR 0x80], [CHR 0xE2, CHR 0x80, CHR 0x81],
     [CHR 0xE2, CHR 0x80, CHR 0x82], [CHR 0xE2, CHR 0x80, CHR 0x83],
     [CHR 0xE2, CHR 0x80, CHR 0x84], [CHR 0xE2, CHR 0x80, CHR 0x85],
     [CHR 0xE2, CHR 0x80, CHR 0x86], [CHR 0xE2, CHR 0x80, CHR 0x87],
     [CHR 0xE2, CHR 0x80, CHR 0x88], [CHR 0xE2, CHR 0x80, CHR 0x89],
     [CHR 0xE2, CHR 0x80, CHR 0x8A], [CHR 0xE2, CHR 0x80, CHR 0xA8],
     [CHR 0xE2, CHR 0x80, CHR 0xA9], [CHR 0xE2, CHR 0x80, CHR 0xAF],
     [CHR 0xE2, CHR 0x81, CHR 0x9F], [CHR 0xE3, CHR 0x80, CHR 0x80]]"

function trimRunes :: "string list \<Rightarrow> string \<Rightarrow> string" where
  "trimRunes rs s =
    (case find (\<lambda>r. r \<noteq> [] \<and> hasPrefix s r) rs of
      None \<Rightarrow> s
    | Some r \<Rightarrow> trimRunes rs (drop (length r) s))"
  by pat_completeness auto
termination
proof (relation "measure (\<lambda>(rs, s). length s)")
  fix rs s r
  assume "find (\<lambda>r. r \<noteq> [] \<and> hasPrefix s r) rs = Some r"
  then have "r \<noteq> []" and "hasPrefix s r" by (auto simp: find_Some_iff)
  then show "((rs, drop (length r) s), (rs, s)) \<in> measure (\<lambda>(rs, s). length s)"
    by (auto simp: hasPrefix_iff)
qed simp

declare trimRunes.simps [simp del]

definition trimLeft :: "string \<Rightarrow> string" where
  "trimLeft s = trimRunes spaceRunes s"

definition trimRight :: "string \<Rightarrow> string" where
  "trimRight s = rev (trimRunes (map rev spaceRunes) (rev s))"

definition trimSpace :: "string \<Rightarrow> string" where
  "trimSpace s = trimRight (trimLeft s)"

lemma trimRunes_length: "length (trimRunes rs s) \<le> length s"
proof (induction rs s rule: trimRunes.induct)
  case (1 rs s)
  show ?case
  proof (cases "find (\<lambda>r. r \<noteq> [] \<and> hasPrefix s r) rs")
    case None
    then show ?thesis by (subst trimRunes.simps) simp
  next
    case (Some r)
    then show ?thesis using "1.IH"[OF Some] by (subst trimRunes.simps) simp
  qed
qed

lemma trimSpace_length: "length (trimSpace s) \<le> length s"
  unfolding trimSpace_def trimRight_def trimLeft_def
  by (metis le_trans length_rev trimRunes_length)

lemma trimRunes_Nil [simp]: "trimRunes rs [] = []"
  by (subst trimRunes.simps) (auto split: option.splits simp: find_Some_iff)

lemma trimRunes_stop:
  "(\<And>r. r \<in> set rs \<Longrightarrow> r \<noteq> [] \<Longrightarrow> \<not> hasPrefix s r) \<Longrightarrow> trimRunes rs s = s"
  by (subst trimRunes.simps) (auto split: option.splits simp: find_Some_iff)

lemma trimRunes_idem: "trimRunes rs (trimRunes rs s) = trimRunes rs s"
proof (induction rs s rule: trimRunes.induct)
  case (1 rs s)
  show ?case
  proof (cases "find (\<lambda>r. r \<noteq> [] \<and> hasPrefix s r) rs")
    case None
    then have "trimRunes rs s = s" by (subst trimRunes.simps) simp
    then show ?thesis by simp
  next
    case (Some r)
    then have "trimRunes rs s = trimRunes rs (drop (length r) s)"
      by (subst trimRunes.simps) simp
    then show ?thesis using "1.IH"[OF Some] by simp
  qed
qed

subsection \<open>Trimming by a uniquely decodable set of runes\<close>

text \<open>
  The runes of a UTF-8 text cannot overlap: no encoding is a proper prefix or suffix of
  another, and a first byte never occurs inside an encoding.  Under these laws trimming
  on the left and on the right strip exactly the runes at the ends, in any order.
\<close>

locale rune_code =
  fixes runes :: "string list"
  assumes rune_nonempty: "r \<in> set runes \<Longrightarrow> r \<noteq> []"
    and rune_prefix: "r \<in> set runes \<Longrightarrow> r' \<in> set runes \<Longrightarrow> hasPrefix r r' \<Longrightarrow> r = r'"
    and rune_suffix: "r \<in> set runes \<Longrightarrow> r' \<in> set runes \<Longrightarrow> hasSuffix r r' \<Longrightarrow> r = r'"
    and rune_lead: "r \<in> set runes \<Longrightarrow> r' \<in> set runes \<Longrightarrow> hd r' \<notin> set (tl r)"
begin

abbreviation L :: "string \<Rightarrow> string" where
  "L s \<equiv> trimRunes runes s"

abbreviation R :: "string \<Rightarrow> string" where
  "R s \<equiv> rev (trimRunes (map rev runes) (rev s))"

lemma prefix_either: "p @ x = q @ y \<Longrightarrow> hasPrefix p q \<or> hasPrefix q p"
  by (auto simp: append_eq_append_conv2 hasPrefix_iff)

lemma trim_strip:
  assumes "r \<in> set rs" "\<And>q q'. q \<in> set rs \<Longrightarrow> q' \<in> set rs \<Longrightarrow> hasPrefix q q' \<Longrightarrow> q = q'"
    and "r \<noteq> []"
  shows "trimRunes rs (r @ x) = trimRunes rs x"
proof -
  obtain q where q: "find (\<lambda>q. q \<noteq> [] \<and> hasPrefix (r @ x) q) rs = Some q"
    using assms(1,3) by (cases "find (\<lambda>q. q \<noteq> [] \<and> hasPrefix (r @ x) q) rs")
      (auto simp: find_None_iff)
  then have "q \<in> set rs" "hasPrefix (r @ x) q" by (auto simp: find_Some_iff)
  then have "q = r"
    using assms(1,2) prefix_either by (metis hasPrefix_iff)
  with q show ?thesis by (subst trimRunes.simps) simp
qed

lemma L_strip: "r \<in> set runes \<Longrightarrow> L (r @ x) = L x"
  using trim_strip rune_nonempty rune_prefix by blast

lemma R_strip: "r \<in> set runes \<Longrightarrow> R (x @ r) = R x"
proof -
  assume r: "r \<in> set runes"
  have "trimRunes (map rev runes) (rev r @ rev x) = trimRunes (map rev runes) (rev x)"
  proof (rule trim_strip)
    fix q q' assume "q \<in> set (map rev runes)" "q' \<in> set (map rev runes)" "hasPrefix q q'"
    then show "q = q'"
      using rune_suffix[of "rev q" "rev q'"] by (auto simp: hasSuffix_def)
  qed (use r rune_nonempty in auto)
  then show ?thesis by simp
qed

lemma L_concat: "set w \<subseteq> set runes \<Longrightarrow> L (concat w @ x) = L x"
  by (induction w) (auto simp: L_strip)

lemma R_concat: "set w \<subseteq> set runes \<Longrightarrow> R (x @ concat w) = R x"
  by (induction w arbitrary: x rule: rev_induct)
    (auto simp: R_strip simp del: rev_append append_assoc simp flip: append_assoc)

lemma trim_decomp: "\<exists>w. set w \<subseteq> set rs \<and> s = concat w @ trimRunes rs s"
proof (induction rs s rule: trimRunes.induct)
  case (1 rs s)
  show ?case
  proof (cases "find (\<lambda>r. r \<noteq> [] \<and> hasPrefix s r) rs")
    case None
    then have "trimRunes rs s = s" by (subst trimRunes.simps) simp
    then show ?thesis by (intro exI[of _ "[]"]) simp
  next
    case (Some r)
    then have r: "r \<in> set rs" "s = r @ drop (length r) s"
      by (auto simp: find_Some_iff hasPrefix_iff)
    obtain w where w: "set w \<subseteq> set rs"
        "drop (length r) s = concat w @ trimRunes rs (drop (length r) s)"
      using "1.IH"[OF Some] by blast
    have "trimRunes rs s = trimRunes rs (drop (length r) s)"
      using Some by (subst trimRunes.simps) simp
    with w r show ?thesis by (intro exI[of _ "r # w"]) (metis append_assoc concat.simps(2)
      insert_subset list.set(2))
  qed
qed

lemma L_decomp: "\<exists>w. set w \<subseteq> set runes \<and> s = concat w @ L s"
  by (rule trim_decomp)

lemma R_decomp: "\<exists>w. set w \<subseteq> set runes \<and> s = R s @ concat w"
proof -
  obtain w where w: "set w \<subseteq> set (map rev runes)"
      "rev s = concat w @ trimRunes (map rev runes) (rev s)"
    using trim_decomp by blast
  then have "s = R s @ concat (rev (map rev w))"
    by (metis rev_append rev_concat rev_map rev_rev_ident)
  moreover have "set (rev (map rev w)) \<subseteq> set runes" using w(1) by auto
  ultimately show ?thesis by blast
qed

lemma trim_stop: "q \<in> set rs \<Longrightarrow> q \<noteq> [] \<Longrightarrow> \<not> hasPrefix (trimRunes rs s) q"
proof (induction rs s rule: trimRunes.induct)
  case (1 rs s)
  show ?case
  proof (cases "find (\<lambda>r. r \<noteq> [] \<and> hasPrefix s r) rs")
    case None
    then have "trimRunes rs s = s" by (subst trimRunes.simps) simp
    with None "1.prems" show ?thesis by (auto simp: find_None_iff)
  next
    case (Some r)
    then have "trimRunes rs s = trimRunes rs (drop (length r) s)"
      by (subst trimRunes.simps) simp
    with "1.IH"[OF Some "1.prems"] show ?thesis by simp
  qed
qed

lemma R_stop: "q \<in> set runes \<Longrightarrow> \<not> hasSuffix (R s) q"
  using trim_stop[of "rev q" "map rev runes" "rev s"] rune_nonempty by (auto simp: hasSuffix_def)

lemma R_fixed:
  assumes "\<And>q. q \<in> set runes \<Longrightarrow> \<not> hasSuffix t q"
  shows "R t = t"
proof -
  have "trimRunes (map rev runes) (rev t) = rev t"
    by (rule trimRunes_stop) (use assms in \<open>auto simp: hasSuffix_def\<close>)
  then show ?thesis by simp
qed

lemma L_append:
  assumes "set w \<subseteq> set runes" and "L t \<noteq> []"
  shows "L (t @ concat w) = L t @ concat w"
proof -
  obtain v where v: "set v \<subseteq> set runes" "t = concat v @ L t" using L_decomp by blast
  have "L (L t @ concat w) = L t @ concat w"
  proof (rule trimRunes_stop)
    fix r assume r: "r \<in> set runes"
    show "\<not> hasPrefix (L t @ concat w) r"
    proof
      assume "hasPrefix (L t @ concat w) r"
      moreover have "\<not> hasPrefix (L t) r" by (rule trim_stop[OF r rune_nonempty[OF r]])
      ultimately obtain y u where y: "r = L t @ y" "y \<noteq> []" "concat w = y @ u"
        by (auto simp: hasPrefix_iff append_eq_append_conv2)
      then obtain q ws where w: "w = q # ws" by (cases w) auto
      then have q: "q \<in> set runes" "q \<noteq> []" using assms(1) rune_nonempty by auto
      then have "hd q = hd y" using y(2,3) w by (metis concat.simps(2) hd_append2)
      then have "hd q \<in> set (tl r)" using y assms(2) by (cases "L t"; cases y) auto
      with rune_lead[OF r q(1)] show False by simp
    qed
  qed
  moreover have "L (t @ concat w) = L (L t @ concat w)"
    using v L_concat by (metis append_assoc)
  ultimately show ?thesis by simp
qed

lemma R_L_R: "R (L (R s)) = R (L s)"
proof -
  obtain w where w: "set w \<subseteq> set runes" "s = R s @ concat w" using R_decomp by blast
  show ?thesis
  proof (cases "L (R s) = []")
    case True
    obtain v where v: "set v \<subseteq> set runes" "R s = concat v @ L (R s)" using L_decomp by blast
    have "v = []"
    proof (rule ccontr)
      assume "v \<noteq> []"
      then have "hasSuffix (R s) (last v)" "last v \<in> set runes"
        using v True by (auto simp: hasSuffix_iff intro!: exI[of _ "concat (butlast v)"])
          (metis append_butlast_last_id concat_append concat.simps append_Nil2)
      then show False using R_stop by blast
    qed
    then have "s = concat w @ []" using v True w(2) by simp
    then have "L s = []" using L_concat[OF w(1), of "[]"] by simp
    with True show ?thesis by simp
  next
    case False
    then have "L s = L (R s) @ concat w" using L_append[OF w(1)] w(2) by metis
    then show ?thesis using R_concat[OF w(1)] by simp
  qed
qed

lemma singleton_only: "[c] \<in> set runes \<Longrightarrow> r \<in> set runes \<Longrightarrow> c \<in> set r \<Longrightarrow> r = [c]"
  using rune_lead[of r "[c]"] rune_prefix[of r "[c]"] by (cases r) auto

lemma R_mid:
  assumes c: "[c] \<in> set runes"
  shows "R (x @ c # s) = (if R s = [] then R x else x @ c # R s)"
proof -
  obtain w where w: "set w \<subseteq> set runes" "s = R s @ concat w" using R_decomp by blast
  show ?thesis
  proof (cases "R s = []")
    case True
    then have "R (x @ c # s) = R ((x @ [c]) @ concat w)" using w by simp
    also have "\<dots> = R (x @ [c])" by (rule R_concat[OF w(1)])
    also have "\<dots> = R x" by (rule R_strip[OF c])
    finally show ?thesis using True by simp
  next
    case False
    have "R (x @ c # R s) = x @ c # R s"
    proof (rule R_fixed)
      fix q assume q: "q \<in> set runes"
      show "\<not> hasSuffix (x @ c # R s) q"
      proof
        assume "hasSuffix (x @ c # R s) q"
        then obtain t z where t: "t @ q = z @ R s" "z = x @ [c]" by (auto simp: hasSuffix_iff)
        have "\<not> hasSuffix (R s) q" by (rule R_stop[OF q])
        then have "\<nexists>u. u @ q = R s" by (metis hasSuffix_iff)
        with t(1) obtain y where y: "q = y @ R s" "y \<noteq> []" "t @ y = z"
          by (auto simp: append_eq_append_conv2)
        then have "last y = c" using t(2) by (metis last_appendR last_snoc)
        then have "c \<in> set q" using y by (metis last_in_set Un_iff set_append)
        then have "q = [c]" by (rule singleton_only[OF c q])
        with y False show False by (cases y) auto
      qed
    qed
    moreover have "R (x @ c # s) = R (x @ c # R s)"
      using R_concat[OF w(1), of "x @ c # R s"] w(2) by simp
    ultimately show ?thesis using False by simp
  qed
qed

lemma R_keep:
  assumes c: "\<And>r. r \<in> set runes \<Longrightarrow> c \<notin> set r"
  shows "R (x @ c # s) = x @ c # R s"
proof -
  obtain w where w: "set w \<subseteq> set runes" "s = R s @ concat w" using R_decomp by blast
  have "R (x @ c # R s) = x @ c # R s"
  proof (rule R_fixed)
    fix q assume q: "q \<in> set runes"
    show "\<not> hasSuffix (x @ c # R s) q"
    proof
      assume "hasSuffix (x @ c # R s) q"
      then obtain t z where t: "t @ q = z @ R s" "z = x @ [c]" by (auto simp: hasSuffix_iff)
      have "\<not> hasSuffix (R s) q" by (rule R_stop[OF q])
      then have "\<nexists>u. u @ q = R s" by (metis hasSuffix_iff)
      with t(1) obtain y where y: "q = y @ R s" "y \<noteq> []" "t @ y = z"
        by (auto simp: append_eq_append_conv2)
      then have "last y = c" using t(2) by (metis last_appendR last_snoc)
      then have "c \<in> set q" using y by (metis last_in_set Un_iff set_append)
      with c[OF q] show False by simp
    qed
  qed
  moreover have "R (x @ c # s) = R (x @ c # R s)"
    using R_concat[OF w(1), of "x @ c # R s"] w(2) by simp
  ultimately show ?thesis by simp
qed

end

interpretation ws: rune_code spaceRunes
proof
  show "r \<noteq> []" if "r \<in> set spaceRunes" for r
    using that by (auto simp: spaceRunes_def)
  show "r = r'" if "r \<in> set spaceRunes" "r' \<in> set spaceRunes" "hasPrefix r r'" for r r'
  proof -
    have "\<forall>r \<in> set spaceRunes. \<forall>r' \<in> set spaceRunes. hasPrefix r r' \<longrightarrow> r = r'" by code_simp
    with that show ?thesis by blast
  qed
  show "r = r'" if "r \<in> set spaceRunes" "r' \<in> set spaceRunes" "hasSuffix r r'" for r r'
  proof -
    have "\<forall>r \<in> set spaceRunes. \<forall>r' \<in> set spaceRunes. hasSuffix r r' \<longrightarrow> r = r'" by code_simp
    with that show ?thesis by blast
  qed
  show "hd r' \<notin> set (tl r)" if "r \<in> set spaceRunes" "r' \<in> set spaceRunes" for r r'
  proof -
    have "\<forall>r \<in> set spaceRunes. \<forall>r' \<in> set spaceRunes. hd r' \<notin> set (tl r)" by code_simp
    with that show ?thesis by blast
  qed
qed

lemma trimSpace_trimRight: "trimSpace (trimRight s) = trimSpace s"
  unfolding trimSpace_def trimRight_def trimLeft_def by (rule ws.R_L_R)

lemma trimRight_mid:
  "[c] \<in> set spaceRunes \<Longrightarrow>
    trimRight (x @ c # s) = (if trimRight s = [] then trimRight x else x @ c # trimRight s)"
  unfolding trimRight_def by (rule ws.R_mid)

definition spaceByte :: "char \<Rightarrow> bool" where
  "spaceByte c \<longleftrightarrow> c \<in> set (concat spaceRunes)"

lemma trimRight_keep: "\<not> spaceByte c \<Longrightarrow> trimRight (x @ c # s) = x @ c # trimRight s"
  unfolding trimRight_def by (rule ws.R_keep) (auto simp: spaceByte_def)

lemma trimLeft_keep: "\<not> spaceByte c \<Longrightarrow> trimLeft (c # s) = c # s"
  unfolding trimLeft_def
  by (rule trimRunes_stop) (auto simp: spaceByte_def hasPrefix_iff Cons_eq_append_conv)

lemma trimSpace_blank: "trimRight s = [] \<Longrightarrow> trimSpace s = []"
  by (metis trimSpace_trimRight trimSpace_def trimLeft_def trimRight_def trimRunes_Nil
      rev.simps(1))

lemma trimSpace_rune: "r \<in> set spaceRunes \<Longrightarrow> trimSpace (r @ s) = trimSpace s"
  unfolding trimSpace_def trimLeft_def by (simp add: ws.L_strip)

lemma trimSpace_runes: "set w \<subseteq> set spaceRunes \<Longrightarrow> trimSpace (concat w @ s) = trimSpace s"
  unfolding trimSpace_def trimLeft_def by (simp add: ws.L_concat)

lemma trimRight_decomp: "\<exists>w. set w \<subseteq> set spaceRunes \<and> s = trimRight s @ concat w"
  unfolding trimRight_def by (rule ws.R_decomp)

section \<open>Upper case\<close>

definition upperByte :: "char \<Rightarrow> char" where
  "upperByte c =
    (let n = (of_char c :: nat) in if 97 \<le> n \<and> n \<le> 122 then char_of (n - 32) else c)"

fun toUpper :: "string \<Rightarrow> string" where
  "toUpper [] = []"
| "toUpper [c] = [upperByte c]"
| "toUpper (c # d # s) =
    (if c = CHR 0xC4 \<and> d = CHR 0xB1 then CHR ''I'' # toUpper s
     else if c = CHR 0xC5 \<and> d = CHR 0xBF then CHR ''S'' # toUpper s
     else upperByte c # toUpper (d # s))"

section \<open>Decimal integers\<close>

fun natDigits :: "nat \<Rightarrow> string" where
  "natDigits n =
    (if n < 10 then [char_of (48 + n)]
     else natDigits (n div 10) @ [char_of (48 + n mod 10)])"

declare natDigits.simps [simp del]

definition formatInt :: "int \<Rightarrow> string" where
  "formatInt i = (if i < 0 then CHR ''-'' # natDigits (nat (- i)) else natDigits (nat i))"

datatype num_error = ErrSyntax | ErrRange

definition digitVal :: "char \<Rightarrow> nat option" where
  "digitVal c = (let n = (of_char c :: nat) in if 48 \<le> n \<and> n \<le> 57 then Some (n - 48) else None)"

fun parseDigits :: "nat \<Rightarrow> string \<Rightarrow> nat option" where
  "parseDigits acc [] = Some acc"
| "parseDigits acc (c # cs) =
    (case digitVal c of None \<Rightarrow> None | Some d \<Rightarrow> parseDigits (10 * acc + d) cs)"

definition parseUint :: "string \<Rightarrow> nat option" where
  "parseUint s = (if s = [] then None else parseDigits 0 s)"

text \<open>
  \<open>strconv.ParseInt(s, 10, bits)\<close>: an optional sign, at least one digit and nothing
  else; a well-formed number outside the signed range is a range error.
\<close>

definition parseInt :: "nat \<Rightarrow> string \<Rightarrow> num_error + int" where
  "parseInt bits s =
    (let (neg, ds) = (case s of
        [] \<Rightarrow> (False, [])
      | c # cs \<Rightarrow> if c = CHR ''-'' then (True, cs) else if c = CHR ''+'' then (False, cs)
                 else (False, s))
     in case parseUint ds of
          None \<Rightarrow> Inl ErrSyntax
        | Some n \<Rightarrow>
            if neg then (if n \<le> 2 ^ (bits - 1) then Inr (- int n) else Inl ErrRange)
            else (if n < 2 ^ (bits - 1) then Inr (int n) else Inl ErrRange))"

lemma digitVal_char_of [simp]: "d < 10 \<Longrightarrow> digitVal (char_of (48 + d)) = Some d"
  by (simp add: digitVal_def Let_def)

lemma natDigits_nonempty [simp]: "natDigits n \<noteq> []"
  by (subst natDigits.simps) simp

lemma parseDigits_append:
  "parseDigits acc (a @ b) =
    (case parseDigits acc a of None \<Rightarrow> None | Some m \<Rightarrow> parseDigits m b)"
  by (induction acc a rule: parseDigits.induct) (auto split: option.splits)

lemma parseDigits_natDigits: "parseDigits 0 (natDigits n) = Some n"
proof (induction n rule: natDigits.induct)
  case (1 n)
  show ?case
  proof (cases "n < 10")
    case True
    then show ?thesis by (subst natDigits.simps) simp
  next
    case False
    then have "parseDigits 0 (natDigits (n div 10)) = Some (n div 10)" by (rule "1.IH")
    with False show ?thesis
      by (subst natDigits.simps) (simp add: parseDigits_append)
  qed
qed

lemma natDigits_digit: "c \<in> set (natDigits n) \<Longrightarrow> digitVal c \<noteq> None"
proof (induction n rule: natDigits.induct)
  case (1 n)
  show ?case
  proof (cases "n < 10")
    case True
    with "1.prems" show ?thesis by (subst (asm) natDigits.simps) simp
  next
    case False
    with "1.prems" have "c \<in> set (natDigits (n div 10)) \<or> c = char_of (48 + n mod 10)"
      by (subst (asm) natDigits.simps) auto
    with "1.IH"[OF False] show ?thesis by auto
  qed
qed

lemma natDigits_hd: "\<exists>c cs. natDigits n = c # cs \<and> c \<noteq> CHR ''-'' \<and> c \<noteq> CHR ''+''"
proof -
  obtain c cs where c: "natDigits n = c # cs" by (cases "natDigits n") auto
  then have "digitVal c \<noteq> None" using natDigits_digit[of c n] by simp
  then have "c \<noteq> CHR ''-''" and "c \<noteq> CHR ''+''" by (auto simp: digitVal_def)
  with c show ?thesis by blast
qed

lemma parseUint_natDigits [simp]: "parseUint (natDigits n) = Some n"
  by (simp add: parseUint_def parseDigits_natDigits)

lemma parseInt_formatInt:
  assumes "- (2 ^ (bits - 1)) \<le> i" and "i < 2 ^ (bits - 1)"
  shows "parseInt bits (formatInt i) = Inr i"
proof (cases "i < 0")
  case True
  then have "nat (- i) \<le> 2 ^ (bits - 1)"
    using assms(1) by (simp add: nat_le_iff)
  with True show ?thesis by (simp add: formatInt_def parseInt_def)
next
  case False
  obtain c cs where c: "natDigits (nat i) = c # cs" "c \<noteq> CHR ''-''" "c \<noteq> CHR ''+''"
    using natDigits_hd by blast
  have "nat i < 2 ^ (bits - 1)" using False assms(2) by (simp add: nat_less_iff)
  moreover have "parseUint (c # cs) = Some (nat i)" using c(1) parseUint_natDigits by metis
  ultimately show ?thesis using False c by (simp add: formatInt_def parseInt_def)
qed

lemma natDigits_inj: "natDigits m = natDigits n \<Longrightarrow> m = n"
  by (metis option.inject parseUint_natDigits)

lemma formatInt_inj:
  assumes eq: "formatInt i = formatInt j"
  shows "i = j"
proof (cases "i < 0 \<longleftrightarrow> j < 0")
  case True
  then have "natDigits (nat \<bar>i\<bar>) = natDigits (nat \<bar>j\<bar>)"
    using eq by (auto simp: formatInt_def split: if_splits)
  then have "nat \<bar>i\<bar> = nat \<bar>j\<bar>" by (rule natDigits_inj)
  then have "\<bar>i\<bar> = \<bar>j\<bar>" by simp
  with True show ?thesis by (auto simp: abs_if split: if_splits)
next
  case False
  then show ?thesis
    using eq natDigits_hd[of "nat i"] natDigits_hd[of "nat j"]
    by (auto simp: formatInt_def split: if_splits)
qed

end
