(* ===== verification/SqlClass.thy ===== *)
theory SqlClass
  imports GoText
begin

text \<open>
  The keyword classification of SQL texts: \<open>isWriteStatement\<close>, \<open>writeKeywords\<close> and
  \<open>isIdentChar\<close> of \<open>src/utils.go\<close>, on which the read-only mode rests, and
  \<open>isReadonlyStatement\<close> of \<open>src/executor.go\<close>, which \<open>describe\<close> reports.
  The two comment loops of \<open>isWriteStatement\<close> are recursive functions that return
  \<^term>\<open>None\<close> where the code returns \<open>false\<close> from inside the loop.
\<close>

section \<open>The code\<close>

definition writeKeywords :: "string list" where
  "writeKeywords =
    [''INSERT'', ''UPDATE'', ''DELETE'', ''CREATE'', ''DROP'', ''ALTER'',
     ''REPLACE'', ''REINDEX'', ''VACUUM'', ''ANALYZE'']"

definition isIdentChar :: "char \<Rightarrow> bool" where
  "isIdentChar b =
    (let n = (of_char b :: nat) in
       (65 \<le> n \<and> n \<le> 90) \<or> (48 \<le> n \<and> n \<le> 57) \<or> b = CHR ''_'')"

abbreviation newline :: char where
  "newline \<equiv> CHR 0x0A"

function skipLineComments :: "string \<Rightarrow> string option" where
  "skipLineComments s =
    (if hasPrefix s ''--''
     then (case indexByte s newline of
             None \<Rightarrow> None
           | Some nl \<Rightarrow> skipLineComments (trimSpace (drop (nl + 1) s)))
     else Some s)"
  by pat_completeness auto
termination
proof (relation "measure length")
  fix s nl
  assume "hasPrefix s ''--''" "indexByte s newline = Some nl"
  then have "s \<noteq> []" by auto
  then show "(trimSpace (drop (nl + 1) s), s) \<in> measure length"
    using trimSpace_length[of "drop (nl + 1) s"] by (cases s) auto
qed simp

function skipBlockComments :: "string \<Rightarrow> string option" where
  "skipBlockComments s =
    (if hasPrefix s ''/*''
     then (case strIndex s ''*/'' of
             None \<Rightarrow> None
           | Some i \<Rightarrow> skipBlockComments (trimSpace (drop (i + 2) s)))
     else Some s)"
  by pat_completeness auto
termination
proof (relation "measure length")
  fix s i
  assume "hasPrefix s ''/*''" "strIndex s ''*/'' = Some i"
  then have "s \<noteq> []" by auto
  then show "(trimSpace (drop (i + 2) s), s) \<in> measure length"
    using trimSpace_length[of "drop (i + 2) s"] by (cases s) auto
qed simp

declare skipLineComments.simps [simp del]
declare skipBlockComments.simps [simp del]

definition matchesKeyword :: "string \<Rightarrow> string \<Rightarrow> bool" where
  "matchesKeyword upper kw \<longleftrightarrow>
    hasPrefix upper kw \<and>
    (case drop (length kw) upper of [] \<Rightarrow> True | c # _ \<Rightarrow> \<not> isIdentChar c)"

definition isWriteStatement :: "string \<Rightarrow> bool" where
  "isWriteStatement sql =
    (case skipLineComments (trimSpace sql) of
       None \<Rightarrow> False
     | Some s \<Rightarrow>
         (case skipBlockComments s of
            None \<Rightarrow> False
          | Some s' \<Rightarrow> list_ex (matchesKeyword (toUpper s')) writeKeywords))"

definition isReadonlyStatement :: "string \<Rightarrow> bool" where
  "isReadonlyStatement upper =
    list_ex (hasPrefix upper) [''SELECT'', ''EXPLAIN'', ''PRAGMA'', ''WITH'']"

section \<open>What the classification decides\<close>

text \<open>
  A byte that ends a keyword: an ASCII byte that no identifier contains.
\<close>

definition wordBreak :: "string \<Rightarrow> bool" where
  "wordBreak rest \<longleftrightarrow>
    (case rest of [] \<Rightarrow> True
     | b # _ \<Rightarrow> (of_char b :: nat) < 128 \<and> \<not> isIdentChar (upperByte b))"

definition asciiLetter :: "char \<Rightarrow> bool" where
  "asciiLetter c =
    (let n = (of_char c :: nat) in (65 \<le> n \<and> n \<le> 90) \<or> (97 \<le> n \<and> n \<le> 122))"

lemma spaceByte_values:
  "spaceByte c \<Longrightarrow> (of_char c :: nat) \<le> 32 \<or> 128 \<le> (of_char c :: nat)"
  by (auto simp: spaceByte_def spaceRunes_def)

lemma letter_not_space: "asciiLetter c \<Longrightarrow> \<not> spaceByte c"
  by (auto simp: asciiLetter_def Let_def dest: spaceByte_values)

lemma upper_letter_ident: "asciiLetter c \<Longrightarrow> isIdentChar (upperByte c)"
  by (auto simp: asciiLetter_def isIdentChar_def upperByte_def Let_def)

lemma toUpper_ascii_Cons:
  "(of_char c :: nat) < 128 \<Longrightarrow> toUpper (c # s) = upperByte c # toUpper s"
  by (cases s) auto

lemma toUpper_letters_append:
  "\<forall>c \<in> set v. asciiLetter c \<Longrightarrow> toUpper (v @ s) = map upperByte v @ toUpper s"
proof (induction v)
  case Nil
  then show ?case by simp
next
  case (Cons c v)
  then have "(of_char c :: nat) < 128" by (auto simp: asciiLetter_def Let_def)
  with Cons show ?case by (simp add: toUpper_ascii_Cons)
qed

lemma wordBreak_trimRight:
  assumes "wordBreak rest"
  shows "case toUpper (trimRight rest) of [] \<Rightarrow> True | c # _ \<Rightarrow> \<not> isIdentChar c"
proof (cases "trimRight rest")
  case Nil
  then show ?thesis by simp
next
  case (Cons b bs)
  obtain w where "rest = trimRight rest @ concat w" using trimRight_decomp by blast
  with Cons have "hd rest = b" "rest \<noteq> []" by (metis hd_append2 list.sel(1) list.distinct(1),
    metis append_is_Nil_conv list.distinct(1))
  with assms have "(of_char b :: nat) < 128" "\<not> isIdentChar (upperByte b)"
    by (auto simp: wordBreak_def split: list.splits)
  with Cons show ?thesis by (simp add: toUpper_ascii_Cons)
qed

lemma matchesKeyword_word:
  assumes V: "\<forall>c \<in> set V. isIdentChar c" and K: "\<forall>c \<in> set K. isIdentChar c"
    and rest: "case u of [] \<Rightarrow> True | c # _ \<Rightarrow> \<not> isIdentChar c"
  shows "matchesKeyword (V @ u) K \<longleftrightarrow> K = V"
proof
  assume "K = V"
  with rest show "matchesKeyword (V @ u) K" by (simp add: matchesKeyword_def)
next
  assume m: "matchesKeyword (V @ u) K"
  then obtain t where t: "V @ u = K @ t" by (auto simp: matchesKeyword_def hasPrefix_iff)
  with m have nt: "case t of [] \<Rightarrow> True | c # _ \<Rightarrow> \<not> isIdentChar c"
    by (simp add: matchesKeyword_def)
  from t obtain us where "V = K @ us \<and> us @ u = t \<or> V @ us = K \<and> u = us @ t"
    by (auto simp: append_eq_append_conv2)
  then show "K = V"
    using V K rest nt by (cases us) auto
qed

lemma keyword_ident: "K \<in> set writeKeywords \<Longrightarrow> c \<in> set K \<Longrightarrow> isIdentChar c"
  by (auto simp: writeKeywords_def isIdentChar_def)

lemma skipLineComments_other: "\<not> hasPrefix s ''--'' \<Longrightarrow> skipLineComments s = Some s"
  by (subst skipLineComments.simps) simp

lemma skipBlockComments_other: "\<not> hasPrefix s ''/*'' \<Longrightarrow> skipBlockComments s = Some s"
  by (subst skipBlockComments.simps) simp

lemma skipComments_blank [simp]:
  "skipLineComments [] = Some []" "skipBlockComments [] = Some []"
  by (simp_all add: skipLineComments_other skipBlockComments_other)

lemma isWriteStatement_blank: "trimSpace s = [] \<Longrightarrow> \<not> isWriteStatement s"
  by (simp add: isWriteStatement_def list_ex_iff matchesKeyword_def writeKeywords_def)

lemma isWriteStatement_trim: "trimSpace s = trimSpace t \<Longrightarrow> isWriteStatement s = isWriteStatement t"
  by (simp add: isWriteStatement_def)

text \<open>
  C22.  The first word decides: a text that starts, after white space, with a word of
  ASCII letters that ends there is a write exactly when the word, in upper case, is one
  of the write keywords.
\<close>

theorem isWriteStatement_first_word:
  assumes "set w \<subseteq> set spaceRunes" and "v \<noteq> []" and "\<forall>c \<in> set v. asciiLetter c"
    and "wordBreak rest"
  shows "isWriteStatement (concat w @ v @ rest) \<longleftrightarrow> toUpper v \<in> set writeKeywords"
proof -
  obtain c v' where v: "v = c # v'" using assms(2) by (cases v) auto
  obtain u d where u: "v = u @ [d]" using assms(2) by (cases v rule: rev_cases) auto
  have "c \<in> set v" using v by simp
  moreover have "d \<in> set v" unfolding u by simp
  ultimately have ns: "\<not> spaceByte c" "\<not> spaceByte d" and c: "asciiLetter c"
    using assms(3) letter_not_space by auto
  have "trimSpace (concat w @ v @ rest) = trimSpace (v @ rest)"
    by (rule trimSpace_runes[OF assms(1)])
  also have "trimLeft (v @ rest) = v @ rest"
    using v trimLeft_keep[OF ns(1)] by simp
  then have "trimSpace (v @ rest) = trimRight (v @ rest)" by (simp add: trimSpace_def)
  also have "\<dots> = v @ trimRight rest"
    using trimRight_keep[OF ns(2), of u rest] unfolding u by simp
  finally have trim: "trimSpace (concat w @ v @ rest) = v @ trimRight rest" .
  have "c \<noteq> CHR ''-''" "c \<noteq> CHR ''/''" using c by (auto simp: asciiLetter_def)
  then have nc: "\<not> hasPrefix (v @ x) ''--''" "\<not> hasPrefix (v @ x) ''/*''" for x
    using v by auto
  have V: "\<forall>c \<in> set (map upperByte v). isIdentChar c"
    using assms(3) upper_letter_ident by auto
  have "isWriteStatement (concat w @ v @ rest) \<longleftrightarrow>
      (\<exists>K \<in> set writeKeywords. matchesKeyword (map upperByte v @ toUpper (trimRight rest)) K)"
    by (simp add: isWriteStatement_def trim nc skipLineComments_other skipBlockComments_other
        list_ex_iff toUpper_letters_append[OF assms(3)])
  also have "\<dots> \<longleftrightarrow> map upperByte v \<in> set writeKeywords"
    using matchesKeyword_word[OF V _ wordBreak_trimRight[OF assms(4)]] keyword_ident by blast
  also have "map upperByte v = toUpper v"
    using toUpper_letters_append[OF assms(3), of "[]"] by simp
  finally show ?thesis .
qed

theorem isWriteStatement_first_word_witness:
  "isWriteStatement (concat ['' ''] @ ''dElete'' @ ''(x)'') \<longleftrightarrow> toUpper ''dElete'' \<in> set writeKeywords"
  by (rule isWriteStatement_first_word)
    (auto simp: spaceRunes_def asciiLetter_def wordBreak_def isIdentChar_def upperByte_def)

text \<open>
  A leading line comment is transparent: whatever it says, the text is classified
  as what follows the line break.
\<close>

theorem isWriteStatement_line_comment:
  assumes "newline \<notin> set c"
  shows "isWriteStatement (''--'' @ c @ newline # s) = isWriteStatement s"
proof -
  have dash: "\<not> spaceByte CHR ''-''" by (auto simp: spaceByte_def spaceRunes_def)
  have nl: "[newline] \<in> set spaceRunes" by (simp add: spaceRunes_def)
  have keep: "trimRight (''--'' @ x) = ''--'' @ trimRight x" for x
    using trimRight_keep[OF dash, of "''-''" x] by simp
  have "trimLeft (''--'' @ x) = ''--'' @ x" for x
    using trimLeft_keep[OF dash, of "''-'' @ x"] by simp
  then have tl: "trimSpace (''--'' @ x) = ''--'' @ trimRight x" for x
    using keep by (metis trimSpace_def)
  show ?thesis
  proof (cases "trimRight s = []")
    case True
    obtain w where "c = trimRight c @ concat w" using trimRight_decomp by blast
    then have "newline \<notin> set (trimRight c)" using assms by (metis Un_iff set_append)
    moreover have "trimSpace (''--'' @ c @ newline # s) = ''--'' @ trimRight c"
      by (subst tl) (use True trimRight_mid[OF nl] in simp)
    ultimately have "skipLineComments (trimSpace (''--'' @ c @ newline # s)) = None"
      by (subst skipLineComments.simps) simp
    then show ?thesis
      using isWriteStatement_blank[OF trimSpace_blank[OF True]]
      by (simp add: isWriteStatement_def)
  next
    case False
    then have eq: "trimSpace (''--'' @ c @ newline # s) = (''--'' @ c) @ newline # trimRight s"
      by (simp only: tl trimRight_mid[OF nl] if_False append_assoc)
    have ix: "indexByte ((''--'' @ c) @ newline # trimRight s) newline = Some (length c + 2)"
      using assms by (subst indexByte_append) auto
    have "skipLineComments (trimSpace (''--'' @ c @ newline # s)) =
        skipLineComments (trimSpace (trimRight s))"
      unfolding eq by (subst skipLineComments.simps) (simp only: ix option.case, simp)
    then show ?thesis
      by (simp add: isWriteStatement_def trimSpace_trimRight)
  qed
qed

theorem isWriteStatement_line_comment_witness:
  "isWriteStatement (''--'' @ ''DROP'' @ newline # ''SELECT 1'') = isWriteStatement ''SELECT 1''"
  by (rule isWriteStatement_line_comment) simp

lemma head_matches_no_keyword:
  assumes "\<not> asciiLetter c" and "(of_char c :: nat) < 128" and "K \<in> set writeKeywords"
  shows "\<not> matchesKeyword (toUpper (c # s)) K"
proof -
  have "upperByte c = c" using assms(1) by (auto simp: upperByte_def asciiLetter_def Let_def)
  then have "toUpper (c # s) = c # toUpper s" by (simp add: toUpper_ascii_Cons[OF assms(2)])
  moreover have "K \<noteq> [] \<and> asciiLetter (hd K)"
    using assms(3) by (auto simp: writeKeywords_def asciiLetter_def)
  ultimately show ?thesis
    using assms(1) by (cases K) (auto simp: matchesKeyword_def)
qed

text \<open>
  The limits of the classification: behind a block comment no line comment is
  stripped, and a comment that starts \<open>/*/\<close> is closed by its own opening, so whatever
  statement follows these two prefixes is not a write.
\<close>

theorem comments_hide_writes:
  "\<not> isWriteStatement (''/**/--'' @ x) \<and> \<not> isWriteStatement (''/*/ */'' @ x)"
proof -
  have ns: "\<not> spaceByte CHR ''-''" "\<not> spaceByte CHR ''/''" "\<not> spaceByte CHR ''*''"
    by (auto simp: spaceByte_def spaceRunes_def)
  have k1: "trimRight (''/**/--'' @ x) = ''/**/--'' @ trimRight x"
    using trimRight_keep[OF ns(1), of "''/**/-''" x] by simp
  have k2: "trimRight (''/*/ */'' @ x) = ''/*/ */'' @ trimRight x"
    using trimRight_keep[OF ns(2), of "''/*/ *''" x] by simp
  have t1: "trimSpace (''/**/--'' @ x) = ''/**/--'' @ trimRight x"
    using k1 trimLeft_keep[OF ns(2)] by (simp add: trimSpace_def)
  have t2: "trimSpace (''/*/ */'' @ x) = ''/*/ */'' @ trimRight x"
    using k2 trimLeft_keep[OF ns(2)] by (simp add: trimSpace_def)
  have r: "trimSpace (c # cs) = c # trimRight cs" if "\<not> spaceByte c" for c cs
    using that trimRight_keep[OF that, of "[]"] trimLeft_keep[OF that] by (simp add: trimSpace_def)
  have sp: "trimSpace (CHR '' '' # y) = trimSpace y" for y
    using trimSpace_rune[of "'' ''" y] by (simp add: spaceRunes_def)
  have b1: "skipBlockComments (''/**/--'' @ y) = Some (''--'' @ trimRight y)" for y
    using trimRight_keep[OF ns(1), of "[]" y]
    by (subst skipBlockComments.simps) (simp add: r[OF ns(1)] skipBlockComments_other)
  have b2: "skipBlockComments (''/*/ */'' @ y) = Some (''*/'' @ trimRight y)" for y
    using trimRight_keep[OF ns(2), of "[]" y]
    by (subst skipBlockComments.simps) (simp add: sp r[OF ns(3)] skipBlockComments_other)
  have nk: "\<not> asciiLetter CHR ''-''" "\<not> asciiLetter CHR ''*''" by (auto simp: asciiLetter_def)
  show ?thesis
    using b1 b2 head_matches_no_keyword[OF nk(1)] head_matches_no_keyword[OF nk(2)]
    by (auto simp: isWriteStatement_def t1[simplified] t2[simplified] skipLineComments_other
        list_ex_iff simp del: toUpper.simps)
qed

end
