(* ===== verification/Encoding.thy ===== *)
theory Encoding
  imports GoText
begin

text \<open>
  Two encodings of the standard library the wire format uses: UTF-8 as
  \<open>encoding/json\<close> applies it to strings (each byte that is not part of a valid
  encoding is replaced by U+FFFD), and \<open>base64.StdEncoding\<close>.
\<close>

section \<open>UTF-8\<close>

definition inRange :: "nat \<Rightarrow> nat \<Rightarrow> char \<Rightarrow> bool" where
  "inRange lo hi c \<longleftrightarrow> lo \<le> of_char c \<and> of_char c \<le> hi"

abbreviation contByte :: "char \<Rightarrow> bool" where
  "contByte \<equiv> inRange 0x80 0xBF"

text \<open>The length of the valid encoding at the head of the text, 0 if there is none.\<close>

fun runeLen :: "string \<Rightarrow> nat" where
  "runeLen [] = 0"
| "runeLen (a # s) =
    (if inRange 0x00 0x7F a then 1
     else if inRange 0xC2 0xDF a then (case s of b # _ \<Rightarrow> if contByte b then 2 else 0 | _ \<Rightarrow> 0)
     else if inRange 0xE0 0xEF a then
       (case s of b # c # _ \<Rightarrow>
          if inRange (if a = CHR 0xE0 then 0xA0 else 0x80) (if a = CHR 0xED then 0x9F else 0xBF) b
             \<and> contByte c then 3 else 0
        | _ \<Rightarrow> 0)
     else if inRange 0xF0 0xF4 a then
       (case s of b # c # d # _ \<Rightarrow>
          if inRange (if a = CHR 0xF0 then 0x90 else 0x80) (if a = CHR 0xF4 then 0x8F else 0xBF) b
             \<and> contByte c \<and> contByte d then 4 else 0
        | _ \<Rightarrow> 0)
     else 0)"

lemma runeLen_le: "runeLen s \<le> length s"
  by (cases s) (auto split: list.splits)

function coerceUtf8 :: "string \<Rightarrow> string" where
  "coerceUtf8 [] = []"
| "coerceUtf8 (a # s) =
    (if runeLen (a # s) = 0 then [CHR 0xEF, CHR 0xBF, CHR 0xBD] @ coerceUtf8 s
     else take (runeLen (a # s)) (a # s) @ coerceUtf8 (drop (runeLen (a # s)) (a # s)))"
  by pat_completeness auto
termination by (relation "measure length") auto

definition validUtf8 :: "string \<Rightarrow> bool" where
  "validUtf8 s \<longleftrightarrow> coerceUtf8 s = s"

lemma validUtf8_ascii: "\<forall>c \<in> set s. inRange 0 0x7F c \<Longrightarrow> validUtf8 s"
  unfolding validUtf8_def by (induction s) auto

section \<open>Base64\<close>

definition b64Alphabet :: string where
  "b64Alphabet = ''ABCDEFGHIJKLMNOPQRSTUVWXYZabcdefghijklmnopqrstuvwxyz0123456789+/''"

definition b64Char :: "nat \<Rightarrow> char" where
  "b64Char n = b64Alphabet ! n"

definition b64Val :: "char \<Rightarrow> nat option" where
  "b64Val c = indexByte b64Alphabet c"

fun b64Encode :: "bytes \<Rightarrow> string" where
  "b64Encode [] = []"
| "b64Encode [a] =
    (let n = unat a * 65536 in
       [b64Char (n div 262144), b64Char (n div 4096 mod 64), CHR ''='', CHR ''=''])"
| "b64Encode [a, b] =
    (let n = unat a * 65536 + unat b * 256 in
       [b64Char (n div 262144), b64Char (n div 4096 mod 64), b64Char (n div 64 mod 64), CHR ''=''])"
| "b64Encode (a # b # c # bs) =
    (let n = unat a * 65536 + unat b * 256 + unat c in
       [b64Char (n div 262144), b64Char (n div 4096 mod 64), b64Char (n div 64 mod 64),
        b64Char (n mod 64)] @ b64Encode bs)"

text \<open>
  \<open>DecodeString\<close> ignores line breaks; four characters make a quantum, the last one
  may be padded with one or two \<open>=\<close>, and nothing may follow the padding.
  \<^term>\<open>None\<close> is a \<open>CorruptInputError\<close>.
\<close>

fun b64Quanta :: "string \<Rightarrow> bytes option" where
  "b64Quanta [] = Some []"
| "b64Quanta (c0 # c1 # c2 # c3 # cs) =
    (case (b64Val c0, b64Val c1) of
       (Some i, Some j) \<Rightarrow>
         (case b64Val c2 of
            None \<Rightarrow>
              if c2 = CHR ''='' \<and> c3 = CHR ''='' \<and> cs = []
              then Some [of_nat ((i * 64 + j) div 16)] else None
          | Some k \<Rightarrow>
              (case b64Val c3 of
                 None \<Rightarrow>
                   if c3 = CHR ''='' \<and> cs = []
                   then (let n = ((i * 64 + j) * 64 + k) div 4 in
                           Some [of_nat (n div 256), of_nat (n mod 256)])
                   else None
               | Some l \<Rightarrow>
                   (let n = ((i * 64 + j) * 64 + k) * 64 + l in
                     map_option (\<lambda>bs. of_nat (n div 65536) # of_nat (n div 256 mod 256)
                        # of_nat (n mod 256) # bs) (b64Quanta cs))))
     | _ \<Rightarrow> None)"
| "b64Quanta _ = None"

definition b64Decode :: "string \<Rightarrow> bytes option" where
  "b64Decode s = b64Quanta (filter (\<lambda>c. c \<noteq> CHR 0x0A \<and> c \<noteq> CHR 0x0D) s)"

lemma b64_alphabet_distinct: "distinct b64Alphabet"
  by (simp add: b64Alphabet_def)

lemma b64_alphabet_length: "length b64Alphabet = 64"
  by (simp add: b64Alphabet_def)

lemma indexByte_nth: "distinct s \<Longrightarrow> n < length s \<Longrightarrow> indexByte s (s ! n) = Some n"
proof (induction s arbitrary: n)
  case (Cons x s)
  then show ?case by (cases n) auto
qed simp

lemma b64Val_Char [simp]: "n < 64 \<Longrightarrow> b64Val (b64Char n) = Some n"
  by (simp add: b64Val_def b64Char_def indexByte_nth b64_alphabet_distinct b64_alphabet_length)

lemma b64Char_in: "n < 64 \<Longrightarrow> b64Char n \<in> set b64Alphabet"
  by (simp add: b64Char_def b64_alphabet_length)

lemma b64Val_pad [simp]: "b64Val CHR ''='' = None"
  by (simp add: b64Val_def b64Alphabet_def)

lemma unat_byte: "unat (a :: 8 word) < 256"
  using unsigned_less[of a] by simp

lemma b64Encode_chars:
  "set (b64Encode bs) \<subseteq> insert CHR ''='' (set b64Alphabet)"
proof (induction bs rule: b64Encode.induct)
  case (4 a b c bs)
  have "unat a < 256" "unat b < 256" "unat c < 256" by (rule unat_byte)+
  with 4 show ?case by (auto simp: Let_def intro!: b64Char_in)
next
  case (3 a b)
  have "unat a < 256" "unat b < 256" by (rule unat_byte)+
  then show ?case by (auto simp: Let_def intro!: b64Char_in)
next
  case (2 a)
  have "unat a < 256" by (rule unat_byte)
  then show ?case by (auto simp: Let_def intro!: b64Char_in)
qed simp

lemma digit64: "n div (m * 64) * 64 + n div m mod 64 = n div (m :: nat)"
  by (metis div_mult2_eq div_mult_mod_eq)

lemma b64_sextets:
  "n div 262144 * 64 + n div 4096 mod 64 = n div (4096 :: nat)"
  "n div 4096 * 64 + n div 64 mod 64 = n div (64 :: nat)"
  "n div 64 * 64 + n mod 64 = (n :: nat)"
  using digit64[of n 4096] digit64[of n 64] digit64[of n 1] by simp_all

lemma b64_quantum:
  assumes "n < 16777216"
  shows "b64Quanta (b64Char (n div 262144) # b64Char (n div 4096 mod 64)
      # b64Char (n div 64 mod 64) # b64Char (n mod 64) # cs) =
    map_option (\<lambda>bs. of_nat (n div 65536) # of_nat (n div 256 mod 256) # of_nat (n mod 256) # bs)
      (b64Quanta cs)"
proof -
  have "n div 262144 < 64" using assms by simp
  then show ?thesis by (simp add: b64_sextets)
qed

lemma b64_quantum_pad:
  assumes "n < 16777216"
  shows "b64Quanta [b64Char (n div 262144), b64Char (n div 4096 mod 64),
      b64Char (n div 64 mod 64), CHR ''=''] =
      Some [of_nat (n div 65536), of_nat (n div 256 mod 256)]"
    and "b64Quanta [b64Char (n div 262144), b64Char (n div 4096 mod 64), CHR ''='', CHR ''=''] =
      Some [of_nat (n div 65536)]"
proof -
  have "n div 262144 < 64" using assms by simp
  moreover have "n div 64 div 4 = n div 256" "n div 256 div 256 = n div 65536"
    "n div 4096 div 16 = n div 65536"
    by (simp_all flip: div_mult2_eq)
  ultimately show "b64Quanta [b64Char (n div 262144), b64Char (n div 4096 mod 64),
      b64Char (n div 64 mod 64), CHR ''=''] =
      Some [of_nat (n div 65536), of_nat (n div 256 mod 256)]"
    and "b64Quanta [b64Char (n div 262144), b64Char (n div 4096 mod 64), CHR ''='', CHR ''=''] =
      Some [of_nat (n div 65536)]"
    by (simp_all add: b64_sextets Let_def)
qed

lemma byte_split:
  assumes "a < 256" "b < 256" "c < (256 :: nat)"
  shows "a * 65536 + b * 256 + c < 16777216"
    and "(a * 65536 + b * 256 + c) div 65536 = a"
    and "(a * 65536 + b * 256 + c) div 256 mod 256 = b"
    and "(a * 65536 + b * 256 + c) mod 256 = c"
proof -
  have c: "(a * 65536 + b * 256 + c) div 256 = a * 256 + b" using assms by simp
  show "(a * 65536 + b * 256 + c) div 256 mod 256 = b" using assms(2) unfolding c by simp
  have "(a * 65536 + b * 256 + c) div 65536 = (a * 65536 + b * 256 + c) div 256 div 256"
    by (simp flip: div_mult2_eq)
  then show "(a * 65536 + b * 256 + c) div 65536 = a" using assms(2) unfolding c by simp
  show "(a * 65536 + b * 256 + c) mod 256 = c" 
    using assms(3) mod_mult_self1[of c "a * 256 + b" 256] by (simp add: algebra_simps)
  show "a * 65536 + b * 256 + c < 16777216" using assms by simp
qed

lemma b64Quanta_Encode: "b64Quanta (b64Encode bs) = Some bs"
proof (induction bs rule: b64Encode.induct)
  case (4 a b c bs)
  note s = byte_split[OF unat_byte[of a] unat_byte[of b] unat_byte[of c]]
  show ?case using 4 b64_quantum[OF s(1)] by (simp add: Let_def s(2-4))
next
  case (3 a b)
  have z: "(0::nat) < 256" by simp
  note s = byte_split[OF unat_byte[of a] unat_byte[of b] z]
  show ?case using b64_quantum_pad(1)[OF s(1)] s(2,3) by (simp add: Let_def)
next
  case (2 a)
  have z: "(0::nat) < 256" by simp
  note s = byte_split[OF unat_byte[of a] z z]
  show ?case using b64_quantum_pad(2)[OF s(1)] s(2) by (simp add: Let_def)
qed simp

lemma b64_roundtrip: "b64Decode (b64Encode bs) = Some bs"
proof -
  have "filter (\<lambda>c. c \<noteq> CHR 0x0A \<and> c \<noteq> CHR 0x0D) (b64Encode bs) = b64Encode bs"
    using b64Encode_chars[of bs] by (auto simp: filter_id_conv b64Alphabet_def)
  then show ?thesis by (simp add: b64Decode_def b64Quanta_Encode)
qed

end
