(* ===== verification/Json.thy ===== *)
theory Json
  imports Encoding
begin

text \<open>
  JSON documents as \<open>encoding/json\<close> reads and writes them, after the lexical level:
  a number keeps its literal, a string its UTF-8 bytes, an object its members in order
  with duplicates.  The struct decoder matches member names up to Unicode case folding
  and lets later members overwrite earlier ones; \<open>null\<close> leaves a string field as it is.
  The conversion between IEEE numbers and literals (\<open>strconv\<close>) is a parameter wherever
  it is used.
\<close>

type_synonym f64 = "64 word"

text \<open>The IEEE bit pattern is neither an infinity nor a NaN.\<close>

definition f64Finite :: "f64 \<Rightarrow> bool" where
  "f64Finite f \<longleftrightarrow> take_bit 11 (drop_bit 52 f) \<noteq> 2047"

datatype json =
    JNull
  | JBool bool
  | JNum string
  | JStr string
  | JArr "json list"
  | JObj "(string \<times> json) list"

datatype json_error =
    UnexpectedEnd
  | UnmarshalType string
  | UnsupportedFloat f64

definition lowerByte :: "char \<Rightarrow> char" where
  "lowerByte c =
    (let n = (of_char c :: nat) in if 65 \<le> n \<and> n \<le> 90 then char_of (n + 32) else c)"

text \<open>Simple case folding: U+017F folds to \<open>s\<close>, U+212A to \<open>k\<close>.\<close>

fun foldName :: "string \<Rightarrow> string" where
  "foldName s =
    (case s of
       [] \<Rightarrow> []
     | a # t \<Rightarrow>
         (case t of
            b # u \<Rightarrow>
              if a = CHR 0xC5 \<and> b = CHR 0xBF then CHR ''s'' # foldName u
              else (case u of
                      c # v \<Rightarrow>
                        if a = CHR 0xE2 \<and> b = CHR 0x84 \<and> c = CHR 0xAA
                        then CHR ''k'' # foldName v else lowerByte a # foldName t
                    | [] \<Rightarrow> lowerByte a # foldName t)
          | [] \<Rightarrow> [lowerByte a]))"

declare foldName.simps [simp del]

text \<open>\<open>json.Unmarshal\<close> into a variable of type \<open>string\<close> that holds \<open>old\<close>.\<close>

fun decodeString :: "string \<Rightarrow> json \<Rightarrow> json_error + string" where
  "decodeString old JNull = Inr old"
| "decodeString old (JStr s) = Inr s"
| "decodeString old j = Inl (UnmarshalType ''string'')"

fun decodeFloat :: "(string \<Rightarrow> f64 option) \<Rightarrow> f64 \<Rightarrow> json \<Rightarrow> json_error + f64" where
  "decodeFloat parseF old JNull = Inr old"
| "decodeFloat parseF old (JNum l) =
    (case parseF l of None \<Rightarrow> Inl (UnmarshalType ''float64'') | Some f \<Rightarrow> Inr f)"
| "decodeFloat parseF old j = Inl (UnmarshalType ''float64'')"

end
