(* ===== verification/Errors.thy ===== *)
theory Errors
  imports Json
begin

text \<open>
  The errors of the server.  Each \<open>fmt.Errorf\<close> or \<open>errors.New\<close> of the code is a
  constructor that carries the arguments of its format, so that an error keeps its identity
  (\<open>errors.Is\<close>) and determines its text; \<open>%w\<close> wrapping is an argument of type
  \<open>error\<close>.  The text itself is not rendered: where the code stores \<open>err.Error()\<close> in
  a \<open>Message\<close>, the model stores the error.
\<close>

datatype (plugins only: code) error =
    \<comment> \<open>src/types.go, Value\<close>
    BadJson json_error
  | UnknownValueType string
  | IntegerNotString json_error
  | InvalidInteger string num_error
  | FloatNotNumber json_error
  | TextNotString json_error
  | InvalidBlob
    \<comment> \<open>the database driver, database/sql and the random source\<close>
  | DriverError string
  | ConnDone
  | RandomError string
    \<comment> \<open>src/executor.go\<close>
  | StmtBothSql
  | StmtNoSql
  | SqlIdNotFound i32
  | ReadonlyViolation
  | ReadingColumnNames error
  | ReadingColumnTypes error
  | ScanCount nat nat
  | ScanningRow error
  | IteratingRows error
  | CondMissingStep string
  | CondMissingInner
  | UnknownCond string
  | BatchCondAt nat error
  | SequenceError error
    \<comment> \<open>src/stream.go, src/baton.go\<close>
  | ObtainConn error
  | GenerateStreamId error
  | GeneratingBaton error
  | StreamIsSuperseded
  | SqlIdInUse i32
  | BothSql
  | NoSql
    \<comment> \<open>src/hrana.go, src/http.go, src/websocket.go\<close>
  | UnknownMode string
  | AuthError string
  | AsymmetricalEncoding
  | EncodingNotSupported
  | InvalidBody error
  | BatonNotFound
  | StreamIsClosed
  | MissingPayload string
  | UnknownStreamRequest string
  | InvalidRequestPayload
  | UnknownRequest string
  | StreamNotFound i32
  | StreamAlreadyOpen i32
  | CursorNotFound i32
  | CursorRequiresV3
  | StoreStreamFailed

text \<open>The \<open>Error\<close> object of the protocol (\<open>src/types.go\<close>); \<open>newError\<close> sets no code.\<close>

record hrana_error =
  Message :: error
  Code :: "string option"

definition newError :: "error \<Rightarrow> hrana_error" where
  [go_defs]: "newError e = \<lparr>Message = e, Code = None\<rparr>"

end
