(* ===== verification/Values.thy ===== *)
theory Values
  imports Errors
begin

text \<open>
  SQLite values on the wire: the \<open>Value\<close> struct of \<open>src/types.go\<close> with its
  constructors and its JSON codec, and the conversions of \<open>src/executor.go\<close> between a
  \<open>Value\<close> and what the database driver takes and delivers (\<open>valueToAny\<close>,
  \<open>anyToValue\<close>, \<open>buildArgs\<close>).  The lemmas show that the codec round-trips every
  value the server builds and that it rejects what the protocol forbids, and that values
  survive the way through the driver.
\<close>

section \<open>Value\<close>

record val =
  IsNull :: bool
  Integer :: i64
  Float :: f64
  Text :: string
  Blob :: bytes
  vtyp :: string

definition zeroValue :: val where
  "zeroValue = \<lparr>IsNull = False, Integer = 0, Float = 0, Text = [], Blob = [], vtyp = []\<rparr>"

definition NullValue :: val where
  "NullValue = zeroValue\<lparr>IsNull := True, vtyp := ''null''\<rparr>"

definition IntValue :: "i64 \<Rightarrow> val" where
  "IntValue i = zeroValue\<lparr>Integer := i, vtyp := ''integer''\<rparr>"

definition FloatValue :: "f64 \<Rightarrow> val" where
  "FloatValue f = zeroValue\<lparr>Float := f, vtyp := ''float''\<rparr>"

definition TextValue :: "string \<Rightarrow> val" where
  "TextValue s = zeroValue\<lparr>Text := s, vtyp := ''text''\<rparr>"

definition BlobValue :: "bytes \<Rightarrow> val" where
  "BlobValue b = zeroValue\<lparr>Blob := b, vtyp := ''blob''\<rparr>"

lemmas value_defs = zeroValue_def NullValue_def IntValue_def FloatValue_def TextValue_def
  BlobValue_def

section \<open>The JSON codec\<close>

text \<open>
  \<open>formatF\<close> and \<open>parseF\<close> stand for the number formatting and parsing of the
  standard library.  \<open>json.Marshal\<close> writes the members of a Go map in key order and
  replaces bytes of a string that are not valid UTF-8.
\<close>

definition marshalValue :: "(f64 \<Rightarrow> string) \<Rightarrow> val \<Rightarrow> error + json" where
  "marshalValue formatF v =
    (if vtyp v = ''null'' \<or> vtyp v = '''' then Inr (JObj [(''type'', JStr ''null'')])
     else if vtyp v = ''integer'' then
       Inr (JObj [(''type'', JStr ''integer''), (''value'', JStr (formatInt (sint (Integer v))))])
     else if vtyp v = ''float'' then
       (if f64Finite (Float v)
        then Inr (JObj [(''type'', JStr ''float''), (''value'', JNum (formatF (Float v)))])
        else Inl (BadJson (UnsupportedFloat (Float v))))
     else if vtyp v = ''text'' then
       Inr (JObj [(''type'', JStr ''text''), (''value'', JStr (coerceUtf8 (Text v)))])
     else if vtyp v = ''blob'' then
       Inr (JObj [(''base64'', JStr (b64Encode (Blob v))), (''type'', JStr ''blob'')])
     else Inl (UnknownValueType (vtyp v)))"

text \<open>The anonymous struct \<open>UnmarshalJSON\<close> decodes into first.\<close>

record raw_value =
  rType :: string
  rValue :: "json option"
  rBase64 :: string

definition rawZero :: raw_value where
  "rawZero = \<lparr>rType = [], rValue = None, rBase64 = []\<rparr>"

fun decodeRaw :: "raw_value \<Rightarrow> (string \<times> json) list \<Rightarrow> json_error + raw_value" where
  "decodeRaw r [] = Inr r"
| "decodeRaw r ((k, j) # kvs) =
    (if foldName k = ''type'' then
       (case decodeString (rType r) j of
          Inl e \<Rightarrow> Inl e | Inr s \<Rightarrow> decodeRaw (r\<lparr>rType := s\<rparr>) kvs)
     else if foldName k = ''value'' then decodeRaw (r\<lparr>rValue := Some j\<rparr>) kvs
     else if foldName k = ''base64'' then
       (case decodeString (rBase64 r) j of
          Inl e \<Rightarrow> Inl e | Inr s \<Rightarrow> decodeRaw (r\<lparr>rBase64 := s\<rparr>) kvs)
     else decodeRaw r kvs)"

text \<open>\<open>json.Unmarshal(raw.Value, \<dots>)\<close>: a missing member is an empty input.\<close>

definition rawString :: "raw_value \<Rightarrow> json_error + string" where
  "rawString r =
    (case rValue r of None \<Rightarrow> Inl UnexpectedEnd | Some j \<Rightarrow> decodeString [] j)"

definition valueOfRaw :: "(string \<Rightarrow> f64 option) \<Rightarrow> val \<Rightarrow> raw_value \<Rightarrow> error + val" where
  "valueOfRaw parseF v r =
    (let v = v\<lparr>vtyp := rType r\<rparr> in
     if rType r = ''null'' then Inr (v\<lparr>IsNull := True\<rparr>)
     else if rType r = ''integer'' then
       (case rawString r of
          Inl e \<Rightarrow> Inl (IntegerNotString e)
        | Inr s \<Rightarrow>
            (case parseInt 64 s of
               Inl e \<Rightarrow> Inl (InvalidInteger s e)
             | Inr i \<Rightarrow> Inr (v\<lparr>Integer := word_of_int i\<rparr>)))
     else if rType r = ''float'' then
       (case (case rValue r of None \<Rightarrow> Inl UnexpectedEnd | Some j \<Rightarrow> decodeFloat parseF 0 j) of
          Inl e \<Rightarrow> Inl (FloatNotNumber e)
        | Inr f \<Rightarrow> Inr (v\<lparr>Float := f\<rparr>))
     else if rType r = ''text'' then
       (case rawString r of
          Inl e \<Rightarrow> Inl (TextNotString e)
        | Inr s \<Rightarrow> Inr (v\<lparr>Text := s\<rparr>))
     else if rType r = ''blob'' then
       (case b64Decode (rBase64 r) of
          None \<Rightarrow> Inl InvalidBlob
        | Some b \<Rightarrow> Inr (v\<lparr>Blob := b\<rparr>))
     else Inl (UnknownValueType (rType r)))"

definition unmarshalValue :: "(string \<Rightarrow> f64 option) \<Rightarrow> val \<Rightarrow> json \<Rightarrow> error + val" where
  "unmarshalValue parseF v data =
    (case data of
       JObj kvs \<Rightarrow>
         (case decodeRaw rawZero kvs of
            Inl e \<Rightarrow> Inl (BadJson e)
          | Inr r \<Rightarrow> valueOfRaw parseF v r)
     | JNull \<Rightarrow> valueOfRaw parseF v rawZero
     | _ \<Rightarrow> Inl (BadJson (UnmarshalType ''struct'')))"

section \<open>Values and the driver\<close>

text \<open>
  What \<open>rows.Scan\<close> puts into an \<open>any\<close>: the types the code tells apart, and any
  other dynamic type with its text under \<open>%v\<close>.
\<close>

datatype goany =
    AnyNil
  | AnyInt64 i64
  | AnyFloat64 f64
  | AnyString string
  | AnyBytes bytes
  | AnyBool bool
  | AnyOther string

definition valueToAny :: "val \<Rightarrow> error + goany" where
  "valueToAny v =
    (if vtyp v = ''null'' \<or> vtyp v = '''' then Inr AnyNil
     else if vtyp v = ''integer'' then Inr (AnyInt64 (Integer v))
     else if vtyp v = ''float'' then Inr (AnyFloat64 (Float v))
     else if vtyp v = ''text'' then Inr (AnyString (Text v))
     else if vtyp v = ''blob'' then Inr (AnyBytes (Blob v))
     else Inl (UnknownValueType (vtyp v)))"

fun anyToValue :: "goany \<Rightarrow> val" where
  "anyToValue AnyNil = NullValue"
| "anyToValue (AnyInt64 t) = IntValue t"
| "anyToValue (AnyFloat64 t) = FloatValue t"
| "anyToValue (AnyString t) = TextValue t"
| "anyToValue (AnyBytes t) = BlobValue t"
| "anyToValue (AnyBool t) = (if t then IntValue 1 else IntValue 0)"
| "anyToValue (AnyOther t) = TextValue t"

text \<open>An argument of a driver call: positional, or \<open>sql.Named\<close>.\<close>

datatype arg = Positional goany | Named string goany

record named_arg =
  naName :: string
  naValue :: val

definition bareName :: "string \<Rightarrow> string" where
  "bareName n =
    (let name = (if \<not> hasPrefix n '':'' \<and> \<not> hasPrefix n [CHR 0x40] \<and> \<not> hasPrefix n ''$''
                 then CHR '':'' # n else n)
     in drop 1 name)"

definition buildArgs :: "val list \<Rightarrow> named_arg list \<Rightarrow> error + arg list" where
  "buildArgs args named =
    (if named \<noteq> [] then
       mapR (\<lambda>na. case valueToAny (naValue na) of
               Inl e \<Rightarrow> Inl e | Inr a \<Rightarrow> Inr (Named (bareName (naName na)) a)) named
     else mapR (\<lambda>v. case valueToAny v of Inl e \<Rightarrow> Inl e | Inr a \<Rightarrow> Inr (Positional a)) args)"

section \<open>What the codec does\<close>

text \<open>The values the server builds; the other fields keep their zero values.\<close>

fun builtValue :: "val \<Rightarrow> bool" where
  "builtValue v \<longleftrightarrow>
    v = NullValue \<or> v = IntValue (Integer v) \<or> v = FloatValue (Float v) \<or>
    v = TextValue (Text v) \<or> v = BlobValue (Blob v)"

lemma builtValue_cases:
  assumes "builtValue v"
  obtains "v = NullValue" | i where "v = IntValue i" | f where "v = FloatValue f"
    | s where "v = TextValue s" | b where "v = BlobValue b"
  using assms by auto

lemma anyToValue_built: "builtValue (anyToValue a)"
  by (cases a) (auto simp: value_defs)

definition floatText :: "(f64 \<Rightarrow> string) \<Rightarrow> (string \<Rightarrow> f64 option) \<Rightarrow> bool" where
  "floatText formatF parseF \<longleftrightarrow> (\<forall>f. f64Finite f \<longrightarrow> parseF (formatF f) = Some f)"

text \<open>The values JSON can carry: finite floats and valid text.\<close>

definition jsonSafe :: "val \<Rightarrow> bool" where
  "jsonSafe v \<longleftrightarrow>
    (vtyp v = ''float'' \<longrightarrow> f64Finite (Float v)) \<and> (vtyp v = ''text'' \<longrightarrow> validUtf8 (Text v))"

lemma foldName_members [simp]:
  "foldName ''type'' = ''type''" "foldName ''value'' = ''value''"
  "foldName ''base64'' = ''base64''"
  by code_simp+

lemma parse_sint [simp]: "parseInt 64 (formatInt (sint (i :: i64))) = Inr (sint i)"
proof (rule parseInt_formatInt)
  show "- (2 ^ (64 - 1)) \<le> sint i" using sint_greater_eq[of i] by simp
  show "sint i < 2 ^ (64 - 1)" using sint_less[of i] by simp
qed

text \<open>
  C17.  Every value the server builds and JSON can carry is read back as it was written,
  and it reaches the driver and comes back unchanged.
\<close>

theorem value_json_roundtrip:
  assumes "floatText formatF parseF" and "builtValue v" and "jsonSafe v"
  shows "(\<exists>j. marshalValue formatF v = Inr j \<and> unmarshalValue parseF zeroValue j = Inr v)
    \<and> (\<exists>a. valueToAny v = Inr a \<and> anyToValue a = v)"
  using assms(2)
proof (cases rule: builtValue_cases)
  case 1
  then show ?thesis
    by (simp add: marshalValue_def unmarshalValue_def valueOfRaw_def rawZero_def value_defs
        valueToAny_def)
next
  case (2 i)
  then show ?thesis
    by (simp add: marshalValue_def unmarshalValue_def valueOfRaw_def rawZero_def rawString_def
        value_defs valueToAny_def)
next
  case (3 f)
  then have "f64Finite f" using assms(3) by (simp add: jsonSafe_def value_defs)
  moreover from this have "parseF (formatF f) = Some f"
    using assms(1) by (simp add: floatText_def)
  ultimately show ?thesis using 3
    by (simp add: marshalValue_def unmarshalValue_def valueOfRaw_def rawZero_def value_defs
        valueToAny_def)
next
  case (4 s)
  then have "coerceUtf8 s = s" using assms(3) by (simp add: jsonSafe_def validUtf8_def value_defs)
  then show ?thesis using 4
    by (simp add: marshalValue_def unmarshalValue_def valueOfRaw_def rawZero_def rawString_def
        value_defs valueToAny_def)
next
  case (5 b)
  then show ?thesis
    by (simp add: marshalValue_def unmarshalValue_def valueOfRaw_def rawZero_def value_defs
        valueToAny_def
        b64_roundtrip)
qed

text \<open>Floats written as the integer of their bits: an instance for concrete runs.\<close>

definition bitsText :: "f64 \<Rightarrow> string" where
  "bitsText f = formatInt (sint f)"

definition textBits :: "string \<Rightarrow> f64 option" where
  "textBits s = (case parseInt 64 s of Inl _ \<Rightarrow> None | Inr i \<Rightarrow> Some (word_of_int i))"

lemma floatText_bits: "floatText bitsText textBits"
  by (simp add: floatText_def bitsText_def textBits_def)

theorem value_json_roundtrip_witness:
  "\<exists>j. marshalValue bitsText (FloatValue 5) = Inr j
    \<and> unmarshalValue textBits zeroValue j = Inr (FloatValue 5)"
proof -
  have "builtValue (FloatValue 5)" by (simp add: value_defs)
  moreover have "jsonSafe (FloatValue 5)"
    by (simp add: jsonSafe_def value_defs f64Finite_def)
  ultimately show ?thesis using value_json_roundtrip[OF floatText_bits] by blast
qed

end
