(* ===== verification/Wire.thy ===== *)
theory Wire
  imports SqlClass Values
begin

text \<open>
  The statement, batch, describe and cursor types of \<open>src/types.go\<close>.  A Go pointer that
  may be nil is an \<open>option\<close>; the fields keep their names (lower case first letter where
  a name is taken).  The duration of a query is kept in microseconds, the integer the code
  divides by 1000 to report milliseconds as a float.
\<close>

section \<open>Statements\<close>

record stmt =
  SQL :: "string option"
  SQLId :: "i32 option"
  Args :: "val list"
  NamedArgs :: "named_arg list"
  WantRows :: "bool option"

definition wantRows :: "stmt \<Rightarrow> bool" where
  "wantRows s = (case WantRows s of None \<Rightarrow> True | Some b \<Rightarrow> b)"

record col =
  Name :: "string option"
  Decltype :: "string option"

record stmt_result =
  Cols :: "col list"
  Rows :: "val list list"
  AffectedRowCount :: u64
  LastInsertRowid :: "string option"
  RowsRead :: u64
  RowsWritten :: u64
  QueryDurationUs :: int

section \<open>Batches\<close>

datatype batch_cond = BatchCond
  (condType: string) (condStep: "u32 option") (condCond: "batch_cond option")
  (condConds: "batch_cond list")

record batch_step =
  Condition :: "batch_cond option"
  Stmt :: stmt

type_synonym batch = "batch_step list"

record batch_result =
  StepResults :: "stmt_result option list"
  StepErrors :: "hrana_error option list"

section \<open>Describe\<close>

record describe_col =
  dName :: string
  dDecltype :: "string option"

record describe_result =
  dCols :: "describe_col list"
  IsExplain :: bool
  IsReadonly :: bool

section \<open>Cursor entries\<close>

text \<open>
  \<open>CursorEntry\<close> has one field per kind of entry, and a \<open>Type\<close>; each literal of the
  executor is a constructor: \<open>StepBegin step cols\<close>, \<open>Row row\<close>,
  \<open>StepEnd affected rowid\<close>, \<open>StepError step err\<close>, \<open>ErrorEntry err\<close>.
\<close>

datatype cursor_entry =
    StepBegin u32 "col list"
  | Row "val list"
  | StepEnd u32 "string option"
  | StepError u32 hrana_error
  | ErrorEntry hrana_error

section \<open>Connection modes\<close>

text \<open>
  \<open>ConnectionMode\<close> of \<open>src/hrana.go\<close>; \<open>ModeUnset\<close> is the empty string a new stream
  starts with.  The modes are ordered by what they permit.
\<close>

datatype conn_mode = ModeReadOnly | ModeUnset | ModeReadWrite

instantiation conn_mode :: linorder
begin

definition rank_mode :: "conn_mode \<Rightarrow> nat" where
  "rank_mode m = (case m of ModeReadOnly \<Rightarrow> 0 | ModeUnset \<Rightarrow> 1 | ModeReadWrite \<Rightarrow> 2)"

definition less_eq_conn_mode :: "conn_mode \<Rightarrow> conn_mode \<Rightarrow> bool" where
  "less_eq_conn_mode m n \<longleftrightarrow> rank_mode m \<le> rank_mode n"

definition less_conn_mode :: "conn_mode \<Rightarrow> conn_mode \<Rightarrow> bool" where
  "less_conn_mode m n \<longleftrightarrow> rank_mode m < rank_mode n"

instance
  by standard
    (auto simp: less_eq_conn_mode_def less_conn_mode_def rank_mode_def split: conn_mode.splits)

end

definition parseMode :: "string \<Rightarrow> error + conn_mode" where
  "parseMode s =
    (if s = ''readonly'' then Inr ModeReadOnly
     else if s = ''readwrite'' \<or> s = '''' then Inr ModeReadWrite
     else Inl (UnknownMode s))"

text \<open>The guard in front of every statement the executor sends to the database.\<close>

definition modePermits :: "conn_mode \<Rightarrow> string \<Rightarrow> bool" where
  "modePermits m sql \<longleftrightarrow> \<not> (m = ModeReadOnly \<and> isWriteStatement sql)"

lemma modePermits_mono: "m \<le> n \<Longrightarrow> modePermits m sql \<Longrightarrow> modePermits n sql"
  by (cases m; cases n) (auto simp: modePermits_def less_eq_conn_mode_def rank_mode_def)

lemma modePermits_readonly: "modePermits ModeReadOnly sql \<longleftrightarrow> \<not> isWriteStatement sql"
  by (simp add: modePermits_def)

lemma modePermits_other: "m \<noteq> ModeReadOnly \<Longrightarrow> modePermits m sql"
  by (simp add: modePermits_def)

lemma parseMode_cases: "parseMode s = Inr m \<Longrightarrow> m = ModeReadOnly \<or> m = ModeReadWrite"
  by (auto simp: parseMode_def split: if_splits)

end
