(* ===== verification/DbConn.thy ===== *)
theory DbConn
  imports Wire
begin

text \<open>
  What the server uses of \<open>database/sql\<close>, and the environment it runs in.  The database
  behind a connection is not part of the program: an environment \<open>'d env\<close> gives, for a
  state \<open>'d\<close> of everything outside the program, what the driver answers and how that
  state changes, the clock, and the random source.  A pooled connection is a handle; once
  closed, a \<open>*sql.Conn\<close> answers every call with \<open>sql.ErrConnDone\<close>.

  A result set is what its iteration will deliver: the answers of \<open>Columns\<close> and
  \<open>ColumnTypes\<close>, for each \<open>Next\<close> what \<open>Scan\<close> finds, and \<open>Err\<close> after the last.
\<close>

section \<open>The environment\<close>

record exec_res =
  RowsAffected :: i64
  LastInsertId :: i64

record rowset =
  Columns :: "string + string list"
  ColumnTypes :: "string + string list"
  RowItems :: "(string + goany list) list"
  RowsErr :: "string option"

record 'd env =
  drvExec :: "nat \<Rightarrow> string \<Rightarrow> arg list \<Rightarrow> 'd \<Rightarrow> (string + exec_res) \<times> 'd"
  drvQuery :: "nat \<Rightarrow> string \<Rightarrow> arg list \<Rightarrow> 'd \<Rightarrow> (string + rowset) \<times> 'd"
  drvConn :: "nat \<Rightarrow> 'd \<Rightarrow> (string + nat) \<times> 'd"
  drvRelease :: "nat \<Rightarrow> 'd \<Rightarrow> 'd"
  randRead :: "nat \<Rightarrow> 'd \<Rightarrow> (string + bytes) \<times> 'd"
  clock :: "'d \<Rightarrow> instant"

section \<open>Connections\<close>

text \<open>\<open>GenerationalConn\<close> of \<open>src/stream.go\<close>: a \<open>*sql.Conn\<close> and its generation.\<close>

record gconn =
  handle :: nat
  connGeneration :: i64
  connDone :: bool

definition execContext ::
  "'d env \<Rightarrow> gconn \<Rightarrow> string \<Rightarrow> arg list \<Rightarrow> 'd \<Rightarrow> (error + exec_res) \<times> 'd" where
  "execContext E c sql args w =
    (if connDone c then (Inl ConnDone, w)
     else (case drvExec E (handle c) sql args w of
             (Inl e, w') \<Rightarrow> (Inl (DriverError e), w')
           | (Inr r, w') \<Rightarrow> (Inr r, w')))"

definition queryContext ::
  "'d env \<Rightarrow> gconn \<Rightarrow> string \<Rightarrow> arg list \<Rightarrow> 'd \<Rightarrow> (error + rowset) \<times> 'd" where
  "queryContext E c sql args w =
    (if connDone c then (Inl ConnDone, w)
     else (case drvQuery E (handle c) sql args w of
             (Inl e, w') \<Rightarrow> (Inl (DriverError e), w')
           | (Inr r, w') \<Rightarrow> (Inr r, w')))"

definition connClose :: "'d env \<Rightarrow> gconn \<Rightarrow> 'd \<Rightarrow> gconn \<times> 'd" where
  "connClose E c w =
    (if connDone c then (c, w) else (c\<lparr>connDone := True\<rparr>, drvRelease E (handle c) w))"

definition dbConn :: "'d env \<Rightarrow> nat \<Rightarrow> 'd \<Rightarrow> (error + nat) \<times> 'd" where
  "dbConn E db w =
    (case drvConn E db w of
       (Inl e, w') \<Rightarrow> (Inl (DriverError e), w')
     | (Inr h, w') \<Rightarrow> (Inr h, w'))"

text \<open>\<open>RandomInt32\<close> of \<open>src/utils.go\<close>: four random bytes, little endian.\<close>

definition leUint32 :: "bytes \<Rightarrow> u32" where
  "leUint32 bs = foldr (\<lambda>b acc. ucast b + 256 * acc) bs 0"

definition randomInt32 :: "'d env \<Rightarrow> 'd \<Rightarrow> (error + i32) \<times> 'd" where
  "randomInt32 E w =
    (case randRead E 4 w of
       (Inl e, w') \<Rightarrow> (Inl (RandomError e), w')
     | (Inr bs, w') \<Rightarrow> (Inr (leUint32 bs), w'))"

text \<open>\<open>rows.Scan\<close> into as many destinations as there are columns.\<close>

fun scanRow :: "nat \<Rightarrow> string + goany list \<Rightarrow> error + val list" where
  "scanRow n (Inl e) = Inl (DriverError e)"
| "scanRow n (Inr vs) =
    (if length vs = n then Inr (map anyToValue vs) else Inl (ScanCount n (length vs)))"

text \<open>\<open>time.Duration.Microseconds\<close>: division that truncates towards zero.\<close>

definition microseconds :: "duration \<Rightarrow> int" where
  "microseconds d = (if d < 0 then - ((- d) div 1000) else d div 1000)"

section \<open>What may reach the driver\<close>

text \<open>
  A set of environment states that every driver call with an allowed text keeps.  The
  executor is proved to keep it whenever the mode of the stream lets only allowed texts
  through.
\<close>

locale driver_invariant =
  fixes E :: "'d env" and allowed :: "string \<Rightarrow> bool" and P :: "'d \<Rightarrow> bool"
  assumes exec_inv: "allowed sql \<Longrightarrow> P w \<Longrightarrow> P (snd (drvExec E h sql args w))"
    and query_inv: "allowed sql \<Longrightarrow> P w \<Longrightarrow> P (snd (drvQuery E h sql args w))"
begin

lemma execContext_inv:
  "allowed sql \<Longrightarrow> P w \<Longrightarrow> execContext E c sql args w = (r, w') \<Longrightarrow> P w'"
  using exec_inv[of sql w "handle c" args]
  by (auto simp: execContext_def split: if_splits prod.splits sum.splits)

lemma queryContext_inv:
  "allowed sql \<Longrightarrow> P w \<Longrightarrow> queryContext E c sql args w = (r, w') \<Longrightarrow> P w'"
  using query_inv[of sql w "handle c" args]
  by (auto simp: queryContext_def split: if_splits prod.splits sum.splits)

end

text \<open>
  An environment that also records the SQL text of every driver call, latest first; it
  answers as the original does.
\<close>

definition traced :: "'d env \<Rightarrow> ('d \<times> string list) env" where
  "traced E =
    \<lparr>drvExec = (\<lambda>h sql args (w, l).
        case drvExec E h sql args w of (r, w') \<Rightarrow> (r, (w', sql # l))),
     drvQuery = (\<lambda>h sql args (w, l).
        case drvQuery E h sql args w of (r, w') \<Rightarrow> (r, (w', sql # l))),
     drvConn = (\<lambda>db (w, l). case drvConn E db w of (r, w') \<Rightarrow> (r, (w', l))),
     drvRelease = (\<lambda>h (w, l). (drvRelease E h w, l)),
     randRead = (\<lambda>n (w, l). case randRead E n w of (r, w') \<Rightarrow> (r, (w', l))),
     clock = (\<lambda>(w, l). clock E w)\<rparr>"

interpretation traced_calls: driver_invariant "traced E" allowed
    "\<lambda>(w, l). \<forall>sql \<in> set l. allowed sql" for E allowed
  by unfold_locales (auto simp: traced_def split: prod.splits)

end
