(* ===== verification/Streams.thy ===== *)
theory Streams
  imports DbConn
begin

text \<open>
  Streams and cursors, and the registry of stored SQL texts: \<open>Stream\<close>, \<open>Cursor\<close> and
  the SQL part of \<open>Session\<close> of \<open>src/stream.go\<close>, \<open>resolveStmtSQL\<close> of
  \<open>src/executor.go\<close> and \<open>resolveStreamSQL\<close> of \<open>src/http.go\<close>.  The mutexes of a
  stream serialise its operations; each operation here is one critical section.
\<close>

section \<open>Cursors\<close>

record cursor =
  cursorId :: i32
  entries :: "cursor_entry list"
  pos :: nat
  cursorDone :: bool

definition newCursor :: "i32 \<Rightarrow> cursor_entry list \<Rightarrow> cursor" where
  "newCursor key es = \<lparr>cursorId = key, entries = es, pos = 0, cursorDone = False\<rparr>"

definition fetch :: "cursor \<Rightarrow> u32 \<Rightarrow> (cursor_entry list \<times> bool) \<times> cursor" where
  "fetch c maxCount =
    (let end0 = pos c + unat maxCount;
         end1 = (if end0 > length (entries c) then length (entries c) else end0);
         out = take (end1 - pos c) (drop (pos c) (entries c));
         done = (end1 \<ge> length (entries c))
     in ((out, done), c\<lparr>pos := end1, cursorDone := done\<rparr>))"

text \<open>A client that fetches again and again: the entries of each answer, the last flag.\<close>

fun fetchAll :: "cursor \<Rightarrow> u32 list \<Rightarrow> (cursor_entry list list \<times> bool) \<times> cursor" where
  "fetchAll c [] = (([], cursorDone c), c)"
| "fetchAll c (n # ns) =
    (let ((out, done), c') = fetch c n; ((outs, d), c'') = fetchAll c' ns
     in ((out # outs, d), c''))"

section \<open>Streams\<close>

record stream =
  streamId :: i32
  Conn :: gconn
  IsSuperseded :: bool
  StoredSQL :: "(i32 \<times> string) list"
  Cursors :: "(i32 \<times> cursor) list"
  Mode :: conn_mode
  closed :: bool

definition newStream :: "i32 \<Rightarrow> gconn \<Rightarrow> stream" where
  "newStream key conn =
    \<lparr>streamId = key, Conn = conn, IsSuperseded = False, StoredSQL = [], Cursors = [],
     Mode = ModeUnset, closed = False\<rparr>"

text \<open>\<open>Stream.Close\<close>: the connection goes back to the pool, once.\<close>

definition streamClose :: "'d env \<Rightarrow> stream \<Rightarrow> 'd \<Rightarrow> stream \<times> 'd" where
  "streamClose E st w =
    (if closed st then (st, w)
     else (case connClose E (Conn st) w of
             (c, w') \<Rightarrow> (st\<lparr>closed := True, Conn := c\<rparr>, w')))"

text \<open>
  \<open>Server.OpenStream\<close>: acquire a connection of the current generation, then an id; when
  the random source fails the connection is given back.
\<close>

definition openStream :: "'d env \<Rightarrow> nat \<Rightarrow> i64 \<Rightarrow> 'd \<Rightarrow> (error + stream) \<times> 'd" where
  "openStream E db generation w =
    (case dbConn E db w of
       (Inl e, w1) \<Rightarrow> (Inl (ObtainConn e), w1)
     | (Inr h, w1) \<Rightarrow>
         (let conn = \<lparr>handle = h, connGeneration = generation, connDone = False\<rparr> in
          case randomInt32 E w1 of
            (Inl e, w2) \<Rightarrow> (Inl (GenerateStreamId e), snd (connClose E conn w2))
          | (Inr key, w2) \<Rightarrow> (Inr (newStream key conn), w2)))"

section \<open>Stored SQL\<close>

type_synonym sql_map = "(i32 \<times> string) list"

text \<open>
  Storing and closing are the same code in \<open>Session.storeSQL\<close> / \<open>closeSQL\<close> (WebSocket)
  and in \<open>dispatchStreamRequest\<close> (HTTP): an id in use is refused, closing is idempotent.
\<close>

definition storeSQL :: "i32 \<Rightarrow> string \<Rightarrow> sql_map \<Rightarrow> error + sql_map" where
  "storeSQL key sqlText m =
    (case map_of m key of
       Some _ \<Rightarrow> Inl (SqlIdInUse key)
     | None \<Rightarrow> Inr (AList.update key sqlText m))"

definition closeSQL :: "i32 \<Rightarrow> sql_map \<Rightarrow> sql_map" where
  "closeSQL key m = AList.delete key m"

definition resolveSQL :: "string option \<Rightarrow> i32 option \<Rightarrow> sql_map \<Rightarrow> error + string" where
  "resolveSQL sqlText sqlID m =
    (case (sqlText, sqlID) of
       (Some _, Some _) \<Rightarrow> Inl BothSql
     | (Some s, None) \<Rightarrow> Inr s
     | (None, Some key) \<Rightarrow> (case map_of m key of None \<Rightarrow> Inl (SqlIdNotFound key) | Some s \<Rightarrow> Inr s)
     | (None, None) \<Rightarrow> Inl NoSql)"

definition resolveStmtSQL :: "stmt \<Rightarrow> sql_map \<Rightarrow> error + string" where
  "resolveStmtSQL s m =
    (case (SQL s, SQLId s) of
       (Some _, Some _) \<Rightarrow> Inl StmtBothSql
     | (Some t, None) \<Rightarrow> Inr t
     | (None, Some key) \<Rightarrow> (case map_of m key of None \<Rightarrow> Inl (SqlIdNotFound key) | Some t \<Rightarrow> Inr t)
     | (None, None) \<Rightarrow> Inl StmtNoSql)"

text \<open>
  The contract of a registry of SQL texts, against which the handlers of both transports
  are written: a stored text is found under its id and no other, an id is taken once and
  is free again after it was closed.
\<close>

locale sql_registry =
  fixes store :: "i32 \<Rightarrow> string \<Rightarrow> 'm \<Rightarrow> error + 'm"
    and close :: "i32 \<Rightarrow> 'm \<Rightarrow> 'm"
    and resolve :: "i32 \<Rightarrow> 'm \<Rightarrow> error + string"
  assumes store_free: "resolve key m = Inl e \<Longrightarrow> \<exists>m'. store key s m = Inr m'"
    and store_used: "resolve key m = Inr t \<Longrightarrow> store key s m = Inl (SqlIdInUse key)"
    and resolve_stored: "store key s m = Inr m' \<Longrightarrow> resolve key m' = Inr s"
    and resolve_store_other: "store key s m = Inr m' \<Longrightarrow> key' \<noteq> key \<Longrightarrow> resolve key' m' = resolve key' m"
    and resolve_closed: "resolve key (close key m) = Inl (SqlIdNotFound key)"
    and resolve_close_other: "key' \<noteq> key \<Longrightarrow> resolve key' (close key m) = resolve key' m"
begin

lemma store_twice: "store key s m = Inr m' \<Longrightarrow> store key t m' = Inl (SqlIdInUse key)"
  using resolve_stored store_used by blast

lemma store_after_close: "\<exists>m'. store key s (close key m) = Inr m'"
  using resolve_closed store_free by blast

lemma restore: "\<exists>m'. store key s (close key m) = Inr m' \<and> resolve key m' = Inr s \<and>
    (\<forall>key'. key' \<noteq> key \<longrightarrow> resolve key' m' = resolve key' m)"
proof -
  obtain m' where m': "store key s (close key m) = Inr m'" using store_after_close by blast
  then show ?thesis
    using resolve_stored resolve_store_other resolve_close_other by metis
qed

end

interpretation sqls: sql_registry storeSQL closeSQL "\<lambda>key. resolveSQL None (Some key)"
  by unfold_locales
    (auto simp: storeSQL_def closeSQL_def resolveSQL_def split: option.splits)

section \<open>Properties of streams and cursors\<close>

text \<open>A cursor as its operations leave it.\<close>

definition cursorInv :: "cursor \<Rightarrow> bool" where
  "cursorInv c \<longleftrightarrow> pos c \<le> length (entries c)"

lemma cursorInv_new [inv_intros]: "cursorInv (newCursor key es)"
  by (simp add: cursorInv_def newCursor_def)

lemma fetch_step:
  assumes "cursorInv c" and "fetch c n = ((out, done), c')"
  shows "cursorInv c'" "entries c' = entries c" "pos c' = min (pos c + unat n) (length (entries c))"
    "out = take (unat n) (drop (pos c) (entries c))"
    "done \<longleftrightarrow> pos c' = length (entries c)" "cursorDone c' = done"
  using assms by (auto simp: fetch_def cursorInv_def Let_def split: if_splits)

lemma fetchAll_concat:
  "cursorInv c \<Longrightarrow> fetchAll c ns = ((outs, d), c') \<Longrightarrow>
    concat outs = take (sum_list (map unat ns)) (drop (pos c) (entries c)) \<and>
    entries c' = entries c \<and>
    pos c' = min (pos c + sum_list (map unat ns)) (length (entries c)) \<and>
    (ns \<noteq> [] \<longrightarrow> (d \<longleftrightarrow> length (entries c) \<le> pos c + sum_list (map unat ns)))"
proof (induction ns arbitrary: c outs d c')
  case Nil
  then show ?case by (auto simp: cursorInv_def)
next
  case (Cons n ns)
  obtain out fin c1 where f: "fetch c n = ((out, fin), c1)" by (metis surj_pair)
  obtain outs2 d2 c2 where fa: "fetchAll c1 ns = ((outs2, d2), c2)" by (metis surj_pair)
  have res: "outs = out # outs2" "d = d2" "c' = c2" using Cons.prems(2) f fa by auto
  note s = fetch_step[OF Cons.prems(1) f]
  note ih = Cons.IH[OF s(1) fa]
  let ?k = "sum_list (map unat ns)"
  have "drop (pos c1) (entries c) = drop (unat n) (drop (pos c) (entries c))"
    using s(3) by (simp add: min_def add.commute)
  then have "concat outs2 = take ?k (drop (unat n) (drop (pos c) (entries c)))"
    using ih s(2) by simp
  then have con: "concat outs = take (unat n + ?k) (drop (pos c) (entries c))"
    using s(4) res(1) by (simp add: take_add)
  have pos: "pos c' = min (pos c + sum_list (map unat (n # ns))) (length (entries c))"
    using ih s(2,3) res(3) by (auto simp: min_def)
  have dn: "d \<longleftrightarrow> length (entries c) \<le> pos c + sum_list (map unat (n # ns))"
  proof (cases ns)
    case Nil
    then have "d \<longleftrightarrow> pos c1 = length (entries c)" using fa s(2,5,6) res(2) by auto
    then show ?thesis using Nil s(3) by (auto simp: min_def)
  next
    case (Cons a list)
    then show ?thesis using ih s(2,3) res(2) by (auto simp: min_def)
  qed
  show ?case using con pos dn ih s(2) res(3) by simp
qed

text \<open>
  Whatever batch sizes a client asks for, the answers to its fetches are the entries
  of the cursor in order, without gap or repetition, and \<open>done\<close> is reported exactly when
  all of them were delivered.
\<close>

theorem fetch_delivers_all:
  assumes "fetchAll (newCursor key es) ns = ((outs, d), c')" and "ns \<noteq> []"
  shows "concat outs = take (sum_list (map unat ns)) es
    \<and> (d \<longleftrightarrow> length es \<le> sum_list (map unat ns))
    \<and> (d \<longrightarrow> concat outs = es \<and> (\<forall>n. fst (fetch c' n) = ([], True)))"
  using fetchAll_concat[OF cursorInv_new assms(1)] assms(2)
  by (auto simp: newCursor_def fetch_def Let_def)

theorem fetch_delivers_all_witness:
  "let es = [Row [], StepEnd 0 None, Row []];
       r = fetchAll (newCursor 7 es) [2, 5]
   in concat (fst (fst r)) = es \<and> snd (fst r)"
proof -
  let ?es = "[Row [], StepEnd 0 None, Row []]"
  obtain outs d c' where r: "fetchAll (newCursor 7 ?es) [2, 5] = ((outs, d), c')"
    by (metis surj_pair)
  have ne: "[2, 5 :: u32] \<noteq> []" by simp
  show ?thesis using fetch_delivers_all[OF r ne] r by simp
qed

lemma streamClose_closed: "streamClose E st w = (st', w') \<Longrightarrow> closed st'"
  by (auto simp: streamClose_def split: if_splits prod.splits)

lemma streamClose_idem:
  "streamClose E st w = (st', w') \<Longrightarrow> streamClose E st' w'' = (st', w'')"
  by (auto simp: streamClose_def split: if_splits prod.splits)

text \<open>A stream whose flag and connection agree: closed exactly when its connection is.\<close>

definition streamOk :: "stream \<Rightarrow> bool" where
  "streamOk st \<longleftrightarrow> connDone (Conn st) = closed st \<and> wf_map (StoredSQL st) \<and> wf_map (Cursors st)"

lemma streamOk_new [inv_intros]: "\<not> connDone c \<Longrightarrow> streamOk (newStream key c)"
  by (simp add: streamOk_def newStream_def)

lemma streamOk_close [inv_intros]:
  "streamOk st \<Longrightarrow> streamClose E st w = (st', w') \<Longrightarrow> streamOk st'"
  by (auto simp: streamOk_def streamClose_def connClose_def split: if_splits prod.splits)

lemma openStream_ok:
  "openStream E db gen w = (Inr st, w') \<Longrightarrow>
    streamOk st \<and> \<not> closed st \<and> StoredSQL st = [] \<and> Cursors st = [] \<and> \<not> IsSuperseded st
    \<and> Mode st = ModeUnset \<and> connGeneration (Conn st) = gen"
  by (auto simp: openStream_def Let_def newStream_def streamOk_def split: prod.splits sum.splits)

lemma closed_stream_execs_nothing:
  "streamOk st \<Longrightarrow> closed st \<Longrightarrow>
    execContext E (Conn st) sql args w = (Inl ConnDone, w) \<and>
    queryContext E (Conn st) sql args w = (Inl ConnDone, w)"
  by (simp add: streamOk_def execContext_def queryContext_def)

end
