(* ===== verification/Executor.thy ===== *)
theory Executor
  imports Streams
begin

text \<open>
  The statement executor, \<open>src/executor.go\<close>: single statements, conditional batches,
  sequences, \<open>describe\<close>, and the batch run behind a cursor.  The environment is passed
  along and every driver call threads it.  A batch fills two arrays of pointers, lists of
  options here, that start as all nil.
\<close>

section \<open>Result sets\<close>

fun mkCols :: "string list \<Rightarrow> string list \<Rightarrow> col list" where
  "mkCols [] ts = []"
| "mkCols (n # ns) [] = \<lparr>Name = Some n, Decltype = None\<rparr> # mkCols ns []"
| "mkCols (n # ns) (t # ts) =
    \<lparr>Name = Some n, Decltype = (if t = [] then None else Some t)\<rparr> # mkCols ns ts"

text \<open>The id 0 is what drivers report when there is none.\<close>

definition lastRowid :: "exec_res \<Rightarrow> string option" where
  "lastRowid res =
    (if LastInsertId res = 0 then None else Some (formatInt (sint (LastInsertId res))))"

definition execResultToStmtResult :: "exec_res \<Rightarrow> duration \<Rightarrow> stmt_result" where
  "execResultToStmtResult res dur =
    \<lparr>Cols = [], Rows = [], AffectedRowCount = RowsAffected res, LastInsertRowid = lastRowid res,
     RowsRead = 0, RowsWritten = RowsAffected res, QueryDurationUs = microseconds dur\<rparr>"

definition rowsToStmtResult :: "rowset \<Rightarrow> duration \<Rightarrow> error + stmt_result" where
  "rowsToStmtResult rows dur =
    (case Columns rows of
       Inl e \<Rightarrow> Inl (ReadingColumnNames (DriverError e))
     | Inr colNames \<Rightarrow>
         (case ColumnTypes rows of
            Inl e \<Rightarrow> Inl (ReadingColumnTypes (DriverError e))
          | Inr colTypes \<Rightarrow>
              (case mapR (scanRow (length colNames)) (RowItems rows) of
                 Inl e \<Rightarrow> Inl (ScanningRow e)
               | Inr resultRows \<Rightarrow>
                   (case RowsErr rows of
                      Some e \<Rightarrow> Inl (IteratingRows (DriverError e))
                    | None \<Rightarrow>
                        Inr \<lparr>Cols = mkCols colNames colTypes, Rows = resultRows,
                             AffectedRowCount = 0, LastInsertRowid = None,
                             RowsRead = of_nat (length resultRows), RowsWritten = 0,
                             QueryDurationUs = microseconds dur\<rparr>))))"

section \<open>Statements\<close>

definition executeStmt ::
  "'d env \<Rightarrow> stream \<Rightarrow> stmt \<Rightarrow> sql_map \<Rightarrow> 'd \<Rightarrow> (error + stmt_result) \<times> 'd" where
  "executeStmt E st s storedSQL w =
    (case resolveStmtSQL s storedSQL of
       Inl e \<Rightarrow> (Inl e, w)
     | Inr sqlText \<Rightarrow>
         (if \<not> modePermits (Mode st) sqlText then (Inl ReadonlyViolation, w)
          else (case buildArgs (Args s) (NamedArgs s) of
             Inl e \<Rightarrow> (Inl e, w)
           | Inr args \<Rightarrow>
               (let start = clock E w in
                if \<not> wantRows s then
                  (case execContext E (Conn st) sqlText args w of
                     (Inl e, w') \<Rightarrow> (Inl e, w')
                   | (Inr res, w') \<Rightarrow> (Inr (execResultToStmtResult res (clock E w' - start)), w'))
                else
                  (case queryContext E (Conn st) sqlText args w of
                     (Inl e, w') \<Rightarrow> (Inl e, w')
                   | (Inr rows, w') \<Rightarrow> (rowsToStmtResult rows (clock E w' - start), w'))))))"

section \<open>Batches\<close>

text \<open>
  \<open>evalBatchCond\<close>: the arrays hold what the earlier steps left.  In Go \<open>not\<close>
  returns \<open>!v, err\<close>; every caller looks at the error first, so a failed inner condition
  is just an error here.
\<close>

fun evalBatchCond ::
  "batch_cond \<Rightarrow> 'r option list \<Rightarrow> 'x option list \<Rightarrow> error + bool"
  and evalAnd :: "batch_cond list \<Rightarrow> 'r option list \<Rightarrow> 'x option list \<Rightarrow> error + bool"
  and evalOr :: "batch_cond list \<Rightarrow> 'r option list \<Rightarrow> 'x option list \<Rightarrow> error + bool" where
  "evalBatchCond (BatchCond ty step inner conds) results errors =
    (if ty = ''ok'' then
       (case step of
          None \<Rightarrow> Inl (CondMissingStep ''ok'')
        | Some i \<Rightarrow> Inr (if unat i \<ge> length results then False else results ! unat i \<noteq> None))
     else if ty = ''error'' then
       (case step of
          None \<Rightarrow> Inl (CondMissingStep ''error'')
        | Some i \<Rightarrow> Inr (if unat i \<ge> length errors then False else errors ! unat i \<noteq> None))
     else if ty = ''not'' then
       (case inner of
          None \<Rightarrow> Inl CondMissingInner
        | Some c \<Rightarrow>
            (case evalBatchCond c results errors of Inl e \<Rightarrow> Inl e | Inr v \<Rightarrow> Inr (\<not> v)))
     else if ty = ''and'' then evalAnd conds results errors
     else if ty = ''or'' then evalOr conds results errors
     else if ty = ''is_autocommit'' then Inr True
     else Inl (UnknownCond ty))"
| "evalAnd [] results errors = Inr True"
| "evalAnd (c # cs) results errors =
    (case evalBatchCond c results errors of
       Inl e \<Rightarrow> Inl e
     | Inr v \<Rightarrow> if v then evalAnd cs results errors else Inr False)"
| "evalOr [] results errors = Inr False"
| "evalOr (c # cs) results errors =
    (case evalBatchCond c results errors of
       Inl e \<Rightarrow> Inl e
     | Inr v \<Rightarrow> if v then Inr True else evalOr cs results errors)"

definition stepEnabled ::
  "batch_step \<Rightarrow> 'r option list \<Rightarrow> 'x option list \<Rightarrow> error + bool" where
  "stepEnabled step results errors =
    (case Condition step of None \<Rightarrow> Inr True | Some c \<Rightarrow> evalBatchCond c results errors)"

fun batchLoop ::
  "'d env \<Rightarrow> stream \<Rightarrow> sql_map \<Rightarrow> nat \<Rightarrow> batch_step list \<Rightarrow> stmt_result option list \<Rightarrow>
    hrana_error option list \<Rightarrow> 'd \<Rightarrow> (error + batch_result) \<times> 'd" where
  "batchLoop E st storedSQL i [] results errors w =
    (Inr \<lparr>StepResults = results, StepErrors = errors\<rparr>, w)"
| "batchLoop E st storedSQL i (step # steps) results errors w =
    (case stepEnabled step results errors of
       Inl e \<Rightarrow> (Inl (BatchCondAt i e), w)
     | Inr ok \<Rightarrow>
         if \<not> ok then batchLoop E st storedSQL (Suc i) steps results errors w
         else (case executeStmt E st (Stmt step) storedSQL w of
                 (Inl e, w') \<Rightarrow>
                   batchLoop E st storedSQL (Suc i) steps results (errors[i := Some (newError e)]) w'
               | (Inr r, w') \<Rightarrow>
                   batchLoop E st storedSQL (Suc i) steps (results[i := Some r]) errors w'))"

definition executeBatch ::
  "'d env \<Rightarrow> stream \<Rightarrow> batch \<Rightarrow> sql_map \<Rightarrow> 'd \<Rightarrow> (error + batch_result) \<times> 'd" where
  "executeBatch E st steps storedSQL w =
    batchLoop E st storedSQL 0 steps (replicate (length steps) None)
      (replicate (length steps) None) w"

section \<open>Sequences and describe\<close>

fun seqLoop :: "'d env \<Rightarrow> stream \<Rightarrow> string list \<Rightarrow> 'd \<Rightarrow> (error + unit) \<times> 'd" where
  "seqLoop E st [] w = (Inr (), w)"
| "seqLoop E st (piece # pieces) w =
    (let s = trimSpace piece in
     if s = [] then seqLoop E st pieces w
     else if \<not> modePermits (Mode st) s then (Inl ReadonlyViolation, w)
     else (case execContext E (Conn st) s [] w of
             (Inl e, w') \<Rightarrow> (Inl (SequenceError e), w')
           | (Inr _, w') \<Rightarrow> seqLoop E st pieces w'))"

definition executeSequence ::
  "'d env \<Rightarrow> stream \<Rightarrow> string \<Rightarrow> 'd \<Rightarrow> (error + unit) \<times> 'd" where
  "executeSequence E st sqlText w = seqLoop E st (splitByte CHR '';'' sqlText) w"

definition describeStmt ::
  "'d env \<Rightarrow> stream \<Rightarrow> string \<Rightarrow> 'd \<Rightarrow> (error + describe_result) \<times> 'd" where
  "describeStmt E st sqlText w =
    (case queryContext E (Conn st) sqlText [] w of
       (Inl e, w') \<Rightarrow> (Inr \<lparr>dCols = [], IsExplain = False, IsReadonly = False\<rparr>, w')
     | (Inr rows, w') \<Rightarrow>
         (let colNames = (case Columns rows of Inl _ \<Rightarrow> [] | Inr ns \<Rightarrow> ns);
              colTypes = (case ColumnTypes rows of Inl _ \<Rightarrow> [] | Inr ts \<Rightarrow> ts);
              upper = toUpper (trimSpace sqlText)
          in (Inr \<lparr>dCols = map (\<lambda>c. \<lparr>dName = the (Name c), dDecltype = Decltype c\<rparr>)
                             (mkCols colNames colTypes),
                   IsExplain = hasPrefix upper ''EXPLAIN'',
                   IsReadonly = isReadonlyStatement upper\<rparr>, w')))"

section \<open>The batch behind a cursor\<close>

text \<open>
  \<open>executeBatchCursor\<close>.  One step emits its entries and leaves its mark in one of the
  two arrays; \<open>affected\<close> is narrowed to 32 bits.  The scan loop of a query stops at the
  first row that cannot be scanned and keeps the rows before it.
\<close>

fun scanUntil :: "nat \<Rightarrow> (string + goany list) list \<Rightarrow> val list list \<times> error option" where
  "scanUntil n [] = ([], None)"
| "scanUntil n (item # items) =
    (case scanRow n item of
       Inl e \<Rightarrow> ([], Some e)
     | Inr row \<Rightarrow> (case scanUntil n items of (rows, e) \<Rightarrow> (row # rows, e)))"

definition emptyResult :: stmt_result where
  "emptyResult =
    \<lparr>Cols = [], Rows = [], AffectedRowCount = 0, LastInsertRowid = None, RowsRead = 0,
     RowsWritten = 0, QueryDurationUs = 0\<rparr>"

definition cursorExec :: "u32 \<Rightarrow> exec_res \<Rightarrow> cursor_entry list \<times> (error + stmt_result)" where
  "cursorExec stepIdx res =
    ([StepBegin stepIdx [], StepEnd (ucast (RowsAffected res)) (lastRowid res)],
     Inr (emptyResult\<lparr>AffectedRowCount := RowsAffected res\<rparr>))"

definition cursorQuery :: "u32 \<Rightarrow> rowset \<Rightarrow> cursor_entry list \<times> (error + stmt_result)" where
  "cursorQuery stepIdx rows =
    (let colNames = (case Columns rows of Inl _ \<Rightarrow> [] | Inr ns \<Rightarrow> ns);
         colTypes = (case ColumnTypes rows of Inl _ \<Rightarrow> [] | Inr ts \<Rightarrow> ts);
         (scanned, scanErr) = scanUntil (length colNames) (RowItems rows);
         begun = StepBegin stepIdx (mkCols colNames colTypes) # map Row scanned
     in case (case scanErr of Some e \<Rightarrow> Some e | None \<Rightarrow> map_option DriverError (RowsErr rows)) of
          Some e \<Rightarrow> (begun @ [StepError stepIdx (newError e)], Inl e)
        | None \<Rightarrow> (begun @ [StepEnd 0 None], Inr (emptyResult\<lparr>RowsRead := of_nat (length scanned)\<rparr>)))"

definition cursorStep ::
  "'d env \<Rightarrow> stream \<Rightarrow> sql_map \<Rightarrow> u32 \<Rightarrow> stmt \<Rightarrow> 'd \<Rightarrow>
    (cursor_entry list \<times> (error + stmt_result)) \<times> 'd" where
  "cursorStep E st storedSQL stepIdx s w =
    (let fail = (\<lambda>e. ([StepError stepIdx (newError e)], Inl e)) in
     case resolveStmtSQL s storedSQL of
       Inl e \<Rightarrow> (fail e, w)
     | Inr sqlText \<Rightarrow>
         (case buildArgs (Args s) (NamedArgs s) of
            Inl e \<Rightarrow> (fail e, w)
          | Inr args \<Rightarrow>
              if \<not> wantRows s then
                (case execContext E (Conn st) sqlText args w of
                   (Inl e, w') \<Rightarrow> (fail e, w')
                 | (Inr res, w') \<Rightarrow> (cursorExec stepIdx res, w'))
              else
                (case queryContext E (Conn st) sqlText args w of
                   (Inl e, w') \<Rightarrow> (fail e, w')
                 | (Inr rows, w') \<Rightarrow> (cursorQuery stepIdx rows, w'))))"

fun cursorLoop ::
  "'d env \<Rightarrow> stream \<Rightarrow> sql_map \<Rightarrow> nat \<Rightarrow> batch_step list \<Rightarrow> stmt_result option list \<Rightarrow>
    hrana_error option list \<Rightarrow> 'd \<Rightarrow> cursor_entry list \<times> 'd" where
  "cursorLoop E st storedSQL i [] results errors w = ([], w)"
| "cursorLoop E st storedSQL i (step # steps) results errors w =
    (case stepEnabled step results errors of
       Inl e \<Rightarrow> ([ErrorEntry (newError e)], w)
     | Inr ok \<Rightarrow>
         if \<not> ok then cursorLoop E st storedSQL (Suc i) steps results errors w
         else (case cursorStep E st storedSQL (of_nat i) (Stmt step) w of
                 ((es, Inl e), w') \<Rightarrow>
                   (case cursorLoop E st storedSQL (Suc i) steps results
                           (errors[i := Some (newError e)]) w' of
                      (es', w'') \<Rightarrow> (es @ es', w''))
               | ((es, Inr r), w') \<Rightarrow>
                   (case cursorLoop E st storedSQL (Suc i) steps (results[i := Some r]) errors w' of
                      (es', w'') \<Rightarrow> (es @ es', w''))))"

text \<open>The Go function also returns an error, which is nil on every path.\<close>

definition executeBatchCursor ::
  "'d env \<Rightarrow> stream \<Rightarrow> batch \<Rightarrow> sql_map \<Rightarrow> 'd \<Rightarrow> (error + cursor_entry list) \<times> 'd" where
  "executeBatchCursor E st steps storedSQL w =
    (case cursorLoop E st storedSQL 0 steps (replicate (length steps) None)
            (replicate (length steps) None) w of
       (es, w') \<Rightarrow> (Inr es, w'))"

end
