(* ===== verification/Batches.thy ===== *)
theory Batches
  imports Executor
begin

text \<open>
  What the batch executor guarantees: the shape of the two arrays, which steps run, the
  meaning of conditions, what a chain of conditions does after a failure, and that a
  read-only stream sends no write to the database.
\<close>

section \<open>Conditions\<close>

text \<open>A condition the protocol allows: known types, the operands each type needs.\<close>

fun condWf :: "batch_cond \<Rightarrow> bool" where
  "condWf (BatchCond ty step inner conds) \<longleftrightarrow>
    (if ty = ''ok'' \<or> ty = ''error'' then step \<noteq> None
     else if ty = ''not'' then (case inner of None \<Rightarrow> False | Some c \<Rightarrow> condWf c)
     else if ty = ''and'' \<or> ty = ''or'' then (\<forall>c \<in> set conds. condWf c)
     else ty = ''is_autocommit'')"

text \<open>
  The meaning the protocol gives a condition, from which steps succeeded and which failed;
  whether the stream is in autocommit mode is answered by the server, always positively.
\<close>

fun condHolds :: "(nat \<Rightarrow> bool) \<Rightarrow> (nat \<Rightarrow> bool) \<Rightarrow> batch_cond \<Rightarrow> bool" where
  "condHolds ok failed (BatchCond ty step inner conds) \<longleftrightarrow>
    (if ty = ''ok'' then (case step of None \<Rightarrow> False | Some i \<Rightarrow> ok (unat i))
     else if ty = ''error'' then (case step of None \<Rightarrow> False | Some i \<Rightarrow> failed (unat i))
     else if ty = ''not'' then (case inner of None \<Rightarrow> False | Some c \<Rightarrow> \<not> condHolds ok failed c)
     else if ty = ''and'' then (\<forall>c \<in> set conds. condHolds ok failed c)
     else if ty = ''or'' then (\<exists>c \<in> set conds. condHolds ok failed c)
     else ty = ''is_autocommit'')"

definition isSet :: "'a option list \<Rightarrow> nat \<Rightarrow> bool" where
  "isSet xs i \<longleftrightarrow> i < length xs \<and> xs ! i \<noteq> None"

lemma evalBatchCond_holds:
  "condWf c \<Longrightarrow> evalBatchCond c rs es = Inr (condHolds (isSet rs) (isSet es) c)"
  "(\<forall>c \<in> set cs. condWf c) \<Longrightarrow>
    evalAnd cs rs es = Inr (\<forall>c \<in> set cs. condHolds (isSet rs) (isSet es) c)"
  "(\<forall>c \<in> set cs. condWf c) \<Longrightarrow>
    evalOr cs rs es = Inr (\<exists>c \<in> set cs. condHolds (isSet rs) (isSet es) c)"
proof (induction c rs es and cs rs es and cs rs es
    rule: evalBatchCond_evalAnd_evalOr.induct)
  case (1 ty step inner conds results errors)
  consider "ty = ''ok''" | "ty = ''error''" | "ty = ''not''" | "ty = ''and''" | "ty = ''or''"
    | "ty = ''is_autocommit''"
    using "1.prems" by (metis condWf.simps)
  then show ?case
  proof cases
    case 3
    with "1.prems" obtain d where "inner = Some d" "condWf d" by (auto split: option.splits)
    with 1(1) 3 show ?thesis by simp
  next
    case 4
    with 1(2) "1.prems" show ?thesis by simp
  next
    case 5
    with 1(3) "1.prems" show ?thesis by simp
  qed (use "1.prems" in \<open>auto simp: isSet_def\<close>)
qed auto

text \<open>
  A well-formed condition never fails and means what the protocol says: \<open>ok\<close> and
  \<open>error\<close> look at the outcome of the step they name, which is negative for a step that
  was skipped, has not run yet or does not exist, and \<open>not\<close>, \<open>and\<close>, \<open>or\<close> are
  the connectives.
\<close>

theorem evalBatchCond_meaning:
  assumes "condWf c"
  shows "evalBatchCond c results errors = Inr (condHolds (isSet results) (isSet errors) c)"
  using assms by (rule evalBatchCond_holds)

theorem evalBatchCond_meaning_witness:
  "let c = BatchCond ''not'' None (Some (BatchCond ''or'' None None
            [BatchCond ''error'' (Some 1) None [], BatchCond ''ok'' (Some 9) None []])) [];
       rs = [Some (), None]; es = [None, None :: unit option]
   in evalBatchCond c rs es = Inr (condHolds (isSet rs) (isSet es) c)
      \<and> condHolds (isSet rs) (isSet es) c"
proof -
  let ?c = "BatchCond ''not'' None (Some (BatchCond ''or'' None None
            [BatchCond ''error'' (Some 1) None [], BatchCond ''ok'' (Some 9) None []])) []"
  have "condWf ?c" by simp
  from evalBatchCond_meaning[OF this, of "[Some (), None]" "[None, None :: unit option]"]
  show ?thesis by (simp add: isSet_def)
qed

section \<open>The two arrays\<close>

text \<open>The array as it was before step \<open>i\<close> ran.\<close>

definition before :: "nat \<Rightarrow> 'a option list \<Rightarrow> 'a option list" where
  "before i xs = take i xs @ replicate (length xs - i) None"

definition unsetFrom :: "nat \<Rightarrow> 'a option list \<Rightarrow> bool" where
  "unsetFrom i xs \<longleftrightarrow> (\<forall>j < length xs. i \<le> j \<longrightarrow> xs ! j = None)"

lemma before_eq:
  assumes "unsetFrom i xs" and "take i ys = take i xs" and "length ys = length xs"
  shows "before i ys = xs"
proof (rule nth_equalityI)
  show "length (before i ys) = length xs" using assms(3) by (simp add: before_def)
  fix j assume "j < length (before i ys)"
  then have j: "j < length xs" using assms(3) by (simp add: before_def)
  then show "before i ys ! j = xs ! j"
    using assms by (cases "j < i") (auto simp: before_def nth_append unsetFrom_def min_def)
qed

lemma unsetFrom_Suc [intro]: "unsetFrom i xs \<Longrightarrow> unsetFrom (Suc i) xs"
  by (simp add: unsetFrom_def)

lemma unsetFrom_update [intro]: "unsetFrom i xs \<Longrightarrow> unsetFrom (Suc i) (xs[i := x])"
  by (simp add: unsetFrom_def)

lemma take_Suc_eqD:
  "take (Suc i) ys = take (Suc i) xs \<Longrightarrow> i < length xs \<Longrightarrow> length ys = length xs \<Longrightarrow>
    take i ys = take i xs \<and> ys ! i = xs ! i"
  by (simp add: take_Suc_conv_app_nth)

definition exclusive :: "'a option list \<Rightarrow> 'b option list \<Rightarrow> bool" where
  "exclusive rs es \<longleftrightarrow> (\<forall>j. \<not> (isSet rs j \<and> isSet es j))"

lemma exclusive_result:
  assumes "exclusive rs es" and "es ! i = None"
  shows "exclusive (rs[i := x]) es"
  unfolding exclusive_def
proof
  fix j show "\<not> (isSet (rs[i := x]) j \<and> isSet es j)"
    using assms by (cases "j = i") (auto simp: exclusive_def isSet_def)
qed

lemma exclusive_error:
  assumes "exclusive rs es" and "rs ! i = None"
  shows "exclusive rs (es[i := x])"
  unfolding exclusive_def
proof
  fix j show "\<not> (isSet rs j \<and> isSet (es[i := x]) j)"
    using assms by (cases "j = i") (auto simp: exclusive_def isSet_def)
qed

lemma batchLoop_spec:
  assumes "batchLoop E st S i steps rs es w = (Inr br, w')"
    and "length rs = i + length steps" and "length es = length rs"
    and "unsetFrom i rs" and "unsetFrom i es" and "exclusive rs es"
  shows "length (StepResults br) = length rs \<and> length (StepErrors br) = length rs
    \<and> take i (StepResults br) = take i rs \<and> take i (StepErrors br) = take i es
    \<and> exclusive (StepResults br) (StepErrors br)
    \<and> (\<forall>k < length steps. stepEnabled (steps ! k) (before (i + k) (StepResults br))
          (before (i + k) (StepErrors br))
        = Inr (isSet (StepResults br) (i + k) \<or> isSet (StepErrors br) (i + k)))"
  using assms
proof (induction steps arbitrary: i rs es w)
  case Nil
  then show ?case by auto
next
  case (Cons step steps)
  obtain ok where ok: "stepEnabled step rs es = Inr ok"
    using Cons.prems(1) by (auto split: sum.splits)
  have i: "i < length rs" "rs ! i = None" "es ! i = None"
    using Cons.prems by (auto simp: unsetFrom_def)
  obtain rs' es' w1 where next_step: "batchLoop E st S (Suc i) steps rs' es' w1 = (Inr br, w')"
    and len: "length rs' = length rs" "length es' = length rs"
    and un: "unsetFrom (Suc i) rs'" "unsetFrom (Suc i) es'" and ex: "exclusive rs' es'"
    and tk: "take i rs' = take i rs" "take i es' = take i es"
    and ran: "ok \<longleftrightarrow> rs' ! i \<noteq> None \<or> es' ! i \<noteq> None"
  proof (cases ok)
    case False
    with Cons.prems ok i show ?thesis by (intro that[of rs es w]) auto
  next
    case True
    obtain r w1 where ex: "executeStmt E st (Stmt step) S w = (r, w1)" by (metis surj_pair)
    show ?thesis
    proof (cases r)
      case (Inl e)
      with True Cons.prems ok i ex show ?thesis
        by (intro that[of rs "es[i := Some (newError e)]" w1]) (auto intro: exclusive_error)
    next
      case (Inr x)
      with True Cons.prems ok i ex show ?thesis
        by (intro that[of "rs[i := Some x]" es w1]) (auto intro: exclusive_result)
    qed
  qed
  have "length rs' = Suc i + length steps" using len Cons.prems(2) by simp
  note ih = Cons.IH[OF next_step this _ un ex]
  have R: "length (StepResults br) = length rs" "length (StepErrors br) = length rs"
    "exclusive (StepResults br) (StepErrors br)"
    using ih len by auto
  have ti: "take i (StepResults br) = take i rs" "StepResults br ! i = rs' ! i"
    "take i (StepErrors br) = take i es" "StepErrors br ! i = es' ! i"
    using ih len tk i R take_Suc_eqD[of i "StepResults br" rs'] take_Suc_eqD[of i "StepErrors br" es']
    by auto
  have b: "before i (StepResults br) = rs" "before i (StepErrors br) = es"
    using Cons.prems ti R by (auto intro: before_eq)
  have "stepEnabled ((step # steps) ! k) (before (i + k) (StepResults br))
          (before (i + k) (StepErrors br))
        = Inr (isSet (StepResults br) (i + k) \<or> isSet (StepErrors br) (i + k))"
    if "k < length (step # steps)" for k
  proof (cases k)
    case 0
    with ok ran ti b R i show ?thesis by (auto simp: isSet_def)
  next
    case (Suc m)
    with ih len that show ?thesis by simp
  qed
  with R ti show ?case by blast
qed

lemma executeBatch_spec:
  assumes "executeBatch E st steps S w = (Inr br, w')"
  shows "length (StepResults br) = length steps \<and> length (StepErrors br) = length steps
    \<and> (\<forall>i. \<not> (isSet (StepResults br) i \<and> isSet (StepErrors br) i))
    \<and> (\<forall>i < length steps.
        stepEnabled (steps ! i) (before i (StepResults br)) (before i (StepErrors br))
        = Inr (isSet (StepResults br) i \<or> isSet (StepErrors br) i))"
proof -
  let ?n = "replicate (length steps) None"
  have "batchLoop E st S 0 steps ?n ?n w = (Inr br, w')"
    using assms by (simp add: executeBatch_def)
  then have "length (StepResults br) = length (?n :: stmt_result option list)
      \<and> length (StepErrors br) = length (?n :: stmt_result option list)
      \<and> take 0 (StepResults br) = take 0 ?n \<and> take 0 (StepErrors br) = take 0 ?n
      \<and> exclusive (StepResults br) (StepErrors br)
      \<and> (\<forall>k < length steps. stepEnabled (steps ! k) (before (0 + k) (StepResults br))
            (before (0 + k) (StepErrors br))
          = Inr (isSet (StepResults br) (0 + k) \<or> isSet (StepErrors br) (0 + k)))"
    by (rule batchLoop_spec) (auto simp: unsetFrom_def exclusive_def isSet_def)
  then show ?thesis by (simp add: exclusive_def)
qed

text \<open>
  C9.  The result of a batch: both arrays have one slot per step, no step has a result
  and an error, and a step left a mark in one of them exactly when its condition held on
  the outcomes of the steps before it (a step without a condition always ran).
\<close>

theorem executeBatch_arrays:
  assumes "executeBatch E st steps S w = (Inr br, w')"
  shows "length (StepResults br) = length steps \<and> length (StepErrors br) = length steps
    \<and> (\<forall>i. \<not> (isSet (StepResults br) i \<and> isSet (StepErrors br) i))
    \<and> (\<forall>i < length steps.
        stepEnabled (steps ! i) (before i (StepResults br)) (before i (StepErrors br))
        = Inr (isSet (StepResults br) i \<or> isSet (StepErrors br) i))"
  using assms by (rule executeBatch_spec)

text \<open>An environment whose driver accepts everything but one text, for concrete runs.\<close>

definition pickyEnv :: "string \<Rightarrow> unit env" where
  "pickyEnv bad =
    \<lparr>drvExec = (\<lambda>h sql args w.
        (if sql = bad then Inl ''bad'' else Inr \<lparr>RowsAffected = 1, LastInsertId = 0\<rparr>, w)),
     drvQuery = (\<lambda>h sql args w. (Inl ''no query'', w)),
     drvConn = (\<lambda>db w. (Inr 0, w)),
     drvRelease = (\<lambda>h w. w),
     randRead = (\<lambda>n w. (Inr (replicate n 7), w)),
     clock = (\<lambda>w. 0)\<rparr>"

abbreviation execOnly :: "string \<Rightarrow> stmt" where
  "execOnly sql \<equiv>
    \<lparr>SQL = Some sql, SQLId = None, Args = [], NamedArgs = [], WantRows = Some False\<rparr>"

abbreviation someConn :: gconn where
  "someConn \<equiv> \<lparr>handle = 0, connGeneration = 1, connDone = False\<rparr>"

lemmas run_defs = executeBatch_def executeStmt_def stepEnabled_def resolveStmtSQL_def
  modePermits_def newStream_def wantRows_def execContext_def pickyEnv_def newError_def
  execResultToStmtResult_def lastRowid_def microseconds_def

lemma step_a_then_b:
  "executeBatch (pickyEnv ''a'') (newStream 1 someConn)
      [\<lparr>Condition = None, Stmt = execOnly ''a''\<rparr>,
       \<lparr>Condition = Some (BatchCond ''ok'' (Some 0) None []), Stmt = execOnly ''b''\<rparr>] [] ()
    = (Inr \<lparr>StepResults = [None, None],
           StepErrors = [Some (newError (DriverError ''bad'')), None]\<rparr>, ())"
  by (simp add: run_defs buildArgs_def)

theorem executeBatch_arrays_witness:
  "let br = \<lparr>StepResults = [None, None],
             StepErrors = [Some (newError (DriverError ''bad'')), None]\<rparr>
   in stepEnabled \<lparr>Condition = Some (BatchCond ''ok'' (Some 0) None []), Stmt = execOnly ''b''\<rparr>
        (before 1 (StepResults br)) (before 1 (StepErrors br)) = Inr False"
  using executeBatch_arrays[OF step_a_then_b] by (simp add: isSet_def before_def All_less_Suc)

section \<open>Chains\<close>

text \<open>
  The batches a client builds for a transaction: every step but the first has the
  condition that the step before it succeeded.
\<close>

definition chained :: "batch_step list \<Rightarrow> bool" where
  "chained steps \<longleftrightarrow>
    (\<forall>i < length steps. Condition (steps ! i) =
      (case i of 0 \<Rightarrow> None | Suc j \<Rightarrow> Some (BatchCond ''ok'' (Some (of_nat j)) None [])))"

lemma isSet_before: "i \<le> length xs \<Longrightarrow> isSet (before i xs) j \<longleftrightarrow> j < i \<and> isSet xs j"
  by (auto simp: isSet_def before_def nth_append)

lemma chained_enabled:
  assumes "chained steps" and "i < length steps" and "length steps \<le> 2 ^ 32"
    and "length rs = length steps"
  shows "stepEnabled (steps ! i) (before i rs) es
    = Inr (case i of 0 \<Rightarrow> True | Suc j \<Rightarrow> isSet rs j)"
proof (cases i)
  case 0
  with assms show ?thesis by (simp add: chained_def stepEnabled_def)
next
  case (Suc j)
  have j: "unat (of_nat j :: u32) = j"
    using assms(2,3) Suc by (simp add: unat_of_nat take_bit_nat_eq_self)
  have c: "Condition (steps ! i) = Some (BatchCond ''ok'' (Some (of_nat j)) None [])"
    using assms(1,2) Suc by (auto simp: chained_def)
  have "stepEnabled (steps ! i) (before i rs) es = Inr (isSet (before i rs) j)"
    by (auto simp: stepEnabled_def c j isSet_def)
  then show ?thesis using isSet_before[of i rs j] assms Suc by simp
qed

lemma prefix_closed_split:
  assumes "\<And>i. P (Suc i) \<Longrightarrow> Suc i < n \<Longrightarrow> P i"
  shows "\<exists>k \<le> n. \<forall>i < n. P i \<longleftrightarrow> i < k"
  using assms
proof (induction n)
  case 0
  then show ?case by simp
next
  case (Suc n)
  then obtain k where k: "k \<le> n" "\<forall>i < n. P i \<longleftrightarrow> i < k" by (meson less_SucI)
  show ?case
  proof (cases "P n")
    case True
    have "k = n"
    proof (rule ccontr)
      assume "k \<noteq> n"
      then obtain m where m: "n = Suc m" using k(1) by (cases n) auto
      then have "P m" using True Suc.prems[of m] by simp
      then show False using k m \<open>k \<noteq> n\<close> by auto
    qed
    with True k(2) show ?thesis by (intro exI[of _ "Suc n"]) (auto simp: less_Suc_eq)
  next
    case False
    with k show ?thesis by (intro exI[of _ k]) (auto simp: less_Suc_eq)
  qed
qed

text \<open>
  A chain stops at its first failure: the steps before it have results, it alone has
  an error, and no step after it left any mark.
\<close>

theorem executeBatch_chain:
  assumes "chained steps" and "length steps \<le> 2 ^ 32"
    and "executeBatch E st steps S w = (Inr br, w')"
  shows "\<exists>k \<le> length steps. \<forall>i < length steps.
    (isSet (StepResults br) i \<longleftrightarrow> i < k) \<and> (isSet (StepErrors br) i \<longleftrightarrow> i = k)"
proof -
  let ?rs = "StepResults br" and ?es = "StepErrors br" and ?n = "length steps"
  from executeBatch_spec[OF assms(3)]
  have len: "length ?rs = ?n" "length ?es = ?n"
    and ex: "\<And>i. \<not> (isSet ?rs i \<and> isSet ?es i)"
    and en: "\<And>i. i < ?n \<Longrightarrow> stepEnabled (steps ! i) (before i ?rs) (before i ?es)
      = Inr (isSet ?rs i \<or> isSet ?es i)" by auto
  have mark: "isSet ?rs i \<or> isSet ?es i \<longleftrightarrow> (case i of 0 \<Rightarrow> True | Suc j \<Rightarrow> isSet ?rs j)"
    if "i < ?n" for i
    using en[OF that] chained_enabled[OF assms(1) that assms(2) len(1), of "before i ?es"] by simp
  obtain k where k: "k \<le> ?n" "\<forall>i < ?n. isSet ?rs i \<longleftrightarrow> i < k"
    using prefix_closed_split[of "isSet ?rs" ?n] mark by fastforce
  have "isSet ?es i \<longleftrightarrow> i = k" if i: "i < ?n" for i
  proof (cases i)
    case 0
    with mark[OF i] ex[of i] k i show ?thesis by auto
  next
    case (Suc j)
    with mark[OF i] ex[of i] k i show ?thesis by auto
  qed
  with k show ?thesis by blast
qed

theorem executeBatch_chain_witness:
  "let br = \<lparr>StepResults = [None, None :: stmt_result option],
             StepErrors = [Some (newError (DriverError ''bad'')), None]\<rparr>
   in isSet (StepErrors br) 0 = (\<not> isSet (StepResults br) 0) \<and> \<not> isSet (StepErrors br) 1"
proof -
  let ?steps = "[\<lparr>Condition = None, Stmt = execOnly ''a''\<rparr>,
       \<lparr>Condition = Some (BatchCond ''ok'' (Some 0) None []), Stmt = execOnly ''b''\<rparr>]"
  have "chained ?steps" by (auto simp: chained_def less_Suc_eq)
  moreover have "length ?steps \<le> 2 ^ 32" by simp
  ultimately show ?thesis
    using executeBatch_chain[OF _ _ step_a_then_b] by (auto simp: All_less_Suc isSet_def)
qed

end
