(* ===== verification/Readonly.thy ===== *)
theory Readonly
  imports Batches
begin

text \<open>
  What reaches the database: a read-only stream sends it no text the server classifies as
  a write, in statements, batches and sequences; a sequence sends the pieces of its script
  in order; \<open>describe\<close> and the batch behind a cursor do not look at the mode.
\<close>

section \<open>The executor keeps every driver invariant its mode allows\<close>

context driver_invariant
begin

lemma executeStmt_inv:
  assumes permitted: "\<And>sql. modePermits (Mode st) sql \<Longrightarrow> allowed sql"
    and "P w" and "executeStmt E st s S w = (r, w')"
  shows "P w'"
proof (cases "resolveStmtSQL s S")
  case (Inl e)
  with assms(2,3) show ?thesis by (simp add: executeStmt_def)
next
  case (Inr sql)
  show ?thesis
  proof (cases "modePermits (Mode st) sql")
    case False
    with Inr assms(2,3) show ?thesis by (simp add: executeStmt_def)
  next
    case True
    note ok = permitted[OF True]
    show ?thesis
    proof (cases "buildArgs (Args s) (NamedArgs s)")
      case (Inl e)
      with \<open>resolveStmtSQL s S = Inr sql\<close> True assms(2,3) show ?thesis by (simp add: executeStmt_def)
    next
      case (Inr args)
      note go = \<open>resolveStmtSQL s S = Inr sql\<close> True Inr assms(3)
      show ?thesis
      proof (cases "wantRows s")
        case True
        obtain q w1 where q: "queryContext E (Conn st) sql args w = (q, w1)" by (metis surj_pair)
        then have "w' = w1" using go True by (cases q) (auto simp: executeStmt_def Let_def)
        then show ?thesis using queryContext_inv[OF ok assms(2) q] by simp
      next
        case False
        obtain q w1 where q: "execContext E (Conn st) sql args w = (q, w1)" by (metis surj_pair)
        then have "w' = w1" using go False by (cases q) (auto simp: executeStmt_def Let_def)
        then show ?thesis using execContext_inv[OF ok assms(2) q] by simp
      qed
    qed
  qed
qed

lemma batchLoop_inv:
  assumes permitted: "\<And>sql. modePermits (Mode st) sql \<Longrightarrow> allowed sql"
  shows "P w \<Longrightarrow> batchLoop E st S i steps rs es w = (r, w') \<Longrightarrow> P w'"
proof (induction steps arbitrary: i rs es w)
  case Nil
  then show ?case by simp
next
  case (Cons step steps)
  show ?case
  proof (cases "stepEnabled step rs es")
    case (Inl e)
    with Cons.prems show ?thesis by simp
  next
    case (Inr ok)
    obtain x w1 where x: "executeStmt E st (Stmt step) S w = (x, w1)" by (metis surj_pair)
    have "P w1" using executeStmt_inv[OF permitted Cons.prems(1) x] by blast
    with Cons.IH Cons.prems Inr x show ?thesis
      by (cases ok; cases x) auto
  qed
qed

lemma seqLoop_inv:
  assumes permitted: "\<And>sql. modePermits (Mode st) sql \<Longrightarrow> allowed sql"
  shows "P w \<Longrightarrow> seqLoop E st pieces w = (r, w') \<Longrightarrow> P w'"
proof (induction pieces arbitrary: w)
  case Nil
  then show ?case by simp
next
  case (Cons p pieces)
  obtain x w1 where x: "execContext E (Conn st) (trimSpace p) [] w = (x, w1)" by (metis surj_pair)
  have "modePermits (Mode st) (trimSpace p) \<Longrightarrow> P w1"
    using execContext_inv[OF permitted Cons.prems(1) x] by blast
  with Cons x show ?case
    by (cases x) (auto simp: Let_def split: if_splits)
qed

lemma executor_keeps:
  assumes "\<And>sql. modePermits (Mode st) sql \<Longrightarrow> allowed sql" and "P w"
  shows "P (snd (executeStmt E st s S w))" and "P (snd (executeBatch E st steps S w))"
    and "P (snd (executeSequence E st text w))"
  using executeStmt_inv[OF assms surjective_pairing] batchLoop_inv[OF assms surjective_pairing]
    seqLoop_inv[OF assms surjective_pairing]
  by (simp_all add: executeBatch_def executeSequence_def)

end



section \<open>Sequences\<close>

text \<open>The statements of a script as the server cuts it.\<close>

definition scriptPieces :: "string \<Rightarrow> string list" where
  "scriptPieces text = filter (\<lambda>s. s \<noteq> []) (map trimSpace (splitByte CHR '';'' text))"

lemma seqLoop_trace:
  assumes "seqLoop (traced E) st ps (w, l) = (r, (w', l'))" and "\<not> connDone (Conn st)"
  shows "\<exists>sent rest. filter (\<lambda>s. s \<noteq> []) (map trimSpace ps) = sent @ rest \<and> l' = rev sent @ l
    \<and> (case r of
         Inr _ \<Rightarrow> rest = []
       | Inl e \<Rightarrow> (e = ReadonlyViolation \<and> Mode st = ModeReadOnly \<and> rest \<noteq> [] \<and> isWriteStatement (hd rest))
               \<or> (\<exists>d. e = SequenceError d \<and> sent \<noteq> []))"
  using assms
proof (induction ps arbitrary: w l)
  case Nil
  then show ?case by auto
next
  case (Cons p ps)
  let ?s = "trimSpace p"
  consider (blank) "?s = []" | (denied) "?s \<noteq> []" "\<not> modePermits (Mode st) ?s"
    | (run) "?s \<noteq> []" "modePermits (Mode st) ?s" by blast
  then show ?case
  proof cases
    case blank
    with Cons show ?thesis by (simp add: Let_def)
  next
    case denied
    with Cons.prems show ?thesis
      by (intro exI[of _ "[]"] exI[of _ "?s # filter (\<lambda>s. s \<noteq> []) (map trimSpace ps)"])
        (auto simp: Let_def modePermits_def)
  next
    case run
    obtain x w1 where x: "drvExec E (handle (Conn st)) ?s [] w = (x, w1)" by (metis surj_pair)
    have ec: "execContext (traced E) (Conn st) ?s [] (w, l)
        = ((case x of Inl e \<Rightarrow> Inl (DriverError e) | Inr y \<Rightarrow> Inr y), (w1, ?s # l))"
      using Cons.prems(2) x by (simp add: execContext_def traced_def split: sum.splits)
    show ?thesis
    proof (cases x)
      case (Inl e)
      with run ec Cons.prems show ?thesis
        by (intro exI[of _ "[?s]"] exI[of _ "filter (\<lambda>s. s \<noteq> []) (map trimSpace ps)"])
          (auto simp: Let_def)
    next
      case (Inr y)
      with run ec Cons.prems have "seqLoop (traced E) st ps (w1, ?s # l) = (r, (w', l'))"
        by (simp add: Let_def)
      from Cons.IH[OF this Cons.prems(2)] obtain sent rest where
        "filter (\<lambda>s. s \<noteq> []) (map trimSpace ps) = sent @ rest" "l' = rev sent @ ?s # l"
        and c: "case r of Inr _ \<Rightarrow> rest = []
       | Inl e \<Rightarrow> (e = ReadonlyViolation \<and> Mode st = ModeReadOnly \<and> rest \<noteq> [] \<and> isWriteStatement (hd rest))
               \<or> (\<exists>d. e = SequenceError d \<and> sent \<noteq> [])" by blast
      with run show ?thesis
        by (intro exI[of _ "?s # sent"] exI[of _ rest]) (auto split: sum.splits)
    qed
  qed
qed

text \<open>
  A sequence on an open connection sends a prefix of the trimmed, non-empty pieces of
  its script, in order and without arguments: all of them when it reports success;
  otherwise it stopped at the first piece the driver refused, or in front of the first
  piece the mode does not permit.
\<close>

theorem executeSequence_in_order:
  assumes "executeSequence (traced E) st text (w, []) = (r, (w', l))"
    and "\<not> connDone (Conn st)"
  shows "\<exists>rest. scriptPieces text = rev l @ rest
    \<and> (case r of
         Inr _ \<Rightarrow> rest = []
       | Inl e \<Rightarrow> (e = ReadonlyViolation \<and> Mode st = ModeReadOnly \<and> rest \<noteq> [] \<and> isWriteStatement (hd rest))
               \<or> (\<exists>d. e = SequenceError d \<and> l \<noteq> []))"
  using seqLoop_trace[OF assms(1)[unfolded executeSequence_def] assms(2)]
  by (fastforce simp: scriptPieces_def split: sum.splits)

lemma split_of_literal:
  "executeSequence (traced (pickyEnv '''')) (newStream 1 someConn)
      (''INSERT INTO t VALUES ('' @ [CHR 0x27] @ ''a;b'' @ [CHR 0x27] @ '')'') ((), [])
    = (Inr (), ((), [''b'' @ [CHR 0x27] @ '')'', ''INSERT INTO t VALUES ('' @ [CHR 0x27] @ ''a'']))"
  by code_simp

theorem executeSequence_in_order_witness:
  "scriptPieces (''INSERT INTO t VALUES ('' @ [CHR 0x27] @ ''a;b'' @ [CHR 0x27] @ '')'')
    = [''INSERT INTO t VALUES ('' @ [CHR 0x27] @ ''a'', ''b'' @ [CHR 0x27] @ '')'']"
  using executeSequence_in_order[OF split_of_literal] by (simp add: newStream_def)

section \<open>Describe and cursors do not look at the mode\<close>

lemma executeBatchCursor_ignores_mode_aux:
  "cursorLoop E (st\<lparr>Mode := m\<rparr>) S i steps rs es w = cursorLoop E st S i steps rs es w"
proof (induction steps arbitrary: i rs es w)
  case Nil
  then show ?case by simp
next
  case (Cons step steps)
  have "Conn (st\<lparr>Mode := m\<rparr>) = Conn st" by simp
  then have "cursorStep E (st\<lparr>Mode := m\<rparr>) S k s w = cursorStep E st S k s w" for k s
    by (simp only: cursorStep_def)
  with Cons show ?case by (simp split: sum.split prod.split)
qed

text \<open>
  The mode of the stream has no influence on \<open>describe\<close> nor on the batch behind a
  cursor: both hand their text to the driver, whatever it is.  On a read-only stream a
  cursor over a \<open>DELETE\<close> sends it, where the plain batch refuses it.
\<close>

theorem cursor_and_describe_ignore_mode:
  "executeBatchCursor E (st\<lparr>Mode := m\<rparr>) steps S w = executeBatchCursor E st steps S w
   \<and> describeStmt E (st\<lparr>Mode := m\<rparr>) sql w = describeStmt E st sql w
   \<and> (let ro = (newStream 1 someConn)\<lparr>Mode := ModeReadOnly\<rparr>;
          steps = [\<lparr>Condition = None, Stmt = execOnly ''DELETE FROM t''\<rparr>]
      in snd (snd (executeBatch (traced (pickyEnv '''')) ro steps [] ((), []))) = []
         \<and> snd (snd (executeBatchCursor (traced (pickyEnv '''')) ro steps [] ((), []))) = [''DELETE FROM t'']
         \<and> snd (snd (describeStmt (traced (pickyEnv '''')) ro ''DELETE FROM t'' ((), []))) = [''DELETE FROM t''])"
proof -
  let ?ro = "(newStream 1 someConn)\<lparr>Mode := ModeReadOnly\<rparr>"
  let ?steps = "[\<lparr>Condition = None, Stmt = execOnly ''DELETE FROM t''\<rparr>]"
  have 1: "snd (snd (executeBatch (traced (pickyEnv '''')) ?ro ?steps [] ((), []))) = []"
    by code_simp
  have 2: "snd (snd (executeBatchCursor (traced (pickyEnv '''')) ?ro ?steps [] ((), [])))
      = [''DELETE FROM t'']"
    by code_simp
  have 3: "snd (snd (describeStmt (traced (pickyEnv '''')) ?ro ''DELETE FROM t'' ((), [])))
      = [''DELETE FROM t'']"
    by code_simp
  show ?thesis
    using 1 2 3 by (simp add: executeBatchCursor_def executeBatchCursor_ignores_mode_aux describeStmt_def)
qed

end
