(* ===== verification/CursorBatch.thy ===== *)
theory CursorBatch
  imports Readonly
begin

text \<open>
  The batch behind a cursor against the plain batch.  \<open>executeBatchCursor\<close> repeats the
  work of \<open>executeBatch\<close> with its own code; here it is shown to make the same driver calls
  and to emit exactly the entries the result of the plain batch stands for.
\<close>

section \<open>The entries a step stands for\<close>

text \<open>The plain batch wraps an error met while reading rows; the cursor reports it bare.\<close>

fun rowError :: "error \<Rightarrow> error" where
  "rowError (ScanningRow e) = e"
| "rowError (IteratingRows e) = e"
| "rowError e = e"

definition isClosing :: "cursor_entry \<Rightarrow> bool" where
  "isClosing x \<longleftrightarrow> (case x of StepEnd _ _ \<Rightarrow> True | StepError _ _ \<Rightarrow> True | ErrorEntry _ \<Rightarrow> True | _ \<Rightarrow> False)"

fun matchStep ::
  "nat \<Rightarrow> stmt_result option \<Rightarrow> hrana_error option \<Rightarrow> cursor_entry list \<Rightarrow> bool" where
  "matchStep i None None blk \<longleftrightarrow> blk = []"
| "matchStep i (Some r) None blk \<longleftrightarrow>
    blk = StepBegin (of_nat i) (Cols r) # map Row (Rows r)
      @ [StepEnd (ucast (AffectedRowCount r)) (LastInsertRowid r)]"
| "matchStep i None (Some e) blk \<longleftrightarrow>
    blk \<noteq> [] \<and> last blk = StepError (of_nat i) (newError (rowError (Message e)))
      \<and> (\<forall>x \<in> set (butlast blk). \<not> isClosing x)"
| "matchStep i (Some r) (Some e) blk \<longleftrightarrow> False"

text \<open>
  A result set of \<open>database/sql\<close> that was just opened answers \<open>Columns\<close> and
  \<open>ColumnTypes\<close>; they fail only on a closed one.
\<close>

definition namedRows :: "'d env \<Rightarrow> bool" where
  "namedRows E \<longleftrightarrow> (\<forall>h sql args w rows w'. drvQuery E h sql args w = (Inr rows, w') \<longrightarrow>
    (\<exists>ns ts. Columns rows = Inr ns \<and> ColumnTypes rows = Inr ts))"

section \<open>One step\<close>

lemma scanUntil_mapR:
  "scanUntil n items = (case mapR (scanRow n) items of
      Inr rows \<Rightarrow> (rows, None) | Inl e \<Rightarrow> (fst (scanUntil n items), Some e))"
  by (induction items) (auto split: sum.splits prod.splits)

lemma rowError_simps [simp]:
  "rowError (DriverError d) = DriverError d" "rowError ConnDone = ConnDone"
  by simp_all

lemma scanRow_error: "scanRow n x = Inl e \<Longrightarrow> (\<exists>d. e = DriverError d) \<or> (\<exists>k. e = ScanCount n k)"
  by (cases "(n, x)" rule: scanRow.cases) (auto split: if_splits)

lemma resolve_error_bare: "resolveStmtSQL s S = Inl e \<Longrightarrow> rowError e = e"
  by (auto simp: resolveStmtSQL_def split: option.splits)

lemma exec_error_bare: "execContext E c sql args w = (Inl e, w') \<Longrightarrow> rowError e = e"
  by (auto simp: execContext_def split: if_splits prod.splits sum.splits)

lemma query_error_bare: "queryContext E c sql args w = (Inl e, w') \<Longrightarrow> rowError e = e"
  by (auto simp: queryContext_def split: if_splits prod.splits sum.splits)

lemma args_error_bare: "buildArgs xs ys = Inl e \<Longrightarrow> rowError e = e"
  by (auto simp: buildArgs_def valueToAny_def dest!: mapR_error split: if_splits sum.splits)

lemma queryContext_named:
  assumes "namedRows E" and "queryContext E c sql args w = (Inr rows, w')"
  obtains ns ts where "Columns rows = Inr ns" and "ColumnTypes rows = Inr ts"
proof -
  have "drvQuery E (handle c) sql args w = (Inr rows, w')"
    using assms(2) by (auto simp: queryContext_def split: if_splits prod.splits sum.splits)
  then show ?thesis using assms(1) that by (meson namedRows_def)
qed

lemma cursorQuery_matches:
  assumes "Columns rows = Inr ns" and "ColumnTypes rows = Inr ts"
    and "cursorQuery (of_nat i) rows = (blk, out)"
  shows "case rowsToStmtResult rows dur of
      Inr r \<Rightarrow> (\<exists>y. out = Inr y) \<and> matchStep i (Some r) None blk
    | Inl e \<Rightarrow> (\<exists>e'. out = Inl e') \<and> matchStep i None (Some (newError e)) blk"
proof (cases "mapR (scanRow (length ns)) (RowItems rows)")
  case (Inl e)
  then obtain pre where "scanUntil (length ns) (RowItems rows) = (pre, Some e)"
    using scanUntil_mapR[of "length ns" "RowItems rows"] by simp
  then show ?thesis
    using assms Inl
    by (auto simp: cursorQuery_def rowsToStmtResult_def Let_def newError_def isClosing_def
        butlast_append)
next
  case (Inr rs)
  then have "scanUntil (length ns) (RowItems rows) = (rs, None)"
    using scanUntil_mapR[of "length ns" "RowItems rows"] by simp
  then show ?thesis
    using assms Inr
    by (cases "RowsErr rows")
      (auto simp: cursorQuery_def rowsToStmtResult_def Let_def newError_def isClosing_def
        butlast_append)
qed

lemma cursorStep_matches:
  assumes "namedRows E" and "Mode st \<noteq> ModeReadOnly"
    and run: "executeStmt E st s S w = (r, w')"
    and cur: "cursorStep E st S (of_nat i) s w = ((blk, out), w'')"
  shows "w'' = w' \<and> (case r of
      Inr x \<Rightarrow> (\<exists>y. out = Inr y) \<and> matchStep i (Some x) None blk
    | Inl e \<Rightarrow> (\<exists>e'. out = Inl e') \<and> matchStep i None (Some (newError e)) blk)"
proof (cases "resolveStmtSQL s S")
  case (Inl e)
  with run cur show ?thesis
    by (auto simp: executeStmt_def cursorStep_def newError_def isClosing_def resolve_error_bare)
next
  case sql: (Inr sql)
  note mode = modePermits_other[OF assms(2)]
  show ?thesis
  proof (cases "buildArgs (Args s) (NamedArgs s)")
    case (Inl e)
    with run cur sql mode show ?thesis
      by (auto simp: executeStmt_def cursorStep_def newError_def isClosing_def args_error_bare)
  next
    case args: (Inr args)
    show ?thesis
    proof (cases "wantRows s")
      case True
      obtain q w1 where q: "queryContext E (Conn st) sql args w = (q, w1)" by (metis surj_pair)
      show ?thesis
      proof (cases q)
        case (Inl e)
        with run cur sql args mode q True show ?thesis
          by (auto simp: executeStmt_def cursorStep_def newError_def isClosing_def query_error_bare)
      next
        case (Inr rows)
        then obtain ns ts where "Columns rows = Inr ns" "ColumnTypes rows = Inr ts"
          using queryContext_named[OF assms(1)] q by metis
        with run cur sql args mode q True Inr show ?thesis
          using cursorQuery_matches[of rows ns ts i blk out "clock E w1 - clock E w"]
          by (auto simp: executeStmt_def cursorStep_def Let_def)
      qed
    next
      case False
      obtain q w1 where q: "execContext E (Conn st) sql args w = (q, w1)" by (metis surj_pair)
      show ?thesis
      proof (cases q)
        case (Inl e)
        with run cur sql args mode q False show ?thesis
          by (auto simp: executeStmt_def cursorStep_def newError_def isClosing_def exec_error_bare)
      next
        case (Inr res)
        with run cur sql args mode q False show ?thesis
          by (auto simp: executeStmt_def cursorStep_def Let_def cursorExec_def
              execResultToStmtResult_def)
      qed
    qed
  qed
qed

section \<open>The whole batch\<close>

lemma eval_mark:
  "evalBatchCond (BatchCond ''ok'' (Some i) c cs) rs es = Inr (isSet rs (unat i))"
  "evalBatchCond (BatchCond ''error'' (Some i) c cs) rs es = Inr (isSet es (unat i))"
  by (auto simp: isSet_def)

lemma evalBatchCond_marks:
  assumes "\<forall>j. isSet rs j = isSet rs' j" and "\<forall>j. isSet es j = isSet es' j"
  shows "evalBatchCond c rs es = evalBatchCond c rs' es'"
    "evalAnd cs rs es = evalAnd cs rs' es'" "evalOr cs rs es = evalOr cs rs' es'"
  using assms
proof (induction c rs es and cs rs es and cs rs es
    rule: evalBatchCond_evalAnd_evalOr.induct)
  case (1 ty step inner conds results errors)
  consider "ty = ''ok''" | "ty = ''error''" | "ty = ''not''" | "ty = ''and''" | "ty = ''or''"
    | (other) "ty \<noteq> ''ok''" "ty \<noteq> ''error''" "ty \<noteq> ''not''" "ty \<noteq> ''and''" "ty \<noteq> ''or''" by blast
  then show ?case
  proof cases
    case 1
    then show ?thesis using "1.prems"(1) by (cases step, simp, simp only: eval_mark)
  next
    case 2
    then show ?thesis using "1.prems"(2) by (cases step, simp, simp only: eval_mark)
  next
    case 3
    with 1 show ?thesis by (auto split: option.split)
  next
    case 4
    with 1 show ?thesis by simp
  next
    case 5
    with 1 show ?thesis by simp
  next
    case other
    then show ?thesis by simp
  qed
qed (auto split: sum.split)


lemma stepEnabled_marks:
  "\<forall>j. isSet rs j = isSet rs' j \<Longrightarrow> \<forall>j. isSet es j = isSet es' j \<Longrightarrow>
    stepEnabled step rs es = stepEnabled step rs' es'"
  by (auto simp: stepEnabled_def evalBatchCond_marks split: option.split)

lemma isSet_update: "isSet (rs[i := Some x]) j \<longleftrightarrow> (if j = i then i < length rs else isSet rs j)"
  by (cases "j = i") (auto simp: isSet_def)

lemma isSet_mark: "length rs = length rs' \<Longrightarrow> \<forall>j. isSet rs j = isSet rs' j \<Longrightarrow>
    \<forall>j. isSet (rs[i := Some x]) j = isSet (rs'[i := Some y]) j"
  by (auto simp: isSet_update)

lemma cursorLoop_matches:
  assumes E: "namedRows E" and mode: "Mode st \<noteq> ModeReadOnly"
  shows "batchLoop E st S i steps rs es w = (r, w1) \<Longrightarrow>
    cursorLoop E st S i steps rs' es' w = (xs, w2) \<Longrightarrow>
    length rs = i + length steps \<Longrightarrow> length es = length rs \<Longrightarrow>
    length rs' = length rs \<Longrightarrow> length es' = length rs \<Longrightarrow>
    unsetFrom i rs \<Longrightarrow> unsetFrom i es \<Longrightarrow> exclusive rs es \<Longrightarrow>
    \<forall>j. isSet rs j = isSet rs' j \<Longrightarrow> \<forall>j. isSet es j = isSet es' j \<Longrightarrow>
    w2 = w1 \<and> (case r of
      Inr br \<Rightarrow> \<exists>blks. length blks = length steps \<and> xs = concat blks \<and>
        (\<forall>k < length steps. matchStep (i + k) (StepResults br ! (i + k)) (StepErrors br ! (i + k)) (blks ! k))
    | Inl e \<Rightarrow> \<exists>j d pre. e = BatchCondAt j d \<and> xs = pre @ [ErrorEntry (newError d)])"
proof (induction steps arbitrary: i rs es rs' es' w xs)
  case Nil
  then show ?case by auto
next
  case (Cons step steps)
  note P = Cons.prems
  have i: "i < length rs" "rs ! i = None" "es ! i = None"
    using P by (auto simp: unsetFrom_def)
  have same: "stepEnabled step rs' es' = stepEnabled step rs es"
    using stepEnabled_marks[of rs rs' es es'] P by metis
  show ?case
  proof (cases "stepEnabled step rs es")
    case (Inl d)
    with P same show ?thesis by auto
  next
    case (Inr ok)
    have extend: "w2 = w1 \<and> (case r of
        Inr br \<Rightarrow> \<exists>blks. length blks = length (step # steps) \<and> xs = concat blks \<and>
          (\<forall>k < length (step # steps). matchStep (i + k) (StepResults br ! (i + k)) (StepErrors br ! (i + k)) (blks ! k))
      | Inl e \<Rightarrow> \<exists>j d pre. e = BatchCondAt j d \<and> xs = pre @ [ErrorEntry (newError d)])"
      if b: "batchLoop E st S (Suc i) steps qs fs v = (r, w1)"
        and c: "cursorLoop E st S (Suc i) steps qs' fs' v = (ys, w2)"
        and len: "length qs = length rs" "length fs = length rs" "length qs' = length rs" "length fs' = length rs"
        and un: "unsetFrom (Suc i) qs" "unsetFrom (Suc i) fs" and ex: "exclusive qs fs"
        and marks: "\<forall>j. isSet qs j = isSet qs' j" "\<forall>j. isSet fs j = isSet fs' j"
        and blk: "xs = blk @ ys" "matchStep i (qs ! i) (fs ! i) blk"
      for qs fs qs' fs' v ys blk
    proof -
      have n: "length qs = Suc i + length steps" "length fs = length qs" "length qs' = length qs"
        "length fs' = length qs" using len P(3) by auto
      note ih = Cons.IH[OF b c n un ex marks]
      show ?thesis
      proof (cases r)
        case (Inl e)
        with ih blk(1) show ?thesis by auto
      next
        case (Inr br)
        with ih obtain blks where B: "length blks = length steps" "ys = concat blks"
          "\<forall>k < length steps. matchStep (Suc i + k) (StepResults br ! (Suc i + k)) (StepErrors br ! (Suc i + k)) (blks ! k)"
          by auto
        have sp: "length (StepResults br) = length qs" "length (StepErrors br) = length qs"
          "take (Suc i) (StepResults br) = take (Suc i) qs" "take (Suc i) (StepErrors br) = take (Suc i) fs"
          using batchLoop_spec[OF b[unfolded Inr] n(1,2) un ex] by auto
        have "StepResults br ! i = qs ! i" "StepErrors br ! i = fs ! i"
          using take_Suc_eqD[OF sp(3)] take_Suc_eqD[OF sp(4)] sp(1,2) n by auto
        then have "\<forall>k < length (step # steps).
            matchStep (i + k) (StepResults br ! (i + k)) (StepErrors br ! (i + k)) ((blk # blks) ! k)"
          using B(3) blk(2) by (auto simp: less_Suc_eq_0_disj)
        with B blk(1) Inr ih show ?thesis by (auto intro!: exI[of _ "blk # blks"])
      qed
    qed
    show ?thesis
    proof (cases ok)
      case False
      with P Inr same i show ?thesis
        by (intro extend[of rs es w rs' es' xs "[]"]) auto
    next
      case True
      obtain x v where x: "executeStmt E st (Stmt step) S w = (x, v)" by (metis surj_pair)
      obtain blk out v' where c: "cursorStep E st S (of_nat i) (Stmt step) w = ((blk, out), v')"
        by (metis surj_pair)
      note m = cursorStep_matches[OF E mode x c]
      show ?thesis
      proof (cases x)
        case (Inl e)
        then obtain e' where e': "out = Inl e'" using m by auto
        obtain ys where ys: "cursorLoop E st S (Suc i) steps rs' (es'[i := Some (newError e')]) v' = (ys, w2)"
          "xs = blk @ ys" using P(2) Inr same True c e' by (auto split: prod.splits)
        show ?thesis
        proof (rule extend[of rs "es[i := Some (newError e)]" v rs' "es'[i := Some (newError e')]" ys blk])
          show "batchLoop E st S (Suc i) steps rs (es[i := Some (newError e)]) v = (r, w1)"
            using P(1) Inr True x Inl by simp
          show "cursorLoop E st S (Suc i) steps rs' (es'[i := Some (newError e')]) v = (ys, w2)"
            using ys m by simp
          show "matchStep i (rs ! i) (es[i := Some (newError e)] ! i) blk"
            using m Inl i P by simp
          show "\<forall>j. isSet (es[i := Some (newError e)]) j = isSet (es'[i := Some (newError e')]) j"
            using P by (intro isSet_mark) auto
        qed (use P i ys exclusive_error in auto)
      next
        case (Inr y)
        then obtain y' where y': "out = Inr y'" using m by auto
        obtain ys where ys: "cursorLoop E st S (Suc i) steps (rs'[i := Some y']) es' v' = (ys, w2)"
          "xs = blk @ ys" using P(2) \<open>stepEnabled step rs es = Inr ok\<close> same True c y' by (auto split: prod.splits)
        show ?thesis
        proof (rule extend[of "rs[i := Some y]" es v "rs'[i := Some y']" es' ys blk])
          show "batchLoop E st S (Suc i) steps (rs[i := Some y]) es v = (r, w1)"
            using P(1) \<open>stepEnabled step rs es = Inr ok\<close> True x Inr by simp
          show "cursorLoop E st S (Suc i) steps (rs'[i := Some y']) es' v = (ys, w2)"
            using ys m by simp
          show "matchStep i (rs[i := Some y] ! i) (es ! i) blk"
            using m Inr i P by simp
          show "\<forall>j. isSet (rs[i := Some y]) j = isSet (rs'[i := Some y']) j"
            using P by (intro isSet_mark) auto
        qed (use P i ys exclusive_result in auto)
      qed
    qed
  qed
qed

lemma executeBatchCursor_succeeds: "\<exists>xs w'. executeBatchCursor E st steps S w = (Inr xs, w')"
  by (simp add: executeBatchCursor_def split: prod.split)

text \<open>
  C10.  On a stream that is not read-only, a cursor over a batch makes the driver calls of
  the plain batch and emits what its result stands for, step by step: for a step with a
  result its columns, its rows and the affected count cut to 32 bits, for a failed step
  entries that end with its error, nothing for a skipped step; where the plain batch is
  refused for a bad condition, the entries end with that error.
\<close>

theorem cursor_refines_batch:
  assumes "namedRows E" and "Mode st \<noteq> ModeReadOnly"
    and "executeBatch E st steps S w = (r, w1)"
    and "executeBatchCursor E st steps S w = (Inr xs, w2)"
  shows "w2 = w1 \<and> (case r of
      Inr br \<Rightarrow> \<exists>blks. length blks = length steps \<and> xs = concat blks \<and>
        (\<forall>k < length steps. matchStep k (StepResults br ! k) (StepErrors br ! k) (blks ! k))
    | Inl e \<Rightarrow> \<exists>j d pre. e = BatchCondAt j d \<and> xs = pre @ [ErrorEntry (newError d)])"
proof -
  let ?n = "replicate (length steps) None"
  have b: "batchLoop E st S 0 steps ?n ?n w = (r, w1)"
    using assms(3) by (simp add: executeBatch_def)
  have c: "cursorLoop E st S 0 steps ?n ?n w = (xs, w2)"
    using assms(4) by (auto simp: executeBatchCursor_def split: prod.splits)
  show ?thesis
    using cursorLoop_matches[OF assms(1,2) b c]
    by (cases r) (simp_all add: unsetFrom_def exclusive_def isSet_def)
qed

theorem cursor_refines_batch_witness:
  "let E = pickyEnv ''a''; st = newStream 1 someConn;
       steps = [\<lparr>Condition = None, Stmt = execOnly ''a''\<rparr>,
         \<lparr>Condition = Some (BatchCond ''ok'' (Some 0) None []), Stmt = execOnly ''b''\<rparr>]
   in \<exists>pre. projr (fst (executeBatchCursor E st steps [] ()))
        = pre @ [StepError 0 (newError (DriverError ''bad''))]"
proof -
  let ?steps = "[\<lparr>Condition = None, Stmt = execOnly ''a''\<rparr>,
         \<lparr>Condition = Some (BatchCond ''ok'' (Some 0) None []), Stmt = execOnly ''b''\<rparr>]"
  have 1: "namedRows (pickyEnv ''a'')" by (simp add: namedRows_def pickyEnv_def)
  have 2: "Mode (newStream 1 someConn) \<noteq> ModeReadOnly" by (simp add: newStream_def)
  obtain xs w2 where 3: "executeBatchCursor (pickyEnv ''a'') (newStream 1 someConn) ?steps [] () = (Inr xs, w2)"
    using executeBatchCursor_succeeds[of "pickyEnv ''a''"] by metis
  have "\<exists>blks. length blks = Suc (Suc 0) \<and> xs = concat blks \<and> matchStep 0 None (Some (newError (DriverError ''bad''))) (blks ! 0)
    \<and> matchStep 1 None None (blks ! 1)"
    using cursor_refines_batch[OF 1 2 step_a_then_b 3] by (auto simp: All_less_Suc)
  then obtain b0 where "xs = b0" "matchStep 0 None (Some (newError (DriverError ''bad''))) b0"
    by (auto simp: length_Suc_conv numeral_2_eq_2)
  then have "xs = butlast b0 @ [StepError 0 (newError (DriverError ''bad''))]"
    by (auto simp: newError_def) (metis append_butlast_last_id)
  with 3 show ?thesis by auto
qed

end
