(* ===== verification/Batons.thy ===== *)
theory Batons
  imports Streams
begin

text \<open>
  The baton store of \<open>src/baton.go\<close>, which keeps the streams of HTTP clients between
  requests.  A stream is shared by reference in Go, so the streams live in a heap, a list
  indexed by address, and the store maps a baton to an address.  Each operation holds the
  store's mutex throughout and is one step here.
\<close>

section \<open>State\<close>

record baton_entry =
  bStream :: nat
  lastSeen :: instant

record baton_store =
  heap :: "stream list"
  batonEntries :: "(string \<times> baton_entry) list"
  ttl :: duration

definition newBatonStore :: "duration \<Rightarrow> baton_store" where
  "newBatonStore d = \<lparr>heap = [], batonEntries = [], ttl = d\<rparr>"

text \<open>\<open>new(Stream)\<close>, a write through a \<open>*Stream\<close>, and \<open>Close\<close> of a shared stream.\<close>

definition allocStream :: "stream \<Rightarrow> baton_store \<Rightarrow> nat \<times> baton_store" where
  "allocStream st s = (length (heap s), s\<lparr>heap := heap s @ [st]\<rparr>)"

definition setStream :: "nat \<Rightarrow> stream \<Rightarrow> baton_store \<Rightarrow> baton_store" where
  "setStream a st s = s\<lparr>heap := (heap s)[a := st]\<rparr>"

definition closeAt :: "'d env \<Rightarrow> nat \<Rightarrow> baton_store \<Rightarrow> 'd \<Rightarrow> baton_store \<times> 'd" where
  "closeAt E a s w =
    (case streamClose E (heap s ! a) w of (st, w') \<Rightarrow> (setStream a st s, w'))"

section \<open>Operations\<close>

definition hexDigit :: "8 word \<Rightarrow> char" where
  "hexDigit n = ''0123456789abcdef'' ! unat n"

fun hexEncode :: "bytes \<Rightarrow> string" where
  "hexEncode [] = []"
| "hexEncode (b # bs) = hexDigit (drop_bit 4 b) # hexDigit (take_bit 4 b) # hexEncode bs"

definition generateBaton :: "'d env \<Rightarrow> 'd \<Rightarrow> (error + string) \<times> 'd" where
  "generateBaton E w =
    (case randRead E 32 w of
       (Inl e, w') \<Rightarrow> (Inl (RandomError e), w')
     | (Inr bs, w') \<Rightarrow> (Inr (hexEncode bs), w'))"

definition putBaton ::
  "'d env \<Rightarrow> nat \<Rightarrow> string \<Rightarrow> baton_store \<Rightarrow> 'd \<Rightarrow> (error + string) \<times> baton_store \<times> 'd" where
  "putBaton E a oldBaton s w =
    (case generateBaton E w of
       (Inl e, w') \<Rightarrow> (Inl (GeneratingBaton e), s, w')
     | (Inr newBaton, w') \<Rightarrow>
         (let es = (if oldBaton \<noteq> [] then AList.delete oldBaton (batonEntries s) else batonEntries s)
          in (Inr newBaton,
              s\<lparr>batonEntries := AList.update newBaton \<lparr>bStream = a, lastSeen = clock E w'\<rparr> es\<rparr>, w')))"

definition getBaton :: "'d env \<Rightarrow> string \<Rightarrow> baton_store \<Rightarrow> 'd \<Rightarrow> nat option \<times> baton_store" where
  "getBaton E baton s w =
    (case map_of (batonEntries s) baton of
       None \<Rightarrow> (None, s)
     | Some entry \<Rightarrow>
         (Some (bStream entry),
          s\<lparr>batonEntries := AList.update baton (entry\<lparr>lastSeen := clock E w\<rparr>) (batonEntries s)\<rparr>))"

definition deleteBaton :: "string \<Rightarrow> baton_store \<Rightarrow> baton_store" where
  "deleteBaton baton s = s\<lparr>batonEntries := AList.delete baton (batonEntries s)\<rparr>"

fun closeEach :: "'d env \<Rightarrow> nat list \<Rightarrow> baton_store \<Rightarrow> 'd \<Rightarrow> baton_store \<times> 'd" where
  "closeEach E [] s w = (s, w)"
| "closeEach E (a # as) s w = (case closeAt E a s w of (s', w') \<Rightarrow> closeEach E as s' w')"

text \<open>
  The order in which Go ranges over a map is not specified; the entries are taken in the
  order of the list.
\<close>

definition closeStore :: "'d env \<Rightarrow> baton_store \<Rightarrow> 'd \<Rightarrow> baton_store \<times> 'd" where
  "closeStore E s w =
    (case closeEach E (map (\<lambda>(b, e). bStream e) (batonEntries s)) s w of
       (s', w') \<Rightarrow> (s'\<lparr>batonEntries := []\<rparr>, w'))"

definition sweep :: "'d env \<Rightarrow> baton_store \<Rightarrow> 'd \<Rightarrow> baton_store \<times> 'd" where
  "sweep E s w =
    (let deadline = clock E w - ttl s;
         expired = filter (\<lambda>(b, e). lastSeen e < deadline) (batonEntries s)
     in case closeEach E (map (\<lambda>(b, e). bStream e) expired) s w of
          (s', w') \<Rightarrow>
            (s'\<lparr>batonEntries := filter (\<lambda>(b, e). \<not> lastSeen e < deadline) (batonEntries s)\<rparr>, w'))"

section \<open>The contract\<close>

text \<open>
  What the HTTP handlers rely on: a stream is found under the baton it was put under, the
  baton it had before is gone, and no other baton is affected by put, get or delete.
\<close>

locale baton_map =
  fixes find :: "string \<Rightarrow> 's \<Rightarrow> nat option"
    and put :: "nat \<Rightarrow> string \<Rightarrow> string \<Rightarrow> 's \<Rightarrow> 's \<Rightarrow> bool"
    and del :: "string \<Rightarrow> 's \<Rightarrow> 's"
  assumes find_put: "put a old new s s' \<Longrightarrow> find new s' = Some a"
    and find_put_old: "put a old new s s' \<Longrightarrow> old \<noteq> new \<Longrightarrow> old \<noteq> [] \<Longrightarrow> find old s' = None"
    and find_put_other: "put a old new s s' \<Longrightarrow> b \<noteq> new \<Longrightarrow> b \<noteq> old \<or> old = [] \<Longrightarrow> find b s' = find b s"
    and find_del: "find b (del b s) = None"
    and find_del_other: "b' \<noteq> b \<Longrightarrow> find b' (del b s) = find b' s"
begin

text \<open>The batons of an address: a put moves it from one baton to another.\<close>

definition batonsOf :: "nat \<Rightarrow> 's \<Rightarrow> string set" where
  "batonsOf a s = {b. find b s = Some a}"

lemma find_after_put:
  assumes "put a old new s s'"
  shows "find b s' = (if b = new then Some a else if old \<noteq> [] \<and> b = old then None else find b s)"
  using find_put[OF assms] find_put_old[OF assms] find_put_other[OF assms, of b] by auto

lemma batonsOf_put:
  "put a old new s s' \<Longrightarrow>
    batonsOf a s' = insert new (batonsOf a s - (if old = [] then {} else {old}))"
  by (auto simp: batonsOf_def find_after_put split: if_splits)

lemma batonsOf_put_other:
  "put a old new s s' \<Longrightarrow> c \<noteq> a \<Longrightarrow>
    batonsOf c s' = batonsOf c s - insert new (if old = [] then {} else {old})"
  by (auto simp: batonsOf_def find_after_put split: if_splits)

lemma batonsOf_del: "batonsOf c (del b s) = batonsOf c s - {b}"
  by (auto simp: batonsOf_def find_del find_del_other) (metis find_del find_del_other option.distinct(1))+

end

definition findBaton :: "string \<Rightarrow> baton_store \<Rightarrow> nat option" where
  "findBaton b s = map_option bStream (map_of (batonEntries s) b)"

text \<open>A successful put, whatever the random source and the clock were.\<close>

definition putStep :: "nat \<Rightarrow> string \<Rightarrow> string \<Rightarrow> baton_store \<Rightarrow> baton_store \<Rightarrow> bool" where
  "putStep a old new s s' \<longleftrightarrow>
    (\<exists>now. s' = s\<lparr>batonEntries := AList.update new \<lparr>bStream = a, lastSeen = now\<rparr>
      (if old \<noteq> [] then AList.delete old (batonEntries s) else batonEntries s)\<rparr>)"

lemma putBaton_step: "putBaton E a old s w = (Inr new, s', w') \<Longrightarrow> putStep a old new s s'"
  by (auto simp: putBaton_def putStep_def Let_def split: prod.splits sum.splits)

interpretation bm: baton_map findBaton putStep deleteBaton
  by unfold_locales (auto simp: findBaton_def putStep_def deleteBaton_def split: if_splits)

lemma findBaton_get [simp]: "findBaton b' (snd (getBaton E b s w)) = findBaton b' s"
  by (auto simp: findBaton_def getBaton_def split: option.split)

lemma getBaton_find: "fst (getBaton E b s w) = findBaton b s"
  by (auto simp: findBaton_def getBaton_def split: option.split)

section \<open>Invariant\<close>

text \<open>
  A store: batons are unique, each leads to a stream of the heap, no stream has two of them,
  and the streams are well formed.  \<open>live\<close>: a baton leads to an open stream.
  \<open>covered\<close>: an open stream has a baton.
\<close>

definition storeInv :: "baton_store \<Rightarrow> bool" where
  "storeInv s \<longleftrightarrow>
    wf_map (batonEntries s) \<and>
    (\<forall>b a. findBaton b s = Some a \<longrightarrow> a < length (heap s)) \<and>
    (\<forall>b b' a. findBaton b s = Some a \<longrightarrow> findBaton b' s = Some a \<longrightarrow> b = b') \<and>
    (\<forall>a < length (heap s). streamOk (heap s ! a))"

definition live :: "baton_store \<Rightarrow> bool" where
  "live s \<longleftrightarrow> (\<forall>b a. findBaton b s = Some a \<longrightarrow> \<not> closed (heap s ! a))"

definition covered :: "baton_store \<Rightarrow> bool" where
  "covered s \<longleftrightarrow> (\<forall>a < length (heap s). \<not> closed (heap s ! a) \<longrightarrow> (\<exists>b. findBaton b s = Some a))"

definition openCount :: "baton_store \<Rightarrow> nat" where
  "openCount s = length (filter (\<lambda>st. \<not> closed st) (heap s))"

lemma storeInv_new [inv_intros]:
  "storeInv (newBatonStore d)" "live (newBatonStore d)" "covered (newBatonStore d)"
  by (simp_all add: storeInv_def live_def covered_def newBatonStore_def findBaton_def)

lemma findBaton_cong: "batonEntries s' = batonEntries s \<Longrightarrow> findBaton b s' = findBaton b s"
  by (simp add: findBaton_def)

lemma findBaton_keys:
  assumes "wf_map (batonEntries s)"
  shows "{a. \<exists>b. findBaton b s = Some a} = (\<lambda>(b, e). bStream e) ` set (batonEntries s)"
proof (intro set_eqI iffI)
  fix a assume "a \<in> {a. \<exists>b. findBaton b s = Some a}"
  then obtain b e where "map_of (batonEntries s) b = Some e" "a = bStream e"
    by (auto simp: findBaton_def)
  then show "a \<in> (\<lambda>(b, e). bStream e) ` set (batonEntries s)"
    using map_of_SomeD[of "batonEntries s" b e] by force
next
  fix a assume "a \<in> (\<lambda>(b, e). bStream e) ` set (batonEntries s)"
  then obtain b e where "(b, e) \<in> set (batonEntries s)" "a = bStream e" by auto
  then have "findBaton b s = Some a"
    using map_of_is_SomeI[OF assms] by (simp add: findBaton_def)
  then show "a \<in> {a. \<exists>b. findBaton b s = Some a}" by blast
qed

lemma storeInvD:
  assumes "storeInv s"
  shows "wf_map (batonEntries s)" and "findBaton b s = Some a \<Longrightarrow> a < length (heap s)"
    and "findBaton b s = Some a \<Longrightarrow> findBaton b' s = Some a \<Longrightarrow> b = b'"
    and "a < length (heap s) \<Longrightarrow> streamOk (heap s ! a)"
proof -
  note inv = assms[unfolded storeInv_def]
  note all = inv[THEN conjunct1] inv[THEN conjunct2, THEN conjunct1]
    inv[THEN conjunct2, THEN conjunct2, THEN conjunct1] inv[THEN conjunct2, THEN conjunct2, THEN conjunct2]
  show "wf_map (batonEntries s)" by (rule all(1))
  show "findBaton b s = Some a \<Longrightarrow> a < length (heap s)" by (rule all(2)[rule_format])
  show "findBaton b s = Some a \<Longrightarrow> findBaton b' s = Some a \<Longrightarrow> b = b'" by (rule all(3)[rule_format])
  show "a < length (heap s) \<Longrightarrow> streamOk (heap s ! a)" by (rule all(4)[rule_format])
qed

lemma bStreams_distinct:
  assumes "storeInv s"
  shows "distinct (map (\<lambda>(b, e). bStream e) (batonEntries s))"
proof -
  have wf: "wf_map (batonEntries s)" and inj: "\<And>b b' a. findBaton b s = Some a \<Longrightarrow>
      findBaton b' s = Some a \<Longrightarrow> b = b'"
    by (rule storeInvD(1)[OF assms], rule storeInvD(3)[OF assms])
  have "inj_on (\<lambda>(b, e). bStream e) (set (batonEntries s))"
  proof (rule inj_onI, clarify)
    fix b e b' e'
    assume m: "(b, e) \<in> set (batonEntries s)" "(b', e') \<in> set (batonEntries s)"
      and eq: "bStream e = bStream e'"
    have "map_of (batonEntries s) b = Some e" "map_of (batonEntries s) b' = Some e'"
      using m map_of_is_SomeI[OF wf] by simp_all
    moreover from this have "b = b'" using inj[of b "bStream e" b'] eq by (simp add: findBaton_def)
    ultimately show "b = b' \<and> e = e'" by simp
  qed
  moreover have "distinct (batonEntries s)" using wf by (simp add: distinct_map)
  ultimately show ?thesis by (simp add: distinct_map)
qed

text \<open>With both, the open streams of the heap are as many as the batons.\<close>

lemma openCount_batons:
  assumes "storeInv s" and "live s" and "covered s"
  shows "openCount s = length (batonEntries s)"
proof -
  note I = storeInvD[OF assms(1)]
  let ?A = "{a. a < length (heap s) \<and> \<not> closed (heap s ! a)}"
  have "openCount s = card ?A" by (simp add: openCount_def length_filter_conv_card)
  moreover have "?A = {a. \<exists>b. findBaton b s = Some a}"
  proof (intro set_eqI iffI)
    fix a assume "a \<in> ?A"
    then show "a \<in> {a. \<exists>b. findBaton b s = Some a}" using assms(3) by (simp add: covered_def)
  next
    fix a assume "a \<in> {a. \<exists>b. findBaton b s = Some a}"
    then obtain b where b: "findBaton b s = Some a" by blast
    then show "a \<in> ?A" using I(2)[OF b] assms(2) by (auto simp: live_def)
  qed
  then have "?A = set (map (\<lambda>(b, e). bStream e) (batonEntries s))"
    using findBaton_keys[OF I(1)] by simp
  ultimately show ?thesis using distinct_card[OF bStreams_distinct[OF assms(1)]] by simp
qed

section \<open>Counting the connections in use\<close>

text \<open>The environment with a count of the connections taken from the pool and not returned.\<close>

definition counted :: "'d env \<Rightarrow> ('d \<times> int) env" where
  "counted E =
    \<lparr>drvExec = (\<lambda>h sql args (w, n). case drvExec E h sql args w of (r, w') \<Rightarrow> (r, (w', n))),
     drvQuery = (\<lambda>h sql args (w, n). case drvQuery E h sql args w of (r, w') \<Rightarrow> (r, (w', n))),
     drvConn = (\<lambda>d (w, n). case drvConn E d w of
        (Inl e, w') \<Rightarrow> (Inl e, (w', n)) | (Inr h, w') \<Rightarrow> (Inr h, (w', n + 1))),
     drvRelease = (\<lambda>h (w, n). (drvRelease E h w, n - 1)),
     randRead = (\<lambda>k (w, n). case randRead E k w of (r, w') \<Rightarrow> (r, (w', n))),
     clock = (\<lambda>(w, n). clock E w)\<rparr>"

lemma counted_rand: "randRead (counted E) k w = (r, w') \<Longrightarrow> snd w' = snd w"
  by (cases w) (auto simp: counted_def split: prod.splits)

lemma counted_conn: "dbConn (counted E) d w = (r, w') \<Longrightarrow>
    snd w' = snd w + (case r of Inl _ \<Rightarrow> 0 | Inr _ \<Rightarrow> 1)"
  by (cases w) (auto simp: counted_def dbConn_def split: prod.splits sum.splits)

lemma counted_close: "connClose (counted E) c w = (c', w') \<Longrightarrow>
    snd w' = snd w - (if connDone c then 0 else 1)"
  by (cases w) (auto simp: counted_def connClose_def split: if_splits)

lemma counted_release [simp]: "snd (drvRelease (counted E) h w) = snd w - 1"
  by (cases w) (simp add: counted_def)

lemma counted_open:
  assumes "openStream (counted E) d g w = (r, w')"
  shows "snd w' = snd w + (case r of Inl _ \<Rightarrow> 0 | Inr _ \<Rightarrow> 1)"
proof -
  obtain c w1 where c: "dbConn (counted E) d w = (c, w1)" by (metis surj_pair)
  obtain i w2 where i: "randRead (counted E) 4 w1 = (i, w2)" by (metis surj_pair)
  show ?thesis
    using counted_conn[OF c] counted_rand[OF i] assms c i by (cases c; cases i) (auto simp: openStream_def randomInt32_def connClose_def)
qed

lemma counted_streamClose:
  "streamOk st \<Longrightarrow> streamClose (counted E) st w = (st', w') \<Longrightarrow>
    snd w' = snd w - (if closed st then 0 else 1) \<and> closed st' \<and> streamOk st'"
  by (auto simp: streamClose_def streamOk_def connClose_def split: if_splits)

lemma filter_update:
  "i < length xs \<Longrightarrow> length (filter P (xs[i := x])) + (if P (xs ! i) then 1 else 0) =
    length (filter P xs) + (if P x then 1 else 0)"
proof (induction xs arbitrary: i)
  case Nil
  then show ?case by simp
next
  case (Cons y ys)
  show ?case
  proof (cases i)
    case 0
    then show ?thesis by simp
  next
    case (Suc k)
    with Cons.prems have "k < length ys" by simp
    from Cons.IH[OF this] Suc show ?thesis by simp
  qed
qed

lemma openCount_update:
  "a < length (heap s) \<Longrightarrow> int (openCount (setStream a st s)) =
    int (openCount s) - (if closed (heap s ! a) then 0 else 1) + (if closed st then 0 else 1)"
  using filter_update[of a "heap s" "\<lambda>st. \<not> closed st" st]
  by (auto simp: openCount_def setStream_def split: if_splits)

lemma closeAt_spec:
  assumes "closeAt (counted E) a s w = (s', w')" and "a < length (heap s)" and "streamOk (heap s ! a)"
  shows "batonEntries s' = batonEntries s \<and> length (heap s') = length (heap s)
    \<and> (\<forall>b. b \<noteq> a \<longrightarrow> heap s' ! b = heap s ! b) \<and> closed (heap s' ! a) \<and> streamOk (heap s' ! a)
    \<and> snd w' - int (openCount s') = snd w - int (openCount s)"
proof -
  obtain st where c: "streamClose (counted E) (heap s ! a) w = (st, w')" and s': "s' = setStream a st s"
    using assms(1) by (auto simp: closeAt_def split: prod.splits)
  note d = counted_streamClose[OF assms(3) c]
  show ?thesis
    using d openCount_update[OF assms(2), of st] assms(2) by (auto simp: s' setStream_def)
qed

lemma closeEach_spec:
  "closeEach (counted E) as s w = (s', w') \<Longrightarrow> \<forall>a \<in> set as. a < length (heap s) \<Longrightarrow>
    \<forall>a < length (heap s). streamOk (heap s ! a) \<Longrightarrow>
    batonEntries s' = batonEntries s \<and> length (heap s') = length (heap s)
    \<and> (\<forall>b. b \<notin> set as \<longrightarrow> heap s' ! b = heap s ! b)
    \<and> (\<forall>a \<in> set as. closed (heap s' ! a))
    \<and> (\<forall>a < length (heap s'). streamOk (heap s' ! a))
    \<and> snd w' - int (openCount s') = snd w - int (openCount s)"
proof (induction as arbitrary: s w)
  case Nil
  then show ?case by simp
next
  case (Cons a as)
  obtain s1 w1 where c: "closeAt (counted E) a s w = (s1, w1)" by (metis surj_pair)
  then have r: "closeEach (counted E) as s1 w1 = (s', w')" using Cons.prems(1) by simp
  have "a < length (heap s)" "streamOk (heap s ! a)" using Cons.prems by auto
  note C = closeAt_spec[OF c this]
  have "\<forall>b < length (heap s1). streamOk (heap s1 ! b)"
    using C Cons.prems(3) by (metis)
  moreover have "\<forall>a \<in> set as. a < length (heap s1)" using C Cons.prems(2) by simp
  ultimately have ih: "batonEntries s' = batonEntries s1 \<and> length (heap s') = length (heap s1)
    \<and> (\<forall>b. b \<notin> set as \<longrightarrow> heap s' ! b = heap s1 ! b)
    \<and> (\<forall>a \<in> set as. closed (heap s' ! a))
    \<and> (\<forall>a < length (heap s'). streamOk (heap s' ! a))
    \<and> snd w' - int (openCount s') = snd w1 - int (openCount s1)"
    using Cons.IH[OF r] by blast
  have "closed (heap s' ! a)" using ih C by (cases "a \<in> set as") auto
  then show ?case using ih C by auto
qed

section \<open>The operations and the invariant\<close>

lemma storeInvI:
  assumes "wf_map (batonEntries s)" and "\<And>b a. findBaton b s = Some a \<Longrightarrow> a < length (heap s)"
    and "\<And>b b' a. findBaton b s = Some a \<Longrightarrow> findBaton b' s = Some a \<Longrightarrow> b = b'"
    and "\<And>a. a < length (heap s) \<Longrightarrow> streamOk (heap s ! a)"
  shows "storeInv s"
  unfolding storeInv_def using assms by blast

text \<open>Open streams other than the one at \<open>a\<close> have a baton.\<close>

definition coveredBut :: "nat \<Rightarrow> baton_store \<Rightarrow> bool" where
  "coveredBut a s \<longleftrightarrow>
    (\<forall>c < length (heap s). c \<noteq> a \<longrightarrow> \<not> closed (heap s ! c) \<longrightarrow> (\<exists>b. findBaton b s = Some c))"

lemma covered_But: "covered s \<Longrightarrow> coveredBut a s"
  by (simp add: covered_def coveredBut_def)

text \<open>A step that changes the store as a request does to its own stream.\<close>

lemma inv_heap:
  assumes "storeInv s" and "batonEntries s' = batonEntries s" and "length (heap s') = length (heap s)"
    and "\<And>c. c < length (heap s) \<Longrightarrow> streamOk (heap s' ! c)"
  shows "storeInv s'"
  using storeInvD[OF assms(1)] assms(2-4)
  by (intro storeInvI) (simp_all add: findBaton_cong[OF assms(2)])

lemma put_storeInv:
  assumes "putStep a old new s s'" and "storeInv s" and "a < length (heap s)"
    and own: "\<And>b. findBaton b s = Some a \<Longrightarrow> old \<noteq> [] \<and> b = old"
  shows "storeInv s'"
proof -
  have h: "heap s' = heap s" and wf: "wf_map (batonEntries s')"
    using assms(1) storeInvD(1)[OF assms(2)] by (auto simp: putStep_def)
  note f = bm.find_after_put[OF assms(1)]
  show ?thesis
  proof (rule storeInvI[OF wf])
    fix b c assume "findBaton b s' = Some c"
    then show "c < length (heap s')"
      using f storeInvD(2)[OF assms(2)] assms(3) h by (auto split: if_splits)
  next
    fix b b' c assume "findBaton b s' = Some c" "findBaton b' s' = Some c"
    then show "b = b'" using f own storeInvD(3)[OF assms(2), of b c b'] by (auto split: if_splits)
  next
    fix c assume "c < length (heap s')"
    then show "streamOk (heap s' ! c)" using h storeInvD(4)[OF assms(2)] by simp
  qed
qed

lemma put_live: "putStep a old new s s' \<Longrightarrow> live s \<Longrightarrow> \<not> closed (heap s ! a) \<Longrightarrow> live s'"
  using bm.find_after_put[of a old new s s'] by (auto simp: live_def putStep_def split: if_splits)

lemma put_covered:
  assumes "putStep a old new s s'" and "coveredBut a s" and "old \<noteq> [] \<Longrightarrow> findBaton old s = Some a"
    and fresh: "findBaton new s = None \<or> findBaton new s = Some a"
  shows "covered s'"
  unfolding covered_def
proof (intro allI impI)
  note f = bm.find_after_put[OF assms(1)]
  have h: "heap s' = heap s" using assms(1) by (auto simp: putStep_def)
  fix c assume c: "c < length (heap s')" "\<not> closed (heap s' ! c)"
  show "\<exists>b. findBaton b s' = Some c"
  proof (cases "c = a")
    case True
    then show ?thesis using f[of new] by auto
  next
    case False
    then obtain b where b: "findBaton b s = Some c" using c h assms(2) by (auto simp: coveredBut_def)
    then have "b \<noteq> new" "old \<noteq> [] \<Longrightarrow> b \<noteq> old" using False fresh assms(3) by auto
    then have "findBaton b s' = Some c" using f[of b] b by auto
    then show ?thesis by blast
  qed
qed

lemma findBaton_delete: "findBaton b' (deleteBaton b s) = (if b' = b then None else findBaton b' s)"
  using bm.find_del[of b s] bm.find_del_other[of b' b s] by simp

lemma inv_fewer:
  assumes "storeInv s" and "wf_map (batonEntries s')" and "heap s' = heap s"
    and sub: "\<And>b a. findBaton b s' = Some a \<Longrightarrow> findBaton b s = Some a"
  shows "storeInv s'"
proof (rule storeInvI[OF assms(2)])
  show "findBaton b s' = Some a \<Longrightarrow> a < length (heap s')" for b a
    using storeInvD(2)[OF assms(1) sub] assms(3) by simp
  show "findBaton b s' = Some a \<Longrightarrow> findBaton b' s' = Some a \<Longrightarrow> b = b'" for b b' a
    using storeInvD(3)[OF assms(1) sub sub] by blast
  show "a < length (heap s') \<Longrightarrow> streamOk (heap s' ! a)" for a
    using storeInvD(4)[OF assms(1)] assms(3) by simp
qed

lemma delete_storeInv: "storeInv s \<Longrightarrow> storeInv (deleteBaton b s)"
proof (rule inv_fewer)
  assume I: "storeInv s"
  show "storeInv s" by (rule I)
  show "wf_map (batonEntries (deleteBaton b s))"
    using storeInvD(1)[OF I] by (simp add: deleteBaton_def)
  show "heap (deleteBaton b s) = heap s" by (simp add: deleteBaton_def)
  show "findBaton b' (deleteBaton b s) = Some a \<Longrightarrow> findBaton b' s = Some a" for b' a
    by (simp add: findBaton_delete split: if_splits)
qed

lemma getBaton_heap [simp]: "heap (snd (getBaton E b s w)) = heap s"
  by (auto simp: getBaton_def split: option.split)

lemma getBaton_keeps:
  "storeInv s \<Longrightarrow> storeInv (snd (getBaton E b s w))"
  "live s \<Longrightarrow> live (snd (getBaton E b s w))"
  "covered s \<Longrightarrow> covered (snd (getBaton E b s w))"
proof -
  show "storeInv (snd (getBaton E b s w))" if I: "storeInv s"
  proof (rule inv_fewer[OF I])
    show "wf_map (batonEntries (snd (getBaton E b s w)))"
      using storeInvD(1)[OF I] by (auto simp: getBaton_def split: option.split)
  qed simp_all
qed (simp_all add: live_def covered_def)

lemma getBaton_openCount [simp]: "openCount (snd (getBaton E b s w)) = openCount s"
  by (simp add: openCount_def)

lemma alloc_keeps:
  assumes "allocStream st s = (a, s')" and "streamOk st" and "\<not> closed st"
  shows "storeInv s \<Longrightarrow> storeInv s' \<and> (\<forall>b. findBaton b s' \<noteq> Some a)"
    and "storeInv s \<Longrightarrow> live s \<Longrightarrow> live s'" and "covered s \<Longrightarrow> coveredBut a s'"
    and "a < length (heap s')" and "heap s' ! a = st" and "batonEntries s' = batonEntries s"
    and "openCount s' = Suc (openCount s)" and "length (heap s') = Suc (length (heap s))"
    and "\<And>c. c < length (heap s) \<Longrightarrow> heap s' ! c = heap s ! c" and "a = length (heap s)"
proof -
  have a: "a = length (heap s)" and s': "s' = s\<lparr>heap := heap s @ [st]\<rparr>"
    using assms(1) by (auto simp: allocStream_def)
  have f: "findBaton b s' = findBaton b s" for b by (simp add: s' findBaton_def)
  show "storeInv s \<Longrightarrow> storeInv s' \<and> (\<forall>b. findBaton b s' \<noteq> Some a)"
  proof (intro conjI storeInvI)
    assume I: "storeInv s"
    note D = storeInvD[OF I]
    show "wf_map (batonEntries s')" using D(1) s' by simp
    show "findBaton b s' = Some c \<Longrightarrow> c < length (heap s')" for b c using D(2)[of b c] f s' by simp
    show "findBaton b s' = Some c \<Longrightarrow> findBaton b' s' = Some c \<Longrightarrow> b = b'" for b b' c
      using D(3)[of b c b'] f by simp
    show "c < length (heap s') \<Longrightarrow> streamOk (heap s' ! c)" for c
      using D(4)[of c] s' assms(2) by (cases "c < length (heap s)") (auto simp: nth_append)
    show "\<forall>b. findBaton b s' \<noteq> Some a" using D(2) f a by fastforce
  qed
  show "live s'" if "storeInv s" "live s"
    unfolding live_def
  proof (intro allI impI)
    fix b c assume "findBaton b s' = Some c"
    then have "findBaton b s = Some c" "c < length (heap s)" using f storeInvD(2)[OF that(1)] by simp_all
    then show "\<not> closed (heap s' ! c)" using that(2) by (simp add: live_def s' nth_append)
  qed
  show "covered s \<Longrightarrow> coveredBut a s'"
    using a f s' by (auto simp: covered_def coveredBut_def nth_append less_Suc_eq)
  show "a < length (heap s')" "heap s' ! a = st" "batonEntries s' = batonEntries s" "a = length (heap s)"
    "openCount s' = Suc (openCount s)" "length (heap s') = Suc (length (heap s))"
    "\<And>c. c < length (heap s) \<Longrightarrow> heap s' ! c = heap s ! c"
    using a s' assms(3) by (auto simp: openCount_def nth_append)
qed

lemma sweep_spec:
  assumes "sweep (counted E) s w = (s', w')" and "storeInv s"
  shows "storeInv s'" and "live s \<Longrightarrow> live s'" and "covered s \<Longrightarrow> covered s'"
    and "snd w' - int (openCount s') = snd w - int (openCount s)"
    and "findBaton b s' = (case map_of (batonEntries s) b of
      None \<Rightarrow> None
    | Some e \<Rightarrow> if lastSeen e < clock (counted E) w - ttl s then None else Some (bStream e))"
    and "findBaton b s = Some a \<Longrightarrow> findBaton b s' = None \<Longrightarrow> closed (heap s' ! a)"
    and "length (heap s') = length (heap s)"
    and "findBaton b s' = Some a \<Longrightarrow> heap s' ! a = heap s ! a"
proof -
  let ?old = "\<lambda>e. lastSeen e < clock (counted E) w - ttl s"
  let ?exp = "map (\<lambda>(b, e). bStream e) (filter (\<lambda>(b, e). ?old e) (batonEntries s))"
  obtain s1 where c: "closeEach (counted E) ?exp s w = (s1, w')"
    and s': "s' = s1\<lparr>batonEntries := filter (\<lambda>(b, e). \<not> ?old e) (batonEntries s)\<rparr>"
    using assms(1) by (auto simp: sweep_def Let_def split: prod.splits)
  note D = storeInvD[OF assms(2)]
  note keys = findBaton_keys[OF D(1)]
  have sub: "\<forall>a \<in> set ?exp. \<exists>b e. map_of (batonEntries s) b = Some e \<and> ?old e \<and> bStream e = a"
    using map_of_is_SomeI[OF D(1)] by fastforce
  then have "\<forall>a \<in> set ?exp. a < length (heap s)"
    using D(2) by (force simp: findBaton_def)
  note C = closeEach_spec[OF c this]
  have ok: "\<forall>a < length (heap s). streamOk (heap s ! a)" using D(4) by simp
  note C = C[OF ok]
  have find: "findBaton b s' = (case map_of (batonEntries s) b of
      None \<Rightarrow> None | Some e \<Rightarrow> if ?old e then None else Some (bStream e))" for b
    by (auto simp: findBaton_def s' map_of_filter_wf[OF D(1)] split: option.split)
  have orig: "findBaton b s = Some a" if "findBaton b s' = Some a" for b a
    using that find[of b] by (auto simp: findBaton_def[of b s] split: option.splits if_splits)
  have kept: "heap s' ! a = heap s ! a" if f: "findBaton b s' = Some a" for b a
  proof -
    have "a \<notin> set ?exp"
    proof
      assume "a \<in> set ?exp"
      then obtain b' e where e: "map_of (batonEntries s) b' = Some e" "?old e" "bStream e = a"
        using sub by blast
      then have "b' = b" using D(3)[of b' a b] orig[OF f] by (simp add: findBaton_def)
      then show False using f find[of b] e by simp
    qed
    then show ?thesis using C s' by simp
  qed
  have gone: "closed (heap s' ! a)" if f: "findBaton b s = Some a" "findBaton b s' = None" for b a
  proof -
    obtain e where e: "map_of (batonEntries s) b = Some e" "bStream e = a" using f(1) by (auto simp: findBaton_def)
    then have "?old e" using f(2) find[of b] by (auto split: if_splits)
    then have "a \<in> set ?exp" using e by (auto dest!: map_of_SomeD intro!: image_eqI[of _ _ "(b, e)"])
    then have "closed (heap s1 ! a)" using C by blast
    then show ?thesis by (simp add: s')
  qed
  show "findBaton b s' = (case map_of (batonEntries s) b of
      None \<Rightarrow> None | Some e \<Rightarrow> if ?old e then None else Some (bStream e))" by (rule find)
  show "findBaton b s = Some a \<Longrightarrow> findBaton b s' = None \<Longrightarrow> closed (heap s' ! a)" by (rule gone)
  show "findBaton b s' = Some a \<Longrightarrow> heap s' ! a = heap s ! a" by (rule kept)
  show len: "length (heap s') = length (heap s)" using C s' by simp
  show "snd w' - int (openCount s') = snd w - int (openCount s)" using C s' by (simp add: openCount_def)
  show "storeInv s'"
  proof (rule storeInvI)
    show "wf_map (batonEntries s')" using D(1) by (simp add: s')
    show "findBaton b s' = Some a \<Longrightarrow> a < length (heap s')" for b a
      using D(2)[OF orig, of b a] len by simp
    show "findBaton b s' = Some a \<Longrightarrow> findBaton b' s' = Some a \<Longrightarrow> b = b'" for b b' a
      using orig D(3) by blast
    show "a < length (heap s') \<Longrightarrow> streamOk (heap s' ! a)" for a using C s' by simp
  qed
  show "live s'" if "live s"
    using that kept orig unfolding live_def by metis
  show "covered s'" if cov: "covered s"
    unfolding covered_def
  proof (intro allI impI)
    fix a assume a: "a < length (heap s')" "\<not> closed (heap s' ! a)"
    have "a \<notin> set ?exp" using a C s' by auto
    then have "\<not> closed (heap s ! a)" using a C s' by simp
    then obtain b where b: "findBaton b s = Some a" using cov a len by (auto simp: covered_def)
    then have "findBaton b s' \<noteq> None" using gone a by blast
    then show "\<exists>b. findBaton b s' = Some a" using b orig by (metis not_None_eq option.inject)
  qed
qed

end
