(* ===== verification/Msgpack.thy ===== *)
theory Msgpack
  imports Values
begin

text \<open>
  The MessagePack codec of \<open>Value\<close> in \<open>src/types.go\<close>.  The MessagePack library is not
  part of the repository: the code hands it a map and gets back a struct, modelled as
  trees \<open>msgpack\<close>; the members of the struct are matched by their exact names.  A decoded
  \<open>any\<close> keeps the kind of the wire value, of which the code asks for strings, float64 and
  float32 only.
\<close>

datatype msgpack =
    MNil
  | MBool bool
  | MInt int
  | MFloat32 "32 word"
  | MFloat64 f64
  | MStr string
  | MBin bytes
  | MArr "msgpack list"
  | MMap "(string \<times> msgpack) list"

definition marshalMsgpack :: "val \<Rightarrow> error + msgpack" where
  "marshalMsgpack v =
    (if vtyp v = ''null'' \<or> vtyp v = '''' then Inr (MMap [(''type'', MStr ''null'')])
     else if vtyp v = ''integer'' then
       Inr (MMap [(''type'', MStr ''integer''), (''value'', MStr (formatInt (sint (Integer v))))])
     else if vtyp v = ''float'' then
       Inr (MMap [(''type'', MStr ''float''), (''value'', MFloat64 (Float v))])
     else if vtyp v = ''text'' then
       Inr (MMap [(''type'', MStr ''text''), (''value'', MStr (Text v))])
     else if vtyp v = ''blob'' then
       Inr (MMap [(''type'', MStr ''blob''), (''base64'', MStr (b64Encode (Blob v)))])
     else Inl (UnknownValueType (vtyp v)))"

text \<open>The anonymous struct \<open>UnmarshalMsgpack\<close> decodes into; nil leaves a string empty.\<close>

record raw_msgpack =
  mpType :: string
  mpValue :: msgpack
  mpBase64 :: string

fun msgpackString :: "msgpack \<Rightarrow> string option" where
  "msgpackString (MStr s) = Some s"
| "msgpackString (MBin bs) = Some (map (\<lambda>b. char_of (unat b)) bs)"
| "msgpackString MNil = Some []"
| "msgpackString _ = None"

fun decodeRawMsgpack :: "raw_msgpack \<Rightarrow> (string \<times> msgpack) list \<Rightarrow> json_error + raw_msgpack" where
  "decodeRawMsgpack r [] = Inr r"
| "decodeRawMsgpack r ((k, m) # kvs) =
    (if k = ''type'' then
       (case msgpackString m of
          None \<Rightarrow> Inl (UnmarshalType ''string'')
        | Some s \<Rightarrow> decodeRawMsgpack (r\<lparr>mpType := s\<rparr>) kvs)
     else if k = ''value'' then decodeRawMsgpack (r\<lparr>mpValue := m\<rparr>) kvs
     else if k = ''base64'' then
       (case msgpackString m of
          None \<Rightarrow> Inl (UnmarshalType ''string'')
        | Some s \<Rightarrow> decodeRawMsgpack (r\<lparr>mpBase64 := s\<rparr>) kvs)
     else decodeRawMsgpack r kvs)"

text \<open>\<open>widen\<close> is the conversion \<open>float64(f)\<close> of a float32, on bit patterns.\<close>

definition valueOfMsgpack ::
  "(32 word \<Rightarrow> f64) \<Rightarrow> val \<Rightarrow> raw_msgpack \<Rightarrow> error + val" where
  "valueOfMsgpack widen v r =
    (let v = v\<lparr>vtyp := mpType r\<rparr> in
     if mpType r = ''null'' then Inr (v\<lparr>IsNull := True\<rparr>)
     else if mpType r = ''integer'' then
       (case mpValue r of
          MStr s \<Rightarrow>
            (case parseInt 64 s of
               Inl e \<Rightarrow> Inl (InvalidInteger s e)
             | Inr i \<Rightarrow> Inr (v\<lparr>Integer := word_of_int i\<rparr>))
        | _ \<Rightarrow> Inl (IntegerNotString (UnmarshalType ''string'')))
     else if mpType r = ''float'' then
       (case mpValue r of
          MFloat64 f \<Rightarrow> Inr (v\<lparr>Float := f\<rparr>)
        | MFloat32 f \<Rightarrow> Inr (v\<lparr>Float := widen f\<rparr>)
        | _ \<Rightarrow> Inl (FloatNotNumber (UnmarshalType ''float64'')))
     else if mpType r = ''text'' then
       (case mpValue r of
          MStr s \<Rightarrow> Inr (v\<lparr>Text := s\<rparr>)
        | _ \<Rightarrow> Inl (TextNotString (UnmarshalType ''string'')))
     else if mpType r = ''blob'' then
       (case b64Decode (mpBase64 r) of None \<Rightarrow> Inl InvalidBlob | Some b \<Rightarrow> Inr (v\<lparr>Blob := b\<rparr>))
     else Inl (UnknownValueType (mpType r)))"

definition unmarshalMsgpack :: "(32 word \<Rightarrow> f64) \<Rightarrow> val \<Rightarrow> msgpack \<Rightarrow> error + val" where
  "unmarshalMsgpack widen v data =
    (case data of
       MMap kvs \<Rightarrow>
         (case decodeRawMsgpack \<lparr>mpType = [], mpValue = MNil, mpBase64 = []\<rparr> kvs of
            Inl e \<Rightarrow> Inl (BadJson e)
          | Inr r \<Rightarrow> valueOfMsgpack widen v r)
     | MNil \<Rightarrow> valueOfMsgpack widen v \<lparr>mpType = [], mpValue = MNil, mpBase64 = []\<rparr>
     | _ \<Rightarrow> Inl (BadJson (UnmarshalType ''struct'')))"

text \<open>
  C18.  Over MessagePack every value the server builds is read back as it was written, the
  floats and byte strings JSON cannot carry included.
\<close>

theorem value_msgpack_roundtrip:
  assumes "builtValue v"
  shows "\<exists>m. marshalMsgpack v = Inr m \<and> unmarshalMsgpack widen zeroValue m = Inr v"
  using assms
proof (cases rule: builtValue_cases)
  case 1
  then show ?thesis
    by (simp add: marshalMsgpack_def unmarshalMsgpack_def valueOfMsgpack_def value_defs)
next
  case (2 i)
  then show ?thesis
    by (simp add: marshalMsgpack_def unmarshalMsgpack_def valueOfMsgpack_def value_defs)
next
  case (3 f)
  then show ?thesis
    by (simp add: marshalMsgpack_def unmarshalMsgpack_def valueOfMsgpack_def value_defs)
next
  case (4 s)
  then show ?thesis
    by (simp add: marshalMsgpack_def unmarshalMsgpack_def valueOfMsgpack_def value_defs)
next
  case (5 b)
  then show ?thesis
    by (simp add: marshalMsgpack_def unmarshalMsgpack_def valueOfMsgpack_def value_defs
        b64_roundtrip)
qed

theorem value_msgpack_roundtrip_witness:
  "\<exists>m. marshalMsgpack (IntValue 7) = Inr m
    \<and> unmarshalMsgpack (\<lambda>_. 0) zeroValue m = Inr (IntValue 7)"
  by (rule value_msgpack_roundtrip) (simp add: value_defs)

end
