(* ===== verification/StructJson.thy ===== *)
theory StructJson
  imports Wire
begin

text \<open>
  How \<open>encoding/json\<close> reads and writes the structs of \<open>src/types.go\<close>, by their field tags:
  statements, batches and their conditions, named arguments, SQL references on the way in;
  statement, batch and describe results on the way out.  A member is matched to a field up to
  case, unknown members are skipped, a later member overwrites an earlier one, \<open>null\<close> empties
  a pointer or a slice and leaves any other field as it is.  Of several mistakes in one
  document the first is reported.
\<close>

text \<open>
  What the standard library makes of numbers and errors: the literal of a float and back,
  the literal of a duration in milliseconds given in microseconds, the text of an error.
\<close>

record go_text =
  fmtFloat :: "f64 \<Rightarrow> string"
  parseFloat :: "string \<Rightarrow> f64 option"
  fmtMs :: "int \<Rightarrow> string"
  errText :: "error \<Rightarrow> string"

section \<open>Reading structs\<close>

fun readMembers :: "('r \<Rightarrow> string \<Rightarrow> json \<Rightarrow> 'e + 'r) \<Rightarrow> 'r \<Rightarrow> (string \<times> json) list \<Rightarrow> 'e + 'r" where
  "readMembers f r [] = Inr r"
| "readMembers f r ((k, j) # kvs) =
    (case f r (foldName k) j of Inl e \<Rightarrow> Inl e | Inr r' \<Rightarrow> readMembers f r' kvs)"

text \<open>\<open>bad\<close> is how an error of the package itself is reported.\<close>

definition readStruct ::
  "(json_error \<Rightarrow> 'e) \<Rightarrow> ('r \<Rightarrow> string \<Rightarrow> json \<Rightarrow> 'e + 'r) \<Rightarrow> 'r \<Rightarrow> json \<Rightarrow> 'e + 'r" where
  "readStruct bad f r j =
    (case j of
       JObj kvs \<Rightarrow> readMembers f r kvs
     | JNull \<Rightarrow> Inr r
     | _ \<Rightarrow> Inl (bad (UnmarshalType ''struct'')))"

fun ptrString :: "json \<Rightarrow> json_error + string option" where
  "ptrString JNull = Inr None"
| "ptrString (JStr s) = Inr (Some s)"
| "ptrString _ = Inl (UnmarshalType ''string'')"

fun ptrBool :: "json \<Rightarrow> json_error + bool option" where
  "ptrBool JNull = Inr None"
| "ptrBool (JBool b) = Inr (Some b)"
| "ptrBool _ = Inl (UnmarshalType ''bool'')"

fun ptrInt :: "nat \<Rightarrow> json \<Rightarrow> json_error + int option" where
  "ptrInt bits JNull = Inr None"
| "ptrInt bits (JNum l) =
    (case parseInt bits l of Inl _ \<Rightarrow> Inl (UnmarshalType ''int'') | Inr i \<Rightarrow> Inr (Some i))"
| "ptrInt bits _ = Inl (UnmarshalType ''int'')"

fun ptrUint :: "nat \<Rightarrow> json \<Rightarrow> json_error + nat option" where
  "ptrUint bits JNull = Inr None"
| "ptrUint bits (JNum l) =
    (case parseUint l of
       None \<Rightarrow> Inl (UnmarshalType ''uint'')
     | Some n \<Rightarrow> (if n < 2 ^ bits then Inr (Some n) else Inl (UnmarshalType ''uint'')))"
| "ptrUint bits _ = Inl (UnmarshalType ''uint'')"

definition ptrInt32 :: "json \<Rightarrow> json_error + i32 option" where
  "ptrInt32 j = map_sum id (map_option word_of_int) (ptrInt 32 j)"

definition ptrUint32 :: "json \<Rightarrow> json_error + u32 option" where
  "ptrUint32 j = map_sum id (map_option word_of_nat) (ptrUint 32 j)"

definition keepOr :: "'a \<Rightarrow> 'e + 'a option \<Rightarrow> 'e + 'a" where
  "keepOr old r = map_sum id (\<lambda>x. case x of None \<Rightarrow> old | Some y \<Rightarrow> y) r"

fun readSlice :: "(json_error \<Rightarrow> 'e) \<Rightarrow> (json \<Rightarrow> 'e + 'a) \<Rightarrow> json \<Rightarrow> 'e + 'a list" where
  "readSlice bad f JNull = Inr []"
| "readSlice bad f (JArr js) = mapR f js"
| "readSlice bad f _ = Inl (bad (UnmarshalType ''slice''))"

definition emptyStmt :: stmt where
  "emptyStmt = \<lparr>SQL = None, SQLId = None, Args = [], NamedArgs = [], WantRows = None\<rparr>"

definition readNamedArg :: "go_text \<Rightarrow> json \<Rightarrow> error + named_arg" where
  "readNamedArg T =
    readStruct BadJson (\<lambda>r k j.
        if k = ''name'' then map_sum BadJson (\<lambda>x. r\<lparr>naName := x\<rparr>) (decodeString (naName r) j)
        else if k = ''value'' then
          map_sum id (\<lambda>x. r\<lparr>naValue := x\<rparr>) (unmarshalValue (parseFloat T) (naValue r) j)
        else Inr r)
      \<lparr>naName = [], naValue = zeroValue\<rparr>"

definition stmtField :: "go_text \<Rightarrow> stmt \<Rightarrow> string \<Rightarrow> json \<Rightarrow> error + stmt" where
  "stmtField T s k j =
    (if k = ''sql'' then map_sum BadJson (\<lambda>x. s\<lparr>SQL := x\<rparr>) (ptrString j)
     else if k = ''sql_id'' then map_sum BadJson (\<lambda>x. s\<lparr>SQLId := x\<rparr>) (ptrInt32 j)
     else if k = ''args'' then
       map_sum id (\<lambda>x. s\<lparr>Args := x\<rparr>) (readSlice BadJson (unmarshalValue (parseFloat T) zeroValue) j)
     else if k = ''named_args'' then map_sum id (\<lambda>x. s\<lparr>NamedArgs := x\<rparr>) (readSlice BadJson (readNamedArg T) j)
     else if k = ''want_rows'' then map_sum BadJson (\<lambda>x. s\<lparr>WantRows := x\<rparr>) (ptrBool j)
     else Inr s)"

definition readStmt :: "go_text \<Rightarrow> stmt \<Rightarrow> json \<Rightarrow> error + stmt" where
  "readStmt T = readStruct BadJson (stmtField T)"

text \<open>A condition is a tree; its members are read along the tree of the document.\<close>

fun readCond :: "batch_cond \<Rightarrow> json \<Rightarrow> error + batch_cond"
  and condMembers :: "batch_cond \<Rightarrow> (string \<times> json) list \<Rightarrow> error + batch_cond"
  and condList :: "json list \<Rightarrow> error + batch_cond list" where
  "readCond c (JObj kvs) = condMembers c kvs"
| "readCond c JNull = Inr c"
| "readCond c _ = Inl (BadJson (UnmarshalType ''struct''))"
| "condMembers c [] = Inr c"
| "condMembers (BatchCond ty step inner conds) ((k, j) # kvs) =
    (case (if foldName k = ''type'' then map_sum BadJson (\<lambda>t. BatchCond t step inner conds) (decodeString ty j)
           else if foldName k = ''step'' then map_sum BadJson (\<lambda>x. BatchCond ty x inner conds) (ptrUint32 j)
           else if foldName k = ''cond'' then
             (if j = JNull then Inr (BatchCond ty step None conds)
              else map_sum id (\<lambda>x. BatchCond ty step (Some x) conds) (readCond (BatchCond [] None None []) j))
           else if foldName k = ''conds'' then
             (case j of
                JNull \<Rightarrow> Inr (BatchCond ty step inner [])
              | JArr js \<Rightarrow> map_sum id (\<lambda>x. BatchCond ty step inner x) (condList js)
              | _ \<Rightarrow> Inl (BadJson (UnmarshalType ''slice'')))
           else Inr (BatchCond ty step inner conds)) of
       Inl e \<Rightarrow> Inl e
     | Inr c' \<Rightarrow> condMembers c' kvs)"
| "condList [] = Inr []"
| "condList (j # js) =
    (case readCond (BatchCond [] None None []) j of
       Inl e \<Rightarrow> Inl e
     | Inr c \<Rightarrow> (case condList js of Inl e \<Rightarrow> Inl e | Inr cs \<Rightarrow> Inr (c # cs)))"

definition readStep :: "go_text \<Rightarrow> json \<Rightarrow> error + batch_step" where
  "readStep T =
    readStruct BadJson (\<lambda>b k j.
        if k = ''condition'' then
          (if j = JNull then Inr (b\<lparr>Condition := None\<rparr>)
           else map_sum id (\<lambda>x. b\<lparr>Condition := Some x\<rparr>) (readCond (BatchCond [] None None []) j))
        else if k = ''stmt'' then map_sum id (\<lambda>x. b\<lparr>Stmt := x\<rparr>) (readStmt T (Stmt b) j)
        else Inr b)
      \<lparr>Condition = None, Stmt = emptyStmt\<rparr>"

definition readBatch :: "go_text \<Rightarrow> batch \<Rightarrow> json \<Rightarrow> error + batch" where
  "readBatch T =
    readStruct BadJson (\<lambda>b k j. if k = ''steps'' then readSlice BadJson (readStep T) j else Inr b)"

text \<open>The request structs that wrap one of these, and the references to SQL texts.\<close>

definition readStmtReq :: "go_text \<Rightarrow> json \<Rightarrow> error + stmt" where
  "readStmtReq T = readStruct BadJson (\<lambda>s k j. if k = ''stmt'' then readStmt T s j else Inr s) emptyStmt"

definition readBatchReq :: "go_text \<Rightarrow> json \<Rightarrow> error + batch" where
  "readBatchReq T = readStruct BadJson (\<lambda>b k j. if k = ''batch'' then readBatch T b j else Inr b) []"

definition readSqlRef :: "json \<Rightarrow> error + (string option \<times> i32 option)" where
  "readSqlRef =
    readStruct BadJson (\<lambda>(q, key) k j.
        if k = ''sql'' then map_sum BadJson (\<lambda>x. (x, key)) (ptrString j)
        else if k = ''sql_id'' then map_sum BadJson (\<lambda>x. (q, x)) (ptrInt32 j)
        else Inr (q, key)) (None, None)"

definition readStoreSql :: "json \<Rightarrow> error + (i32 \<times> string)" where
  "readStoreSql =
    readStruct BadJson (\<lambda>(key, sql) k j.
        if k = ''sql_id'' then map_sum BadJson (\<lambda>x. (x, sql)) (keepOr key (ptrInt32 j))
        else if k = ''sql'' then map_sum BadJson (\<lambda>x. (key, x)) (decodeString sql j)
        else Inr (key, sql)) (0, [])"

definition readCloseSql :: "json \<Rightarrow> error + i32" where
  "readCloseSql = readStruct BadJson (\<lambda>key k j. if k = ''sql_id'' then map_sum BadJson id (keepOr key (ptrInt32 j)) else Inr key) 0"

section \<open>Writing structs\<close>

definition jStr :: "string \<Rightarrow> json" where
  "jStr s = JStr (coerceUtf8 s)"

definition jOpt :: "string option \<Rightarrow> json" where
  "jOpt s = (case s of None \<Rightarrow> JNull | Some x \<Rightarrow> jStr x)"

definition omitNil :: "string \<Rightarrow> string option \<Rightarrow> (string \<times> json) list" where
  "omitNil k s = (case s of None \<Rightarrow> [] | Some x \<Rightarrow> [(k, jStr x)])"

definition jNat :: "nat \<Rightarrow> json" where
  "jNat n = JNum (natDigits n)"

definition writeError :: "go_text \<Rightarrow> hrana_error \<Rightarrow> json" where
  "writeError T e = JObj ((''message'', jStr (errText T (Message e))) # omitNil ''code'' (Code e))"

definition writeCol :: "col \<Rightarrow> json" where
  "writeCol c = JObj ((''name'', jOpt (Name c)) # omitNil ''decltype'' (Decltype c))"

definition writeRows :: "go_text \<Rightarrow> val list list \<Rightarrow> error + json list" where
  "writeRows T = mapR (\<lambda>row. map_sum id JArr (mapR (marshalValue (fmtFloat T)) row))"

definition writeStmtResult :: "go_text \<Rightarrow> stmt_result \<Rightarrow> error + json" where
  "writeStmtResult T r =
    map_sum id (\<lambda>rows. JObj
        [(''cols'', JArr (map writeCol (Cols r))), (''rows'', JArr rows),
         (''affected_row_count'', jNat (unat (AffectedRowCount r))),
         (''last_insert_rowid'', jOpt (LastInsertRowid r)),
         (''rows_read'', jNat (unat (RowsRead r))), (''rows_written'', jNat (unat (RowsWritten r))),
         (''query_duration_ms'', JNum (fmtMs T (QueryDurationUs r)))])
      (writeRows T (Rows r))"

definition writePtr :: "('a \<Rightarrow> error + json) \<Rightarrow> 'a option \<Rightarrow> error + json" where
  "writePtr f x = (case x of None \<Rightarrow> Inr JNull | Some y \<Rightarrow> f y)"

definition writeBatchResult :: "go_text \<Rightarrow> batch_result \<Rightarrow> error + json" where
  "writeBatchResult T br =
    map_sum id (\<lambda>rs. JObj
        [(''step_results'', JArr rs),
         (''step_errors'', JArr (map (\<lambda>e. case e of None \<Rightarrow> JNull | Some x \<Rightarrow> writeError T x) (StepErrors br)))])
      (mapR (writePtr (writeStmtResult T)) (StepResults br))"

definition writeDescribeResult :: "describe_result \<Rightarrow> json" where
  "writeDescribeResult d = JObj
    [(''params'', JArr []),
     (''cols'', JArr (map (\<lambda>c. JObj [(''name'', jStr (dName c)), (''decltype'', jOpt (dDecltype c))]) (dCols d))),
     (''is_explain'', JBool (IsExplain d)), (''is_readonly'', JBool (IsReadonly d))]"

end
