(* ===== verification/Pipeline.thy ===== *)
theory Pipeline
  imports CursorBatch Batons Msgpack StructJson
begin

text \<open>
  Stream requests over HTTP: \<open>StreamRequest\<close> and its decoding, \<open>StreamResponse\<close> and its
  encoding (\<open>src/types.go\<close>), \<open>dispatchStreamRequest\<close> and \<open>executePipelineRequests\<close>
  (\<open>src/http.go\<close>).
\<close>

section \<open>Requests\<close>

record stream_request =
  srType :: string
  srExecute :: "stmt option"
  srBatch :: "batch option"
  srSequence :: "(string option \<times> i32 option) option"
  srDescribe :: "(string option \<times> i32 option) option"
  srStoreSql :: "(i32 \<times> string) option"
  srCloseSql :: "i32 option"
  srGetAutocommit :: "unit option"

definition emptyRequest :: stream_request where
  "emptyRequest =
    \<lparr>srType = [], srExecute = None, srBatch = None, srSequence = None, srDescribe = None,
     srStoreSql = None, srCloseSql = None, srGetAutocommit = None\<rparr>"

fun decodeTypeMember :: "string \<Rightarrow> (string \<times> json) list \<Rightarrow> json_error + string" where
  "decodeTypeMember t [] = Inr t"
| "decodeTypeMember t ((k, j) # kvs) =
    (if foldName k = ''type'' then
       (case decodeString t j of Inl e \<Rightarrow> Inl e | Inr t' \<Rightarrow> decodeTypeMember t' kvs)
     else decodeTypeMember t kvs)"

definition decodeType :: "json \<Rightarrow> json_error + string" where
  "decodeType data =
    (case data of
       JObj kvs \<Rightarrow> decodeTypeMember [] kvs
     | JNull \<Rightarrow> Inr []
     | _ \<Rightarrow> Inl (UnmarshalType ''struct''))"

definition payload :: "error + 'a \<Rightarrow> ('a \<Rightarrow> stream_request) \<Rightarrow> error + stream_request" where
  "payload r f = map_sum id f r"

definition unmarshalStreamRequest :: "go_text \<Rightarrow> stream_request \<Rightarrow> json \<Rightarrow> error + stream_request" where
  "unmarshalStreamRequest T r data =
    (case decodeType data of
       Inl e \<Rightarrow> Inl (BadJson e)
     | Inr t \<Rightarrow>
         (let r = r\<lparr>srType := t\<rparr> in
          if t = ''close'' then Inr r
          else if t = ''execute'' then payload (readStmtReq T data) (\<lambda>x. r\<lparr>srExecute := Some x\<rparr>)
          else if t = ''batch'' then payload (readBatchReq T data) (\<lambda>x. r\<lparr>srBatch := Some x\<rparr>)
          else if t = ''sequence'' then payload (readSqlRef data) (\<lambda>x. r\<lparr>srSequence := Some x\<rparr>)
          else if t = ''describe'' then payload (readSqlRef data) (\<lambda>x. r\<lparr>srDescribe := Some x\<rparr>)
          else if t = ''store_sql'' then payload (readStoreSql data) (\<lambda>x. r\<lparr>srStoreSql := Some x\<rparr>)
          else if t = ''close_sql'' then payload (readCloseSql data) (\<lambda>x. r\<lparr>srCloseSql := Some x\<rparr>)
          else if t = ''get_autocommit'' then Inr (r\<lparr>srGetAutocommit := Some ()\<rparr>)
          else Inl (UnknownStreamRequest t)))"

section \<open>Responses\<close>

text \<open>
  Every literal of \<open>StreamResponse\<close> in the code is a constructor; its \<open>Type\<close> is
  \<open>respType\<close>.
\<close>

datatype stream_response =
    RespClose
  | RespExecute stmt_result
  | RespBatch batch_result
  | RespSequence
  | RespDescribe describe_result
  | RespStoreSql
  | RespCloseSql
  | RespGetAutocommit bool

fun respType :: "stream_response \<Rightarrow> string" where
  "respType RespClose = ''close''"
| "respType (RespExecute _) = ''execute''"
| "respType (RespBatch _) = ''batch''"
| "respType RespSequence = ''sequence''"
| "respType (RespDescribe _) = ''describe''"
| "respType RespStoreSql = ''store_sql''"
| "respType RespCloseSql = ''close_sql''"
| "respType (RespGetAutocommit _) = ''get_autocommit''"

definition withResult :: "error + json \<Rightarrow> string \<Rightarrow> error + json" where
  "withResult r t = map_sum id (\<lambda>j. JObj [(''result'', j), (''type'', JStr t)]) r"

definition marshalStreamResponse :: "go_text \<Rightarrow> stream_response \<Rightarrow> error + json" where
  "marshalStreamResponse T sr =
    (case sr of
       RespExecute r \<Rightarrow> withResult (writeStmtResult T r) (respType sr)
     | RespBatch r \<Rightarrow> withResult (writeBatchResult T r) (respType sr)
     | RespDescribe r \<Rightarrow> withResult (Inr (writeDescribeResult r)) (respType sr)
     | RespGetAutocommit b \<Rightarrow>
         Inr (JObj [(''is_autocommit'', JBool b), (''type'', JStr (respType sr))])
     | _ \<Rightarrow> Inr (JObj [(''type'', JStr (respType sr))]))"

datatype stream_result = StreamOk stream_response | StreamError hrana_error

definition errorStreamResult :: "error \<Rightarrow> stream_result" where
  "errorStreamResult e = StreamError \<lparr>Message = e, Code = None\<rparr>"

section \<open>Dispatch\<close>

text \<open>The stored texts of a stream are resolved by a copy of what a session does.\<close>

definition resolveStreamSQL :: "string option \<Rightarrow> i32 option \<Rightarrow> sql_map \<Rightarrow> error + string" where
  "resolveStreamSQL sqlText sqlID storedSQL =
    (case (sqlText, sqlID) of
       (Some _, Some _) \<Rightarrow> Inl BothSql
     | (Some s, None) \<Rightarrow> Inr s
     | (None, Some key) \<Rightarrow> (case map_of storedSQL key of None \<Rightarrow> Inl (SqlIdNotFound key) | Some s \<Rightarrow> Inr s)
     | (None, None) \<Rightarrow> Inl NoSql)"

lemma resolveStreamSQL_session [simp]: "resolveStreamSQL = resolveSQL"
  by (simp add: fun_eq_iff resolveStreamSQL_def resolveSQL_def)

definition answer ::
  "('a \<Rightarrow> stream_response) \<Rightarrow> stream \<Rightarrow> (error + 'a) \<times> 'd \<Rightarrow> ((error + stream_response) \<times> stream) \<times> 'd"
where
  "answer f st r =
    (case r of (Inl e, w) \<Rightarrow> ((Inl e, st), w) | (Inr x, w) \<Rightarrow> ((Inr (f x), st), w))"

definition dispatchStreamRequest ::
  "'d env \<Rightarrow> stream \<Rightarrow> stream_request \<Rightarrow> 'd \<Rightarrow> ((error + stream_response) \<times> stream) \<times> 'd" where
  "dispatchStreamRequest E st req w =
    (let t = srType req; S = StoredSQL st; missing = ((Inl (MissingPayload t), st), w) in
     if t = ''close'' then ((Inr RespClose, st), w)
     else if t = ''execute'' then
       (case srExecute req of
          None \<Rightarrow> missing
        | Some s \<Rightarrow> answer RespExecute st (executeStmt E st s S w))
     else if t = ''batch'' then
       (case srBatch req of
          None \<Rightarrow> missing
        | Some b \<Rightarrow> answer RespBatch st (executeBatch E st b S w))
     else if t = ''sequence'' then
       (case srSequence req of
          None \<Rightarrow> missing
        | Some (q, key) \<Rightarrow>
            (case resolveStreamSQL q key S of
               Inl e \<Rightarrow> ((Inl e, st), w)
             | Inr sqlText \<Rightarrow> answer (\<lambda>_. RespSequence) st (executeSequence E st sqlText w)))
     else if t = ''describe'' then
       (case srDescribe req of
          None \<Rightarrow> missing
        | Some (q, key) \<Rightarrow>
            (case resolveStreamSQL q key S of
               Inl e \<Rightarrow> ((Inl e, st), w)
             | Inr sqlText \<Rightarrow> answer RespDescribe st (describeStmt E st sqlText w)))
     else if t = ''store_sql'' then
       (case srStoreSql req of
          None \<Rightarrow> missing
        | Some (key, sqlText) \<Rightarrow>
            (case storeSQL key sqlText S of
               Inl e \<Rightarrow> ((Inl e, st), w)
             | Inr S' \<Rightarrow> ((Inr RespStoreSql, st\<lparr>StoredSQL := S'\<rparr>), w)))
     else if t = ''close_sql'' then
       (case srCloseSql req of
          None \<Rightarrow> missing
        | Some key \<Rightarrow> ((Inr RespCloseSql, st\<lparr>StoredSQL := closeSQL key S\<rparr>), w))
     else if t = ''get_autocommit'' then ((Inr (RespGetAutocommit True), st), w)
     else ((Inl (UnknownStreamRequest t), st), w))"

text \<open>One request on a shared stream: the stream's mutex is held throughout.\<close>

definition dispatchAt ::
  "'d env \<Rightarrow> nat \<Rightarrow> stream_request \<Rightarrow> baton_store \<Rightarrow> 'd \<Rightarrow> (error + stream_response) \<times> baton_store \<times> 'd"
where
  "dispatchAt E a req s w =
    (case dispatchStreamRequest E (heap s ! a) req w of
       ((r, st), w') \<Rightarrow> (r, setStream a st s, w'))"

fun executePipelineRequests ::
  "'d env \<Rightarrow> nat \<Rightarrow> stream_request list \<Rightarrow> bool \<Rightarrow> baton_store \<Rightarrow> 'd \<Rightarrow>
    (stream_result list \<times> bool) \<times> baton_store \<times> 'd" where
  "executePipelineRequests E a [] isClosed s w = (([], isClosed), s, w)"
| "executePipelineRequests E a (req # reqs) isClosed s w =
    (if isClosed then
       (case executePipelineRequests E a reqs isClosed s w of
          ((results, c), s', w') \<Rightarrow> ((errorStreamResult StreamIsClosed # results, c), s', w'))
     else
       (case dispatchAt E a req s w of
          (resp, s1, w1) \<Rightarrow>
            (let result = (case resp of Inl e \<Rightarrow> errorStreamResult e | Inr r \<Rightarrow> StreamOk r) in
             case executePipelineRequests E a reqs (srType req = ''close'') s1 w1 of
               ((results, c), s', w') \<Rightarrow> ((result # results, c), s', w'))))"

section \<open>One request\<close>

lemma answer_stream: "answer f st r = ((x, st'), w') \<Longrightarrow> st' = st"
  by (auto simp: answer_def split: prod.splits sum.splits)

lemma answer_type:
  "answer f st r = ((Inr x, st'), w') \<Longrightarrow> (\<And>y. respType (f y) = t) \<Longrightarrow> respType x = t"
  by (auto simp: answer_def split: prod.splits sum.splits)

text \<open>
  The types of requests, with the dispatch of each: the case analysis the proofs about
  \<open>dispatchStreamRequest\<close> start from.
\<close>

lemma srType_cases:
  obtains "t = ''close''" | "t = ''execute''" | "t = ''batch''" | "t = ''sequence''"
    | "t = ''describe''" | "t = ''store_sql''" | "t = ''close_sql''" | "t = ''get_autocommit''"
    | (unknown) "t \<noteq> ''close''" "t \<noteq> ''execute''" "t \<noteq> ''batch''" "t \<noteq> ''sequence''"
      "t \<noteq> ''describe''" "t \<noteq> ''store_sql''" "t \<noteq> ''close_sql''" "t \<noteq> ''get_autocommit''"
  by blast

lemma dispatch_cases:
  assumes "dispatchStreamRequest E st req w = ((r, st'), w')"
  obtains
    (close) "srType req = ''close''" "r = Inr RespClose" "st' = st" "w' = w"
  | (execute) s where "srType req = ''execute''" "srExecute req = Some s"
      "answer RespExecute st (executeStmt E st s (StoredSQL st) w) = ((r, st'), w')"
  | (batch) b where "srType req = ''batch''" "srBatch req = Some b"
      "answer RespBatch st (executeBatch E st b (StoredSQL st) w) = ((r, st'), w')"
  | (sequence) q where "srType req = ''sequence''" "srSequence req \<noteq> None"
      "answer (\<lambda>_. RespSequence) st (executeSequence E st q w) = ((r, st'), w')"
  | (describe) q where "srType req = ''describe''" "srDescribe req \<noteq> None"
      "answer RespDescribe st (describeStmt E st q w) = ((r, st'), w')"
  | (store) key q S' where "srType req = ''store_sql''" "srStoreSql req = Some (key, q)"
      "storeSQL key q (StoredSQL st) = Inr S'" "r = Inr RespStoreSql"
      "st' = st\<lparr>StoredSQL := S'\<rparr>" "w' = w"
  | (drop) key where "srType req = ''close_sql''" "srCloseSql req = Some key"
      "r = Inr RespCloseSql" "st' = st\<lparr>StoredSQL := closeSQL key (StoredSQL st)\<rparr>" "w' = w"
  | (auto_commit) "srType req = ''get_autocommit''" "r = Inr (RespGetAutocommit True)" "st' = st" "w' = w"
  | (refused) "\<exists>e. r = Inl e" "st' = st" "w' = w"
proof (cases rule: srType_cases[of "srType req"])
  case 1
  with assms show ?thesis by (intro close) (simp_all add: dispatchStreamRequest_def Let_def)
next
  case 2
  show ?thesis
  proof (cases "srExecute req")
    case None
    with 2 assms show ?thesis by (intro refused) (auto simp: dispatchStreamRequest_def Let_def)
  next
    case (Some s)
    with 2 assms show ?thesis by (intro execute) (simp_all add: dispatchStreamRequest_def Let_def)
  qed
next
  case 3
  show ?thesis
  proof (cases "srBatch req")
    case None
    with 3 assms show ?thesis by (intro refused) (auto simp: dispatchStreamRequest_def Let_def)
  next
    case (Some s)
    with 3 assms show ?thesis by (intro batch) (simp_all add: dispatchStreamRequest_def Let_def)
  qed
next
  case 4
  show ?thesis
  proof (cases "srSequence req")
    case None
    with 4 assms show ?thesis by (intro refused) (auto simp: dispatchStreamRequest_def Let_def)
  next
    case (Some p)
    obtain q k where p: "p = (q, k)" by (cases p)
    show ?thesis
    proof (cases "resolveSQL q k (StoredSQL st)")
      case (Inl e)
      with 4 assms Some p show ?thesis
        by (intro refused) (auto simp: dispatchStreamRequest_def Let_def)
    next
      case (Inr q1)
      with 4 assms Some p show ?thesis
        by (intro sequence[of q1]) (simp_all add: dispatchStreamRequest_def Let_def)
    qed
  qed
next
  case 5
  show ?thesis
  proof (cases "srDescribe req")
    case None
    with 5 assms show ?thesis by (intro refused) (auto simp: dispatchStreamRequest_def Let_def)
  next
    case (Some p)
    obtain q k where p: "p = (q, k)" by (cases p)
    show ?thesis
    proof (cases "resolveSQL q k (StoredSQL st)")
      case (Inl e)
      with 5 assms Some p show ?thesis
        by (intro refused) (auto simp: dispatchStreamRequest_def Let_def)
    next
      case (Inr q1)
      with 5 assms Some p show ?thesis
        by (intro describe[of q1]) (simp_all add: dispatchStreamRequest_def Let_def)
    qed
  qed
next
  case 6
  show ?thesis
  proof (cases "srStoreSql req")
    case None
    with 6 assms show ?thesis by (intro refused) (auto simp: dispatchStreamRequest_def Let_def)
  next
    case (Some p)
    obtain k q where p: "p = (k, q)" by (cases p)
    show ?thesis
    proof (cases "storeSQL k q (StoredSQL st)")
      case (Inl e)
      with 6 assms Some p show ?thesis
        by (intro refused) (auto simp: dispatchStreamRequest_def Let_def)
    next
      case (Inr S')
      with 6 assms Some p show ?thesis
        by (intro store[of k q S']) (simp_all add: dispatchStreamRequest_def Let_def)
    qed
  qed
next
  case 7
  show ?thesis
  proof (cases "srCloseSql req")
    case None
    with 7 assms show ?thesis by (intro refused) (auto simp: dispatchStreamRequest_def Let_def)
  next
    case (Some k)
    with 7 assms show ?thesis by (intro drop[of k]) (simp_all add: dispatchStreamRequest_def Let_def)
  qed
next
  case 8
  with assms show ?thesis by (intro auto_commit) (simp_all add: dispatchStreamRequest_def Let_def)
next
  case unknown
  with assms show ?thesis by (intro refused) (auto simp: dispatchStreamRequest_def Let_def)
qed

lemma dispatch_type:
  assumes "dispatchStreamRequest E st req w = ((Inr x, st'), w')"
  shows "respType x = srType req"
  using assms by (cases rule: dispatch_cases) (auto dest: answer_type)

lemma storeSQL_wf: "storeSQL key q S = Inr S' \<Longrightarrow> wf_map S \<Longrightarrow> wf_map S'"
  by (auto simp: storeSQL_def split: option.splits)

text \<open>A request touches nothing of its stream but the stored texts.\<close>

lemma dispatch_frame:
  assumes "dispatchStreamRequest E st req w = ((r, st'), w')"
  shows "(\<exists>S'. st' = st\<lparr>StoredSQL := S'\<rparr>) \<and> (streamOk st \<longrightarrow> streamOk st')"
  using assms
proof (cases rule: dispatch_cases)
  case (store key q S')
  then show ?thesis by (auto simp: streamOk_def intro: storeSQL_wf)
next
  case (drop key)
  then show ?thesis by (auto simp: streamOk_def closeSQL_def)
qed (auto dest!: answer_stream intro!: exI[of _ "StoredSQL st"])

section \<open>A pipeline of requests\<close>

lemma all_less_Suc_cases: "(\<forall>i < Suc n. P i) \<longleftrightarrow> P 0 \<and> (\<forall>k < n. P (Suc k))"
  by (auto simp: less_Suc_eq_0_disj)

definition isClose :: "stream_request \<Rightarrow> bool" where
  [go_defs]: "isClose req \<longleftrightarrow> srType req = ''close''"

lemma executePipeline_closed:
  "executePipelineRequests E a reqs True s w =
    ((replicate (length reqs) (errorStreamResult StreamIsClosed), True), s, w)"
  by (induction reqs) auto

lemma pipeline_Cons:
  assumes "executePipelineRequests E a (req # reqs) False s w = ((results, c), s', w')"
  obtains resp s1 w1 rest where "dispatchAt E a req s w = (resp, s1, w1)"
    and "executePipelineRequests E a reqs (isClose req) s1 w1 = ((rest, c), s', w')"
    and "results = (case resp of Inl e \<Rightarrow> errorStreamResult e | Inr r \<Rightarrow> StreamOk r) # rest"
  using assms by (auto simp: isClose_def Let_def split: prod.splits)

lemma pipeline_shape:
  "executePipelineRequests E a reqs False s w = ((results, c), s', w') \<Longrightarrow>
    length results = length reqs \<and> (c \<longleftrightarrow> (\<exists>req \<in> set reqs. isClose req)) \<and>
    (\<forall>i < length reqs.
      if \<exists>j < i. isClose (reqs ! j) then results ! i = errorStreamResult StreamIsClosed
      else (\<forall>x. results ! i = StreamOk x \<longrightarrow> respType x = srType (reqs ! i)))"
proof (induction reqs arbitrary: s w results)
  case Nil
  then show ?case by simp
next
  case (Cons req reqs)
  from Cons.prems obtain resp s1 w1 rest where
    d: "dispatchAt E a req s w = (resp, s1, w1)"
    and r: "executePipelineRequests E a reqs (isClose req) s1 w1 = ((rest, c), s', w')"
    and res: "results = (case resp of Inl e \<Rightarrow> errorStreamResult e | Inr r \<Rightarrow> StreamOk r) # rest"
    by (rule pipeline_Cons)
  have ty: "\<forall>x. results ! 0 = StreamOk x \<longrightarrow> respType x = srType req"
    using d res dispatch_type
    by (fastforce simp: dispatchAt_def errorStreamResult_def split: prod.splits sum.splits)
  show ?case
  proof (cases "isClose req")
    case True
    then show ?thesis
      using r res ty by (auto simp: executePipeline_closed nth_Cons' less_Suc_eq_0_disj)
  next
    case False
    then have "executePipelineRequests E a reqs False s1 w1 = ((rest, c), s', w')" using r by simp
    note ih = Cons.IH[OF this]
    have ex: "(\<exists>j < Suc k. isClose ((req # reqs) ! j)) \<longleftrightarrow> (\<exists>j < k. isClose (reqs ! j))" for k
      using False by (auto simp: less_Suc_eq_0_disj)
    show ?thesis
      unfolding length_Cons all_less_Suc_cases
      using ih False res ty ex by auto
  qed
qed

text \<open>
  C23.  A pipeline answers every request, in order: up to and including the first
  \<open>close\<close> with a response of the request's own type or an error, after it with the error
  that the stream is closed; it reports the stream closed exactly when a \<open>close\<close> occurs.
\<close>

theorem pipeline_answers:
  assumes "executePipelineRequests E a reqs False s w = ((results, c), s', w')"
  shows "length results = length reqs \<and> (c \<longleftrightarrow> (\<exists>req \<in> set reqs. srType req = ''close''))
    \<and> (\<forall>i < length reqs.
      if \<exists>j < i. srType (reqs ! j) = ''close'' then results ! i = errorStreamResult StreamIsClosed
      else (\<forall>x. results ! i = StreamOk x \<longrightarrow> respType x = srType (reqs ! i)))"
  using pipeline_shape[OF assms] by (simp add: isClose_def)

definition demoStore :: baton_store where
  "demoStore = (newBatonStore (10 * second))\<lparr>heap := [newStream 1 someConn, newStream 2 someConn]\<rparr>"

abbreviation execRequest :: "string \<Rightarrow> stream_request" where
  "execRequest sql \<equiv> emptyRequest\<lparr>srType := ''execute'', srExecute := Some (execOnly sql)\<rparr>"

abbreviation closeRequest :: stream_request where
  "closeRequest \<equiv> emptyRequest\<lparr>srType := ''close''\<rparr>"

lemma demo_pipeline:
  "\<exists>s'. executePipelineRequests (pickyEnv '''') 0 [closeRequest, execRequest ''b''] False demoStore ()
    = (([StreamOk RespClose, errorStreamResult StreamIsClosed], True), s', ())"
  by (simp add: dispatchAt_def dispatchStreamRequest_def Let_def emptyRequest_def)

theorem pipeline_answers_witness:
  "length [StreamOk RespClose, errorStreamResult StreamIsClosed]
      = length [closeRequest, execRequest ''b'']
    \<and> [StreamOk RespClose, errorStreamResult StreamIsClosed] ! 1 = errorStreamResult StreamIsClosed"
proof -
  obtain s' where d: "executePipelineRequests (pickyEnv '''') 0 [closeRequest, execRequest ''b''] False demoStore ()
    = (([StreamOk RespClose, errorStreamResult StreamIsClosed], True), s', ())"
    using demo_pipeline by blast
  show ?thesis using pipeline_answers[OF d] by simp
qed

lemma pipeline_append:
  assumes "\<forall>req \<in> set reqs. \<not> isClose req"
  shows "executePipelineRequests E a (reqs @ reqs') False s w =
    (case executePipelineRequests E a reqs False s w of
      ((rs, c), s1, w1) \<Rightarrow>
        (case executePipelineRequests E a reqs' False s1 w1 of
          ((rs', c'), s2, w2) \<Rightarrow> ((rs @ rs', c'), s2, w2)))"
  using assms
proof (induction reqs arbitrary: s w)
  case Nil
  then show ?case by (simp split: prod.split)
next
  case (Cons req reqs)
  then show ?case by (simp add: isClose_def Let_def split: prod.split)
qed

text \<open>
  What follows a \<open>close\<close> in a pipeline has no effect: the store, the streams and the
  database are left as the requests up to the \<open>close\<close> leave them.
\<close>

theorem pipeline_stops_at_close:
  assumes "\<forall>req \<in> set reqs. srType req \<noteq> ''close''" and "srType cl = ''close''"
  shows "executePipelineRequests E a (reqs @ cl # later) False s w =
    (case executePipelineRequests E a (reqs @ [cl]) False s w of
      ((rs, c), s', w') \<Rightarrow> ((rs @ replicate (length later) (errorStreamResult StreamIsClosed), True), s', w'))"
proof -
  have nc: "\<forall>req \<in> set reqs. \<not> isClose req" using assms(1) by (simp add: isClose_def)
  show ?thesis
    unfolding pipeline_append[OF nc]
    by (simp add: assms(2) executePipeline_closed Let_def split: prod.split)
qed

theorem pipeline_stops_at_close_witness:
  "executePipelineRequests (pickyEnv '''') 0 ([execRequest ''a''] @ closeRequest # [execRequest ''b'']) False demoStore ()
    = (case executePipelineRequests (pickyEnv '''') 0 ([execRequest ''a''] @ [closeRequest]) False demoStore () of
      ((rs, c), s', w') \<Rightarrow> ((rs @ replicate 1 (errorStreamResult StreamIsClosed), True), s', w'))"
proof -
  have "\<forall>req \<in> set [execRequest ''a'']. srType req \<noteq> ''close''" "srType closeRequest = ''close''"
    by simp_all
  from pipeline_stops_at_close[OF this, of "pickyEnv ''''" 0 "[execRequest ''b'']"]
  show ?thesis by simp
qed

section \<open>Isolation\<close>

text \<open>A pipeline works on its own stream only, and there on the stored texts only.\<close>

definition sameBut :: "nat \<Rightarrow> baton_store \<Rightarrow> baton_store \<Rightarrow> bool" where
  "sameBut a s s' \<longleftrightarrow>
    batonEntries s' = batonEntries s \<and> ttl s' = ttl s \<and> length (heap s') = length (heap s) \<and>
    (\<forall>b. b \<noteq> a \<longrightarrow> heap s' ! b = heap s ! b) \<and>
    (a < length (heap s) \<longrightarrow> (\<exists>S'. heap s' ! a = (heap s ! a)\<lparr>StoredSQL := S'\<rparr>))"

lemma sameBut_refl [simp]: "sameBut a s s"
  unfolding sameBut_def by (auto intro: exI[of _ "StoredSQL (heap s ! a)"])

lemma sameBut_trans:
  assumes "sameBut a s t" and "sameBut a t u"
  shows "sameBut a s u"
proof -
  have "\<exists>S'. heap u ! a = (heap s ! a)\<lparr>StoredSQL := S'\<rparr>" if "a < length (heap s)"
    using that assms by (fastforce simp: sameBut_def)
  then show ?thesis using assms by (simp add: sameBut_def)
qed

lemma dispatchAt_frame:
  assumes "dispatchAt E a req s w = (r, s', w')"
  shows "sameBut a s s'" and "\<forall>st \<in> set (heap s). streamOk st \<Longrightarrow> \<forall>st \<in> set (heap s'). streamOk st"
proof -
  obtain st' where d: "dispatchStreamRequest E (heap s ! a) req w = ((r, st'), w')"
    and s': "s' = setStream a st' s"
    using assms by (auto simp: dispatchAt_def split: prod.splits)
  note f = dispatch_frame[OF d]
  show "sameBut a s s'" using f s' by (auto simp: sameBut_def setStream_def)
  assume ok: "\<forall>st \<in> set (heap s). streamOk st"
  show "\<forall>st \<in> set (heap s'). streamOk st"
  proof (cases "a < length (heap s)")
    case True
    then have "streamOk st'" using f ok by simp
    then show ?thesis using ok s' by (auto simp: setStream_def dest!: set_update_subset_insert[THEN subsetD])
  next
    case False
    then show ?thesis using ok s' by (simp add: setStream_def not_less list_update_beyond)
  qed
qed

lemma pipeline_frame:
  "executePipelineRequests E a reqs c s w = ((results, c'), s', w') \<Longrightarrow>
    sameBut a s s' \<and> ((\<forall>st \<in> set (heap s). streamOk st) \<longrightarrow> (\<forall>st \<in> set (heap s'). streamOk st))"
proof (induction reqs arbitrary: c s w results)
  case Nil
  then show ?case by simp
next
  case (Cons req reqs)
  show ?case
  proof (cases c)
    case True
    with Cons.prems show ?thesis using executePipeline_closed[of E a "req # reqs" s w] by simp
  next
    case False
    with Cons.prems have "executePipelineRequests E a (req # reqs) False s w = ((results, c'), s', w')"
      by simp
    then obtain resp s1 w1 rest where d: "dispatchAt E a req s w = (resp, s1, w1)"
      and r: "executePipelineRequests E a reqs (isClose req) s1 w1 = ((rest, c'), s', w')"
      by (rule pipeline_Cons)
    show ?thesis
      using Cons.IH[OF r] dispatchAt_frame[OF d] sameBut_trans by blast
  qed
qed

text \<open>
  Isolation: a pipeline on one stream leaves every other stream and the batons as
  they were, and of its own stream it changes only the stored texts: neither the
  connection, nor the mode, nor whether it is closed.
\<close>

theorem pipeline_isolated:
  assumes "executePipelineRequests E a reqs c s w = ((results, c'), s', w')"
  shows "batonEntries s' = batonEntries s \<and> length (heap s') = length (heap s)
    \<and> (\<forall>b. b \<noteq> a \<longrightarrow> heap s' ! b = heap s ! b)
    \<and> (a < length (heap s) \<longrightarrow> (\<exists>S'. heap s' ! a = (heap s ! a)\<lparr>StoredSQL := S'\<rparr>))"
  using pipeline_frame[OF assms] by (simp add: sameBut_def)

theorem pipeline_isolated_witness:
  "\<exists>s'. batonEntries s' = batonEntries demoStore \<and> heap s' ! 1 = heap demoStore ! 1
    \<and> executePipelineRequests (pickyEnv '''') 0 [closeRequest, execRequest ''b''] False demoStore ()
      = (([StreamOk RespClose, errorStreamResult StreamIsClosed], True), s', ())"
proof -
  obtain s' where d: "executePipelineRequests (pickyEnv '''') 0 [closeRequest, execRequest ''b''] False demoStore ()
    = (([StreamOk RespClose, errorStreamResult StreamIsClosed], True), s', ())"
    using demo_pipeline by blast
  then show ?thesis using pipeline_isolated[OF d] by (intro exI[of _ s']) simp
qed

section \<open>Read-only streams\<close>

lemma answer_env: "answer f st r = ((x, st'), w') \<Longrightarrow> w' = snd r"
  by (auto simp: answer_def split: prod.splits sum.splits)

context driver_invariant
begin

lemma dispatch_keeps:
  assumes "\<And>sql. modePermits (Mode st) sql \<Longrightarrow> allowed sql" and "P w"
    and "srType req \<noteq> ''describe''"
    and "dispatchStreamRequest E st req w = ((r, st'), w')"
  shows "P w'"
  using assms(4)
proof (cases rule: dispatch_cases)
  case (execute s)
  with executor_keeps(1)[OF assms(1,2)] show ?thesis by (auto dest: answer_env)
next
  case (batch b)
  with executor_keeps(2)[OF assms(1,2)] show ?thesis by (auto dest: answer_env)
next
  case (sequence q)
  with executor_keeps(3)[OF assms(1,2)] show ?thesis by (auto dest: answer_env)
qed (use assms(2,3) in auto)

lemma pipeline_keeps:
  "(\<And>sql. modePermits (Mode (heap s ! a)) sql \<Longrightarrow> allowed sql) \<Longrightarrow> a < length (heap s) \<Longrightarrow>
    \<forall>req \<in> set reqs. srType req \<noteq> ''describe'' \<Longrightarrow> P w \<Longrightarrow>
    executePipelineRequests E a reqs False s w = ((results, c), s', w') \<Longrightarrow> P w'"
proof (induction reqs arbitrary: s w results)
  case Nil
  then show ?case by simp
next
  case (Cons req reqs)
  from Cons.prems(5) obtain resp s1 w1 rest where d: "dispatchAt E a req s w = (resp, s1, w1)"
    and r: "executePipelineRequests E a reqs (isClose req) s1 w1 = ((rest, c), s', w')"
    by (rule pipeline_Cons)
  obtain st' where d': "dispatchStreamRequest E (heap s ! a) req w = ((resp, st'), w1)"
    using d by (auto simp: dispatchAt_def split: prod.splits)
  have "srType req \<noteq> ''describe''" using Cons.prems(3) by simp
  then have w1: "P w1" using dispatch_keeps[OF Cons.prems(1) Cons.prems(4) _ d'] by blast
  show ?case
  proof (cases "isClose req")
    case True
    with r w1 show ?thesis by (simp add: executePipeline_closed)
  next
    case False
    have f: "sameBut a s s1" by (rule dispatchAt_frame[OF d])
    then have m: "Mode (heap s1 ! a) = Mode (heap s ! a)" "a < length (heap s1)"
      using Cons.prems(2) by (auto simp: sameBut_def)
    show ?thesis
      using Cons.IH[of s1 w1 rest] m Cons.prems(1,3) w1 r False by auto
  qed
qed

end

text \<open>
  A pipeline without \<open>describe\<close> requests on a read-only stream hands the driver no
  text that is classified as a write.
\<close>

theorem pipeline_readonly:
  assumes "Mode (heap s ! a) = ModeReadOnly" and "a < length (heap s)"
    and "\<forall>req \<in> set reqs. srType req \<noteq> ''describe''"
  shows "\<forall>sql \<in> set (snd (snd (snd (executePipelineRequests (traced E) a reqs False s (w, []))))).
    \<not> isWriteStatement sql"
proof -
  let ?ok = "\<lambda>sql. \<not> isWriteStatement sql"
  obtain results c s' w' l where run:
    "executePipelineRequests (traced E) a reqs False s (w, []) = ((results, c), s', (w', l))"
    by (metis surj_pair)
  have "case (w', l) of (w, l) \<Rightarrow> \<forall>sql \<in> set l. ?ok sql"
    by (rule traced_calls.pipeline_keeps[where allowed = ?ok, OF _ assms(2,3) _ run])
      (auto simp: assms(1) modePermits_readonly)
  then show ?thesis using run by simp
qed

theorem pipeline_readonly_witness:
  "list_all (\<lambda>sql. \<not> isWriteStatement sql)
    (snd (snd (snd (executePipelineRequests (traced (pickyEnv '''')) 0
      [execRequest ''SELECT 1'', execRequest ''DROP TABLE t''] False
      (demoStore\<lparr>heap := [(newStream 1 someConn)\<lparr>Mode := ModeReadOnly\<rparr>]\<rparr>) ((), [])))))"
  unfolding list_all_iff by (rule pipeline_readonly) (simp_all add: emptyRequest_def)

section \<open>Stored texts\<close>

text \<open>
  C24.  A stored text stands for itself: once \<open>store_sql\<close> has put a text under an id, a
  statement that names the id runs as the same statement with the text inline, until
  \<open>close_sql\<close> frees the id; storing under a used id is refused and changes nothing.
\<close>

theorem stored_sql_transparent:
  assumes "srType req = ''store_sql''" and "srStoreSql req = Some (key, sql)"
  shows "if \<exists>t. resolveSQL None (Some key) (StoredSQL st) = Inr t
    then dispatchStreamRequest E st req w = ((Inl (SqlIdInUse key), st), w)
    else (\<exists>st'. dispatchStreamRequest E st req w = ((Inr RespStoreSql, st'), w)
      \<and> (\<forall>s v. executeStmt E st' (s\<lparr>SQL := None, SQLId := Some key\<rparr>) (StoredSQL st') v
              = executeStmt E st (s\<lparr>SQL := Some sql, SQLId := None\<rparr>) (StoredSQL st) v)
      \<and> (\<forall>k. k \<noteq> key \<longrightarrow> resolveSQL None (Some k) (StoredSQL st') = resolveSQL None (Some k) (StoredSQL st))
      \<and> resolveSQL None (Some key) (closeSQL key (StoredSQL st')) = Inl (SqlIdNotFound key))"
proof (cases "resolveSQL None (Some key) (StoredSQL st)")
  case (Inr t)
  then have "storeSQL key sql (StoredSQL st) = Inl (SqlIdInUse key)" by (rule sqls.store_used)
  with assms Inr show ?thesis by (simp add: dispatchStreamRequest_def Let_def)
next
  case (Inl e)
  then obtain S' where S': "storeSQL key sql (StoredSQL st) = Inr S'" using sqls.store_free by blast
  have r: "resolveSQL None (Some key) S' = Inr sql" by (rule sqls.resolve_stored[OF S'])
  have "executeStmt E (st\<lparr>StoredSQL := S'\<rparr>) (s\<lparr>SQL := None, SQLId := Some key\<rparr>) S' v
      = executeStmt E st (s\<lparr>SQL := Some sql, SQLId := None\<rparr>) (StoredSQL st) v" for s v
  proof -
    have "resolveStmtSQL (s\<lparr>SQL := None, SQLId := Some key\<rparr>) S' = Inr sql"
      "resolveStmtSQL (s\<lparr>SQL := Some sql, SQLId := None\<rparr>) (StoredSQL st) = Inr sql"
      using r by (auto simp: resolveStmtSQL_def resolveSQL_def split: option.splits)
    moreover have "wantRows (s\<lparr>SQL := a, SQLId := b\<rparr>) = wantRows s"
      "Args (s\<lparr>SQL := a, SQLId := b\<rparr>) = Args s" "NamedArgs (s\<lparr>SQL := a, SQLId := b\<rparr>) = NamedArgs s"
      "Conn (st\<lparr>StoredSQL := S'\<rparr>) = Conn st" "Mode (st\<lparr>StoredSQL := S'\<rparr>) = Mode st" for a b
      by (simp_all add: wantRows_def)
    ultimately show ?thesis by (simp only: executeStmt_def)
  qed
  then show ?thesis
    using assms Inl S' sqls.resolve_store_other[OF S'] sqls.resolve_closed
    by (simp add: dispatchStreamRequest_def Let_def)
qed

theorem stored_sql_transparent_witness:
  "let req = emptyRequest\<lparr>srType := ''store_sql'', srStoreSql := Some (3, ''SELECT 1'')\<rparr>;
       st = newStream 1 someConn
   in \<exists>st'. dispatchStreamRequest (pickyEnv '''') st req () = ((Inr RespStoreSql, st'), ())"
proof -
  have r: "resolveSQL None (Some 3) (StoredSQL (newStream 1 someConn)) = Inl (SqlIdNotFound 3)"
    by (simp add: resolveSQL_def newStream_def)
  show ?thesis
    using stored_sql_transparent[of "emptyRequest\<lparr>srType := ''store_sql'', srStoreSql := Some (3, ''SELECT 1'')\<rparr>"
        3 "''SELECT 1''" "newStream 1 someConn" "pickyEnv ''''" "()"]
    by (auto simp: r)
qed

section \<open>Decoding\<close>

text \<open>A request that carries the payload its type needs.\<close>

definition requestComplete :: "stream_request \<Rightarrow> bool" where
  "requestComplete req \<longleftrightarrow>
    srType req \<in> {''close'', ''get_autocommit''} \<or>
    srType req = ''execute'' \<and> srExecute req \<noteq> None \<or>
    srType req = ''batch'' \<and> srBatch req \<noteq> None \<or>
    srType req = ''sequence'' \<and> srSequence req \<noteq> None \<or>
    srType req = ''describe'' \<and> srDescribe req \<noteq> None \<or>
    srType req = ''store_sql'' \<and> srStoreSql req \<noteq> None \<or>
    srType req = ''close_sql'' \<and> srCloseSql req \<noteq> None"

lemma payload_rule: "payload r f = Inr req \<Longrightarrow> (\<And>x. Q (f x)) \<Longrightarrow> Q req"
  by (cases r) (auto simp: payload_def)

text \<open>
  A request decoded from JSON has the type its object names and carries the payload of
  that type, so dispatching it never finds a payload missing.
\<close>

theorem decoded_request_complete:
  assumes "unmarshalStreamRequest T r data = Inr req"
  shows "decodeType data = Inr (srType req) \<and> requestComplete req"
proof (cases "decodeType data")
  case (Inl e)
  with assms show ?thesis by (simp add: unmarshalStreamRequest_def)
next
  case (Inr t)
  show ?thesis
  proof (cases rule: srType_cases[of t])
    case 1
    with assms Inr show ?thesis by (auto simp: unmarshalStreamRequest_def requestComplete_def)
  next
    case 2
    with assms Inr have "payload (readStmtReq T data) (\<lambda>x. r\<lparr>srType := t, srExecute := Some x\<rparr>) = Inr req"
      by (simp add: unmarshalStreamRequest_def)
    then show ?thesis by (rule payload_rule) (simp add: Inr 2 requestComplete_def)
  next
    case 3
    with assms Inr have "payload (readBatchReq T data) (\<lambda>x. r\<lparr>srType := t, srBatch := Some x\<rparr>) = Inr req"
      by (simp add: unmarshalStreamRequest_def)
    then show ?thesis by (rule payload_rule) (simp add: Inr 3 requestComplete_def)
  next
    case 4
    with assms Inr have "payload (readSqlRef data) (\<lambda>x. r\<lparr>srType := t, srSequence := Some x\<rparr>) = Inr req"
      by (simp add: unmarshalStreamRequest_def)
    then show ?thesis by (rule payload_rule) (simp add: Inr 4 requestComplete_def)
  next
    case 5
    with assms Inr have "payload (readSqlRef data) (\<lambda>x. r\<lparr>srType := t, srDescribe := Some x\<rparr>) = Inr req"
      by (simp add: unmarshalStreamRequest_def)
    then show ?thesis by (rule payload_rule) (simp add: Inr 5 requestComplete_def)
  next
    case 6
    with assms Inr have "payload (readStoreSql data) (\<lambda>x. r\<lparr>srType := t, srStoreSql := Some x\<rparr>) = Inr req"
      by (simp add: unmarshalStreamRequest_def)
    then show ?thesis by (rule payload_rule) (simp add: Inr 6 requestComplete_def)
  next
    case 7
    with assms Inr have "payload (readCloseSql data) (\<lambda>x. r\<lparr>srType := t, srCloseSql := Some x\<rparr>) = Inr req"
      by (simp add: unmarshalStreamRequest_def)
    then show ?thesis by (rule payload_rule) (simp add: Inr 7 requestComplete_def)
  next
    case 8
    with assms Inr show ?thesis by (auto simp: unmarshalStreamRequest_def requestComplete_def)
  next
    case unknown
    with assms Inr show ?thesis by (simp add: unmarshalStreamRequest_def)
  qed
qed

theorem decoded_request_complete_witness:
  "\<exists>req. unmarshalStreamRequest \<lparr>fmtFloat = bitsText, parseFloat = textBits, fmtMs = formatInt, errText = \<lambda>_. []\<rparr>
      emptyRequest (JObj [(''type'', JStr ''batch''), (''batch'', JObj [(''steps'', JArr [JObj []])])]) = Inr req
    \<and> requestComplete req"
proof -
  let ?T = "\<lparr>fmtFloat = bitsText, parseFloat = textBits, fmtMs = formatInt, errText = \<lambda>_. []\<rparr>"
  have u: "unmarshalStreamRequest ?T emptyRequest
      (JObj [(''type'', JStr ''batch''), (''batch'', JObj [(''steps'', JArr [JObj []])])])
      = Inr (emptyRequest\<lparr>srType := ''batch'', srBatch := Some [\<lparr>Condition = None, Stmt = emptyStmt\<rparr>]\<rparr>)"
    by code_simp
  show ?thesis using decoded_request_complete[OF u] u by blast
qed

end
