(* ===== verification/Floats.thy ===== *)
theory Floats
  imports GoText
begin

text \<open>
  float64 as the code uses it: rounding to 53 bits after every operation, the conversions from
  and to integers, and the verb \<open>%.kf\<close>; with the facts on when an operation is exact, what
  bounds its result, and which integral part the rounding leaves.
\<close>

section \<open>Floating point\<close>

text \<open>
  A float64 as the number \<open>mant * 2 ^ expo\<close>; \<open>roundF\<close> is the rounding of every
  operation, to 53 bits, ties to even.  The range of the exponent is not bounded: a value
  beyond it is above every duration, and one below it is truncated to zero, as the code does
  with an infinity and a zero.
\<close>

datatype flt = Flt (mant: int) (expo: int)

fun bitLength :: "nat \<Rightarrow> nat" where
  "bitLength n = (if n = 0 then 0 else Suc (bitLength (n div 2)))"

declare bitLength.simps [simp del]

definition roundHalfEven :: "nat \<Rightarrow> nat \<Rightarrow> nat" where
  "roundHalfEven n k =
    (let q = n div 2 ^ k; r = n mod 2 ^ k; half = 2 ^ (k - 1)
     in if r > half \<or> (r = half \<and> odd q) then q + 1 else q)"

definition roundF :: "int \<Rightarrow> int \<Rightarrow> flt" where
  "roundF m e =
    (let n = nat \<bar>m\<bar>; k = bitLength n - 53
     in if k = 0 then Flt m e else Flt (sgn m * int (roundHalfEven n k)) (e + int k))"

definition intF :: "int \<Rightarrow> flt" where
  "intF i = roundF i 0"

fun mulF :: "flt \<Rightarrow> flt \<Rightarrow> flt" where
  "mulF (Flt m e) (Flt n f) = roundF (m * n) (e + f)"

fun lessF :: "flt \<Rightarrow> flt \<Rightarrow> bool" where
  "lessF (Flt m e) (Flt n f) \<longleftrightarrow>
    (let g = min e f in m * 2 ^ nat (e - g) < n * 2 ^ nat (f - g))"

text \<open>Conversion to an integer drops the fraction.\<close>

fun truncF :: "flt \<Rightarrow> int" where
  "truncF (Flt m e) = (if 0 \<le> e then m * 2 ^ nat e else sgn m * (\<bar>m\<bar> div 2 ^ nat (- e)))"

text \<open>The loop of \<open>math.Pow\<close> for a positive integral exponent.\<close>

fun powLoop :: "flt \<Rightarrow> flt \<Rightarrow> nat \<Rightarrow> flt" where
  "powLoop acc x n =
    (if n = 0 then acc
     else powLoop (if odd n then mulF acc x else acc) (mulF x x) (n div 2))"

declare powLoop.simps [simp del]

definition powF :: "flt \<Rightarrow> nat \<Rightarrow> flt" where
  "powF x n = (if n = 1 then x else powLoop (Flt 1 0) x n)"

fun addF :: "flt \<Rightarrow> flt \<Rightarrow> flt" where
  "addF (Flt m e) (Flt n f) =
    (let g = min e f in roundF (m * 2 ^ nat (e - g) + n * 2 ^ nat (f - g)) g)"

text \<open>
  Division by a float that is not zero: 55 bits of the quotient and one that tells whether
  there are more, then the rounding.
\<close>

fun divF :: "flt \<Rightarrow> flt \<Rightarrow> flt" where
  "divF (Flt m e) (Flt n f) =
    (let k = 55 + bitLength (nat \<bar>n\<bar>); a = \<bar>m\<bar> * 2 ^ k; q = a div \<bar>n\<bar>
     in roundF (sgn m * sgn n * (2 * q + (if a mod \<bar>n\<bar> = 0 then 0 else 1))) (e - f - int k - 1))"

text \<open>The verb \<open>%.kf\<close>: the nearest decimal with \<open>k\<close> digits, ties to even.\<close>

definition padZeros :: "nat \<Rightarrow> string \<Rightarrow> string" where
  "padZeros n s = replicate (n - length s) (CHR ''0'') @ s"

fun formatFixed :: "nat \<Rightarrow> flt \<Rightarrow> string" where
  "formatFixed k (Flt m e) =
    (let n = nat \<bar>m\<bar> * 10 ^ k;
         q = (if 0 \<le> e then n * 2 ^ nat e else roundHalfEven n (nat (- e)));
         ds = padZeros (Suc k) (natDigits q);
         i = length ds - k
     in (if m < 0 then ''-'' else []) @ take i ds @ (if k = 0 then [] else CHR ''.'' # drop i ds))"

section \<open>Bounds\<close>

lemma bitLength_0 [simp]: "bitLength 0 = 0"
  by (subst bitLength.simps) simp

lemma bitLength_bound: "bitLength n \<le> k \<longleftrightarrow> n < 2 ^ k"
proof (induction k arbitrary: n)
  case 0
  then show ?case by (subst bitLength.simps) simp
next
  case (Suc k)
  show ?case
  proof (cases "n = 0")
    case True
    then show ?thesis by (subst bitLength.simps) simp
  next
    case False
    then have "bitLength n \<le> Suc k \<longleftrightarrow> bitLength (n div 2) \<le> k"
      by (subst bitLength.simps) simp
    then show ?thesis using Suc.IH[of "n div 2"] by (simp add: less_mult_imp_div_less div_less_iff_less_mult mult.commute)
  qed
qed

lemma bitLength_shift: "n \<noteq> 0 \<Longrightarrow> bitLength (n * 2 ^ i) = bitLength n + i"
proof (induction i)
  case 0
  then show ?case by simp
next
  case (Suc i)
  then have "bitLength (n * 2 ^ Suc i) = Suc (bitLength (n * 2 ^ i))"
    by (subst bitLength.simps) (simp add: mult.left_commute[of n 2])
  with Suc show ?case by simp
qed

lemma intF_exact: "\<bar>i\<bar> < 2 ^ 53 \<Longrightarrow> intF i = Flt i 0"
proof -
  assume "\<bar>i\<bar> < 2 ^ 53"
  then have "nat \<bar>i\<bar> < 2 ^ 53" by (simp add: nat_less_iff)
  then have "bitLength (nat \<bar>i\<bar>) \<le> 53" by (simp only: bitLength_bound)
  then show ?thesis by (simp add: intF_def roundF_def Let_def)
qed

lemma truncF_bound: "\<not> lessF (Flt b 0) x \<Longrightarrow> 0 \<le> b \<Longrightarrow> truncF x \<le> b"
proof (cases x)
  case (Flt m e)
  assume n: "\<not> lessF (Flt b 0) x" and b: "0 \<le> b"
  show ?thesis
  proof (cases "0 \<le> e")
    case True
    then show ?thesis using n Flt by (simp add: Let_def)
  next
    case False
    let ?k = "nat (- e)"
    have le: "m \<le> b * 2 ^ ?k" using n Flt False by (simp add: Let_def not_less)
    show ?thesis
    proof (cases "0 \<le> m")
      case True
      then have "m div 2 ^ ?k \<le> b" using le zdiv_mono1[OF le, of "2 ^ ?k"] by simp
      then show ?thesis using True Flt False by (cases "m = 0") (auto simp: b)
    next
      case neg: False
      have "0 \<le> \<bar>m\<bar> div 2 ^ ?k" by (simp add: pos_imp_zdiv_nonneg_iff)
      then show ?thesis using neg Flt False b by simp
    qed
  qed
qed

section \<open>Exact operations\<close>

text \<open>A float that is a power of two times a factor, and how the rounding treats it.\<close>

lemma roundHalfEven_exact: "k \<le> i \<Longrightarrow> 0 < k \<Longrightarrow> roundHalfEven (c * 2 ^ i) k = c * 2 ^ (i - k)"
proof -
  assume k: "k \<le> i" "0 < k"
  then have "(2::nat) ^ i = 2 ^ (i - k) * 2 ^ k" by (simp flip: power_add)
  then have eq: "c * 2 ^ i = (c * 2 ^ (i - k)) * 2 ^ k" by simp
  show ?thesis unfolding eq by (simp add: roundHalfEven_def Let_def)
qed

lemma roundF_shift:
  assumes "0 \<le> c" and "c < 2 ^ 53"
  shows "\<exists>i' e'. roundF (c * 2 ^ i) e = Flt (c * 2 ^ i') e' \<and> int i' + e' = int i + e"
proof (cases "c = 0")
  case True
  then show ?thesis by (intro exI[of _ i] exI[of _ e]) (simp add: roundF_def)
next
  case False
  let ?n = "nat c"
  let ?k = "bitLength (nat \<bar>c * 2 ^ i\<bar>) - 53"
  have "nat \<bar>c * 2 ^ i\<bar> = ?n * 2 ^ i" using assms(1) by (simp add: nat_mult_distrib abs_mult nat_power_eq)
  moreover have "bitLength (?n * 2 ^ i) = bitLength ?n + i" using False assms(1) by (intro bitLength_shift) simp
  moreover have "bitLength ?n \<le> 53" using assms by (simp only: bitLength_bound) (simp add: nat_less_iff)
  ultimately have k: "?k \<le> i" and n: "nat \<bar>c * 2 ^ i\<bar> = ?n * 2 ^ i" by simp_all
  show ?thesis
  proof (cases "?k = 0")
    case True
    then show ?thesis by (intro exI[of _ i] exI[of _ e]) (simp only: roundF_def Let_def if_True, simp)
  next
    case F: False
    have "roundF (c * 2 ^ i) e = Flt (sgn (c * 2 ^ i) * int (roundHalfEven (?n * 2 ^ i) ?k)) (e + int ?k)"
      using F n by (simp add: roundF_def Let_def)
    also have "\<dots> = Flt (c * 2 ^ (i - ?k)) (e + int ?k)"
      using roundHalfEven_exact[OF k, of ?n] F False assms(1) by (simp add: sgn_mult)
    finally show ?thesis
      using k by (intro exI[of _ "i - ?k"] exI[of _ "e + int ?k"]) simp
  qed
qed

definition pow2F :: "flt \<Rightarrow> int \<Rightarrow> bool" where
  "pow2F x s \<longleftrightarrow> (\<exists>i e. x = Flt (2 ^ i) e \<and> int i + e = s)"

lemma pow2F_mul: "pow2F x s \<Longrightarrow> pow2F y t \<Longrightarrow> pow2F (mulF x y) (s + t)"
proof -
  assume "pow2F x s" "pow2F y t"
  then obtain i e j f where x: "x = Flt (2 ^ i) e" "int i + e = s" and y: "y = Flt (2 ^ j) f" "int j + f = t"
    by (auto simp: pow2F_def)
  obtain i' e' where "roundF (1 * 2 ^ (i + j)) (e + f) = Flt (1 * 2 ^ i') e'"
      "int i' + e' = int (i + j) + (e + f)"
    using roundF_shift[of 1 "i + j" "e + f"] by auto
  then show ?thesis using x y by (auto simp: pow2F_def power_add)
qed

lemma pow2F_loop: "pow2F acc s \<Longrightarrow> pow2F x t \<Longrightarrow> pow2F (powLoop acc x n) (s + int n * t)"
proof (induction acc x n arbitrary: s t rule: powLoop.induct)
  case (1 acc x n)
  show ?case
  proof (cases "n = 0")
    case True
    with 1 show ?thesis by (simp add: powLoop.simps)
  next
    case False
    let ?acc = "if odd n then mulF acc x else acc"
    have a: "pow2F ?acc (s + int (n mod 2) * t)"
      using pow2F_mul[OF 1(2,3)] 1(2) by (auto simp: odd_iff_mod_2_eq_one)
    have x: "pow2F (mulF x x) (t + t)" by (rule pow2F_mul[OF 1(3,3)])
    have "pow2F (powLoop ?acc (mulF x x) (n div 2)) (s + int (n mod 2) * t + int (n div 2) * (t + t))"
      by (rule 1(1)[OF False a x])
    moreover have "int n = int (n mod 2) + 2 * int (n div 2)" by (simp add: zmod_int zdiv_int)
    then have "int n * t = int (n mod 2) * t + int (n div 2) * (t + t)" by (simp add: algebra_simps)
    ultimately show ?thesis using False by (subst powLoop.simps) (simp add: algebra_simps)
  qed
qed

lemma pow2F_pow: "pow2F x t \<Longrightarrow> pow2F (powF x n) (int n * t)"
  using pow2F_loop[of "Flt 1 0" 0 x t n]
  by (auto simp: powF_def pow2F_def intro: exI[of _ 0])

lemma pow2_scaled:
  assumes "int i + e = int s" and "0 \<le> b"
  shows "lessF (Flt m 0) (Flt (b * 2 ^ i) e) \<longleftrightarrow> m < b * 2 ^ s"
    and "truncF (Flt (b * 2 ^ i) e) = b * 2 ^ s"
proof -
  have both: "(lessF (Flt m 0) (Flt (b * 2 ^ i) e) \<longleftrightarrow> m < b * 2 ^ s) \<and> truncF (Flt (b * 2 ^ i) e) = b * 2 ^ s"
  proof (cases "0 \<le> e")
    case True
    then have "s = i + nat e" using assms(1) by simp
    then show ?thesis using True by (simp add: Let_def power_add mult.assoc)
  next
    case False
    then have i: "i = s + nat (- e)" using assms(1) by simp
    let ?k = "(2::int) ^ nat (- e)"
    have p: "0 < ?k" by simp
    have "m * ?k < b * 2 ^ s * ?k \<longleftrightarrow> m < b * 2 ^ s" using p by (simp only: mult_less_cancel_right) simp
    moreover have "b * 2 ^ s * ?k div ?k = b * 2 ^ s" by simp
    ultimately show ?thesis
      using False assms(2) i by (cases "b = 0") (auto simp: Let_def power_add mult.assoc[symmetric] abs_mult sgn_mult)
  qed
  then show "lessF (Flt m 0) (Flt (b * 2 ^ i) e) \<longleftrightarrow> m < b * 2 ^ s"
    and "truncF (Flt (b * 2 ^ i) e) = b * 2 ^ s" by simp_all
qed

section \<open>Integral parts\<close>

lemma roundHalfEven_ge: "0 < k \<Longrightarrow> t * 2 ^ k < n + 2 ^ (k - 1) \<Longrightarrow> t \<le> roundHalfEven n k"
proof -
  assume k: "0 < k" and n: "t * 2 ^ k < n + 2 ^ (k - 1)"
  have p: "(2::nat) ^ k = 2 * 2 ^ (k - 1)" using k by (simp flip: power_Suc)
  have d: "n = n div 2 ^ k * 2 ^ k + n mod 2 ^ k" by (rule div_mult_mod_eq[symmetric])
  show ?thesis
  proof (rule ccontr)
    assume "\<not> t \<le> roundHalfEven n k"
    then have less: "roundHalfEven n k < t" by simp
    have "n div 2 ^ k \<le> roundHalfEven n k" by (simp add: roundHalfEven_def Let_def)
    with less have q: "Suc (n div 2 ^ k) \<le> t" by simp
    show False
    proof (cases "n mod 2 ^ k > 2 ^ (k - 1)")
      case True
      then have "roundHalfEven n k = n div 2 ^ k + 1" by (simp add: roundHalfEven_def Let_def)
      with less have "n div 2 ^ k + 2 \<le> t" by simp
      then have "(n div 2 ^ k + 2) * 2 ^ k \<le> t * 2 ^ k" by (rule mult_le_mono1)
      then have "n div 2 ^ k * 2 ^ k + 2 * 2 ^ k \<le> t * 2 ^ k" by (simp only: add_mult_distrib)
      moreover have "n mod 2 ^ k < 2 ^ k" by simp
      ultimately show False using n d p by linarith
    next
      case False
      have "Suc (n div 2 ^ k) * 2 ^ k \<le> t * 2 ^ k" using q by (rule mult_le_mono1)
      then have "n div 2 ^ k * 2 ^ k + 2 ^ k \<le> t * 2 ^ k" by (simp only: mult_Suc add.commute)
      then show False using n d p False by linarith
    qed
  qed
qed

lemma roundHalfEven_less: "0 < k \<Longrightarrow> n + 2 ^ (k - 1) < t * 2 ^ k \<Longrightarrow> roundHalfEven n k < t"
proof -
  assume k: "0 < k" and n: "n + 2 ^ (k - 1) < t * 2 ^ k"
  have p: "(2::nat) ^ k = 2 * 2 ^ (k - 1)" using k by (simp flip: power_Suc)
  have d: "n = n div 2 ^ k * 2 ^ k + n mod 2 ^ k" by (rule div_mult_mod_eq[symmetric])
  have "n < t * 2 ^ k" using n by simp
  then have q: "n div 2 ^ k < t" by (simp add: less_mult_imp_div_less)
  show ?thesis
  proof (cases "roundHalfEven n k = n div 2 ^ k")
    case False
    then have r: "roundHalfEven n k = n div 2 ^ k + 1" and "n mod 2 ^ k \<ge> 2 ^ (k - 1)"
      by (auto simp: roundHalfEven_def Let_def split: if_splits)
    then have "n div 2 ^ k * 2 ^ k + 2 ^ k \<le> n + 2 ^ (k - 1)" using d p by simp
    then have "Suc (n div 2 ^ k) * 2 ^ k < t * 2 ^ k" using n by (simp only: mult_Suc)
    then have "Suc (n div 2 ^ k) < t" by (simp only: mult_less_cancel2)
    then show ?thesis using r by simp
  qed (simp add: q)
qed

text \<open>
  A product with a constant \<open>m / 2 ^ 52\<close> just below \<open>a / b\<close>: the rounding makes up for
  what the constant lacks, so its integral part is that of the exact quotient.
\<close>

lemma truncF_div: "s \<le> 52 \<Longrightarrow> truncF (Flt (int x) (int s - 52)) = int (x div 2 ^ (52 - s))"
proof -
  assume s: "s \<le> 52"
  show ?thesis
  proof (cases "s = 52")
    case False
    then have "\<not> 0 \<le> int s - 52" "nat (- (int s - 52)) = 52 - s" using s by simp_all
    then show ?thesis by (simp add: zdiv_int zsgn_def)
  qed simp
qed

lemma roundF_nat:
  "roundF (int n) e =
    (if bitLength n \<le> 53 then Flt (int n) e
     else Flt (int (roundHalfEven n (bitLength n - 53))) (e + int (bitLength n - 53)))"
  by (cases "n = 0") (simp_all add: roundF_def Let_def)

lemma mulF_nat: "mulF (Flt (int k) 0) (Flt (int m) e) = roundF (int (k * m)) e"
  by simp

lemma product_floor:
  fixes a b m e k :: nat
  assumes const: "b * m + e = a * 2 ^ 52" and m: "0 < m" and b: "0 < b" "b \<le> 2 ^ 7"
    and low: "e * 2 ^ 54 \<le> b * m" and k: "k < 2 ^ 45" and m': "m < 2 ^ 52"
  shows "truncF (mulF (intF (int k)) (Flt (int m) (-52))) = int (a * k div b)"
proof -
  let ?c = "a * k div b" and ?M = "k * m"
  define s where "s = bitLength ?M - 53"
  have c: "b * ?c \<le> a * k" "a * k < b * Suc ?c"
    using b(1) dividend_less_times_div[of b "a * k"] by (simp_all add: mult.commute)
  have prod: "b * ?M + e * k = a * k * 2 ^ 52"
    using arg_cong[OF const, of "\<lambda>x. x * k"] by (simp add: algebra_simps)
  have lo: "b * ?c * 2 ^ 52 \<le> b * ?M + e * k" using c(1) prod by (metis mult_le_mono1)
  have hi: "b * ?M + e * k + 2 ^ 52 \<le> b * Suc ?c * 2 ^ 52"
    using mult_le_mono1[of "Suc (a * k)" "b * Suc ?c" "2 ^ 52"] c(2) prod by simp
  have "bitLength ?M \<le> s + 53" unfolding s_def by arith
  then have bits: "?M < 2 ^ (s + 53)" by (simp only: bitLength_bound)
  have "e * 2 ^ 54 * k \<le> b * m * k" using low by (rule mult_le_mono1)
  also have "b * m * k < b * 2 ^ (s + 53)" using bits b(1) by (simp add: mult.commute[of m])
  finally have "(2 * (e * k)) * 2 ^ 53 < (b * 2 ^ s) * 2 ^ 53" by (simp add: power_add mult.commute)
  then have ek: "2 * (e * k) < b * 2 ^ s" by (simp only: mult_less_cancel2)
  have "b * ?M < b * Suc ?c * 2 ^ 52" using hi by simp
  then have M: "?M < Suc ?c * 2 ^ 52" using b(1) by (simp only: mult.assoc nat_mult_less_cancel1)
  have int: "intF (int k) = Flt (int k) 0" using k by (intro intF_exact) simp
  show ?thesis
  proof (cases "s = 0")
    case True
    have "b * (?c * 2 ^ 52) < b * Suc ?M" using lo ek True b(1) by (simp add: mult.assoc)
    then have "?c * 2 ^ 52 < Suc ?M" using b(1) by (simp only: nat_mult_less_cancel1)
    then have "?M div 2 ^ 52 = ?c" using M by (intro div_nat_eqI) simp_all
    moreover have "mulF (intF (int k)) (Flt (int m) (-52)) = Flt (int ?M) (-52)"
      using True by (simp only: int mulF_nat roundF_nat s_def) simp
    ultimately show ?thesis using truncF_div[of 0 ?M] by (simp add: zdiv_int)
  next
    case False
    let ?q = "roundHalfEven ?M s"
    obtain h where h: "s = Suc h" using False by (cases s) simp_all
    have "?M < 2 ^ 45 * 2 ^ 52" using k m' by (intro mult_strict_mono) simp_all
    then have "bitLength ?M \<le> 97" by (simp only: bitLength_bound flip: power_add) simp
    then have s45: "h \<le> 43" using h by (simp add: s_def)
    have split: "(2::nat) ^ 52 = 2 ^ (52 - s) * 2 ^ s" using s45 h by (simp flip: power_add)
    have "b * (?c * 2 ^ 52) < b * (?M + 2 ^ h)" using lo ek h by (simp add: algebra_simps)
    then have "?c * 2 ^ (52 - s) * 2 ^ s < ?M + 2 ^ (s - 1)"
      using b(1) h split by (simp only: nat_mult_less_cancel1 mult.assoc diff_Suc_1)
    then have ge: "?c * 2 ^ (52 - s) \<le> ?q" using h by (intro roundHalfEven_ge) simp_all
    have "b * 2 ^ h \<le> 2 ^ 7 * 2 ^ 43" by (rule mult_le_mono[OF b(2) power_increasing[OF s45]]) simp
    then have "b * 2 ^ h < 2 ^ 52" by simp
    then have "b * (?M + 2 ^ h) < b * (Suc ?c * 2 ^ 52)" using hi by (simp add: algebra_simps)
    then have "?M + 2 ^ (s - 1) < Suc ?c * 2 ^ (52 - s) * 2 ^ s"
      using b(1) h split by (simp only: nat_mult_less_cancel1 mult.assoc diff_Suc_1)
    then have less: "?q < Suc ?c * 2 ^ (52 - s)" using h by (intro roundHalfEven_less) simp_all
    have "mulF (intF (int k)) (Flt (int m) (-52)) = Flt (int ?q) (int s - 52)"
      using False by (simp only: int mulF_nat roundF_nat s_def) simp
    moreover have "?q div 2 ^ (52 - s) = ?c" using ge less by (intro div_nat_eqI) (simp_all add: mult.commute)
    ultimately show ?thesis using truncF_div[of s ?q] s45 h by (simp add: zdiv_int)
  qed
qed

end
