(* ===== verification/Blacklist.thy ===== *)
theory Blacklist
  imports Errors Floats
begin

text \<open>
  The blacklist of remote addresses, \<open>src/blacklist.go\<close>, with the helpers of
  \<open>src/websocket.go\<close> that use it.  Elements of the LRU list are shared by the map and the
  list, so they have identities: the map takes an address to an element, the list is a list
  of elements, most recently used first, and the elements are in a heap.
\<close>

section \<open>Durations\<close>

definition scaledDuration :: "duration \<Rightarrow> flt \<Rightarrow> int \<Rightarrow> duration \<Rightarrow> duration" where
  "scaledDuration base multiplier ex maxD =
    (if ex \<le> 0 then (if base > maxD then maxD else base)
     else (let scaled = mulF (intF base) (powF multiplier (nat ex)) in
           if lessF (intF maxD) scaled then maxD else truncF scaled))"

text \<open>Integer division of Go truncates towards zero.\<close>

definition quotGo :: "int \<Rightarrow> int \<Rightarrow> int" where
  "quotGo a b = sgn a * sgn b * (\<bar>a\<bar> div \<bar>b\<bar>)"

definition retryAfterSeconds :: "duration \<Rightarrow> int" where
  "retryAfterSeconds d =
    (let secs = quotGo (d + second - 1) second in if secs < 1 then 1 else secs)"

section \<open>State\<close>

record blacklist_config =
  Enabled :: bool
  FreeStrikes :: int
  InstantErrorThreshold :: duration
  InitialBlock :: duration
  Multiplier :: flt
  MaxBlock :: duration
  StrikeResetAfter :: duration
  MaxTrackedAddrs :: int

text \<open>The zero \<open>time.Time\<close>, the first of January of the year 1.\<close>

definition zeroTime :: instant where
  "zeroTime = - 62135596800 * second"

record blacklist_entry =
  addr :: string
  strikes :: int
  blockedUntil :: instant
  lastStrike :: instant

record memory_blacklist =
  blEntries :: "(string \<times> nat) list"
  blOrder :: "nat list"
  blHeap :: "blacklist_entry list"
  blCfg :: blacklist_config

definition newMemoryBlacklist :: "blacklist_config \<Rightarrow> memory_blacklist" where
  "newMemoryBlacklist cfg = \<lparr>blEntries = [], blOrder = [], blHeap = [], blCfg = cfg\<rparr>"

text \<open>What \<open>New\<close> of \<open>src/hrana.go\<close> fills in for the fields left at zero.\<close>

definition blacklistDefaults :: "blacklist_config \<Rightarrow> blacklist_config" where
  "blacklistDefaults c =
    (if \<not> Enabled c then c
     else c\<lparr>FreeStrikes := (if FreeStrikes c = 0 then 2 else FreeStrikes c),
            InstantErrorThreshold :=
              (if InstantErrorThreshold c = 0 then 2 * second else InstantErrorThreshold c),
            InitialBlock := (if InitialBlock c = 0 then second else InitialBlock c),
            Multiplier := (if mant (Multiplier c) = 0 then Flt 4 0 else Multiplier c),
            MaxBlock := (if MaxBlock c = 0 then 15 * minute else MaxBlock c),
            StrikeResetAfter :=
              (if StrikeResetAfter c = 0 then 10 * minute else StrikeResetAfter c),
            MaxTrackedAddrs := (if MaxTrackedAddrs c = 0 then 10000 else MaxTrackedAddrs c)\<rparr>)"

section \<open>Operations\<close>

definition moveToFront :: "nat \<Rightarrow> nat list \<Rightarrow> nat list" where
  "moveToFront el order = (if el \<in> set order then el # remove1 el order else order)"

definition isBlocked ::
  "string \<Rightarrow> instant \<Rightarrow> memory_blacklist \<Rightarrow> (bool \<times> duration) \<times> memory_blacklist" where
  "isBlocked a now bl =
    (case map_of (blEntries bl) a of
       None \<Rightarrow> ((False, 0), bl)
     | Some el \<Rightarrow>
         (let until = blockedUntil (blHeap bl ! el)
          in (if until > now then (True, until - now) else (False, 0),
              bl\<lparr>blOrder := moveToFront el (blOrder bl)\<rparr>)))"

definition getOrCreateLocked :: "string \<Rightarrow> memory_blacklist \<Rightarrow> nat \<times> memory_blacklist" where
  "getOrCreateLocked a bl =
    (case map_of (blEntries bl) a of
       Some el \<Rightarrow> (el, bl\<lparr>blOrder := moveToFront el (blOrder bl)\<rparr>)
     | None \<Rightarrow>
         (let el = length (blHeap bl);
              entry = \<lparr>addr = a, strikes = 0, blockedUntil = zeroTime, lastStrike = zeroTime\<rparr>;
              bl1 = bl\<lparr>blHeap := blHeap bl @ [entry], blOrder := el # blOrder bl,
                      blEntries := AList.update a el (blEntries bl)\<rparr>;
              maxA = MaxTrackedAddrs (blCfg bl)
          in if maxA > 0 \<and> int (length (blOrder bl1)) > maxA then
               (let oldest = last (blOrder bl1) in
                (el, bl1\<lparr>blOrder := butlast (blOrder bl1),
                         blEntries := AList.delete (addr (blHeap bl1 ! oldest)) (blEntries bl1)\<rparr>))
             else (el, bl1)))"

definition strike ::
  "string \<Rightarrow> instant \<Rightarrow> memory_blacklist \<Rightarrow> (duration \<times> int) \<times> memory_blacklist" where
  "strike a now bl =
    (let (el, bl1) = getOrCreateLocked a bl;
         cfg = blCfg bl;
         e0 = blHeap bl1 ! el;
         e1 = (if strikes e0 > 0 \<and> now - lastStrike e0 > StrikeResetAfter cfg
               then e0\<lparr>strikes := 0, blockedUntil := zeroTime\<rparr> else e0);
         e2 = e1\<lparr>strikes := strikes e1 + 1, lastStrike := now\<rparr>;
         blockedFor = (if strikes e2 > FreeStrikes cfg
                       then scaledDuration (InitialBlock cfg) (Multiplier cfg)
                              (strikes e2 - FreeStrikes cfg - 1) (MaxBlock cfg)
                       else 0);
         e3 = (if strikes e2 > FreeStrikes cfg then e2\<lparr>blockedUntil := now + blockedFor\<rparr> else e2)
     in ((blockedFor, strikes e3), bl1\<lparr>blHeap := (blHeap bl1)[el := e3]\<rparr>))"

text \<open>The loop of \<open>sweepExpired\<close> walks the list from the back.\<close>

definition expired :: "instant \<Rightarrow> memory_blacklist \<Rightarrow> nat \<Rightarrow> bool" where
  "expired now bl el \<longleftrightarrow>
    lastStrike (blHeap bl ! el) < now - StrikeResetAfter (blCfg bl) \<and>
    blockedUntil (blHeap bl ! el) < now"

fun sweepLoop :: "instant \<Rightarrow> nat list \<Rightarrow> memory_blacklist \<Rightarrow> memory_blacklist" where
  "sweepLoop now [] bl = bl"
| "sweepLoop now (el # els) bl =
    (if expired now bl el
     then sweepLoop now els
            (bl\<lparr>blOrder := remove1 el (blOrder bl),
               blEntries := AList.delete (addr (blHeap bl ! el)) (blEntries bl)\<rparr>)
     else sweepLoop now els bl)"

definition sweepExpired :: "instant \<Rightarrow> memory_blacklist \<Rightarrow> memory_blacklist" where
  "sweepExpired now bl = sweepLoop now (rev (blOrder bl)) bl"

section \<open>The server's use of it\<close>

text \<open>
  \<open>net.SplitHostPort\<close>: the port follows the last colon; a host with a colon is in
  brackets.
\<close>

fun lastIndexByte :: "string \<Rightarrow> char \<Rightarrow> nat option" where
  "lastIndexByte [] c = None"
| "lastIndexByte (x # xs) c =
    (case lastIndexByte xs c of Some i \<Rightarrow> Some (Suc i) | None \<Rightarrow> if x = c then Some 0 else None)"

definition splitHostPort :: "string \<Rightarrow> (string \<times> string) option" where
  "splitHostPort hp =
    (case lastIndexByte hp CHR '':'' of
       None \<Rightarrow> None
     | Some i \<Rightarrow>
         (if hp ! 0 = CHR ''['' then
            (case indexByte hp CHR '']'' of
               None \<Rightarrow> None
             | Some e \<Rightarrow>
                 (if e + 1 \<noteq> i then None
                  else if indexByte (drop 1 hp) CHR ''['' \<noteq> None then None
                  else if indexByte (drop (e + 1) hp) CHR '']'' \<noteq> None then None
                  else Some (take (e - 1) (drop 1 hp), drop (i + 1) hp)))
          else if indexByte (take i hp) CHR '':'' \<noteq> None then None
          else if indexByte hp CHR ''['' \<noteq> None then None
          else if indexByte hp CHR '']'' \<noteq> None then None
          else Some (take i hp, drop (i + 1) hp)))"

definition remoteIP :: "string \<Rightarrow> string" where
  "remoteIP a = (case splitHostPort a of None \<Rightarrow> a | Some (host, port) \<Rightarrow> host)"

text \<open>\<open>s.blacklist\<close> is nil when the blacklist is disabled.\<close>

definition checkBlacklist ::
  "string \<Rightarrow> instant \<Rightarrow> memory_blacklist option \<Rightarrow> (bool \<times> duration) \<times> memory_blacklist option" where
  "checkBlacklist remoteAddr now b =
    (case b of
       None \<Rightarrow> ((False, 0), None)
     | Some bl \<Rightarrow> (case isBlocked (remoteIP remoteAddr) now bl of (r, bl') \<Rightarrow> (r, Some bl')))"

text \<open>The call of \<open>OnBlock\<close>, when there is one, is the second result.\<close>

definition recordBlacklistStrike ::
  "string \<Rightarrow> instant \<Rightarrow> memory_blacklist option \<Rightarrow>
    memory_blacklist option \<times> (string \<times> int \<times> duration) option" where
  "recordBlacklistStrike remoteAddr now b =
    (case b of
       None \<Rightarrow> (None, None)
     | Some bl \<Rightarrow>
         (let ip = remoteIP remoteAddr; ((blockedFor, n), bl') = strike ip now bl
          in (Some bl', if blockedFor \<le> 0 then None else Some (ip, n, blockedFor))))"

section \<open>Invariant\<close>

text \<open>
  Map and list hold the same elements, each under its own address, and the list is no
  longer than the configured bound.
\<close>

definition blInv :: "memory_blacklist \<Rightarrow> bool" where
  "blInv bl \<longleftrightarrow>
    wf_map (blEntries bl) \<and> distinct (blOrder bl) \<and>
    (\<forall>el \<in> set (blOrder bl). el < length (blHeap bl)) \<and>
    (\<forall>a el. map_of (blEntries bl) a = Some el \<longleftrightarrow>
      el \<in> set (blOrder bl) \<and> addr (blHeap bl ! el) = a) \<and>
    (0 < MaxTrackedAddrs (blCfg bl) \<longrightarrow> int (length (blOrder bl)) \<le> MaxTrackedAddrs (blCfg bl))"

lemma moveToFront_set [simp]: "set (moveToFront el order) = set order"
  by (auto simp: moveToFront_def dest: notin_set_remove1 intro: in_set_remove1[THEN iffD2])

lemma moveToFront_length [simp]: "length (moveToFront el order) = length order"
  by (auto simp: moveToFront_def length_remove1) (metis Suc_pred length_pos_if_in_set)

lemma moveToFront_distinct: "distinct order \<Longrightarrow> distinct (moveToFront el order)"
  by (simp add: moveToFront_def distinct_remove1)

lemma blInv_new [inv_intros]: "blInv (newMemoryBlacklist cfg)"
  by (simp add: blInv_def newMemoryBlacklist_def)

lemma blInv_touch [inv_intros]: "blInv bl \<Longrightarrow> blInv (bl\<lparr>blOrder := moveToFront el (blOrder bl)\<rparr>)"
  by (simp add: blInv_def moveToFront_distinct)

lemma blInv_isBlocked [inv_intros]: "blInv bl \<Longrightarrow> blInv (snd (isBlocked a now bl))"
  by (auto simp: isBlocked_def Let_def intro: inv_intros split: option.split)

section \<open>The abstract store\<close>

text \<open>
  The specification: a list of entries, most recently used first; a lookup moves its entry
  to the front, a new entry may push out the last one.
\<close>

definition lru :: "memory_blacklist \<Rightarrow> blacklist_entry list" where
  "lru bl = map (\<lambda>el. blHeap bl ! el) (blOrder bl)"

definition lruFind :: "string \<Rightarrow> blacklist_entry list \<Rightarrow> blacklist_entry option" where
  "lruFind a xs = find (\<lambda>e. addr e = a) xs"

definition lruWithout :: "string \<Rightarrow> blacklist_entry list \<Rightarrow> blacklist_entry list" where
  "lruWithout a xs = filter (\<lambda>e. addr e \<noteq> a) xs"

definition freshEntry :: "string \<Rightarrow> blacklist_entry" where
  "freshEntry a = \<lparr>addr = a, strikes = 0, blockedUntil = zeroTime, lastStrike = zeroTime\<rparr>"

definition lruBound :: "blacklist_config \<Rightarrow> blacklist_entry list \<Rightarrow> blacklist_entry list" where
  "lruBound cfg xs =
    (if MaxTrackedAddrs cfg > 0 \<and> int (length xs) > MaxTrackedAddrs cfg then butlast xs else xs)"

definition lruGet :: "blacklist_config \<Rightarrow> string \<Rightarrow> blacklist_entry list \<Rightarrow> blacklist_entry list" where
  "lruGet cfg a xs =
    (case lruFind a xs of
       Some e \<Rightarrow> e # lruWithout a xs
     | None \<Rightarrow> lruBound cfg (freshEntry a # xs))"

text \<open>One strike on one entry.\<close>

definition strikeEntry :: "blacklist_config \<Rightarrow> instant \<Rightarrow> blacklist_entry \<Rightarrow> duration \<times> blacklist_entry" where
  "strikeEntry cfg now e0 =
    (let e1 = (if strikes e0 > 0 \<and> now - lastStrike e0 > StrikeResetAfter cfg
               then e0\<lparr>strikes := 0, blockedUntil := zeroTime\<rparr> else e0);
         e2 = e1\<lparr>strikes := strikes e1 + 1, lastStrike := now\<rparr>;
         d = scaledDuration (InitialBlock cfg) (Multiplier cfg) (strikes e2 - FreeStrikes cfg - 1) (MaxBlock cfg)
     in if strikes e2 > FreeStrikes cfg then (d, e2\<lparr>blockedUntil := now + d\<rparr>) else (0, e2))"

definition lruStrike ::
  "blacklist_config \<Rightarrow> string \<Rightarrow> instant \<Rightarrow> blacklist_entry list \<Rightarrow> (duration \<times> int) \<times> blacklist_entry list"
where
  "lruStrike cfg a now xs =
    (let ys = lruGet cfg a xs; (d, e) = strikeEntry cfg now (hd ys) in ((d, strikes e), e # tl ys))"

definition lruBlocked ::
  "string \<Rightarrow> instant \<Rightarrow> blacklist_entry list \<Rightarrow> (bool \<times> duration) \<times> blacklist_entry list" where
  "lruBlocked a now xs =
    (case lruFind a xs of
       None \<Rightarrow> ((False, 0), xs)
     | Some e \<Rightarrow>
         (if blockedUntil e > now then (True, blockedUntil e - now) else (False, 0), e # lruWithout a xs))"

definition lruSweep :: "blacklist_config \<Rightarrow> instant \<Rightarrow> blacklist_entry list \<Rightarrow> blacklist_entry list" where
  "lruSweep cfg now xs =
    filter (\<lambda>e. \<not> (lastStrike e < now - StrikeResetAfter cfg \<and> blockedUntil e < now)) xs"

lemma find_map_inj:
  assumes "el \<in> set xs" and "\<forall>x \<in> set xs. P (f x) \<longleftrightarrow> x = el"
  shows "find P (map f xs) = Some (f el)"
  using assms
proof (induction xs)
  case Nil
  then show ?case by simp
next
  case (Cons x xs)
  then show ?case by (cases "x = el") auto
qed

lemma blInv_lookup:
  assumes "blInv bl"
  shows "map_of (blEntries bl) a = Some el \<Longrightarrow>
      el \<in> set (blOrder bl) \<and> el < length (blHeap bl) \<and> addr (blHeap bl ! el) = a
      \<and> (\<forall>x \<in> set (blOrder bl). addr (blHeap bl ! x) = a \<longleftrightarrow> x = el)"
    and "map_of (blEntries bl) a = None \<Longrightarrow> \<forall>x \<in> set (blOrder bl). addr (blHeap bl ! x) \<noteq> a"
proof -
  have iff: "map_of (blEntries bl) b = Some x \<longleftrightarrow> x \<in> set (blOrder bl) \<and> addr (blHeap bl ! x) = b"
    and len: "x \<in> set (blOrder bl) \<Longrightarrow> x < length (blHeap bl)" for b x
    using assms by (auto simp: blInv_def)
  show "map_of (blEntries bl) a = None \<Longrightarrow> \<forall>x \<in> set (blOrder bl). addr (blHeap bl ! x) \<noteq> a"
    using iff by (metis option.distinct(1))
  assume "map_of (blEntries bl) a = Some el"
  then show "el \<in> set (blOrder bl) \<and> el < length (blHeap bl) \<and> addr (blHeap bl ! el) = a
      \<and> (\<forall>x \<in> set (blOrder bl). addr (blHeap bl ! x) = a \<longleftrightarrow> x = el)"
    using iff len by (metis option.inject)
qed

lemma lruFind_lru:
  assumes "blInv bl"
  shows "lruFind a (lru bl) = map_option (\<lambda>el. blHeap bl ! el) (map_of (blEntries bl) a)"
proof (cases "map_of (blEntries bl) a")
  case None
  with blInv_lookup(2)[OF assms] show ?thesis by (auto simp: lruFind_def lru_def find_None_iff)
next
  case (Some el)
  with blInv_lookup(1)[OF assms Some] show ?thesis
    by (simp add: lruFind_def lru_def find_map_inj)
qed

lemma lru_moveToFront:
  assumes "blInv bl" and "map_of (blEntries bl) a = Some el"
  shows "lru (bl\<lparr>blOrder := moveToFront el (blOrder bl)\<rparr>) = blHeap bl ! el # lruWithout a (lru bl)"
proof -
  note l = blInv_lookup(1)[OF assms]
  have "distinct (blOrder bl)" using assms(1) by (simp add: blInv_def)
  then have "remove1 el (blOrder bl) = filter (\<lambda>x. addr (blHeap bl ! x) \<noteq> a) (blOrder bl)"
    using l by (auto simp: distinct_remove1_removeAll removeAll_filter_not_eq intro!: filter_cong)
  then show ?thesis using l by (simp add: lru_def lruWithout_def moveToFront_def filter_map o_def)
qed

lemma isBlocked_refines:
  assumes "blInv bl"
  shows "lruBlocked a now (lru bl) = (fst (isBlocked a now bl), lru (snd (isBlocked a now bl)))"
  using lruFind_lru[OF assms] lru_moveToFront[OF assms]
  by (auto simp: lruBlocked_def isBlocked_def Let_def split: option.split)

lemma lru_nth_append [simp]:
  "\<forall>el \<in> set (blOrder bl). el < length (blHeap bl) \<Longrightarrow>
    map (\<lambda>el. (blHeap bl @ es) ! el) (blOrder bl) = lru bl"
  by (simp add: lru_def nth_append)

text \<open>The state after a new element was pushed, before the bound is enforced.\<close>

definition pushed :: "string \<Rightarrow> memory_blacklist \<Rightarrow> memory_blacklist" where
  "pushed a bl =
    bl\<lparr>blHeap := blHeap bl @ [freshEntry a], blOrder := length (blHeap bl) # blOrder bl,
       blEntries := AList.update a (length (blHeap bl)) (blEntries bl)\<rparr>"

definition consistent :: "memory_blacklist \<Rightarrow> bool" where
  "consistent bl \<longleftrightarrow>
    wf_map (blEntries bl) \<and> distinct (blOrder bl) \<and>
    (\<forall>el \<in> set (blOrder bl). el < length (blHeap bl)) \<and>
    (\<forall>a el. map_of (blEntries bl) a = Some el \<longleftrightarrow>
      el \<in> set (blOrder bl) \<and> addr (blHeap bl ! el) = a)"

lemma blInv_iff:
  "blInv bl \<longleftrightarrow> consistent bl \<and>
    (0 < MaxTrackedAddrs (blCfg bl) \<longrightarrow> int (length (blOrder bl)) \<le> MaxTrackedAddrs (blCfg bl))"
  by (auto simp: blInv_def consistent_def)

lemma pushed_simps [simp]:
  "blOrder (pushed a bl) = length (blHeap bl) # blOrder bl"
  "blCfg (pushed a bl) = blCfg bl"
  "blHeap (pushed a bl) = blHeap bl @ [freshEntry a]"
  "blEntries (pushed a bl) = AList.update a (length (blHeap bl)) (blEntries bl)"
  by (simp_all add: pushed_def)

lemma consistent_pushed:
  assumes "consistent bl" and "map_of (blEntries bl) a = None"
  shows "consistent (pushed a bl)"
  unfolding consistent_def
proof (intro conjI allI)
  have lt: "\<forall>el \<in> set (blOrder bl). el < length (blHeap bl)" using assms(1) by (simp add: consistent_def)
  show "wf_map (blEntries (pushed a bl))" using assms(1) by (simp add: consistent_def)
  show "distinct (blOrder (pushed a bl))" using assms(1) lt by (auto simp: consistent_def)
  show "\<forall>el \<in> set (blOrder (pushed a bl)). el < length (blHeap (pushed a bl))" using lt by auto
  fix b el
  have iff: "map_of (blEntries bl) b = Some el \<longleftrightarrow> el \<in> set (blOrder bl) \<and> addr (blHeap bl ! el) = b"
    using assms(1) by (simp add: consistent_def)
  have none: "el \<in> set (blOrder bl) \<Longrightarrow> addr (blHeap bl ! el) \<noteq> a"
    using assms by (auto simp: consistent_def)
  show "map_of (blEntries (pushed a bl)) b = Some el \<longleftrightarrow>
      el \<in> set (blOrder (pushed a bl)) \<and> addr (blHeap (pushed a bl) ! el) = b"
    using iff none lt by (cases "b = a") (auto simp: nth_append freshEntry_def)
qed

definition evictLast :: "memory_blacklist \<Rightarrow> memory_blacklist" where
  "evictLast bl =
    bl\<lparr>blOrder := butlast (blOrder bl),
       blEntries := AList.delete (addr (blHeap bl ! last (blOrder bl))) (blEntries bl)\<rparr>"

lemma consistent_remove:
  assumes "consistent bl" and "el \<in> set (blOrder bl)"
  shows "consistent (bl\<lparr>blOrder := remove1 el (blOrder bl),
      blEntries := AList.delete (addr (blHeap bl ! el)) (blEntries bl)\<rparr>)"
  unfolding consistent_def
proof (intro conjI allI)
  let ?bl = "bl\<lparr>blOrder := remove1 el (blOrder bl),
      blEntries := AList.delete (addr (blHeap bl ! el)) (blEntries bl)\<rparr>"
  have d: "distinct (blOrder bl)" using assms(1) by (simp add: consistent_def)
  show "wf_map (blEntries ?bl)" "distinct (blOrder ?bl)"
    "\<forall>x \<in> set (blOrder ?bl). x < length (blHeap ?bl)"
    using assms(1) by (auto simp: consistent_def distinct_remove1 dest: notin_set_remove1)
  fix b x
  have iff: "map_of (blEntries bl) c = Some y \<longleftrightarrow> y \<in> set (blOrder bl) \<and> addr (blHeap bl ! y) = c" for c y
    using assms(1) by (simp add: consistent_def)
  have "y = el" if "y \<in> set (blOrder bl)" "addr (blHeap bl ! y) = addr (blHeap bl ! el)" for y
    using iff that assms(2) by (metis option.inject)
  then show "map_of (blEntries ?bl) b = Some x \<longleftrightarrow> x \<in> set (blOrder ?bl) \<and> addr (blHeap ?bl ! x) = b"
    using iff d by auto
qed

lemma remove1_last: "distinct xs \<Longrightarrow> xs \<noteq> [] \<Longrightarrow> remove1 (last xs) xs = butlast xs"
  by (induction xs) auto

lemma consistent_evict:
  assumes "consistent bl" and "blOrder bl \<noteq> []"
  shows "consistent (evictLast bl)"
  using consistent_remove[OF assms(1) last_in_set[OF assms(2)]] remove1_last[OF _ assms(2)] assms(1)
  by (simp add: evictLast_def consistent_def)

lemma getOrCreate_eq:
  "getOrCreateLocked a bl =
    (case map_of (blEntries bl) a of
       Some el \<Rightarrow> (el, bl\<lparr>blOrder := moveToFront el (blOrder bl)\<rparr>)
     | None \<Rightarrow> (length (blHeap bl),
         if MaxTrackedAddrs (blCfg bl) > 0 \<and> int (Suc (length (blOrder bl))) > MaxTrackedAddrs (blCfg bl)
         then evictLast (pushed a bl) else pushed a bl))"
  by (auto simp: getOrCreateLocked_def pushed_def evictLast_def freshEntry_def Let_def
      split: option.split)

lemma getOrCreate_spec:
  assumes "blInv bl" and "getOrCreateLocked a bl = (el, bl')"
  shows "blInv bl' \<and> blCfg bl' = blCfg bl \<and> el < length (blHeap bl') \<and> addr (blHeap bl' ! el) = a
    \<and> blOrder bl' \<noteq> [] \<and> hd (blOrder bl') = el \<and> lru bl' = lruGet (blCfg bl) a (lru bl)"
proof (cases "map_of (blEntries bl) a")
  case (Some x)
  then have eq: "el = x" "bl' = bl\<lparr>blOrder := moveToFront x (blOrder bl)\<rparr>"
    using assms(2) by (auto simp: getOrCreate_eq)
  note l = blInv_lookup(1)[OF assms(1) Some]
  have "lru bl' = lruGet (blCfg bl) a (lru bl)"
    using lruFind_lru[OF assms(1), of a] Some lru_moveToFront[OF assms(1) Some] eq
    by (simp add: lruGet_def)
  moreover have "blInv bl'" unfolding eq by (rule blInv_touch[OF assms(1)])
  ultimately show ?thesis using l eq by (simp add: moveToFront_def)
next
  case None
  let ?full = "MaxTrackedAddrs (blCfg bl) > 0 \<and> int (Suc (length (blOrder bl))) > MaxTrackedAddrs (blCfg bl)"
  have con: "consistent bl" and bound: "0 < MaxTrackedAddrs (blCfg bl) \<Longrightarrow>
      int (length (blOrder bl)) \<le> MaxTrackedAddrs (blCfg bl)"
    using assms(1) by (auto simp: blInv_iff)
  have lt: "\<forall>el \<in> set (blOrder bl). el < length (blHeap bl)" using con by (simp add: consistent_def)
  have p: "consistent (pushed a bl)" by (rule consistent_pushed[OF con None])
  have lp: "lru (pushed a bl) = freshEntry a # lru bl"
    using lt by (simp add: lru_def[of "pushed a bl"])
  have el: "el = length (blHeap bl)" using assms(2) None by (simp add: getOrCreate_eq)
  have find: "lruFind a (lru bl) = None" using lruFind_lru[OF assms(1), of a] None by simp
  have len: "length (lru bl) = length (blOrder bl)" by (simp add: lru_def)
  show ?thesis
  proof (cases ?full)
    case False
    then have "bl' = pushed a bl" using assms(2) None by (auto simp: getOrCreate_eq)
    then show ?thesis
      using p lp el find len False by (auto simp: blInv_iff lruGet_def lruBound_def freshEntry_def)
  next
    case True
    then have bl': "bl' = evictLast (pushed a bl)" using assms(2) None by (auto simp: getOrCreate_eq)
    have ne: "blOrder bl \<noteq> []"  using True bound by (cases "blOrder bl") auto
    have c: "consistent bl'" unfolding bl' by (rule consistent_evict[OF p]) simp
    have ord: "blOrder bl' = length (blHeap bl) # butlast (blOrder bl)"
      using ne by (simp add: bl' evictLast_def)
    have l: "lru bl' = butlast (lru (pushed a bl))"
      by (simp add: lru_def bl' evictLast_def map_butlast)
    have "int (length (blOrder bl')) \<le> MaxTrackedAddrs (blCfg bl)"
      using ord ne bound True by simp
    then have "blInv bl'" using c by (simp add: blInv_iff bl' evictLast_def)
    moreover have "blHeap bl' = blHeap bl @ [freshEntry a]" "blCfg bl' = blCfg bl"
      by (simp_all add: bl' evictLast_def)
    moreover have "lru bl' = lruGet (blCfg bl) a (lru bl)"
      using l lp find len True by (simp add: lruGet_def lruBound_def)
    ultimately show ?thesis using ord el by (simp add: freshEntry_def)
  qed
qed

lemma consistent_set_entry:
  assumes "consistent bl" and "el < length (blHeap bl)" and "addr e = addr (blHeap bl ! el)"
  shows "consistent (bl\<lparr>blHeap := (blHeap bl)[el := e]\<rparr>)"
proof -
  have "addr ((blHeap bl)[el := e] ! x) = addr (blHeap bl ! x)" for x
    using assms(2,3) by (cases "x = el") auto
  then show ?thesis using assms(1) by (simp add: consistent_def)
qed

lemma strike_eq:
  "strike a now bl =
    (case getOrCreateLocked a bl of (el, bl1) \<Rightarrow>
      (case strikeEntry (blCfg bl) now (blHeap bl1 ! el) of (d, e) \<Rightarrow>
        ((d, strikes e), bl1\<lparr>blHeap := (blHeap bl1)[el := e]\<rparr>)))"
  by (simp add: strike_def strikeEntry_def Let_def split: prod.split)

lemma strikeEntry_addr: "strikeEntry cfg now e0 = (d, e) \<Longrightarrow> addr e = addr e0"
  by (auto simp: strikeEntry_def Let_def split: if_splits)

lemma strike_refines:
  assumes "blInv bl"
  shows "blInv (snd (strike a now bl))"
    and "lruStrike (blCfg bl) a now (lru bl) = (fst (strike a now bl), lru (snd (strike a now bl)))"
    and "blCfg (snd (strike a now bl)) = blCfg bl"
proof -
  obtain el bl1 where g: "getOrCreateLocked a bl = (el, bl1)" by (metis surj_pair)
  note G = getOrCreate_spec[OF assms g]
  obtain d e where s: "strikeEntry (blCfg bl) now (blHeap bl1 ! el) = (d, e)" by (metis surj_pair)
  have eq: "strike a now bl = ((d, strikes e), bl1\<lparr>blHeap := (blHeap bl1)[el := e]\<rparr>)"
    using g s G by (simp add: strike_eq)
  show "blInv (snd (strike a now bl))"
    using consistent_set_entry[of bl1 el e] strikeEntry_addr[OF s] G
    by (auto simp: eq blInv_iff)
  show "blCfg (snd (strike a now bl)) = blCfg bl" using eq G by simp
  obtain rest where o: "blOrder bl1 = el # rest" using G by (cases "blOrder bl1") auto
  have "el \<notin> set rest" using G o by (simp add: blInv_def)
  then have "map (\<lambda>x. (blHeap bl1)[el := e] ! x) rest = map (\<lambda>x. blHeap bl1 ! x) rest"
    by (intro map_cong refl nth_list_update_neq) auto
  moreover have "el < length (blHeap bl1)" using G by blast
  ultimately have "lru (bl1\<lparr>blHeap := (blHeap bl1)[el := e]\<rparr>) = e # tl (lru bl1)"
    by (simp add: lru_def o)
  moreover have "hd (lru bl1) = blHeap bl1 ! el" using o by (simp add: lru_def)
  ultimately show "lruStrike (blCfg bl) a now (lru bl) = (fst (strike a now bl), lru (snd (strike a now bl)))"
    using G s by (simp add: lruStrike_def eq)
qed

lemma sweepLoop_spec:
  assumes "consistent bl" and "distinct els" and "set els \<subseteq> set (blOrder bl)"
  shows "consistent (sweepLoop now els bl) \<and> blHeap (sweepLoop now els bl) = blHeap bl
    \<and> blCfg (sweepLoop now els bl) = blCfg bl
    \<and> blOrder (sweepLoop now els bl) = filter (\<lambda>el. \<not> (el \<in> set els \<and> expired now bl el)) (blOrder bl)"
  using assms
proof (induction els arbitrary: bl)
  case Nil
  then show ?case by simp
next
  case (Cons el els)
  show ?case
  proof (cases "expired now bl el")
    case False
    with Cons show ?thesis by (auto intro!: filter_cong)
  next
    case True
    let ?bl = "bl\<lparr>blOrder := remove1 el (blOrder bl),
      blEntries := AList.delete (addr (blHeap bl ! el)) (blEntries bl)\<rparr>"
    have c: "consistent ?bl" by (rule consistent_remove) (use Cons.prems in auto)
    have d: "distinct (blOrder bl)" using Cons.prems(1) by (simp add: consistent_def)
    have e: "expired now ?bl = expired now bl" by (rule ext) (simp add: expired_def)
    have "set els \<subseteq> set (blOrder ?bl)" using Cons.prems d by auto
    with Cons.IH[OF c] Cons.prems(2) True e show ?thesis
      using d by (auto simp: distinct_remove1_removeAll removeAll_filter_not_eq intro!: filter_cong)
  qed
qed

lemma sweep_refines:
  assumes "blInv bl"
  shows "blInv (sweepExpired now bl)" and "lru (sweepExpired now bl) = lruSweep (blCfg bl) now (lru bl)"
proof -
  have c: "consistent bl" and d: "distinct (rev (blOrder bl))"
    using assms by (auto simp: blInv_iff consistent_def)
  note S = sweepLoop_spec[OF c d, of now, simplified]
  show "lru (sweepExpired now bl) = lruSweep (blCfg bl) now (lru bl)"
    using S by (simp add: sweepExpired_def lru_def lruSweep_def filter_map o_def expired_def
        cong: filter_cong)
  have "length (blOrder (sweepExpired now bl)) \<le> length (blOrder bl)"
    using S by (simp add: sweepExpired_def)
  moreover have "consistent (sweepExpired now bl)" "blCfg (sweepExpired now bl) = blCfg bl"
    using S by (simp_all add: sweepExpired_def)
  ultimately show "blInv (sweepExpired now bl)"
    using assms by (auto simp: blInv_iff)
qed

text \<open>
  C7.  The store of \<open>src/blacklist.go\<close> implements the LRU list: with map, list and heap
  consistent, each operation answers as the specification does on the list of entries, keeps
  them consistent, and never tracks more than \<open>MaxTrackedAddrs\<close> addresses.
\<close>

theorem memory_blacklist_refines:
  assumes "blInv bl"
  shows "lruStrike (blCfg bl) a now (lru bl) = (fst (strike a now bl), lru (snd (strike a now bl)))
    \<and> lruBlocked a now (lru bl) = (fst (isBlocked a now bl), lru (snd (isBlocked a now bl)))
    \<and> lruSweep (blCfg bl) now (lru bl) = lru (sweepExpired now bl)
    \<and> blInv (snd (strike a now bl)) \<and> blInv (snd (isBlocked a now bl)) \<and> blInv (sweepExpired now bl)"
  using strike_refines[OF assms] isBlocked_refines[OF assms] sweep_refines[OF assms]
    blInv_isBlocked[OF assms] by simp

section \<open>What a blacklist promises\<close>

lemma strikeEntry_free:
  "strikeEntry cfg now e0 = (d, e) \<Longrightarrow> strikes e \<le> FreeStrikes cfg \<Longrightarrow>
    d = 0 \<and> (blockedUntil e = blockedUntil e0 \<or> blockedUntil e = zeroTime)"
  by (auto simp: strikeEntry_def Let_def split: if_splits)

lemma strikeEntry_blocks:
  "strikeEntry cfg now e0 = (d, e) \<Longrightarrow> d > 0 \<Longrightarrow> blockedUntil e = now + d"
  by (auto simp: strikeEntry_def Let_def split: if_splits)

text \<open>
  The interface \<open>BlacklistChecker\<close>, as the server relies on it: a strike that reports a
  block is answered by \<open>IsBlocked\<close> until the block is over, with the time left, and
  asking does not change the answers.
\<close>

locale blacklist_checker =
  fixes inv :: "'s \<Rightarrow> bool"
    and isBlockedOp :: "string \<Rightarrow> instant \<Rightarrow> 's \<Rightarrow> (bool \<times> duration) \<times> 's"
    and strikeOp :: "string \<Rightarrow> instant \<Rightarrow> 's \<Rightarrow> (duration \<times> int) \<times> 's"
  assumes inv_isBlocked: "inv s \<Longrightarrow> inv (snd (isBlockedOp a t s))"
    and inv_strike: "inv s \<Longrightarrow> inv (snd (strikeOp a t s))"
    and asking: "inv s \<Longrightarrow> fst (isBlockedOp b u (snd (isBlockedOp a t s))) = fst (isBlockedOp b u s)"
    and blocks: "inv s \<Longrightarrow> strikeOp a t s = ((d, n), s') \<Longrightarrow> 0 < d \<Longrightarrow>
      fst (isBlockedOp a u s') = (if u < t + d then (True, t + d - u) else (False, 0))"
begin

text \<open>Any number of lookups, of this and of other addresses.\<close>

fun lookups :: "(string \<times> instant) list \<Rightarrow> 's \<Rightarrow> 's" where
  "lookups [] s = s"
| "lookups ((a, t) # qs) s = lookups qs (snd (isBlockedOp a t s))"

lemma lookups_inv: "inv s \<Longrightarrow> inv (lookups qs s)"
  by (induction qs s rule: lookups.induct) (auto intro: inv_isBlocked)

lemma lookups_same: "inv s \<Longrightarrow> fst (isBlockedOp b u (lookups qs s)) = fst (isBlockedOp b u s)"
  by (induction qs s rule: lookups.induct) (auto simp: asking inv_isBlocked)

lemma lookups_foldl: "lookups qs s = foldl (\<lambda>s (a, t). snd (isBlockedOp a t s)) s qs"
  by (induction qs s rule: lookups.induct) auto

lemma block_lasts:
  assumes "inv s" and "strikeOp a t s = ((d, n), s')" and "0 < d"
  shows "fst (isBlockedOp a u (lookups qs s')) = (if u < t + d then (True, t + d - u) else (False, 0))"
proof -
  have "inv s'" using inv_strike[OF assms(1), of a t] assms(2) by simp
  then show ?thesis using lookups_same blocks[OF assms] by simp
qed

end

lemma isBlocked_answer:
  assumes "blInv bl"
  shows "fst (isBlocked a u bl) = (case lruFind a (lru bl) of
      None \<Rightarrow> (False, 0)
    | Some e \<Rightarrow> if blockedUntil e > u then (True, blockedUntil e - u) else (False, 0))"
  using isBlocked_refines[OF assms, of a u] by (auto simp: lruBlocked_def split: option.splits)

lemma lruFind_touch:
  "lruFind a xs = Some e \<Longrightarrow> lruFind b (e # lruWithout a xs) = lruFind b xs"
proof -
  assume e: "lruFind a xs = Some e"
  then have a: "addr e = a" by (auto simp: lruFind_def find_Some_iff)
  show ?thesis
  proof (cases "b = a")
    case True
    with e a show ?thesis by (simp add: lruFind_def)
  next
    case False
    then have "find (\<lambda>e. addr e = b) (filter (\<lambda>e. addr e \<noteq> a) ys) = find (\<lambda>e. addr e = b) ys" for ys
      by (induction ys) auto
    with a False show ?thesis by (simp add: lruFind_def lruWithout_def)
  qed
qed

lemma lruFind_isBlocked:
  assumes "blInv bl"
  shows "lruFind b (lru (snd (isBlocked a t bl))) = lruFind b (lru bl)"
  using isBlocked_refines[OF assms, of a t] lruFind_touch[of a "lru bl" _ b]
  by (auto simp: lruBlocked_def split: option.splits)

lemma lruFind_strike:
  assumes "blInv bl" and "strike a t bl = ((d, n), bl')"
  shows "\<exists>e0 e. strikeEntry (blCfg bl) t e0 = (d, e) \<and> strikes e = n \<and> lruFind a (lru bl') = Some e"
proof -
  obtain el bl1 where g: "getOrCreateLocked a bl = (el, bl1)" by (metis surj_pair)
  note G = getOrCreate_spec[OF assms(1) g]
  obtain d' e where s: "strikeEntry (blCfg bl) t (blHeap bl1 ! el) = (d', e)" by (metis surj_pair)
  have "lruStrike (blCfg bl) a t (lru bl) = ((d, n), lru bl')"
    using strike_refines(2)[OF assms(1), of a t] assms(2) by simp
  moreover obtain rest where o: "blOrder bl1 = el # rest" using G by (cases "blOrder bl1") auto
  then have "hd (lru bl1) = blHeap bl1 ! el" by (simp add: lru_def)
  then have "lruStrike (blCfg bl) a t (lru bl) = ((d', strikes e), e # tl (lru bl1))"
    using s G by (simp add: lruStrike_def)
  ultimately have "d' = d" "strikes e = n" "lru bl' = e # tl (lru bl1)" by simp_all
  moreover have "addr e = a" using strikeEntry_addr[OF s] G by simp
  ultimately show ?thesis using s by (auto simp: lruFind_def)
qed

interpretation mb: blacklist_checker blInv isBlocked strike
proof (unfold_locales, goal_cases)
  case (1 s a t)
  then show ?case by (rule blInv_isBlocked)
next
  case (2 s a t)
  then show ?case by (rule strike_refines(1))
next
  case (3 s b u a t)
  then show ?case
    using isBlocked_answer[OF 3] isBlocked_answer[OF blInv_isBlocked[OF 3]] lruFind_isBlocked[OF 3]
    by simp
next
  case (4 s a t d n s' u)
  obtain e0 e where e: "strikeEntry (blCfg s) t e0 = (d, e)" "lruFind a (lru s') = Some e"
    using lruFind_strike[OF 4(1,2)] by blast
  have "blInv s'" using strike_refines(1)[OF 4(1), of a t] 4(2) by simp
  then show ?case
    using isBlocked_answer[of s' a u] e(2) strikeEntry_blocks[OF e(1) 4(3)] by simp
qed


section \<open>Bounds\<close>

lemma scaledDuration_le:
  assumes "0 \<le> maxD" and "maxD < 2 ^ 53"
  shows "scaledDuration base mult ex maxD \<le> maxD"
proof -
  have "intF maxD = Flt maxD 0" using assms by (intro intF_exact) simp
  then show ?thesis
    using truncF_bound[of maxD] assms(1) by (simp add: scaledDuration_def Let_def)
qed

text \<open>
  C26.  What one strike does: the count it reports is at least one, no address within its
  free strikes is blocked, no block is longer than \<open>MaxBlock\<close>, and after a quiet period of
  more than \<open>StrikeResetAfter\<close> the count starts again.
\<close>

theorem strike_bounds:
  assumes "blInv bl" and "strike a t bl = ((d, n), bl')"
    and "0 \<le> MaxBlock (blCfg bl)" and "MaxBlock (blCfg bl) < 2 ^ 53"
    and "\<forall>e \<in> set (lru bl). 0 \<le> strikes e"
  shows "1 \<le> n \<and> d \<le> MaxBlock (blCfg bl) \<and> (n \<le> FreeStrikes (blCfg bl) \<longrightarrow> d = 0)
    \<and> n = (case lruFind a (lru bl) of
        None \<Rightarrow> 1
      | Some e \<Rightarrow> if strikes e > 0 \<and> t - lastStrike e > StrikeResetAfter (blCfg bl) then 1 else strikes e + 1)"
proof -
  let ?cfg = "blCfg bl"
  define e0 where "e0 = hd (lruGet ?cfg a (lru bl))"
  have r: "lruStrike ?cfg a t (lru bl) = ((d, n), lru bl')"
    using strike_refines(2)[OF assms(1), of a t] assms(2) by simp
  have hd: "e0 = (case lruFind a (lru bl) of None \<Rightarrow> freshEntry a | Some e \<Rightarrow> e)"
    by (auto simp: e0_def lruGet_def lruBound_def split: option.split)
  have pos: "0 \<le> strikes e0"
    using hd assms(5) by (auto simp: freshEntry_def lruFind_def find_Some_iff split: option.splits)
  obtain e where s: "strikeEntry ?cfg t e0 = (d, e)" "n = strikes e"
    using r by (auto simp: lruStrike_def Let_def e0_def split: prod.splits)
  have n: "n = (if strikes e0 > 0 \<and> t - lastStrike e0 > StrikeResetAfter ?cfg then 1 else strikes e0 + 1)"
    using s by (auto simp: strikeEntry_def Let_def split: if_splits)
  have "d \<le> MaxBlock ?cfg"
    using s(1) scaledDuration_le[OF assms(3,4)] assms(3) by (auto simp: strikeEntry_def Let_def split: if_splits)
  moreover have "n \<le> FreeStrikes ?cfg \<longrightarrow> d = 0" using strikeEntry_free[OF s(1)] s(2) by simp
  ultimately show ?thesis
    using n pos hd by (auto simp: freshEntry_def split: option.splits)
qed

section \<open>Growth of the blocks\<close>

text \<open>
  With a multiplier that is a power of two, as the default 4, the floating point
  computation of a block is exact: the initial block times the multiplier to the number of
  strikes beyond the first, capped at the maximum.  With the defaults the blocks are 1, 4,
  16, 64 and 256 seconds and then 15 minutes.
\<close>

theorem scaledDuration_exact:
  assumes "0 \<le> base" and "base < 2 ^ 53" and "0 \<le> maxD" and "maxD < 2 ^ 53"
  shows "scaledDuration base (Flt (2 ^ j) 0) ex maxD = min (base * (2 ^ j) ^ nat ex) maxD"
proof (cases "ex \<le> 0")
  case True
  then show ?thesis by (simp add: scaledDuration_def min_def)
next
  case False
  have "pow2F (Flt (2 ^ j) 0) (int j)" by (auto simp: pow2F_def)
  from pow2F_pow[OF this, of "nat ex"] obtain i e where
    p: "powF (Flt (2 ^ j) 0) (nat ex) = Flt (2 ^ i) e" "int i + e = int (nat ex * j)"
    by (auto simp: pow2F_def)
  obtain i' e' where r: "roundF (base * 2 ^ i) e = Flt (base * 2 ^ i') e'" "int i' + e' = int i + e"
    using roundF_shift[OF assms(1,2)] by blast
  have b: "intF base = Flt base 0" and m: "intF maxD = Flt maxD 0"
    using assms by (auto intro!: intF_exact)
  have s: "int i' + e' = int (nat ex * j)" using p(2) r(2) by simp
  have "mulF (intF base) (powF (Flt (2 ^ j) 0) (nat ex)) = Flt (base * 2 ^ i') e'"
    using p(1) r(1) b by simp
  then have "scaledDuration base (Flt (2 ^ j) 0) ex maxD
      = (if maxD < base * 2 ^ (nat ex * j) then maxD else base * 2 ^ (nat ex * j))"
    using False pow2_scaled[OF s assms(1)] m by (simp add: scaledDuration_def Let_def del: lessF.simps truncF.simps)
  then show ?thesis by (simp add: min_def power_mult mult.commute)
qed

definition testCfg :: blacklist_config where
  "testCfg =
    \<lparr>Enabled = True, FreeStrikes = 0, InstantErrorThreshold = 0, InitialBlock = 0,
     Multiplier = Flt 0 0, MaxBlock = 0, StrikeResetAfter = 0, MaxTrackedAddrs = 0\<rparr>"

lemma defaults_testCfg:
  "blacklistDefaults testCfg =
    \<lparr>Enabled = True, FreeStrikes = 2, InstantErrorThreshold = 2 * second, InitialBlock = second,
     Multiplier = Flt 4 0, MaxBlock = 15 * minute, StrikeResetAfter = 10 * minute,
     MaxTrackedAddrs = 10000\<rparr>"
  by (simp add: blacklistDefaults_def testCfg_def)

theorem scaledDuration_exact_witness:
  "map (\<lambda>n. scaledDuration second (Flt 4 0) n (15 * minute)) [0, 1, 2, 3, 4, 5]
    = [second, 4 * second, 16 * second, 64 * second, 256 * second, 15 * minute]"
  using scaledDuration_exact[of second "15 * minute" 2] by simp

text \<open>Three strikes from two ports of one host: the third one blocks it for a second.\<close>

abbreviation host1 :: string where "host1 \<equiv> ''10.0.0.1''"

definition twoStrikes :: memory_blacklist where
  "twoStrikes = snd (strike host1 1 (snd (strike host1 0 (newMemoryBlacklist (blacklistDefaults testCfg)))))"

lemma twoStrikes_inv: "blInv twoStrikes"
  unfolding twoStrikes_def by (intro strike_refines(1) blInv_new)

lemma third_strike:
  "\<exists>bl'. recordBlacklistStrike ''10.0.0.1:81'' 2 (Some twoStrikes) = (Some bl', Some (host1, 3, second))"
proof -
  have "snd (recordBlacklistStrike ''10.0.0.1:81'' 2 (Some twoStrikes)) = Some (host1, 3, second)"
    by code_simp
  moreover have "\<exists>bl'. fst (recordBlacklistStrike ''10.0.0.1:81'' 2 (Some twoStrikes)) = Some bl'"
    by (simp add: recordBlacklistStrike_def Let_def split: prod.split)
  ultimately show ?thesis by (metis prod.collapse)
qed


theorem strike_bounds_witness:
  "snd (fst (strike host1 7 (newMemoryBlacklist (blacklistDefaults testCfg)))) = 1"
proof -
  let ?bl = "newMemoryBlacklist (blacklistDefaults testCfg)"
  obtain d n bl' where s: "strike host1 7 ?bl = ((d, n), bl')" by (metis surj_pair)
  have "0 \<le> MaxBlock (blCfg ?bl)" "MaxBlock (blCfg ?bl) < 2 ^ 53" "\<forall>e \<in> set (lru ?bl). 0 \<le> strikes e"
    by (simp_all add: newMemoryBlacklist_def defaults_testCfg lru_def)
  from strike_bounds[OF blInv_new s this] s show ?thesis
    by (simp add: newMemoryBlacklist_def lru_def lruFind_def)
qed

theorem memory_blacklist_refines_witness:
  "lruStrike (blCfg twoStrikes) ''b'' 9 (lru twoStrikes)
    = (fst (strike ''b'' 9 twoStrikes), lru (snd (strike ''b'' 9 twoStrikes)))"
  using memory_blacklist_refines[OF twoStrikes_inv] by blast

text \<open>
  The \<open>Retry-After\<close> of a blocked client is the time left in whole seconds, rounded
  up: after that many seconds the block is over, a second less would not do.
\<close>

theorem retryAfter_covers:
  assumes "0 < d"
  shows "1 \<le> retryAfterSeconds d \<and> d \<le> retryAfterSeconds d * second
    \<and> (retryAfterSeconds d - 1) * second < d"
proof -
  let ?q = "(d + second - 1) div second"
  have "quotGo (d + second - 1) second = ?q" using assms by (simp add: quotGo_def)
  moreover have "1 \<le> ?q" using assms by (simp add: pos_imp_zdiv_pos_iff)
  ultimately have r: "retryAfterSeconds d = ?q" by (simp add: retryAfterSeconds_def Let_def)
  then obtain q m where "retryAfterSeconds d = q" "d + second - 1 = second * q + m"
    "0 \<le> m" "m < second" "1 \<le> q"
    using \<open>1 \<le> ?q\<close> that[of ?q "(d + second - 1) mod second"] by simp
  then show ?thesis by simp
qed

theorem retryAfter_covers_witness: "retryAfterSeconds (second + 1) = 2"
  using retryAfter_covers[of "second + 1"] by (simp add: retryAfterSeconds_def quotGo_def Let_def)

end
