(* ===== verification/Http.thy ===== *)
theory Http
  imports Pipeline Blacklist
begin

text \<open>
  The HTTP side of the server, \<open>src/http.go\<close>, with the parts of \<open>src/hrana.go\<close> and
  \<open>src/codec.go\<close> it uses: routing, CORS, authentication, the choice of the codec, and the
  handlers of the three protocol versions.  A request is what \<open>net/http\<close> parsed, a response
  is its status, its headers and the value that was encoded into its body.
\<close>

section \<open>The server\<close>

record gdb =
  gdbHandle :: nat
  gdbGeneration :: i64

text \<open>\<open>AuthFunc\<close> is supplied by the embedding program: an error, or an optional expiry.\<close>

record 'd config =
  AuthFunc :: "(string \<Rightarrow> 'd \<Rightarrow> (string + instant option) \<times> 'd) option"
  BatonTTL :: duration
  Versions :: "string list"
  AllowOrigins :: "string list"
  BlacklistConf :: blacklist_config

record 'd server =
  db :: gdb
  config :: "'d config"
  batons :: baton_store
  closing :: bool
  blacklist :: "memory_blacklist option"

text \<open>\<open>New\<close>: the defaults of the configuration, an empty store, generation zero.\<close>

definition newServer :: "nat \<Rightarrow> 'd config \<Rightarrow> 'd server" where
  "newServer h conf =
    (let ttl1 = (if BatonTTL conf = 0 then 10 * second else BatonTTL conf);
         auth = (case AuthFunc conf of None \<Rightarrow> (\<lambda>token w. (Inr None, w)) | Some f \<Rightarrow> f);
         bl = blacklistDefaults (BlacklistConf conf);
         conf1 = conf\<lparr>BatonTTL := ttl1, AuthFunc := Some auth, BlacklistConf := bl\<rparr>
     in \<lparr>db = \<lparr>gdbHandle = h, gdbGeneration = 0\<rparr>, config = conf1, batons = newBatonStore ttl1,
         closing = False,
         blacklist = (if Enabled bl then Some (newMemoryBlacklist bl) else None)\<rparr>)"

definition isVersionEnabled :: "'d config \<Rightarrow> string \<Rightarrow> bool" where
  "isVersionEnabled conf v \<longleftrightarrow> Versions conf = [] \<or> v \<in> set (Versions conf)"

definition serverOpenStream :: "'d env \<Rightarrow> 'd server \<Rightarrow> 'd \<Rightarrow> (error + stream) \<times> 'd" where
  "serverOpenStream E s w = openStream E (gdbHandle (db s)) (gdbGeneration (db s)) w"

section \<open>Requests and responses\<close>

record http_request =
  rqMethod :: string
  rqPath :: string
  rqHeader :: "string \<Rightarrow> string"
  rqQuery :: "string \<Rightarrow> string"
  rqBody :: bytes
  rqRemoteAddr :: string

datatype codec = JSONCodec | MsgpackCodec

fun contentType :: "codec \<Rightarrow> string" where
  "contentType JSONCodec = ''application/json''"
| "contentType MsgpackCodec = ''application/x-msgpack''"

text \<open>Decoding a body into its struct is the work of the two codec libraries.\<close>

record body_decoders =
  decodeV1Execute :: "codec \<Rightarrow> bytes \<Rightarrow> error + stmt"
  decodeV1Batch :: "codec \<Rightarrow> bytes \<Rightarrow> error + batch"
  decodePipeline :: "codec \<Rightarrow> bytes \<Rightarrow> error + (string option \<times> stream_request list)"
  decodeCursor :: "codec \<Rightarrow> bytes \<Rightarrow> error + (string option \<times> batch)"

datatype resp_body =
    NoBody
  | PlainText string
  | ErrorBody hrana_error
  | V1ExecuteBody stmt_result
  | V1BatchBody batch_result
  | PipelineBody "string option" "stream_result list"
  | CursorBody "string option" "cursor_entry list"

type_synonym headers = "(string \<times> string) list"

record http_response =
  status :: nat
  headers :: headers
  body :: resp_body

section \<open>Encoding\<close>

text \<open>Whether the codec can encode a value; everything around the values always encodes.\<close>

definition encodesVal :: "codec \<Rightarrow> val \<Rightarrow> bool" where
  "encodesVal c v =
    (case c of
       JSONCodec \<Rightarrow> (case marshalValue (\<lambda>f. []) v of Inl _ \<Rightarrow> False | Inr _ \<Rightarrow> True)
     | MsgpackCodec \<Rightarrow> (case marshalMsgpack v of Inl _ \<Rightarrow> False | Inr _ \<Rightarrow> True))"

definition resultValues :: "stmt_result \<Rightarrow> val list" where
  "resultValues r = concat (Rows r)"

definition batchValues :: "batch_result \<Rightarrow> val list" where
  "batchValues br =
    concat (map (\<lambda>x. case x of None \<Rightarrow> [] | Some r \<Rightarrow> resultValues r) (StepResults br))"

fun streamValues :: "stream_result \<Rightarrow> val list" where
  "streamValues (StreamOk (RespExecute r)) = resultValues r"
| "streamValues (StreamOk (RespBatch br)) = batchValues br"
| "streamValues _ = []"

fun entryValues :: "cursor_entry \<Rightarrow> val list" where
  "entryValues (Row vs) = vs"
| "entryValues _ = []"

fun bodyValues :: "resp_body \<Rightarrow> val list" where
  "bodyValues (V1ExecuteBody r) = resultValues r"
| "bodyValues (V1BatchBody br) = batchValues br"
| "bodyValues (PipelineBody b rs) = concat (map streamValues rs)"
| "bodyValues _ = []"

text \<open>\<open>writeCodec\<close> drops the error of \<open>Encode\<close> and writes what it returned, nothing.\<close>

definition writeCodec :: "headers \<Rightarrow> codec \<Rightarrow> nat \<Rightarrow> resp_body \<Rightarrow> http_response" where
  "writeCodec hdr c code v =
    \<lparr>status = code, headers = AList.update ''Content-Type'' (contentType c) hdr,
     body = (if list_all (encodesVal c) (bodyValues v) then v else NoBody)\<rparr>"

definition writeHTTPError :: "headers \<Rightarrow> nat \<Rightarrow> error \<Rightarrow> http_response" where
  "writeHTTPError hdr code e =
    \<lparr>status = code, headers = AList.update ''Content-Type'' ''application/json'' hdr,
     body = ErrorBody \<lparr>Message = e, Code = None\<rparr>\<rparr>"

text \<open>\<open>http.Error\<close> of the standard library.\<close>

definition plainError :: "headers \<Rightarrow> nat \<Rightarrow> string \<Rightarrow> http_response" where
  "plainError hdr code msg =
    \<lparr>status = code, headers = AList.update ''Content-Type'' ''text/plain; charset=utf-8'' hdr,
     body = PlainText msg\<rparr>"

section \<open>What every handler checks first\<close>

definition bearerToken :: "http_request \<Rightarrow> string" where
  "bearerToken r =
    (let auth = rqHeader r ''Authorization''
     in if length auth > 7 \<and> take 7 auth = ''Bearer '' then drop 7 auth else [])"

definition checkAuth :: "'d config \<Rightarrow> http_request \<Rightarrow> 'd \<Rightarrow> error option \<times> 'd" where
  "checkAuth conf r w =
    (case AuthFunc conf of
       None \<Rightarrow> (None, w)
     | Some f \<Rightarrow>
         (case f (bearerToken r) w of
            (Inl e, w') \<Rightarrow> (Some (AuthError e), w')
          | (Inr _, w') \<Rightarrow> (None, w')))"

definition mediaType :: "string \<Rightarrow> string" where
  "mediaType v = trimSpace (case indexByte v CHR '';'' of None \<Rightarrow> v | Some i \<Rightarrow> take i v)"

definition selectCodecFromRequest :: "http_request \<Rightarrow> error + codec" where
  "selectCodecFromRequest r =
    (let ct = mediaType (rqHeader r ''Content-Type'');
         acc0 = mediaType (rqHeader r ''Accept'');
         acc = (if acc0 = [] \<or> acc0 = ''*/*'' then ct else acc0)
     in if ct \<noteq> acc then Inl AsymmetricalEncoding
        else if ct = ''application/json'' then Inr JSONCodec
        else if ct = ''application/msgpack'' \<or> ct = ''application/x-msgpack'' then Inr MsgpackCodec
        else Inl EncodingNotSupported)"

text \<open>
  The beginning of the four handlers: authentication, \<open>mode\<close>, codec, body, in this order,
  each with its status.
\<close>

definition admit ::
  "'d config \<Rightarrow> (codec \<Rightarrow> bytes \<Rightarrow> error + 'b) \<Rightarrow> http_request \<Rightarrow> 'd \<Rightarrow>
    ((nat \<times> error) + (conn_mode \<times> codec \<times> 'b)) \<times> 'd" where
  "admit conf decode r w =
    (case checkAuth conf r w of
       (Some e, w') \<Rightarrow> (Inl (401, e), w')
     | (None, w') \<Rightarrow>
         (case parseMode (rqQuery r ''mode'') of
            Inl e \<Rightarrow> (Inl (400, e), w')
          | Inr mode \<Rightarrow>
              (case selectCodecFromRequest r of
                 Inl e \<Rightarrow> (Inl (406, e), w')
               | Inr c \<Rightarrow>
                   (case decode c (rqBody r) of
                      Inl e \<Rightarrow> (Inl (400, InvalidBody e), w')
                    | Inr x \<Rightarrow> (Inr (mode, c, x), w')))))"

section \<open>Version 1\<close>

definition handleV1Execute ::
  "'d env \<Rightarrow> body_decoders \<Rightarrow> 'd server \<Rightarrow> headers \<Rightarrow> http_request \<Rightarrow> 'd \<Rightarrow> http_response \<times> 'd" where
  "handleV1Execute E D s hdr r w =
    (case admit (config s) (decodeV1Execute D) r w of
       (Inl (code, e), w1) \<Rightarrow> (writeHTTPError hdr code e, w1)
     | (Inr (mode, c, stm), w1) \<Rightarrow>
         (case serverOpenStream E s w1 of
            (Inl e, w2) \<Rightarrow> (writeHTTPError hdr 500 e, w2)
          | (Inr st0, w2) \<Rightarrow>
              (let st = st0\<lparr>Mode := mode\<rparr>;
                   (res, w3) = executeStmt E st stm (StoredSQL st) w2;
                   resp = (case res of
                             Inl e \<Rightarrow> writeHTTPError hdr 400 e
                           | Inr x \<Rightarrow> writeCodec hdr c 200 (V1ExecuteBody x))
               in (resp, snd (streamClose E st w3)))))"

definition handleV1Batch ::
  "'d env \<Rightarrow> body_decoders \<Rightarrow> 'd server \<Rightarrow> headers \<Rightarrow> http_request \<Rightarrow> 'd \<Rightarrow> http_response \<times> 'd" where
  "handleV1Batch E D s hdr r w =
    (case admit (config s) (decodeV1Batch D) r w of
       (Inl (code, e), w1) \<Rightarrow> (writeHTTPError hdr code e, w1)
     | (Inr (mode, c, bat), w1) \<Rightarrow>
         (case serverOpenStream E s w1 of
            (Inl e, w2) \<Rightarrow> (writeHTTPError hdr 500 e, w2)
          | (Inr st0, w2) \<Rightarrow>
              (let st = st0\<lparr>Mode := mode\<rparr>;
                   (res, w3) = executeBatch E st bat (StoredSQL st) w2;
                   resp = (case res of
                             Inl e \<Rightarrow> writeHTTPError hdr 500 e
                           | Inr x \<Rightarrow> writeCodec hdr c 200 (V1BatchBody x))
               in (resp, snd (streamClose E st w3)))))"

section \<open>Pipelines\<close>

text \<open>
  The stream of a request: the one its baton names, or a new one.  The result is its
  address and the old baton, the empty string for none.
\<close>

definition resolveStream ::
  "'d env \<Rightarrow> 'd server \<Rightarrow> conn_mode \<Rightarrow> string option \<Rightarrow> 'd \<Rightarrow>
    ((nat \<times> error) + (nat \<times> string)) \<times> baton_store \<times> 'd" where
  "resolveStream E s mode baton w =
    (case baton of
       Some (c # cs) \<Rightarrow>
         (case getBaton E (c # cs) (batons s) w of
            (None, bs) \<Rightarrow> (Inl (400, BatonNotFound), bs, w)
          | (Some a, bs) \<Rightarrow> (Inr (a, c # cs), bs, w))
     | _ \<Rightarrow>
         (case serverOpenStream E s w of
            (Inl e, w') \<Rightarrow> (Inl (500, e), batons s, w')
          | (Inr st, w') \<Rightarrow>
              (case allocStream (st\<lparr>Mode := mode\<rparr>) (batons s) of
                 (a, bs) \<Rightarrow> (Inr (a, []), bs, w'))))"

text \<open>The end of a pipeline: a new baton, or the stream is closed and its baton dropped.\<close>

definition rotateBaton ::
  "'d env \<Rightarrow> nat \<Rightarrow> string \<Rightarrow> bool \<Rightarrow> baton_store \<Rightarrow> 'd \<Rightarrow>
    (error + string option) \<times> baton_store \<times> 'd" where
  "rotateBaton E a oldBaton isClosed bs w =
    (if \<not> isClosed then
       (case putBaton E a oldBaton bs w of
          (Inl e, bs', w') \<Rightarrow> (case closeAt E a bs' w' of (bs'', w'') \<Rightarrow> (Inl e, bs'', w''))
        | (Inr b, bs', w') \<Rightarrow> (Inr (Some b), bs', w'))
     else
       (case closeAt E a bs w of
          (bs', w') \<Rightarrow> (Inr None, if oldBaton \<noteq> [] then deleteBaton oldBaton bs' else bs', w')))"

definition handlePipeline ::
  "'d env \<Rightarrow> body_decoders \<Rightarrow> 'd server \<Rightarrow> headers \<Rightarrow> http_request \<Rightarrow> 'd \<Rightarrow>
    http_response \<times> 'd server \<times> 'd" where
  "handlePipeline E D s hdr r w =
    (case admit (config s) (decodePipeline D) r w of
       (Inl (code, e), w1) \<Rightarrow> (writeHTTPError hdr code e, s, w1)
     | (Inr (mode, c, (baton, reqs)), w1) \<Rightarrow>
         (case resolveStream E s mode baton w1 of
            (Inl (code, e), bs, w2) \<Rightarrow> (writeHTTPError hdr code e, s\<lparr>batons := bs\<rparr>, w2)
          | (Inr (a, oldBaton), bs, w2) \<Rightarrow>
              (case executePipelineRequests E a reqs False bs w2 of
                 ((results, isClosed), bs', w3) \<Rightarrow>
                   (case rotateBaton E a oldBaton isClosed bs' w3 of
                      (Inl e, bs'', w4) \<Rightarrow> (writeHTTPError hdr 500 e, s\<lparr>batons := bs''\<rparr>, w4)
                    | (Inr newBaton, bs'', w4) \<Rightarrow>
                        (writeCodec hdr c 200 (PipelineBody newBaton results),
                         s\<lparr>batons := bs''\<rparr>, w4)))))"

section \<open>Cursors\<close>

text \<open>
  The baton is rotated before the batch runs.  The entries are written one by one until one
  cannot be encoded.
\<close>

definition handleV3Cursor ::
  "'d env \<Rightarrow> body_decoders \<Rightarrow> 'd server \<Rightarrow> headers \<Rightarrow> http_request \<Rightarrow> 'd \<Rightarrow>
    http_response \<times> 'd server \<times> 'd" where
  "handleV3Cursor E D s hdr r w =
    (case admit (config s) (decodeCursor D) r w of
       (Inl (code, e), w1) \<Rightarrow> (writeHTTPError hdr code e, s, w1)
     | (Inr (mode, c, (baton, bat)), w1) \<Rightarrow>
         (case resolveStream E s mode baton w1 of
            (Inl (code, e), bs, w2) \<Rightarrow> (writeHTTPError hdr code e, s\<lparr>batons := bs\<rparr>, w2)
          | (Inr (a, oldBaton), bs, w2) \<Rightarrow>
              (case putBaton E a oldBaton bs w2 of
                 (Inl e, bs', w3) \<Rightarrow>
                   (case closeAt E a bs' w3 of
                      (bs'', w4) \<Rightarrow> (writeHTTPError hdr 500 e, s\<lparr>batons := bs''\<rparr>, w4))
               | (Inr newBaton, bs', w3) \<Rightarrow>
                   (let hdr1 = AList.update ''Transfer-Encoding'' ''chunked''
                                 (AList.update ''Content-Type'' (contentType c) hdr);
                        st = heap bs' ! a;
                        (res, w4) = executeBatchCursor E st bat (StoredSQL st) w3;
                        es = (case res of Inl e \<Rightarrow> [ErrorEntry (newError e)] | Inr es \<Rightarrow> es)
                    in (\<lparr>status = 200, headers = hdr1,
                         body = CursorBody (Some newBaton)
                           (takeWhile (\<lambda>x. list_all (encodesVal c) (entryValues x)) es)\<rparr>,
                        s\<lparr>batons := bs'\<rparr>, w4)))))"

section \<open>Routing\<close>

definition setCORSHeaders :: "'d config \<Rightarrow> http_request \<Rightarrow> headers \<Rightarrow> (nat option) \<times> headers" where
  "setCORSHeaders conf r hdr =
    (let allowed = AllowOrigins conf; origin = rqHeader r ''Origin'' in
     if allowed = [] then (None, hdr)
     else if origin = [] then (None, hdr)
     else if \<not> list_ex (\<lambda>x. x = ''*'' \<or> x = origin) allowed then (None, hdr)
     else
       (let hdr1 = AList.update ''Vary'' ''Origin''
                     (AList.update ''Access-Control-Max-Age'' ''86400''
                       (AList.update ''Access-Control-Allow-Headers'' ''Authorization, Content-Type''
                         (AList.update ''Access-Control-Allow-Methods'' ''GET, POST, OPTIONS''
                           (AList.update ''Access-Control-Allow-Origin'' origin hdr))))
        in (if rqMethod r = ''OPTIONS'' then Some 204 else None, hdr1)))"

datatype served = Responded http_response | WSUpgrade

definition serveHTTP ::
  "'d env \<Rightarrow> body_decoders \<Rightarrow> 'd server \<Rightarrow> http_request \<Rightarrow> 'd \<Rightarrow> served \<times> 'd server \<times> 'd" where
  "serveHTTP E D s r w =
    (let noContent = (\<lambda>hdr code. Responded \<lparr>status = code, headers = hdr, body = NoBody\<rparr>) in
     if closing s then (Responded (plainError [] 503 ''server is shutting down''), s, w)
     else
       (case setCORSHeaders (config s) r [] of
          (Some code, hdr) \<Rightarrow> (noContent hdr code, s, w)
        | (None, hdr) \<Rightarrow>
            (case checkBlacklist (rqRemoteAddr r) (clock E w) (blacklist s) of
               ((blocked, retryAfter), bl) \<Rightarrow>
                 (let s = s\<lparr>blacklist := bl\<rparr>; conf = config s;
                      m = rqMethod r; p = rqPath r in
                  if blocked then
                    (Responded (plainError
                       (AList.update ''Retry-After'' (formatInt (retryAfterSeconds retryAfter)) hdr)
                       429 ''too many requests''), s, w)
                  else if foldName (rqHeader r ''Upgrade'') = ''websocket'' then (WSUpgrade, s, w)
                  else if m = ''POST'' \<and> p = ''/v1/execute'' \<and> isVersionEnabled conf ''v1'' then
                    (case handleV1Execute E D s hdr r w of (resp, w') \<Rightarrow> (Responded resp, s, w'))
                  else if m = ''POST'' \<and> p = ''/v1/batch'' \<and> isVersionEnabled conf ''v1'' then
                    (case handleV1Batch E D s hdr r w of (resp, w') \<Rightarrow> (Responded resp, s, w'))
                  else if m = ''GET'' \<and> (p = ''/v2'' \<or> p = ''/v2/'') \<and> isVersionEnabled conf ''v2'' then
                    (noContent hdr 200, s, w)
                  else if m = ''POST'' \<and> p = ''/v2/pipeline'' \<and> isVersionEnabled conf ''v2'' then
                    (case handlePipeline E D s hdr r w of (resp, s', w') \<Rightarrow> (Responded resp, s', w'))
                  else if m = ''GET'' \<and> (p = ''/v3'' \<or> p = ''/v3/'') \<and> isVersionEnabled conf ''v3'' then
                    (noContent hdr 200, s, w)
                  else if m = ''POST'' \<and> p = ''/v3/pipeline'' \<and> isVersionEnabled conf ''v3'' then
                    (case handlePipeline E D s hdr r w of (resp, s', w') \<Rightarrow> (Responded resp, s', w'))
                  else if m = ''POST'' \<and> p = ''/v3/cursor'' \<and> isVersionEnabled conf ''v3'' then
                    (case handleV3Cursor E D s hdr r w of (resp, s', w') \<Rightarrow> (Responded resp, s', w'))
                  else (Responded (plainError hdr 404 ''404 page not found''), s, w)))))"

end
