(* ===== verification/HttpProps.thy ===== *)
theory HttpProps
  imports Http
begin

text \<open>
  What the HTTP side guarantees: no connection is lost or returned twice, the batons lead to
  open streams, a baton is good for one request, authentication comes first, and the routes.
\<close>

section \<open>Nothing but opening and closing touches the pool\<close>

text \<open>A property of the environment that no driver call changes.\<close>

locale driver_frame = driver_invariant E "\<lambda>sql. True" P for E :: "'d env" and P
begin

lemma stmt_frame: "P w \<Longrightarrow> executeStmt E st s S w = (r, w') \<Longrightarrow> P w'"
  by (rule executeStmt_inv) simp_all

lemma batch_frame: "P w \<Longrightarrow> executeBatch E st b S w = (r, w') \<Longrightarrow> P w'"
  unfolding executeBatch_def by (rule batchLoop_inv) simp_all

lemma sequence_frame: "P w \<Longrightarrow> executeSequence E st q w = (r, w') \<Longrightarrow> P w'"
  unfolding executeSequence_def by (rule seqLoop_inv) simp_all

lemma describe_frame: "P w \<Longrightarrow> describeStmt E st q w = (r, w') \<Longrightarrow> P w'"
  by (auto simp: describeStmt_def Let_def dest: queryContext_inv[OF TrueI]
      split: prod.splits sum.splits)

lemma cursorStep_frame:
  assumes "P w" and "cursorStep E st S i s w = (r, w')"
  shows "P w'"
proof (cases "resolveStmtSQL s S")
  case (Inl e)
  with assms show ?thesis by (simp add: cursorStep_def)
next
  case sql: (Inr sql)
  show ?thesis
  proof (cases "buildArgs (Args s) (NamedArgs s)")
    case (Inl e)
    with assms sql show ?thesis by (simp add: cursorStep_def)
  next
    case args: (Inr args)
    show ?thesis
    proof (cases "wantRows s")
      case True
      obtain q w1 where q: "queryContext E (Conn st) sql args w = (q, w1)" by (metis surj_pair)
      then have "w' = w1" using assms(2) sql args True by (cases q) (auto simp: cursorStep_def)
      then show ?thesis using queryContext_inv[OF TrueI assms(1) q] by simp
    next
      case False
      obtain q w1 where q: "execContext E (Conn st) sql args w = (q, w1)" by (metis surj_pair)
      then have "w' = w1" using assms(2) sql args False by (cases q) (auto simp: cursorStep_def)
      then show ?thesis using execContext_inv[OF TrueI assms(1) q] by simp
    qed
  qed
qed

lemma cursorLoop_frame: "P w \<Longrightarrow> cursorLoop E st S i steps rs es w = (xs, w') \<Longrightarrow> P w'"
proof (induction steps arbitrary: i rs es w xs)
  case Nil
  then show ?case by simp
next
  case (Cons step steps)
  show ?case
  proof (cases "stepEnabled step rs es")
    case (Inl e)
    with Cons.prems show ?thesis by simp
  next
    case (Inr ok)
    obtain blk out w1 where c: "cursorStep E st S (of_nat i) (Stmt step) w = ((blk, out), w1)"
      by (metis surj_pair)
    have w1: "P w1" by (rule cursorStep_frame[OF Cons.prems(1) c])
    show ?thesis
    proof (cases ok)
      case False
      with Cons Inr show ?thesis by simp
    next
      case True
      show ?thesis
        using Cons.prems(2) Inr True c Cons.IH[OF w1]
        by (cases out) (auto split: prod.splits)
    qed
  qed
qed

lemma cursor_frame: "P w \<Longrightarrow> executeBatchCursor E st b S w = (r, w') \<Longrightarrow> P w'"
  unfolding executeBatchCursor_def by (auto split: prod.splits dest: cursorLoop_frame)

lemma dispatch_frame_env:
  assumes "P w" and "dispatchStreamRequest E st req w = ((r, st'), w')"
  shows "P w'"
  using assms(2)
proof (cases rule: dispatch_cases)
  case (execute s)
  then show ?thesis using stmt_frame[OF assms(1) surjective_pairing] by (auto dest: answer_env)
next
  case (batch b)
  then show ?thesis using batch_frame[OF assms(1) surjective_pairing] by (auto dest: answer_env)
next
  case (sequence q)
  then show ?thesis using sequence_frame[OF assms(1) surjective_pairing] by (auto dest: answer_env)
next
  case (describe q)
  then show ?thesis using describe_frame[OF assms(1) surjective_pairing] by (auto dest: answer_env)
qed (use assms(1) in auto)

lemma pipeline_frame_env:
  "P w \<Longrightarrow> executePipelineRequests E a reqs c s w = ((results, c'), s', w') \<Longrightarrow> P w'"
proof (induction reqs arbitrary: c s w results)
  case Nil
  then show ?case by simp
next
  case (Cons req reqs)
  show ?case
  proof (cases c)
    case True
    with Cons.prems show ?thesis using executePipeline_closed[of E a "req # reqs" s w] by simp
  next
    case False
    with Cons.prems(2) have "executePipelineRequests E a (req # reqs) False s w = ((results, c'), s', w')"
      by simp
    then obtain resp s1 w1 rest where d: "dispatchAt E a req s w = (resp, s1, w1)"
      and r: "executePipelineRequests E a reqs (isClose req) s1 w1 = ((rest, c'), s', w')"
      by (rule pipeline_Cons)
    obtain st' where "dispatchStreamRequest E (heap s ! a) req w = ((resp, st'), w1)"
      using d by (auto simp: dispatchAt_def split: prod.splits)
    then have "P w1" by (rule dispatch_frame_env[OF Cons.prems(1)])
    then show ?thesis by (rule Cons.IH[OF _ r])
  qed
qed

end

interpretation held: driver_frame "counted E" "\<lambda>w. snd w = n" for E n
  by unfold_locales (auto simp: counted_def split: prod.splits)

section \<open>The three phases of a request on a stream\<close>

text \<open>Connections held but not accounted for by an open stream of the store.\<close>

definition unaccounted :: "baton_store \<Rightarrow> 'd \<times> int \<Rightarrow> int" where
  "unaccounted bs w = snd w - int (openCount bs)"

text \<open>What holds of a store while a request works on the stream at \<open>a\<close>.\<close>

definition working :: "nat \<Rightarrow> string \<Rightarrow> baton_store \<Rightarrow> bool" where
  "working a old bs \<longleftrightarrow>
    storeInv bs \<and> a < length (heap bs) \<and>
    (old \<noteq> [] \<longrightarrow> findBaton old bs = Some a) \<and> (\<forall>b. findBaton b bs = Some a \<longrightarrow> old \<noteq> [] \<and> b = old)"

lemma resolve_spec:
  assumes "resolveStream (counted E) s mode baton w = (res, bs, w')" and I: "storeInv (batons s)"
  shows "unaccounted bs w' = unaccounted (batons s) w"
    and "\<And>b. findBaton b bs = findBaton b (batons s)"
    and "res = Inl e \<Longrightarrow> storeInv bs \<and> (live (batons s) \<longrightarrow> live bs) \<and> (covered (batons s) \<longrightarrow> covered bs)"
    and "res = Inr (a, old) \<Longrightarrow> working a old bs \<and> (live (batons s) \<longrightarrow> live bs \<and> \<not> closed (heap bs ! a))
      \<and> (covered (batons s) \<longrightarrow> coveredBut a bs)"
proof -
  have "unaccounted bs w' = unaccounted (batons s) w \<and> (\<forall>b. findBaton b bs = findBaton b (batons s))
    \<and> (res = Inl e \<longrightarrow> storeInv bs \<and> (live (batons s) \<longrightarrow> live bs) \<and> (covered (batons s) \<longrightarrow> covered bs))
    \<and> (res = Inr (a, old) \<longrightarrow> working a old bs \<and> (live (batons s) \<longrightarrow> live bs \<and> \<not> closed (heap bs ! a))
      \<and> (covered (batons s) \<longrightarrow> coveredBut a bs))"
  proof (cases "\<exists>c cs. baton = Some (c # cs)")
    case True
    then obtain c cs where b: "baton = Some (c # cs)" by blast
    let ?g = "getBaton (counted E) (c # cs) (batons s) w"
    have eq: "bs = snd ?g" "w' = w"
      "res = (case fst ?g of None \<Rightarrow> Inl (400, BatonNotFound) | Some a \<Rightarrow> Inr (a, c # cs))"
      using assms(1) b by (auto simp: resolveStream_def split: prod.splits option.splits)
    note f = getBaton_find[of "counted E" "c # cs" "batons s" w]
    have g: "storeInv bs" "live (batons s) \<Longrightarrow> live bs" "covered (batons s) \<Longrightarrow> covered bs"
      using getBaton_keeps[where E = "counted E" and b = "c # cs" and w = w and s = "batons s"] I eq(1)
      by simp_all
    have "working a old bs \<and> (live (batons s) \<longrightarrow> live bs \<and> \<not> closed (heap bs ! a))
      \<and> (covered (batons s) \<longrightarrow> coveredBut a bs)" if r: "res = Inr (a, old)"
    proof -
      have fa: "findBaton (c # cs) (batons s) = Some a" "old = c # cs"
        using r eq(3) f by (auto split: option.splits)
      then have fb: "findBaton (c # cs) bs = Some a" using eq(1) by simp
      have "working a old bs"
        unfolding working_def fa(2)
      proof (intro conjI allI impI)
        show "storeInv bs" by (rule g(1))
        show "a < length (heap bs)" by (rule storeInvD(2)[OF g(1) fb])
        show "findBaton (c # cs) bs = Some a" by (rule fb)
        show "b = c # cs" if "findBaton b bs = Some a" for b by (rule storeInvD(3)[OF g(1) that fb])
      qed simp
      then show ?thesis using g fb covered_But by (auto simp: live_def)
    qed
    then show ?thesis using g eq by (simp add: unaccounted_def)
  next
    case False
    then have nb: "resolveStream (counted E) s mode baton w =
       (case serverOpenStream (counted E) s w of
            (Inl e, w') \<Rightarrow> (Inl (500, e), batons s, w')
          | (Inr st, w') \<Rightarrow>
              (case allocStream (st\<lparr>Mode := mode\<rparr>) (batons s) of
                 (a, bs) \<Rightarrow> (Inr (a, []), bs, w')))"
      by (auto simp: resolveStream_def split: option.split list.split)
    obtain r w1 where o: "serverOpenStream (counted E) s w = (r, w1)" by (metis surj_pair)
    note n = counted_open[OF o[unfolded serverOpenStream_def]]
    show ?thesis
    proof (cases r)
      case (Inl x)
      with assms(1) nb o n I show ?thesis by (auto simp: unaccounted_def)
    next
      case (Inr st)
      have "openStream (counted E) (gdbHandle (db s)) (gdbGeneration (db s)) w = (Inr st, w1)"
        using o Inr by (simp add: serverOpenStream_def)
      then have st: "streamOk (st\<lparr>Mode := mode\<rparr>)" "\<not> closed (st\<lparr>Mode := mode\<rparr>)"
        using openStream_ok by (fastforce simp: streamOk_def)+
      obtain c bs1 where al: "allocStream (st\<lparr>Mode := mode\<rparr>) (batons s) = (c, bs1)" by (metis surj_pair)
      note A = alloc_keeps[OF al st]
      have eq: "res = Inr (c, [])" "bs = bs1" "w' = w1" using assms(1) nb o Inr al by simp_all
      have "working c [] bs" using A(1)[OF I] A(4) eq by (auto simp: working_def)
      then show ?thesis
        using A(2)[OF I] A(3) A(5) A(7) n Inr eq st(2) findBaton_cong[OF A(6)]
        by (auto simp: unaccounted_def)
    qed
  qed
  then show "unaccounted bs w' = unaccounted (batons s) w"
    "\<And>b. findBaton b bs = findBaton b (batons s)"
    "res = Inl e \<Longrightarrow> storeInv bs \<and> (live (batons s) \<longrightarrow> live bs) \<and> (covered (batons s) \<longrightarrow> covered bs)"
    "res = Inr (a, old) \<Longrightarrow> working a old bs \<and> (live (batons s) \<longrightarrow> live bs \<and> \<not> closed (heap bs ! a))
      \<and> (covered (batons s) \<longrightarrow> coveredBut a bs)" by blast+
qed

lemma sameBut_facts:
  assumes "sameBut a bs bs'"
  shows "findBaton b bs' = findBaton b bs" and "openCount bs' = openCount bs"
    and "c < length (heap bs) \<Longrightarrow> closed (heap bs' ! c) = closed (heap bs ! c)"
    and "length (heap bs') = length (heap bs)"
proof -
  have e: "batonEntries bs' = batonEntries bs" and l: "length (heap bs') = length (heap bs)"
    and o: "\<And>b. b \<noteq> a \<Longrightarrow> heap bs' ! b = heap bs ! b"
    and h: "a < length (heap bs) \<Longrightarrow> \<exists>S'. heap bs' ! a = (heap bs ! a)\<lparr>StoredSQL := S'\<rparr>"
    using assms by (auto simp: sameBut_def)
  show "findBaton b bs' = findBaton b bs" by (rule findBaton_cong[OF e])
  show c: "c < length (heap bs) \<Longrightarrow> closed (heap bs' ! c) = closed (heap bs ! c)" for c
    using o[of c] h by (cases "c = a") auto
  show "length (heap bs') = length (heap bs)" by (rule l)
  have "{i. i < length (heap bs') \<and> \<not> closed (heap bs' ! i)} = {i. i < length (heap bs) \<and> \<not> closed (heap bs ! i)}"
    using c l by auto
  then show "openCount bs' = openCount bs" by (simp add: openCount_def length_filter_conv_card)
qed

lemma pipeline_mid:
  assumes "executePipelineRequests (counted E) a reqs c bs w = ((results, c'), bs', w')"
    and "working a old bs"
  shows "working a old bs'" and "live bs \<Longrightarrow> live bs'" and "coveredBut a bs \<Longrightarrow> coveredBut a bs'"
    and "closed (heap bs' ! a) = closed (heap bs ! a)" and "findBaton b bs' = findBaton b bs"
    and "unaccounted bs' w' = unaccounted bs w"
proof -
  have I: "storeInv bs" and a: "a < length (heap bs)" using assms(2) by (simp_all only: working_def)
  have ok: "\<forall>st \<in> set (heap bs). streamOk st" using storeInvD(4)[OF I] by (auto simp: in_set_conv_nth)
  note F = pipeline_frame[OF assms(1)]
  have sb: "sameBut a bs bs'" using F by blast
  note S = sameBut_facts[OF sb]
  have e: "batonEntries bs' = batonEntries bs" using sb by (simp add: sameBut_def)
  have n: "snd w' = snd w" using held.pipeline_frame_env[of w "snd w"] assms(1) by blast
  have I': "storeInv bs'"
  proof (rule inv_heap[OF I e])
    show "length (heap bs') = length (heap bs)" using S(4) by simp
    show "streamOk (heap bs' ! c)" if "c < length (heap bs)" for c
      using F ok S(4) that by (simp add: all_set_conv_all_nth)
  qed
  show "working a old bs'"
    unfolding working_def S(1) S(4) using assms(2)[unfolded working_def] I' by blast
  show "live bs \<Longrightarrow> live bs'"
    using S storeInvD(2)[OF I] by (simp add: live_def)
  show "coveredBut a bs \<Longrightarrow> coveredBut a bs'" using S by (simp add: coveredBut_def)
  show "closed (heap bs' ! a) = closed (heap bs ! a)" using S(3) a by simp
  show "findBaton b bs' = findBaton b bs" using S(1) by simp
  show "unaccounted bs' w' = unaccounted bs w" using S(2) n by (simp add: unaccounted_def)
qed

lemma closeAt_phase:
  assumes "closeAt (counted E) a bs w = (bs', w')" and "storeInv bs" and "a < length (heap bs)"
  shows "storeInv bs'" and "coveredBut a bs \<Longrightarrow> covered bs'" and "unaccounted bs' w' = unaccounted bs w"
    and "findBaton b bs' = findBaton b bs" and "closed (heap bs' ! a)"
    and "c \<noteq> a \<Longrightarrow> heap bs' ! c = heap bs ! c"
proof -
  note C = closeAt_spec[OF assms(1,3) storeInvD(4)[OF assms(2,3)]]
  have e: "batonEntries bs' = batonEntries bs" using C by blast
  note f = findBaton_cong[OF e]
  show "storeInv bs'"
  proof (rule inv_heap[OF assms(2) e])
    show "length (heap bs') = length (heap bs)" using C by blast
    show "streamOk (heap bs' ! c)" if "c < length (heap bs)" for c
      using C storeInvD(4)[OF assms(2) that] by (cases "c = a") auto
  qed
  show "coveredBut a bs \<Longrightarrow> covered bs'"
    using C f unfolding coveredBut_def covered_def by metis
  show "unaccounted bs' w' = unaccounted bs w" using C by (simp add: unaccounted_def)
  show "findBaton b bs' = findBaton b bs" by (rule f)
  show "closed (heap bs' ! a)" "c \<noteq> a \<Longrightarrow> heap bs' ! c = heap bs ! c" using C by blast+
qed

lemma putBaton_env:
  assumes "putBaton (counted E) a old bs w = (r, bs', w')"
  shows "snd w' = snd w" and "r = Inl e \<Longrightarrow> bs' = bs"
proof -
  obtain g w1 where g: "generateBaton (counted E) w = (g, w1)" by (metis surj_pair)
  obtain x w2 where x: "randRead (counted E) 32 w = (x, w2)" by (metis surj_pair)
  have "snd w1 = snd w" using g x counted_rand[OF x] by (auto simp: generateBaton_def split: sum.splits)
  moreover have "w' = w1" using assms g by (auto simp: putBaton_def Let_def split: sum.splits)
  ultimately show "snd w' = snd w" by simp
  show "r = Inl e \<Longrightarrow> bs' = bs"
    using assms g by (auto simp: putBaton_def Let_def split: sum.splits)
qed

text \<open>The random source never fails, as documented for \<open>crypto/rand\<close>.\<close>

definition randTotal :: "'d env \<Rightarrow> bool" where
  "randTotal E \<longleftrightarrow> (\<forall>n w. \<exists>bs. fst (randRead E n w) = Inr bs)"

lemma putBaton_total: "randTotal E \<Longrightarrow> \<exists>b. fst (putBaton (counted E) a old bs w) = Inr b"
proof -
  assume "randTotal E"
  then obtain x where "fst (randRead E 32 (fst w)) = Inr x" by (auto simp: randTotal_def)
  then have "fst (randRead (counted E) 32 w) = Inr x"
    by (cases w) (auto simp: counted_def split: prod.splits)
  then show ?thesis
    by (auto simp: putBaton_def generateBaton_def Let_def split: prod.splits sum.splits)
qed

text \<open>No baton was redirected to another stream: the new baton was not in use.\<close>

definition noCollision :: "baton_store \<Rightarrow> baton_store \<Rightarrow> bool" where
  "noCollision bs bs' \<longleftrightarrow>
    (\<forall>b a. findBaton b bs = Some a \<longrightarrow> findBaton b bs' = Some a \<or> findBaton b bs' = None)"

lemma put_phase:
  assumes "putBaton (counted E) a old bs w = (Inr new, bs', w')" and "working a old bs"
  shows "storeInv bs'" and "live bs \<Longrightarrow> \<not> closed (heap bs ! a) \<Longrightarrow> live bs'"
    and "coveredBut a bs \<Longrightarrow> noCollision bs bs' \<Longrightarrow> covered bs'"
    and "unaccounted bs' w' = unaccounted bs w"
    and "findBaton new bs' = Some a" and "old \<noteq> [] \<Longrightarrow> old \<noteq> new \<Longrightarrow> findBaton old bs' = None"
    and "b \<noteq> new \<Longrightarrow> b \<noteq> old \<or> old = [] \<Longrightarrow> findBaton b bs' = findBaton b bs" and "heap bs' = heap bs"
proof -
  note st = putBaton_step[OF assms(1)]
  have W: "storeInv bs" "a < length (heap bs)" "old \<noteq> [] \<Longrightarrow> findBaton old bs = Some a"
    "\<And>b. findBaton b bs = Some a \<Longrightarrow> old \<noteq> [] \<and> b = old"
    using assms(2) by (simp_all only: working_def, blast+)
  show "storeInv bs'" by (rule put_storeInv[OF st W(1,2,4)])
  show "live bs \<Longrightarrow> \<not> closed (heap bs ! a) \<Longrightarrow> live bs'" by (rule put_live[OF st])
  show h: "heap bs' = heap bs" using st by (auto simp: putStep_def)
  show "findBaton new bs' = Some a" by (rule bm.find_put[OF st])
  show "old \<noteq> [] \<Longrightarrow> old \<noteq> new \<Longrightarrow> findBaton old bs' = None" by (rule bm.find_put_old[OF st])
  show "b \<noteq> new \<Longrightarrow> b \<noteq> old \<or> old = [] \<Longrightarrow> findBaton b bs' = findBaton b bs"
    by (rule bm.find_put_other[OF st])
  show "unaccounted bs' w' = unaccounted bs w"
    using putBaton_env(1)[OF assms(1)] h by (simp add: unaccounted_def openCount_def)
  show "covered bs'" if "coveredBut a bs" "noCollision bs bs'"
  proof (rule put_covered[OF st that(1) W(3)])
    show "findBaton new bs = None \<or> findBaton new bs = Some a"
      using that(2) bm.find_put[OF st] unfolding noCollision_def
      by (metis not_None_eq option.inject)
  qed
qed

lemma noCollision_cong:
  "(\<And>b. findBaton b bs = findBaton b cs) \<Longrightarrow> noCollision bs bs' = noCollision cs bs'"
  by (simp add: noCollision_def)

lemma rotate_spec:
  assumes "rotateBaton (counted E) a old isClosed bs w = (res, bs', w')" and W: "working a old bs"
  shows "storeInv bs' \<and> unaccounted bs' w' = unaccounted bs w"
    and "randTotal E \<Longrightarrow> noCollision bs bs' \<Longrightarrow> live bs \<Longrightarrow> \<not> closed (heap bs ! a) \<Longrightarrow> coveredBut a bs \<Longrightarrow>
      live bs' \<and> covered bs'"
    and "res = Inr (Some b) \<Longrightarrow> \<not> isClosed \<and> findBaton b bs' = Some a \<and> heap bs' = heap bs
      \<and> (old \<noteq> [] \<longrightarrow> old \<noteq> b \<longrightarrow> findBaton old bs' = None)
      \<and> (\<forall>c. c \<noteq> b \<longrightarrow> c \<noteq> old \<or> old = [] \<longrightarrow> findBaton c bs' = findBaton c bs)"
    and "res = Inr None \<Longrightarrow> isClosed \<and> closed (heap bs' ! a) \<and> (\<forall>c. findBaton c bs' \<noteq> Some a)
      \<and> (\<forall>c. c \<noteq> old \<or> old = [] \<longrightarrow> findBaton c bs' = findBaton c bs)"
proof -
  have I: "storeInv bs" and a: "a < length (heap bs)"
    and own: "\<And>b. findBaton b bs = Some a \<Longrightarrow> old \<noteq> [] \<and> b = old"
    using W by (simp_all only: working_def, blast+)
  have "(storeInv bs' \<and> unaccounted bs' w' = unaccounted bs w)
    \<and> (randTotal E \<longrightarrow> noCollision bs bs' \<longrightarrow> live bs \<longrightarrow> \<not> closed (heap bs ! a) \<longrightarrow> coveredBut a bs \<longrightarrow>
      live bs' \<and> covered bs')
    \<and> (res = Inr (Some b) \<longrightarrow> \<not> isClosed \<and> findBaton b bs' = Some a \<and> heap bs' = heap bs
      \<and> (old \<noteq> [] \<longrightarrow> old \<noteq> b \<longrightarrow> findBaton old bs' = None)
      \<and> (\<forall>c. c \<noteq> b \<longrightarrow> c \<noteq> old \<or> old = [] \<longrightarrow> findBaton c bs' = findBaton c bs))
    \<and> (res = Inr None \<longrightarrow> isClosed \<and> closed (heap bs' ! a) \<and> (\<forall>c. findBaton c bs' \<noteq> Some a)
      \<and> (\<forall>c. c \<noteq> old \<or> old = [] \<longrightarrow> findBaton c bs' = findBaton c bs))"
  proof (cases isClosed)
    case True
    obtain bs1 where c: "closeAt (counted E) a bs w = (bs1, w')"
      and bs': "bs' = (if old \<noteq> [] then deleteBaton old bs1 else bs1)" and r: "res = Inr None"
      using assms(1) True by (auto simp: rotateBaton_def split: prod.splits)
    note C = closeAt_phase[OF c I a]
    have h: "heap bs' = heap bs1" by (simp add: bs' deleteBaton_def)
    have f: "findBaton c bs' = (if old \<noteq> [] \<and> c = old then None else findBaton c bs)" for c
      using C(4) by (simp add: bs' findBaton_delete)
    have I': "storeInv bs'" using C(1) delete_storeInv by (simp add: bs')
    have no: "findBaton c bs' \<noteq> Some a" for c using f own by auto
    have lv: "live bs'" if "live bs"
      unfolding live_def
    proof (intro allI impI)
      fix b c assume b: "findBaton b bs' = Some c"
      have "c \<noteq> a" using no b by blast
      moreover have "findBaton b bs = Some c" using f[of b] b by (auto split: if_splits)
      ultimately show "\<not> closed (heap bs' ! c)" using that C(6) h by (simp add: live_def)
    qed
    have cv: "covered bs'" if cov: "coveredBut a bs"
      unfolding covered_def
    proof (intro allI impI)
      fix c assume c: "c < length (heap bs')" "\<not> closed (heap bs' ! c)"
      then have "c \<noteq> a" using C(5) h by auto
      obtain b where "findBaton b bs1 = Some c" using C(2)[OF cov] c h by (auto simp: covered_def)
      then have b: "findBaton b bs = Some c" using C(4) by simp
      have "findBaton old bs = Some a" if "old \<noteq> []"
        using W that unfolding working_def by blast
      then have "\<not> (old \<noteq> [] \<and> b = old)" using b \<open>c \<noteq> a\<close> by auto
      then have "findBaton b bs' = Some c" using f[of b] b by (simp only: if_False)
      then show "\<exists>b. findBaton b bs' = Some c" ..
    qed
    have "openCount bs' = openCount bs1" using h by (simp add: openCount_def)
    then have "unaccounted bs' w' = unaccounted bs w" using C(3) by (simp add: unaccounted_def)
    then show ?thesis using I' lv cv no f C(5) h r True by auto
  next
    case False
    obtain g bs1 w1 where p: "putBaton (counted E) a old bs w = (g, bs1, w1)" by (metis surj_pair)
    show ?thesis
    proof (cases g)
      case (Inl e)
      then have b1: "bs1 = bs" by (rule putBaton_env(2)[OF p])
      have n: "snd w1 = snd w" by (rule putBaton_env(1)[OF p])
      have c: "closeAt (counted E) a bs w1 = (bs', w')" and r: "res = Inl e"
        using assms(1) False p Inl b1 by (auto simp: rotateBaton_def split: prod.splits)
      note C = closeAt_phase[OF c I a]
      have "\<not> randTotal E" using putBaton_total[of E a old bs w] p Inl by auto
      then show ?thesis using C(1,3) n r by (auto simp: unaccounted_def)
    next
      case (Inr new)
      then have p: "putBaton (counted E) a old bs w = (Inr new, bs', w')" and r: "res = Inr (Some new)"
        using assms(1) False p by (auto simp: rotateBaton_def)
      note P = put_phase[OF p W]
      show ?thesis using P(1-6) P(7) P(8) r False by auto
    qed
  qed
  then show "storeInv bs' \<and> unaccounted bs' w' = unaccounted bs w"
    "randTotal E \<Longrightarrow> noCollision bs bs' \<Longrightarrow> live bs \<Longrightarrow> \<not> closed (heap bs ! a) \<Longrightarrow> coveredBut a bs \<Longrightarrow>
      live bs' \<and> covered bs'"
    "res = Inr (Some b) \<Longrightarrow> \<not> isClosed \<and> findBaton b bs' = Some a \<and> heap bs' = heap bs
      \<and> (old \<noteq> [] \<longrightarrow> old \<noteq> b \<longrightarrow> findBaton old bs' = None)
      \<and> (\<forall>c. c \<noteq> b \<longrightarrow> c \<noteq> old \<or> old = [] \<longrightarrow> findBaton c bs' = findBaton c bs)"
    "res = Inr None \<Longrightarrow> isClosed \<and> closed (heap bs' ! a) \<and> (\<forall>c. findBaton c bs' \<noteq> Some a)
      \<and> (\<forall>c. c \<noteq> old \<or> old = [] \<longrightarrow> findBaton c bs' = findBaton c bs)" by blast+
qed

section \<open>The handlers\<close>

text \<open>The embedding program's \<open>AuthFunc\<close> does not take connections from this pool.\<close>

definition authFrame :: "('d \<times> int) config \<Rightarrow> bool" where
  "authFrame conf \<longleftrightarrow> (\<forall>f token w. AuthFunc conf = Some f \<longrightarrow> snd (snd (f token w)) = snd w)"

lemma admit_frame:
  assumes "admit conf dec r w = (x, w')" and "authFrame conf"
  shows "snd w' = snd w"
proof -
  obtain y w1 where c: "checkAuth conf r w = (y, w1)" by (metis surj_pair)
  have "w' = w1" using assms(1) c by (auto simp: admit_def split: option.splits sum.splits)
  moreover have "snd w1 = snd w"
  proof (cases "AuthFunc conf")
    case None
    with c show ?thesis by (simp add: checkAuth_def)
  next
    case (Some f)
    obtain z w2 where f: "f (bearerToken r) w = (z, w2)" by (metis surj_pair)
    then have "snd w2 = snd w" using assms(2) Some unfolding authFrame_def by (metis snd_conv)
    then show ?thesis using c Some f by (auto simp: checkAuth_def split: sum.splits)
  qed
  ultimately show ?thesis by simp
qed

definition healthy :: "baton_store \<Rightarrow> bool" where
  "healthy bs \<longleftrightarrow> storeInv bs \<and> live bs \<and> covered bs"

lemma handlePipeline_keeps:
  assumes "handlePipeline (counted E) D s hdr r w = (resp, s', w')" and "storeInv (batons s)"
    and "authFrame (config s)"
  shows "storeInv (batons s') \<and> unaccounted (batons s') w' = unaccounted (batons s) w
    \<and> config s' = config s \<and> db s' = db s"
    and "randTotal E \<Longrightarrow> noCollision (batons s) (batons s') \<Longrightarrow> healthy (batons s) \<Longrightarrow> healthy (batons s')"
proof -
  have "(storeInv (batons s') \<and> unaccounted (batons s') w' = unaccounted (batons s) w
      \<and> config s' = config s \<and> db s' = db s)
    \<and> (randTotal E \<longrightarrow> noCollision (batons s) (batons s') \<longrightarrow> healthy (batons s) \<longrightarrow> healthy (batons s'))"
  proof -
    obtain x w1 where ad: "admit (config s) (decodePipeline D) r w = (x, w1)" by (metis surj_pair)
    have n1: "snd w1 = snd w" by (rule admit_frame[OF ad assms(3)])
    show ?thesis
    proof (cases x)
      case (Inl ce)
      then show ?thesis using assms(1,2) ad n1
        by (cases ce) (auto simp: handlePipeline_def unaccounted_def)
    next
      case (Inr y)
      obtain mode c baton reqs where y: "y = (mode, c, baton, reqs)" by (metis surj_pair)
      obtain res bs w2 where rs: "resolveStream (counted E) s mode baton w1 = (res, bs, w2)" by (metis surj_pair)
      note R = resolve_spec[OF rs assms(2)]
      show ?thesis
      proof (cases res)
        case (Inl ce)
        then show ?thesis using assms(1,2) ad Inr y rs R(1) R(3) n1
          by (cases ce) (auto simp: handlePipeline_def unaccounted_def healthy_def)
      next
        case r: (Inr aold)
        obtain a old where aold: "aold = (a, old)" by (metis surj_pair)
        have W: "working a old bs" "live (batons s) \<Longrightarrow> live bs \<and> \<not> closed (heap bs ! a)"
          "covered (batons s) \<Longrightarrow> coveredBut a bs" using R(4) r aold by auto
        obtain results isClosed bs1 w3 where ex:
          "executePipelineRequests (counted E) a reqs False bs w2 = ((results, isClosed), bs1, w3)"
          by (metis surj_pair)
        note M = pipeline_mid[OF ex W(1)]
        obtain ro bs2 w4 where rot: "rotateBaton (counted E) a old isClosed bs1 w3 = (ro, bs2, w4)"
          by (metis surj_pair)
        note T = rotate_spec[OF rot M(1)]
        have s': "s' = s\<lparr>batons := bs2\<rparr>" "w' = w4"
          using assms(1) ad Inr y rs r aold ex rot by (auto simp: handlePipeline_def split: sum.splits)
        have nc: "noCollision bs1 bs2 = noCollision (batons s) bs2"
          using M(5) R(2) by (intro noCollision_cong) simp
        have "healthy bs2" if "randTotal E" "noCollision (batons s) bs2" "healthy (batons s)"
        proof -
          have h: "live bs1" "\<not> closed (heap bs1 ! a)" "coveredBut a bs1"
            using that(3) W(2,3) M(2-4) by (auto simp: healthy_def)
          show ?thesis using T(1) T(2)[OF that(1) _ h] that(2) nc by (simp add: healthy_def)
        qed
        moreover have "unaccounted bs2 w4 = unaccounted (batons s) w"
          using T(1) M(6) R(1) n1 by (simp add: unaccounted_def)
        ultimately show ?thesis using T(1) s' by simp
      qed
    qed
  qed
  then show "storeInv (batons s') \<and> unaccounted (batons s') w' = unaccounted (batons s) w
      \<and> config s' = config s \<and> db s' = db s"
    "randTotal E \<Longrightarrow> noCollision (batons s) (batons s') \<Longrightarrow> healthy (batons s) \<Longrightarrow> healthy (batons s')"
    by blast+
qed

lemma handleV3Cursor_keeps:
  assumes "handleV3Cursor (counted E) D s hdr r w = (resp, s', w')" and "storeInv (batons s)"
    and "authFrame (config s)"
  shows "(storeInv (batons s') \<and> unaccounted (batons s') w' = unaccounted (batons s) w
      \<and> config s' = config s \<and> db s' = db s)
    \<and> (randTotal E \<longrightarrow> noCollision (batons s) (batons s') \<longrightarrow> healthy (batons s) \<longrightarrow> healthy (batons s'))"
proof -
  obtain x w1 where ad: "admit (config s) (decodeCursor D) r w = (x, w1)" by (metis surj_pair)
  have n1: "snd w1 = snd w" by (rule admit_frame[OF ad assms(3)])
  show ?thesis
  proof (cases x)
    case (Inl ce)
    then show ?thesis using assms(1,2) ad n1
      by (cases ce) (auto simp: handleV3Cursor_def unaccounted_def)
  next
    case (Inr y)
    obtain mode c baton bat where y: "y = (mode, c, baton, bat)" by (metis surj_pair)
    obtain res bs w2 where rs: "resolveStream (counted E) s mode baton w1 = (res, bs, w2)" by (metis surj_pair)
    note R = resolve_spec[OF rs assms(2)]
    show ?thesis
    proof (cases res)
      case (Inl ce)
      then show ?thesis using assms(1,2) ad Inr y rs R(1) R(3) n1
        by (cases ce) (auto simp: handleV3Cursor_def unaccounted_def healthy_def)
    next
      case r: (Inr aold)
      obtain a old where aold: "aold = (a, old)" by (metis surj_pair)
      have W: "working a old bs" "live (batons s) \<Longrightarrow> live bs \<and> \<not> closed (heap bs ! a)"
        "covered (batons s) \<Longrightarrow> coveredBut a bs" using R(4) r aold by auto
      have I: "storeInv bs" "a < length (heap bs)" using W(1) by (simp_all only: working_def)
      obtain p bs1 w3 where put: "putBaton (counted E) a old bs w2 = (p, bs1, w3)" by (metis surj_pair)
      show ?thesis
      proof (cases p)
        case pl: (Inl e)
        obtain bs2 w4 where cl: "closeAt (counted E) a bs1 w3 = (bs2, w4)" by (metis surj_pair)
        have b1: "bs1 = bs" "snd w3 = snd w2" using putBaton_env[OF put] pl by simp_all
        note C = closeAt_phase[OF cl[unfolded b1] I]
        have s': "s' = s\<lparr>batons := bs2\<rparr>" "w' = w4"
          using assms(1) ad Inr y rs r aold put pl cl by (auto simp: handleV3Cursor_def)
        have "\<not> randTotal E" using putBaton_total[of E a old bs w2] put pl by auto
        then show ?thesis using s' C(1,3) R(1) b1 n1 by (simp add: unaccounted_def)
      next
        case pr: (Inr new)
        note P = put_phase[OF put[unfolded pr] W(1)]
        obtain ro w4 where ex: "executeBatchCursor (counted E) (heap bs1 ! a) bat (StoredSQL (heap bs1 ! a)) w3 = (ro, w4)"
          by (metis surj_pair)
        have n4: "snd w4 = snd w3" using held.cursor_frame[of w3 "snd w3"] ex by blast
        have s': "s' = s\<lparr>batons := bs1\<rparr>" "w' = w4"
          using assms(1) ad Inr y rs r aold put pr ex by (auto simp: handleV3Cursor_def Let_def)
        have nc: "noCollision bs bs1 = noCollision (batons s) bs1"
          using R(2) by (intro noCollision_cong) simp
        have "healthy bs1" if "noCollision (batons s) bs1" "healthy (batons s)"
          using that P(1-3) W(2,3) nc by (simp add: healthy_def)
        then show ?thesis using s' P(1,4) R(1) n1 n4 by (simp add: unaccounted_def)
      qed
    qed
  qed
qed

lemma open_run_close:
  assumes "serverOpenStream (counted E) s w1 = (Inr st0, w2)" and "snd w3 = snd w2"
  shows "snd (snd (streamClose (counted E) (st0\<lparr>Mode := mode\<rparr>) w3)) = snd w1"
proof -
  have o: "openStream (counted E) (gdbHandle (db s)) (gdbGeneration (db s)) w1 = (Inr st0, w2)"
    using assms(1) by (simp add: serverOpenStream_def)
  have "streamOk (st0\<lparr>Mode := mode\<rparr>)" "\<not> closed st0" using openStream_ok[OF o] by (auto simp: streamOk_def)
  moreover obtain st' w4 where c: "streamClose (counted E) (st0\<lparr>Mode := mode\<rparr>) w3 = (st', w4)"
    by (metis surj_pair)
  ultimately have "snd w4 = snd w3 - 1" using counted_streamClose[OF _ c] by simp
  then show ?thesis using counted_open[OF o] c assms(2) by simp
qed

lemma handleV1_keeps:
  assumes "authFrame (config s)"
  shows "handleV1Execute (counted E) D s hdr r w = (resp, w') \<Longrightarrow> snd w' = snd w"
    and "handleV1Batch (counted E) D s hdr r w = (resp', w'') \<Longrightarrow> snd w'' = snd w"
proof -
  assume h: "handleV1Execute (counted E) D s hdr r w = (resp, w')"
  obtain x w1 where ad: "admit (config s) (decodeV1Execute D) r w = (x, w1)" by (metis surj_pair)
  have n1: "snd w1 = snd w" by (rule admit_frame[OF ad assms])
  show "snd w' = snd w"
  proof (cases x)
    case (Inl ce)
    then show ?thesis using h ad n1 by (cases ce) (auto simp: handleV1Execute_def)
  next
    case (Inr y)
    obtain mode c stm where y: "y = (mode, c, stm)" by (metis surj_pair)
    obtain o0 w2 where o: "serverOpenStream (counted E) s w1 = (o0, w2)" by (metis surj_pair)
    show ?thesis
    proof (cases o0)
      case (Inl e)
      then show ?thesis
        using h ad Inr y o n1 counted_open[OF o[unfolded serverOpenStream_def]]
        by (auto simp: handleV1Execute_def)
    next
      case r: (Inr st0)
      obtain q w3 where q: "executeStmt (counted E) (st0\<lparr>Mode := mode\<rparr>) stm (StoredSQL st0) w2 = (q, w3)"
        by (metis surj_pair)
      have "snd w3 = snd w2" using held.stmt_frame[of w2 "snd w2"] q by blast
      from open_run_close[OF o[unfolded r] this, of mode] show ?thesis
        using h ad Inr y o r q n1 by (auto simp: handleV1Execute_def Let_def)
    qed
  qed
next
  assume h: "handleV1Batch (counted E) D s hdr r w = (resp', w'')"
  obtain x w1 where ad: "admit (config s) (decodeV1Batch D) r w = (x, w1)" by (metis surj_pair)
  have n1: "snd w1 = snd w" by (rule admit_frame[OF ad assms])
  show "snd w'' = snd w"
  proof (cases x)
    case (Inl ce)
    then show ?thesis using h ad n1 by (cases ce) (auto simp: handleV1Batch_def)
  next
    case (Inr y)
    obtain mode c bat where y: "y = (mode, c, bat)" by (metis surj_pair)
    obtain o0 w2 where o: "serverOpenStream (counted E) s w1 = (o0, w2)" by (metis surj_pair)
    show ?thesis
    proof (cases o0)
      case (Inl e)
      then show ?thesis
        using h ad Inr y o n1 counted_open[OF o[unfolded serverOpenStream_def]]
        by (auto simp: handleV1Batch_def)
    next
      case r: (Inr st0)
      obtain q w3 where q: "executeBatch (counted E) (st0\<lparr>Mode := mode\<rparr>) bat (StoredSQL st0) w2 = (q, w3)"
        by (metis surj_pair)
      have "snd w3 = snd w2" using held.batch_frame[of w2 "snd w2"] q by blast
      from open_run_close[OF o[unfolded r] this, of mode] show ?thesis
        using h ad Inr y o r q n1 by (auto simp: handleV1Batch_def Let_def)
    qed
  qed
qed

section \<open>All histories of a server\<close>

text \<open>
  The requests a server handles one after the other, between them the sweeps of the baton
  store, new databases, and whatever happens outside: time passes and the database changes,
  but nobody else takes connections from the pool.  \<open>good\<close> restricts how a step may change
  the store.
\<close>

inductive http_step ::
  "'d env \<Rightarrow> body_decoders \<Rightarrow> (baton_store \<Rightarrow> baton_store \<Rightarrow> bool) \<Rightarrow>
    ('d \<times> int) server \<times> 'd \<times> int \<Rightarrow> ('d \<times> int) server \<times> 'd \<times> int \<Rightarrow> bool"
  for E D good where
  pipeline: "handlePipeline (counted E) D s hdr r w = (resp, s', w') \<Longrightarrow> good (batons s) (batons s') \<Longrightarrow>
    http_step E D good (s, w) (s', w')"
| cursor: "handleV3Cursor (counted E) D s hdr r w = (resp, s', w') \<Longrightarrow> good (batons s) (batons s') \<Longrightarrow>
    http_step E D good (s, w) (s', w')"
| v1execute: "handleV1Execute (counted E) D s hdr r w = (resp, w') \<Longrightarrow> http_step E D good (s, w) (s, w')"
| v1batch: "handleV1Batch (counted E) D s hdr r w = (resp, w') \<Longrightarrow> http_step E D good (s, w) (s, w')"
| sweep: "sweep (counted E) (batons s) w = (bs, w') \<Longrightarrow> http_step E D good (s, w) (s\<lparr>batons := bs\<rparr>, w')"
| evolve: "http_step E D good (s, w) (s\<lparr>db := \<lparr>gdbHandle = h, gdbGeneration = gdbGeneration (db s) + 1\<rparr>\<rparr>, w)"
| outside: "http_step E D good (s, w, n) (s, w', n)"

inductive http_reachable ::
  "'d env \<Rightarrow> body_decoders \<Rightarrow> (baton_store \<Rightarrow> baton_store \<Rightarrow> bool) \<Rightarrow> nat \<Rightarrow> ('d \<times> int) config \<Rightarrow>
    ('d \<times> int) server \<times> 'd \<times> int \<Rightarrow> bool"
  for E D good h conf where
  start: "http_reachable E D good h conf (newServer h conf, w, 0)"
| step: "http_reachable E D good h conf x \<Longrightarrow> http_step E D good x y \<Longrightarrow> http_reachable E D good h conf y"

lemma authFrame_new: "authFrame conf \<Longrightarrow> authFrame (config (newServer h conf))"
  by (auto simp: authFrame_def newServer_def Let_def split: option.split)

lemma step_keeps:
  assumes "http_step E D good x y" and "storeInv (batons (fst x))" and "authFrame (config (fst x))"
  shows "storeInv (batons (fst y)) \<and> unaccounted (batons (fst y)) (snd y) = unaccounted (batons (fst x)) (snd x)
      \<and> config (fst y) = config (fst x)"
    and "randTotal E \<Longrightarrow> good = noCollision \<Longrightarrow> healthy (batons (fst x)) \<Longrightarrow> healthy (batons (fst y))"
  using assms
proof (induction rule: http_step.induct)
  case (pipeline s hdr r w resp s' w')
  { case 1 then show ?case using handlePipeline_keeps(1)[OF pipeline(1)] by simp next
    case 2 then show ?case using handlePipeline_keeps(2)[OF pipeline(1)] pipeline(2) by simp }
next
  case (cursor s hdr r w resp s' w')
  { case 1 then show ?case using handleV3Cursor_keeps[OF cursor(1)] by simp next
    case 2 then show ?case using handleV3Cursor_keeps[OF cursor(1)] cursor(2) by simp }
next
  case (v1execute s hdr r w resp w')
  { case 1 then show ?case using handleV1_keeps(1)[OF _ v1execute(1)] by (simp add: unaccounted_def) next
    case 2 then show ?case by simp }
next
  case (v1batch s hdr r w resp w')
  { case 1 then show ?case using handleV1_keeps(2)[OF _ v1batch(1)] by (simp add: unaccounted_def) next
    case 2 then show ?case by simp }
next
  case (sweep s w bs w')
  { case 1 then show ?case using sweep_spec(1,4)[OF sweep(1)] by (simp add: unaccounted_def) next
    case 2 then show ?case using sweep_spec(1-3)[OF sweep(1)] by (simp add: healthy_def) }
next
  case (evolve s w h)
  { case 1 then show ?case by simp next case 2 then show ?case by simp }
next
  case (outside s w n w')
  { case 1 then show ?case by (simp add: unaccounted_def) next case 2 then show ?case by simp }
qed

lemma reachable_keeps:
  assumes "http_reachable E D good h conf x" and "authFrame conf"
  shows "storeInv (batons (fst x)) \<and> unaccounted (batons (fst x)) (snd x) = 0 \<and> authFrame (config (fst x))"
    and "randTotal E \<Longrightarrow> good = noCollision \<Longrightarrow> healthy (batons (fst x))"
  using assms
proof (induction rule: http_reachable.induct)
  case (start w)
  { case 1 then show ?case
      using authFrame_new[of conf h] storeInv_new
      by (simp add: unaccounted_def newServer_def Let_def newBatonStore_def openCount_def) next
    case 2 then show ?case by (simp add: healthy_def newServer_def Let_def storeInv_new) }
next
  case (step x y)
  { case 1 then show ?case using step_keeps(1)[OF step(2)] step.IH(1) by auto next
    case 2 then show ?case using step_keeps(2)[OF step(2)] step.IH by auto }
qed


text \<open>
  No connection leaks: as long as the random source does not fail and no new baton
  happens to be one in use, the connections held between requests are as many as the batons
  in the store, every baton leads to an open stream, and no stream has two batons.
\<close>

theorem no_connection_leak:
  assumes "http_reachable E D noCollision h conf (s, w, n)" and "authFrame conf" and "randTotal E"
  shows "n = int (length (batonEntries (batons s)))
    \<and> (\<forall>b a. findBaton b (batons s) = Some a \<longrightarrow>
        \<not> closed (heap (batons s) ! a) \<and> (\<forall>b'. findBaton b' (batons s) = Some a \<longrightarrow> b' = b))"
proof -
  have H: "healthy (batons s)" using reachable_keeps(2)[OF assms(1,2,3)] by simp
  then have I: "storeInv (batons s)" "live (batons s)" "covered (batons s)"
    by (simp_all only: healthy_def)
  have "n = int (openCount (batons s))" using reachable_keeps(1)[OF assms(1,2)] by (simp add: unaccounted_def)
  then have "n = int (length (batonEntries (batons s)))" using openCount_batons[OF I] by simp
  moreover have "b' = b" if "findBaton b (batons s) = Some a" "findBaton b' (batons s) = Some a" for a b b'
    by (rule storeInvD(3)[OF I(1) that(2,1)])
  ultimately show ?thesis using I(2) unfolding live_def by blast
qed

section \<open>One request\<close>

text \<open>
  C3.  Rotation: a pipeline that names a live baton and succeeds works on that baton's
  stream.  Without a \<open>close\<close> the stream continues, with its connection and mode, under
  the baton of the answer, and the old baton is dead; with a \<open>close\<close> there is no new
  baton, the stream is closed and nothing leads to it any more.  No other client's baton is
  affected.
\<close>

theorem pipeline_rotates_baton:
  assumes "storeInv (batons s)"
    and "admit (config s) (decodePipeline D) r w = (Inr (mode, c, Some tok, reqs), w1)"
    and "tok \<noteq> []" and "findBaton tok (batons s) = Some a"
    and "handlePipeline (counted E) D s hdr r w = (resp, s', w')" and "status resp = 200"
  shows "\<exists>newBaton results. length results = length reqs
    \<and> resp = writeCodec hdr c 200 (PipelineBody newBaton results)
    \<and> (newBaton = None \<longleftrightarrow> (\<exists>req \<in> set reqs. srType req = ''close''))
    \<and> (case newBaton of
        Some t \<Rightarrow> findBaton t (batons s') = Some a \<and> (t \<noteq> tok \<longrightarrow> findBaton tok (batons s') = None)
          \<and> (\<exists>S'. heap (batons s') ! a = (heap (batons s) ! a)\<lparr>StoredSQL := S'\<rparr>)
      | None \<Rightarrow> closed (heap (batons s') ! a) \<and> (\<forall>b. findBaton b (batons s') \<noteq> Some a))
    \<and> (\<forall>b. b \<noteq> tok \<longrightarrow> newBaton \<noteq> Some b \<longrightarrow> findBaton b (batons s') = findBaton b (batons s))"
proof -
  obtain ch tk where tok: "tok = ch # tk" using assms(3) by (cases tok) auto
  let ?g = "getBaton (counted E) tok (batons s) w1"
  have "fst ?g = Some a" using assms(4) by (simp add: getBaton_find)
  then have g: "?g = (Some a, snd ?g)" by (metis prod.collapse)
  have rs: "resolveStream (counted E) s mode (Some tok) w1 = (Inr (a, tok), snd ?g, w1)"
    unfolding resolveStream_def tok option.case list.case by (subst g[unfolded tok]) simp
  note R = resolve_spec[OF rs assms(1)]
  have W: "working a tok (snd ?g)" using R(4) by blast
  obtain results isClosed bs1 w3 where ex:
    "executePipelineRequests (counted E) a reqs False (snd ?g) w1 = ((results, isClosed), bs1, w3)"
    by (metis surj_pair)
  note M = pipeline_mid[OF ex W] and sh = pipeline_shape[OF ex] and fr = pipeline_frame[OF ex]
  obtain ro bs2 w4 where rot: "rotateBaton (counted E) a tok isClosed bs1 w3 = (ro, bs2, w4)"
    by (metis surj_pair)
  note T = rotate_spec[OF rot M(1)]
  have run: "handlePipeline (counted E) D s hdr r w =
      (case ro of Inl e \<Rightarrow> (writeHTTPError hdr 500 e, s\<lparr>batons := bs2\<rparr>, w4)
       | Inr nb \<Rightarrow> (writeCodec hdr c 200 (PipelineBody nb results), s\<lparr>batons := bs2\<rparr>, w4))"
    using assms(2) rs ex rot by (simp add: handlePipeline_def split: sum.split)
  then obtain nb where ro: "ro = Inr nb"
    using assms(5,6) by (cases ro) (auto simp: writeHTTPError_def)
  have out: "resp = writeCodec hdr c 200 (PipelineBody nb results)" "batons s' = bs2"
    using run ro assms(5) by auto
  have f1: "findBaton b bs1 = findBaton b (batons s)" for b using M(5) R(2) by simp
  have h: "\<exists>S'. heap bs1 ! a = (heap (batons s) ! a)\<lparr>StoredSQL := S'\<rparr>"
    using fr W by (simp add: sameBut_def working_def)
  have close: "isClosed \<longleftrightarrow> (\<exists>req \<in> set reqs. srType req = ''close'')"
    using sh by (simp add: isClose_def)
  have len: "length results = length reqs" using sh by blast
  show ?thesis
  proof (cases nb)
    case None
    note N = T(4)[OF ro[unfolded None]]
    show ?thesis
      using out len close None N f1 assms(3) by (intro exI[of _ nb] exI[of _ results]) auto
  next
    case (Some t)
    note N = T(3)[OF ro[unfolded Some]]
    show ?thesis
      using out len close Some N f1 assms(3) h by (intro exI[of _ nb] exI[of _ results]) auto
  qed
qed

text \<open>
  A baton that is not in the store, because it never was, was used up or has expired,
  is refused with status 400; the store stays as it was and the database is not touched.
\<close>

theorem unknown_baton_refused:
  assumes "admit (config s) (decodePipeline D) r w = (Inr (mode, c, Some tok, reqs), w1)"
    and "tok \<noteq> []" and "findBaton tok (batons s) = None"
  shows "handlePipeline E D s hdr r w = (writeHTTPError hdr 400 BatonNotFound, s, w1)"
proof -
  obtain ch tk where tok: "tok = ch # tk" using assms(2) by (cases tok) auto
  have m: "map_of (batonEntries (batons s)) tok = None" using assms(3) by (simp add: findBaton_def)
  then have "getBaton E tok (batons s) w1 = (None, batons s)" by (simp add: getBaton_def)
  then have "resolveStream E s mode (Some tok) w1 = (Inl (400, BatonNotFound), batons s, w1)"
    by (simp add: resolveStream_def tok)
  then show ?thesis using assms(1) by (simp add: handlePipeline_def)
qed

lemma either: "Q a \<Longrightarrow> Q b \<Longrightarrow> Q (if c then a else b)"
  by simp

lemma admit_rejected:
  assumes "AuthFunc conf = Some f" and "f (bearerToken r) w = (Inl e, w')"
  shows "admit conf dec r w = (Inl (401, AuthError e), w')"
  using assms by (simp add: admit_def checkAuth_def)


lemma marshal_float:
  "builtValue v \<Longrightarrow> encodesVal JSONCodec v \<longleftrightarrow> \<not> (vtyp v = ''float'' \<and> \<not> f64Finite (Float v))"
  by (erule builtValue_cases) (auto simp: encodesVal_def marshalValue_def value_defs)

lemma marshal_msgpack: "builtValue v \<Longrightarrow> encodesVal MsgpackCodec v"
  by (erule builtValue_cases) (auto simp: encodesVal_def marshalMsgpack_def value_defs)

text \<open>
  What arrives of a successful answer: over MessagePack all of it; over JSON all of
  it, unless a column holds an infinity or a NaN.  Then the encoding error is dropped and
  the client gets the success status with an empty body: the results are lost, and of a
  pipeline the baton of its still open stream as well.
\<close>

theorem response_body:
  assumes "\<forall>v \<in> set (bodyValues x). builtValue v"
  shows "status (writeCodec hdr cd code x) = code
    \<and> body (writeCodec hdr MsgpackCodec code x) = x
    \<and> body (writeCodec hdr JSONCodec code x) =
      (if \<exists>v \<in> set (bodyValues x). vtyp v = ''float'' \<and> \<not> f64Finite (Float v) then NoBody else x)"
proof -
  have "list_all (encodesVal MsgpackCodec) (bodyValues x)"
    using assms marshal_msgpack by (simp add: list_all_iff)
  moreover have "list_all (encodesVal JSONCodec) (bodyValues x) \<longleftrightarrow>
      \<not> (\<exists>v \<in> set (bodyValues x). vtyp v = ''float'' \<and> \<not> f64Finite (Float v))"
    using assms marshal_float by (auto simp: list_all_iff)
  ultimately show ?thesis by (auto simp: writeCodec_def)
qed

section \<open>A concrete server\<close>

definition demoConfig :: "(unit \<times> int) config" where
  "demoConfig =
    \<lparr>AuthFunc = Some (\<lambda>token w. (if token = ''secret'' then Inr None else Inl ''no'', w)),
     BatonTTL = 0, Versions = [], AllowOrigins = [], BlacklistConf = testCfg\<lparr>Enabled := False\<rparr>\<rparr>"

definition demoDecoders :: "string option \<Rightarrow> stream_request list \<Rightarrow> body_decoders" where
  "demoDecoders baton reqs =
    \<lparr>decodeV1Execute = \<lambda>_ _. Inr (execOnly ''a''), decodeV1Batch = \<lambda>_ _. Inr [],
     decodePipeline = \<lambda>_ _. Inr (baton, reqs), decodeCursor = \<lambda>_ _. Inr (baton, [])\<rparr>"

definition demoRequest :: "string \<Rightarrow> http_request" where
  "demoRequest token =
    \<lparr>rqMethod = ''POST'', rqPath = ''/v2/pipeline'',
     rqHeader = (\<lambda>h. if h = ''Content-Type'' then ''application/json; charset=utf-8''
       else if h = ''Authorization'' then ''Bearer '' @ token else []),
     rqQuery = (\<lambda>k. []), rqBody = [], rqRemoteAddr = ''10.0.0.1:80''\<rparr>"

abbreviation demoEnv :: "(unit \<times> int) env" where
  "demoEnv \<equiv> counted (pickyEnv '''')"

definition demoServer :: "(unit \<times> int) server" where
  "demoServer = newServer 0 demoConfig"

definition demoRun :: "http_response \<times> (unit \<times> int) server \<times> unit \<times> int" where
  "demoRun = handlePipeline demoEnv (demoDecoders None [execRequest ''a'']) demoServer [] (demoRequest ''secret'') ((), 0)"

definition demoBaton :: string where
  "demoBaton = hexEncode (replicate 32 7)"

lemma demo_authFrame: "authFrame demoConfig"
  by (simp add: authFrame_def demoConfig_def)

lemma demo_randTotal: "randTotal (pickyEnv x)"
  by (simp add: randTotal_def pickyEnv_def)

lemma demo_reachable:
  "http_reachable (pickyEnv '''') (demoDecoders None [execRequest ''a'']) noCollision 0 demoConfig
    (fst (snd demoRun), (), 1)"
proof -
  have n: "snd (snd demoRun) = ((), 1)" by code_simp
  have "http_step (pickyEnv '''') (demoDecoders None [execRequest ''a'']) noCollision
      (newServer 0 demoConfig, (), 0) (fst (snd demoRun), (), 1)"
  proof (rule http_step.pipeline)
    show "handlePipeline demoEnv (demoDecoders None [execRequest ''a'']) (newServer 0 demoConfig) []
        (demoRequest ''secret'') ((), 0) = (fst demoRun, fst (snd demoRun), (), 1)"
      using n unfolding demoRun_def demoServer_def by (metis prod.collapse)
    show "noCollision (batons (newServer 0 demoConfig)) (batons (fst (snd demoRun)))"
      by (simp add: noCollision_def newServer_def Let_def newBatonStore_def findBaton_def)
  qed
  with http_reachable.start show ?thesis by (rule http_reachable.step)
qed


theorem no_connection_leak_witness: "(1 :: int) = int (length (batonEntries (batons (fst (snd demoRun)))))"
  using no_connection_leak[OF demo_reachable demo_authFrame demo_randTotal] by blast

lemma demo_baton: "findBaton demoBaton (batons (fst (snd demoRun))) = Some 0"
  by code_simp

lemma demo_inv: "storeInv (batons (fst (snd demoRun)))"
  using reachable_keeps(1)[OF demo_reachable demo_authFrame] by simp

lemma demo_config: "config (fst (snd demoRun)) = config demoServer"
proof -
  obtain resp s' w' where run: "demoRun = (resp, s', w')" by (metis surj_pair)
  have "storeInv (batons demoServer)" "authFrame (config demoServer)"
    using storeInv_new(1) authFrame_new[OF demo_authFrame]
    by (simp_all add: demoServer_def) (simp add: newServer_def Let_def)
  then have "config s' = config demoServer"
    using handlePipeline_keeps(1)[OF run[unfolded demoRun_def]] by blast
  then show ?thesis by (simp add: run)
qed

lemma demo_admit:
  "admit (config (fst (snd demoRun))) (decodePipeline (demoDecoders b reqs)) (demoRequest ''secret'') ((), 1)
    = (Inr (ModeReadWrite, JSONCodec, b, reqs), ((), 1))"
proof -
  have a: "checkAuth (config demoServer) (demoRequest ''secret'') ((), 1) = (None, ((), 1))" by code_simp
  have k: "selectCodecFromRequest (demoRequest ''secret'') = Inr JSONCodec" by code_simp
  have q: "rqQuery (demoRequest ''secret'') ''mode'' = []" by (simp add: demoRequest_def)
  show ?thesis unfolding admit_def demo_config a k q by (simp add: parseMode_def demoDecoders_def)
qed

theorem pipeline_rotates_baton_witness:
  "\<exists>resp s' w'. handlePipeline demoEnv (demoDecoders (Some demoBaton) [closeRequest]) (fst (snd demoRun)) []
      (demoRequest ''secret'') ((), 1) = (resp, s', w') \<and> closed (heap (batons s') ! 0)
    \<and> resp = writeCodec [] JSONCodec 200 (PipelineBody None [StreamOk RespClose])"
proof -
  let ?run = "handlePipeline demoEnv (demoDecoders (Some demoBaton) [closeRequest]) (fst (snd demoRun)) []
      (demoRequest ''secret'') ((), 1)"
  obtain resp s' w' where run: "?run = (resp, s', w')" by (metis surj_pair)
  have "fst ?run = writeCodec [] JSONCodec 200 (PipelineBody None [StreamOk RespClose])" by code_simp
  then have resp: "resp = writeCodec [] JSONCodec 200 (PipelineBody None [StreamOk RespClose])" using run by simp
  then have st: "status resp = 200" by (simp add: writeCodec_def)
  have ne: "demoBaton \<noteq> []" by code_simp
  have "closed (heap (batons s') ! 0)"
    using pipeline_rotates_baton[OF demo_inv demo_admit ne demo_baton run st] by auto
  with resp run show ?thesis by blast
qed

theorem unknown_baton_refused_witness:
  "handlePipeline demoEnv (demoDecoders (Some ''ff'') []) (fst (snd demoRun)) [] (demoRequest ''secret'') ((), 1)
    = (writeHTTPError [] 400 BatonNotFound, fst (snd demoRun), ((), 1))"
proof -
  have "findBaton ''ff'' (batons (fst (snd demoRun))) = None" by code_simp
  from unknown_baton_refused[OF demo_admit _ this] show ?thesis by simp
qed


theorem response_body_witness:
  "body (writeCodec [] JSONCodec 200 (V1ExecuteBody (emptyResult\<lparr>Rows := [[FloatValue 0x7FF0000000000000]]\<rparr>))) = NoBody"
proof -
  let ?x = "V1ExecuteBody (emptyResult\<lparr>Rows := [[FloatValue 0x7FF0000000000000]]\<rparr>)"
  have "\<forall>v \<in> set (bodyValues ?x). builtValue v" by (simp add: resultValues_def value_defs)
  moreover have "\<not> f64Finite 0x7FF0000000000000" by code_simp
  ultimately show ?thesis using response_body[of ?x] by (simp add: resultValues_def value_defs)
qed

end
