(* ===== verification/Sessions.thy ===== *)
theory Sessions
  imports HttpProps
begin

text \<open>
  WebSocket sessions: \<open>Session\<close> of \<open>src/stream.go\<close>, the request and response payloads of
  \<open>src/types.go\<close>, and the request handlers of \<open>src/websocket.go\<close> with their
  dispatcher.  The streams of a session are values under their ids; a Go pointer to a
  stream is only kept while a request runs, so an update through the pointer is an update
  of the entry.
\<close>

section \<open>Sessions\<close>

record session =
  sessStreams :: "(i32 \<times> stream) list"
  sessSQL :: sql_map
  sessMode :: conn_mode

definition newSession :: "conn_mode \<Rightarrow> session" where
  "newSession mode = \<lparr>sessStreams = [], sessSQL = [], sessMode = mode\<rparr>"

definition getStream :: "session \<Rightarrow> i32 \<Rightarrow> stream option" where
  "getStream sess key = map_of (sessStreams sess) key"

definition setEntry :: "session \<Rightarrow> i32 \<Rightarrow> stream \<Rightarrow> session" where
  "setEntry sess key st = sess\<lparr>sessStreams := AList.update key st (sessStreams sess)\<rparr>"

definition addStream :: "session \<Rightarrow> i32 \<Rightarrow> stream \<Rightarrow> session" where
  "addStream sess key st = setEntry sess key (st\<lparr>streamId := key\<rparr>)"

text \<open>The loop of \<open>AddStreamAssinged\<close> may draw for ever; then it has no result.\<close>

partial_function (option) drawId ::
  "'d env \<Rightarrow> (i32 \<times> stream) list \<Rightarrow> 'd \<Rightarrow> ((error + i32) \<times> 'd) option" where
  "drawId E m w =
    (case randomInt32 E w of
       (Inl e, w') \<Rightarrow> Some (Inl e, w')
     | (Inr key, w') \<Rightarrow> (if map_of m key = None then Some (Inr key, w') else drawId E m w'))"

definition AddStreamAssinged ::
  "'d env \<Rightarrow> session \<Rightarrow> stream \<Rightarrow> 'd \<Rightarrow> (i32 option \<times> session \<times> 'd) option" where
  "AddStreamAssinged E sess st w =
    (case drawId E (sessStreams sess) w of
       None \<Rightarrow> None
     | Some (Inl e, w') \<Rightarrow> Some (None, sess, w')
     | Some (Inr key, w') \<Rightarrow> Some (Some key, addStream sess key st, w'))"

definition removeStream :: "'d env \<Rightarrow> session \<Rightarrow> i32 \<Rightarrow> 'd \<Rightarrow> session \<times> 'd" where
  "removeStream E sess key w =
    (case getStream sess key of
       None \<Rightarrow> (sess, w)
     | Some st \<Rightarrow> (sess\<lparr>sessStreams := AList.delete key (sessStreams sess)\<rparr>, snd (streamClose E st w)))"

fun closeStreams :: "'d env \<Rightarrow> (i32 \<times> stream) list \<Rightarrow> 'd \<Rightarrow> 'd" where
  "closeStreams E [] w = w"
| "closeStreams E ((key, st) # m) w = closeStreams E m (snd (streamClose E st w))"

definition closeAll :: "'d env \<Rightarrow> session \<Rightarrow> 'd \<Rightarrow> session \<times> 'd" where
  "closeAll E sess w = (sess\<lparr>sessStreams := []\<rparr>, closeStreams E (sessStreams sess) w)"

section \<open>Requests and responses\<close>

datatype ws_response =
    OpenStreamResp
  | OpenStreamAssignedResp i32
  | CloseStreamResp
  | ExecuteResp stmt_result
  | BatchResp batch_result
  | StoreSqlResp
  | CloseSqlResp
  | SequenceResp
  | DescribeResp describe_result
  | GetAutocommitResp bool
  | OpenCursorResp
  | CloseCursorResp
  | FetchCursorResp "cursor_entry list" bool

fun wsRespType :: "ws_response \<Rightarrow> string" where
  "wsRespType OpenStreamResp = ''open_stream''"
| "wsRespType (OpenStreamAssignedResp key) = ''open_stream_assigned''"
| "wsRespType CloseStreamResp = ''close_stream''"
| "wsRespType (ExecuteResp r) = ''execute''"
| "wsRespType (BatchResp r) = ''batch''"
| "wsRespType StoreSqlResp = ''store_sql''"
| "wsRespType CloseSqlResp = ''close_sql''"
| "wsRespType SequenceResp = ''sequence''"
| "wsRespType (DescribeResp r) = ''describe''"
| "wsRespType (GetAutocommitResp b) = ''get_autocommit''"
| "wsRespType OpenCursorResp = ''open_cursor''"
| "wsRespType CloseCursorResp = ''close_cursor''"
| "wsRespType (FetchCursorResp es b) = ''fetch_cursor''"

text \<open>
  Decoding a payload into the struct of its type is the work of the codec libraries: the
  fields of the struct, in their order.
\<close>

record ws_decoders =
  wsType :: "codec \<Rightarrow> bytes \<Rightarrow> error + string"
  decOpenStream :: "codec \<Rightarrow> bytes \<Rightarrow> error + i32"
  decOpenStreamAssigned :: "codec \<Rightarrow> bytes \<Rightarrow> error + unit"
  decCloseStream :: "codec \<Rightarrow> bytes \<Rightarrow> error + i32"
  decWsExecute :: "codec \<Rightarrow> bytes \<Rightarrow> error + (i32 \<times> stmt)"
  decWsBatch :: "codec \<Rightarrow> bytes \<Rightarrow> error + (i32 \<times> batch)"
  decWsStoreSql :: "codec \<Rightarrow> bytes \<Rightarrow> error + (i32 \<times> string)"
  decWsCloseSql :: "codec \<Rightarrow> bytes \<Rightarrow> error + i32"
  decSqlUse :: "codec \<Rightarrow> bytes \<Rightarrow> error + (i32 \<times> string option \<times> i32 option)"
  decGetAutocommit :: "codec \<Rightarrow> bytes \<Rightarrow> error + i32"
  decOpenCursor :: "codec \<Rightarrow> bytes \<Rightarrow> error + (i32 \<times> i32 \<times> batch)"
  decCloseCursor :: "codec \<Rightarrow> bytes \<Rightarrow> error + i32"
  decFetchCursor :: "codec \<Rightarrow> bytes \<Rightarrow> error + (i32 \<times> u32)"

section \<open>Handlers\<close>

type_synonym 'd handled = "(error + ws_response) \<times> session \<times> 'd"

text \<open>
  The guard of every handler that works on a stream: an unknown id is refused, and a stream
  of an older database is removed and refused with an error of its own.
\<close>

definition withStream ::
  "'d env \<Rightarrow> session \<Rightarrow> i32 \<Rightarrow> 'd \<Rightarrow> (stream \<Rightarrow> 'd handled) \<Rightarrow> 'd handled" where
  "withStream E sess key w act =
    (case getStream sess key of
       None \<Rightarrow> (Inl (StreamNotFound key), sess, w)
     | Some st \<Rightarrow>
         (if IsSuperseded st then
            (case removeStream E sess key w of (sess', w') \<Rightarrow> (Inl StreamIsSuperseded, sess', w'))
          else act st))"

text \<open>Opening in two critical sections: the id is looked up first, the stream added later.\<close>

definition wsOpenStreamAdd :: "'d env \<Rightarrow> 'd server \<Rightarrow> session \<Rightarrow> i32 \<Rightarrow> 'd \<Rightarrow> 'd handled" where
  "wsOpenStreamAdd E s sess key w =
    (case serverOpenStream E s w of
       (Inl e, w') \<Rightarrow> (Inl e, sess, w')
     | (Inr st, w') \<Rightarrow> (Inr OpenStreamResp, addStream sess key (st\<lparr>Mode := sessMode sess\<rparr>), w'))"

definition wsOpenStream :: "'d env \<Rightarrow> 'd server \<Rightarrow> session \<Rightarrow> i32 \<Rightarrow> 'd \<Rightarrow> 'd handled" where
  "wsOpenStream E s sess key w =
    (case getStream sess key of
       Some st \<Rightarrow> (Inl (StreamAlreadyOpen key), sess, w)
     | None \<Rightarrow> wsOpenStreamAdd E s sess key w)"

definition wsOpenStreamAssigned ::
  "'d env \<Rightarrow> 'd server \<Rightarrow> session \<Rightarrow> 'd \<Rightarrow> 'd handled option" where
  "wsOpenStreamAssigned E s sess w =
    (case serverOpenStream E s w of
       (Inl e, w') \<Rightarrow> Some (Inl e, sess, w')
     | (Inr st, w') \<Rightarrow>
         (case AddStreamAssinged E sess (st\<lparr>Mode := sessMode sess\<rparr>) w' of
            None \<Rightarrow> None
          | Some (None, sess', w'') \<Rightarrow> Some (Inl StoreStreamFailed, sess', w'')
          | Some (Some key, sess', w'') \<Rightarrow> Some (Inr (OpenStreamAssignedResp key), sess', w'')))"

definition wsCloseStream :: "'d env \<Rightarrow> session \<Rightarrow> i32 \<Rightarrow> 'd \<Rightarrow> 'd handled" where
  "wsCloseStream E sess key w =
    (case removeStream E sess key w of (sess', w') \<Rightarrow> (Inr CloseStreamResp, sess', w'))"

definition wsExecute :: "'d env \<Rightarrow> session \<Rightarrow> i32 \<times> stmt \<Rightarrow> 'd \<Rightarrow> 'd handled" where
  "wsExecute E sess req w = (case req of (key, s) \<Rightarrow>
    withStream E sess key w (\<lambda>st.
      (case executeStmt E st s (sessSQL sess) w of
         (Inl e, w') \<Rightarrow> (Inl e, sess, w')
       | (Inr r, w') \<Rightarrow> (Inr (ExecuteResp r), sess, w'))))"

definition wsBatch :: "'d env \<Rightarrow> session \<Rightarrow> i32 \<times> batch \<Rightarrow> 'd \<Rightarrow> 'd handled" where
  "wsBatch E sess req w = (case req of (key, b) \<Rightarrow>
    withStream E sess key w (\<lambda>st.
      (case executeBatch E st b (sessSQL sess) w of
         (Inl e, w') \<Rightarrow> (Inl e, sess, w')
       | (Inr r, w') \<Rightarrow> (Inr (BatchResp r), sess, w'))))"

definition wsStoreSQL :: "session \<Rightarrow> i32 \<times> string \<Rightarrow> 'd \<Rightarrow> 'd handled" where
  "wsStoreSQL sess req w =
    (case storeSQL (fst req) (snd req) (sessSQL sess) of
       Inl e \<Rightarrow> (Inl e, sess, w)
     | Inr m \<Rightarrow> (Inr StoreSqlResp, sess\<lparr>sessSQL := m\<rparr>, w))"

definition wsSequence ::
  "'d env \<Rightarrow> session \<Rightarrow> i32 \<times> string option \<times> i32 option \<Rightarrow> 'd \<Rightarrow> 'd handled" where
  "wsSequence E sess req w = (case req of (key, sql, sqlId) \<Rightarrow>
    withStream E sess key w (\<lambda>st.
      (case resolveSQL sql sqlId (sessSQL sess) of
         Inl e \<Rightarrow> (Inl e, sess, w)
       | Inr sqlText \<Rightarrow>
           (case executeSequence E st sqlText w of
              (Inl e, w') \<Rightarrow> (Inl e, sess, w')
            | (Inr _, w') \<Rightarrow> (Inr SequenceResp, sess, w')))))"

definition wsDescribe ::
  "'d env \<Rightarrow> session \<Rightarrow> i32 \<times> string option \<times> i32 option \<Rightarrow> 'd \<Rightarrow> 'd handled" where
  "wsDescribe E sess req w = (case req of (key, sql, sqlId) \<Rightarrow>
    withStream E sess key w (\<lambda>st.
      (case resolveSQL sql sqlId (sessSQL sess) of
         Inl e \<Rightarrow> (Inl e, sess, w)
       | Inr sqlText \<Rightarrow>
           (case describeStmt E st sqlText w of
              (Inl e, w') \<Rightarrow> (Inl e, sess, w')
            | (Inr r, w') \<Rightarrow> (Inr (DescribeResp r), sess, w')))))"

definition wsGetAutocommit :: "'d env \<Rightarrow> session \<Rightarrow> i32 \<Rightarrow> 'd \<Rightarrow> 'd handled" where
  "wsGetAutocommit E sess key w =
    withStream E sess key w (\<lambda>st. (Inr (GetAutocommitResp True), sess, w))"

definition wsOpenCursor :: "'d env \<Rightarrow> session \<Rightarrow> i32 \<times> i32 \<times> batch \<Rightarrow> 'd \<Rightarrow> 'd handled" where
  "wsOpenCursor E sess req w = (case req of (key, cursorKey, b) \<Rightarrow>
    withStream E sess key w (\<lambda>st.
      (case executeBatchCursor E st b (sessSQL sess) w of
         (Inl e, w') \<Rightarrow> (Inl e, sess, w')
       | (Inr es, w') \<Rightarrow>
           (Inr OpenCursorResp,
            setEntry sess key
              (st\<lparr>Cursors := AList.update cursorKey (newCursor cursorKey es) (Cursors st)\<rparr>), w'))))"

definition wsCloseCursor :: "session \<Rightarrow> i32 \<Rightarrow> 'd \<Rightarrow> 'd handled" where
  "wsCloseCursor sess cursorKey w =
    (Inr CloseCursorResp,
     sess\<lparr>sessStreams := map (\<lambda>(key, st). (key, st\<lparr>Cursors := AList.delete cursorKey (Cursors st)\<rparr>))
       (sessStreams sess)\<rparr>, w)"

text \<open>
  \<open>wsFetchCursor\<close> ranges over the streams, in an order Go does not specify, and takes the
  first that has the cursor; the model takes the order of the list.
\<close>

definition wsFetchCursor :: "session \<Rightarrow> i32 \<times> u32 \<Rightarrow> 'd \<Rightarrow> 'd handled" where
  "wsFetchCursor sess req w = (case req of (cursorKey, maxCount) \<Rightarrow>
    (case find (\<lambda>(key, st). map_of (Cursors st) cursorKey \<noteq> None) (sessStreams sess) of
       None \<Rightarrow> (Inl (CursorNotFound cursorKey), sess, w)
     | Some (key, st) \<Rightarrow>
         (case fetch (the (map_of (Cursors st) cursorKey)) maxCount of
            ((es, fin), c) \<Rightarrow>
              (Inr (FetchCursorResp es fin),
               setEntry sess key (st\<lparr>Cursors := AList.update cursorKey c (Cursors st)\<rparr>), w))))"

section \<open>Dispatch\<close>

definition decoded ::
  "session \<Rightarrow> 'd \<Rightarrow> error + 'a \<Rightarrow> ('a \<Rightarrow> 'd handled option) \<Rightarrow> 'd handled option" where
  "decoded sess w r act = (case r of Inl e \<Rightarrow> Some (Inl e, sess, w) | Inr x \<Rightarrow> act x)"

definition dispatchWSRequest ::
  "'d env \<Rightarrow> ws_decoders \<Rightarrow> 'd server \<Rightarrow> bytes \<Rightarrow> codec \<Rightarrow> string \<Rightarrow> session \<Rightarrow> 'd \<Rightarrow> 'd handled option" where
  "dispatchWSRequest E D s raw c proto sess w =
    (case wsType D c raw of
       Inl e \<Rightarrow> Some (Inl InvalidRequestPayload, sess, w)
     | Inr ty \<Rightarrow>
         (if ty = ''open_stream'' then
            decoded sess w (decOpenStream D c raw) (\<lambda>req. Some (wsOpenStream E s sess req w))
          else if ty = ''open_stream_assigned'' then
            decoded sess w (decOpenStreamAssigned D c raw) (\<lambda>req. wsOpenStreamAssigned E s sess w)
          else if ty = ''close_stream'' then
            decoded sess w (decCloseStream D c raw) (\<lambda>req. Some (wsCloseStream E sess req w))
          else if ty = ''execute'' then
            decoded sess w (decWsExecute D c raw) (\<lambda>req. Some (wsExecute E sess req w))
          else if ty = ''batch'' then
            decoded sess w (decWsBatch D c raw) (\<lambda>req. Some (wsBatch E sess req w))
          else if ty = ''store_sql'' then
            decoded sess w (decWsStoreSql D c raw) (\<lambda>req. Some (wsStoreSQL sess req w))
          else if ty = ''close_sql'' then
            decoded sess w (decWsCloseSql D c raw)
              (\<lambda>req. Some (Inr CloseSqlResp, sess\<lparr>sessSQL := closeSQL req (sessSQL sess)\<rparr>, w))
          else if ty = ''sequence'' then
            decoded sess w (decSqlUse D c raw) (\<lambda>req. Some (wsSequence E sess req w))
          else if ty = ''describe'' then
            decoded sess w (decSqlUse D c raw) (\<lambda>req. Some (wsDescribe E sess req w))
          else if ty = ''get_autocommit'' then
            decoded sess w (decGetAutocommit D c raw) (\<lambda>req. Some (wsGetAutocommit E sess req w))
          else if ty = ''open_cursor'' then
            (if proto \<noteq> ''hrana3'' \<and> proto \<noteq> ''hrana3-bin'' then Some (Inl CursorRequiresV3, sess, w)
             else decoded sess w (decOpenCursor D c raw) (\<lambda>req. Some (wsOpenCursor E sess req w)))
          else if ty = ''close_cursor'' then
            decoded sess w (decCloseCursor D c raw) (\<lambda>req. Some (wsCloseCursor sess req w))
          else if ty = ''fetch_cursor'' then
            decoded sess w (decFetchCursor D c raw) (\<lambda>req. Some (wsFetchCursor sess req w))
          else Some (Inl (UnknownRequest ty), sess, w)))"

end
