(* ===== verification/Interleave.thy ===== *)
theory Interleave
  imports HttpProps
begin

text \<open>
  Pipelines that run at the same time.  \<open>net/http\<close> runs every request in its own
  goroutine; the store and the streams have mutexes, so a pipeline is a sequence of atomic
  steps: find or open the stream, run one request after the other, rotate the baton.  The
  steps of different pipelines, and the sweeps of the store, interleave in any order.
\<close>

section \<open>Configurations\<close>

text \<open>A pipeline under way: its stream, the baton it came with, the requests left.\<close>

record flight =
  flStream :: nat
  flOld :: string
  flTodo :: "stream_request list"
  flDone :: "stream_result list"
  flClosed :: bool

text \<open>The steps, on the store, the environment and the pipelines under way.\<close>

type_synonym 'd world = "('d \<times> int) server \<times> flight list \<times> 'd \<times> int"

inductive conc_step :: "'d env \<Rightarrow> 'd world \<Rightarrow> 'd world \<Rightarrow> bool" for E where
  admitted: "resolveStream (counted E) s mode baton w = (Inr (a, old), bs, w') \<Longrightarrow>
    conc_step E (s, fs, w) (s\<lparr>batons := bs\<rparr>,
      fs @ [\<lparr>flStream = a, flOld = old, flTodo = reqs, flDone = [], flClosed = False\<rparr>], w')"
| refused: "resolveStream (counted E) s mode baton w = (Inl e, bs, w') \<Longrightarrow>
    conc_step E (s, fs, w) (s\<lparr>batons := bs\<rparr>, fs, w')"
| work: "i < length fs \<Longrightarrow> fs ! i = f \<Longrightarrow> flTodo f = req # reqs \<Longrightarrow>
    executePipelineRequests (counted E) (flStream f) [req] (flClosed f) (batons s) w = ((rs, c), bs, w') \<Longrightarrow>
    conc_step E (s, fs, w) (s\<lparr>batons := bs\<rparr>,
      fs[i := f\<lparr>flTodo := reqs, flDone := flDone f @ rs, flClosed := c\<rparr>], w')"
| finish: "i < length fs \<Longrightarrow> fs ! i = f \<Longrightarrow> flTodo f = [] \<Longrightarrow>
    rotateBaton (counted E) (flStream f) (flOld f) (flClosed f) (batons s) w = (res, bs, w') \<Longrightarrow>
    conc_step E (s, fs, w) (s\<lparr>batons := bs\<rparr>, take i fs @ drop (Suc i) fs, w')"
| sweep: "sweep (counted E) (batons s) w = (bs, w') \<Longrightarrow> conc_step E (s, fs, w) (s\<lparr>batons := bs\<rparr>, fs, w')"
| outside: "conc_step E (s, fs, w, n) (s, fs, w', n)"

inductive conc_reachable :: "'d env \<Rightarrow> nat \<Rightarrow> ('d \<times> int) config \<Rightarrow> 'd world \<Rightarrow> bool" for E h conf where
  start: "conc_reachable E h conf (newServer h conf, [], w, 0)"
| step: "conc_reachable E h conf x \<Longrightarrow> conc_step E x y \<Longrightarrow> conc_reachable E h conf y"

inductive_cases conc_stepE: "conc_step E x y"

section \<open>What no interleaving breaks\<close>

text \<open>The part of the invariant that does not need one request at a time.\<close>

definition validStore :: "baton_store \<Rightarrow> bool" where
  "validStore bs \<longleftrightarrow>
    wf_map (batonEntries bs) \<and> (\<forall>(b, e) \<in> set (batonEntries bs). bStream e < length (heap bs)) \<and>
    (\<forall>a < length (heap bs). streamOk (heap bs ! a))"

definition validWorld :: "'d world \<Rightarrow> bool" where
  "validWorld x \<longleftrightarrow> (case x of (s, fs, w) \<Rightarrow>
    validStore (batons s) \<and> (\<forall>f \<in> set fs. flStream f < length (heap (batons s))) \<and>
    unaccounted (batons s) w = 0)"

lemma update_entries_subset:
  "set (AList.update k v m) \<subseteq> insert (k, v) (set m)"
  by (induction m) auto

lemma delete_entries_subset: "set (AList.delete k m) \<subseteq> set m"
  by (auto simp: AList.delete_eq)

lemma valid_put:
  assumes "putStep a old new bs bs'" and "validStore bs" and "a < length (heap bs)"
  shows "validStore bs' \<and> heap bs' = heap bs"
proof -
  obtain now where bs': "bs' = bs\<lparr>batonEntries := AList.update new \<lparr>bStream = a, lastSeen = now\<rparr>
      (if old \<noteq> [] then AList.delete old (batonEntries bs) else batonEntries bs)\<rparr>"
    using assms(1) by (auto simp: putStep_def)
  have sub: "set (batonEntries bs') \<subseteq> insert (new, \<lparr>bStream = a, lastSeen = now\<rparr>) (set (batonEntries bs))"
    using update_entries_subset[of new "\<lparr>bStream = a, lastSeen = now\<rparr>"
        "if old \<noteq> [] then AList.delete old (batonEntries bs) else batonEntries bs"]
      delete_entries_subset[of old "batonEntries bs"]
    by (auto simp: bs' split: if_splits)
  have "wf_map (batonEntries bs')" using assms(2) by (simp add: bs' validStore_def)
  moreover have "\<forall>(b, e) \<in> set (batonEntries bs'). bStream e < length (heap bs')"
    using sub assms(2,3) by (fastforce simp: bs' validStore_def)
  ultimately show ?thesis using assms(2) by (simp add: bs' validStore_def)
qed

lemma valid_close:
  assumes "closeAt (counted E) a bs w = (bs', w')" and "validStore bs" and "a < length (heap bs)"
  shows "validStore bs' \<and> length (heap bs') = length (heap bs) \<and> unaccounted bs' w' = unaccounted bs w"
proof -
  have ok: "streamOk (heap bs ! c)" if "c < length (heap bs)" for c
    using assms(2) that by (simp add: validStore_def)
  note C = closeAt_spec[OF assms(1,3) ok[OF assms(3)]]
  have "streamOk (heap bs' ! c)" if "c < length (heap bs)" for c
    using C ok[OF that] by (cases "c = a") auto
  then show ?thesis using C assms(2) by (simp add: validStore_def unaccounted_def)
qed

lemma valid_resolve:
  assumes "resolveStream (counted E) s mode baton w = (res, bs, w')" and "validStore (batons s)"
  shows "validStore bs \<and> length (heap (batons s)) \<le> length (heap bs)
    \<and> unaccounted bs w' = unaccounted (batons s) w
    \<and> (\<forall>a old. res = Inr (a, old) \<longrightarrow> a < length (heap bs))"
proof (cases "\<exists>c cs. baton = Some (c # cs)")
  case True
  then obtain c cs where b: "baton = Some (c # cs)" by blast
  show ?thesis
  proof (cases "map_of (batonEntries (batons s)) (c # cs)")
    case None
    with assms b show ?thesis by (auto simp: resolveStream_def getBaton_def)
  next
    case (Some e)
    let ?e = "e\<lparr>lastSeen := clock (counted E) w\<rparr>"
    have bs: "bs = (batons s)\<lparr>batonEntries := AList.update (c # cs) ?e (batonEntries (batons s))\<rparr>"
      "w' = w" "res = Inr (bStream e, c # cs)"
      using assms(1) b Some by (auto simp: resolveStream_def getBaton_def)
    have a: "bStream e < length (heap (batons s))"
      using Some assms(2) by (auto simp: validStore_def dest: map_of_SomeD)
    have "\<forall>(b, e) \<in> set (batonEntries bs). bStream e < length (heap bs)"
      using update_entries_subset[of "c # cs" ?e "batonEntries (batons s)"] a assms(2)
      by (fastforce simp: bs validStore_def)
    then show ?thesis
      using assms(2) a by (simp add: bs validStore_def unaccounted_def openCount_def)
  qed
next
  case False
  then have nb: "resolveStream (counted E) s mode baton w =
     (case serverOpenStream (counted E) s w of
          (Inl e, w') \<Rightarrow> (Inl (500, e), batons s, w')
        | (Inr st, w') \<Rightarrow>
            (case allocStream (st\<lparr>Mode := mode\<rparr>) (batons s) of
               (a, bs) \<Rightarrow> (Inr (a, []), bs, w')))"
    by (auto simp: resolveStream_def split: option.split list.split)
  obtain r w1 where o: "serverOpenStream (counted E) s w = (r, w1)" by (metis surj_pair)
  note n = counted_open[OF o[unfolded serverOpenStream_def]]
  show ?thesis
  proof (cases r)
    case (Inl x)
    with assms nb o n show ?thesis by (auto simp: unaccounted_def)
  next
    case (Inr st)
    have "openStream (counted E) (gdbHandle (db s)) (gdbGeneration (db s)) w = (Inr st, w1)"
      using o Inr by (simp add: serverOpenStream_def)
    then have st: "streamOk (st\<lparr>Mode := mode\<rparr>)" "\<not> closed (st\<lparr>Mode := mode\<rparr>)"
      using openStream_ok by (fastforce simp: streamOk_def)+
    have eq: "res = Inr (length (heap (batons s)), [])" "w' = w1"
      "bs = (batons s)\<lparr>heap := heap (batons s) @ [st\<lparr>Mode := mode\<rparr>]\<rparr>"
      using assms(1) nb o Inr by (auto simp: allocStream_def)
    have "validStore bs"
      using assms(2) st(1) by (auto simp: eq validStore_def nth_append less_Suc_eq)
    moreover have "openCount bs = Suc (openCount (batons s))" using st(2) by (simp add: eq openCount_def)
    ultimately show ?thesis using n Inr eq by (simp add: unaccounted_def)
  qed
qed

lemma valid_rotate:
  assumes "rotateBaton (counted E) a old isClosed bs w = (res, bs', w')" and "validStore bs"
    and "a < length (heap bs)"
  shows "validStore bs' \<and> length (heap bs') = length (heap bs) \<and> unaccounted bs' w' = unaccounted bs w"
proof (cases isClosed)
  case True
  obtain bs1 where c: "closeAt (counted E) a bs w = (bs1, w')"
    and bs': "bs' = (if old \<noteq> [] then deleteBaton old bs1 else bs1)"
    using assms(1) True by (auto simp: rotateBaton_def split: prod.splits)
  note C = valid_close[OF c assms(2,3)]
  have "validStore (deleteBaton old bs1)"
    using C delete_entries_subset[of old "batonEntries bs1"]
    by (fastforce simp: validStore_def deleteBaton_def)
  then show ?thesis using C by (simp add: bs' deleteBaton_def unaccounted_def openCount_def)
next
  case False
  obtain g bs1 w1 where p: "putBaton (counted E) a old bs w = (g, bs1, w1)" by (metis surj_pair)
  note n = putBaton_env(1)[OF p]
  show ?thesis
  proof (cases g)
    case (Inl e)
    then have b1: "bs1 = bs" by (rule putBaton_env(2)[OF p])
    have "closeAt (counted E) a bs w1 = (bs', w')"
      using assms(1) False p Inl b1 by (auto simp: rotateBaton_def split: prod.splits)
    from valid_close[OF this assms(2,3)] n show ?thesis by (simp add: unaccounted_def)
  next
    case (Inr new)
    have eq: "bs' = bs1" "w' = w1" using assms(1) False p Inr by (auto simp: rotateBaton_def)
    from valid_put[OF putBaton_step[OF p[unfolded Inr]] assms(2,3)] n show ?thesis
      by (simp add: eq unaccounted_def openCount_def)
  qed
qed

lemma valid_work:
  assumes "executePipelineRequests (counted E) a reqs c bs w = ((results, c'), bs', w')" and "validStore bs"
  shows "validStore bs' \<and> length (heap bs') = length (heap bs) \<and> unaccounted bs' w' = unaccounted bs w"
proof -
  note F = pipeline_frame[OF assms(1)]
  have ok: "\<forall>st \<in> set (heap bs). streamOk st" using assms(2) by (auto simp: validStore_def in_set_conv_nth)
  note S = sameBut_facts[of a bs bs']
  have n: "snd w' = snd w" using held.pipeline_frame_env[of w "snd w"] assms(1) by blast
  have e: "batonEntries bs' = batonEntries bs" using F by (simp add: sameBut_def)
  have l: "length (heap bs') = length (heap bs)" using S(4) F by blast
  have "\<forall>a < length (heap bs'). streamOk (heap bs' ! a)" using F ok by (simp add: all_set_conv_all_nth)
  then show ?thesis
    using S(2) F n e l assms(2) by (simp add: validStore_def unaccounted_def)
qed

lemma valid_sweep:
  assumes "sweep (counted E) bs w = (bs', w')" and "validStore bs"
  shows "validStore bs' \<and> length (heap bs') = length (heap bs) \<and> unaccounted bs' w' = unaccounted bs w"
proof -
  let ?old = "\<lambda>e. lastSeen e < clock (counted E) w - ttl bs"
  let ?exp = "map (\<lambda>(b, e). bStream e) (filter (\<lambda>(b, e). ?old e) (batonEntries bs))"
  obtain bs1 where c: "closeEach (counted E) ?exp bs w = (bs1, w')"
    and bs': "bs' = bs1\<lparr>batonEntries := filter (\<lambda>(b, e). \<not> ?old e) (batonEntries bs)\<rparr>"
    using assms(1) by (auto simp: sweep_def Let_def split: prod.splits)
  have a: "\<forall>a \<in> set ?exp. a < length (heap bs)" and ok: "\<forall>a < length (heap bs). streamOk (heap bs ! a)"
    using assms(2) by (auto simp: validStore_def)
  note C = closeEach_spec[OF c a ok]
  have "wf_map (batonEntries bs')" using assms(2) by (simp add: bs' validStore_def)
  moreover have "\<forall>(b, e) \<in> set (batonEntries bs'). bStream e < length (heap bs')"
    using assms(2) C by (auto simp: bs' validStore_def)
  ultimately show ?thesis using C by (simp add: bs' validStore_def unaccounted_def openCount_def)
qed

lemma conc_step_valid: "conc_step E x y \<Longrightarrow> validWorld x \<Longrightarrow> validWorld y"
proof (induction rule: conc_step.induct)
  case (admitted s mode baton w a old bs w' fs reqs)
  then show ?case using valid_resolve[OF admitted(1)] by (force simp: validWorld_def)
next
  case (refused s mode baton w e bs w' fs)
  then show ?case using valid_resolve[OF refused(1)] by (force simp: validWorld_def)
next
  case (work i fs f req reqs s w rs c bs w')
  have "\<forall>g \<in> set (fs[i := f\<lparr>flTodo := reqs, flDone := flDone f @ rs, flClosed := c\<rparr>]).
      flStream g < length (heap (batons s))"
    using work(1,2,5) set_update_subset_insert[of fs i] by (fastforce simp: validWorld_def)
  then show ?case using valid_work[OF work(4)] work(5) by (simp add: validWorld_def)
next
  case (finish i fs f s w res bs w')
  have "flStream f < length (heap (batons s))" using finish(1,2,5) by (auto simp: validWorld_def)
  from valid_rotate[OF finish(4) _ this] finish(5) show ?case
    by (auto simp: validWorld_def dest: in_set_takeD in_set_dropD)
next
  case (sweep s w bs w' fs)
  then show ?case using valid_sweep[OF sweep(1)] by (auto simp: validWorld_def)
next
  case (outside s fs w n w')
  then show ?case by (simp add: validWorld_def unaccounted_def)
qed

lemma conc_reachable_valid: "conc_reachable E h conf x \<Longrightarrow> validWorld x"
proof (induction rule: conc_reachable.induct)
  case (start w)
  then show ?case
    by (simp add: validWorld_def validStore_def newServer_def Let_def newBatonStore_def
        unaccounted_def openCount_def)
next
  case (step x y)
  then show ?case using conc_step_valid by blast
qed

text \<open>
  C11.  However pipelines and sweeps interleave, each connection taken from the pool is
  returned exactly once or belongs to a stream that is still open, every stream is closed
  together with its connection, and every baton and every pipeline under way leads to a
  stream that exists.
\<close>

theorem interleaved_accounting:
  assumes "conc_reachable E h conf (s, fs, w, n)"
  shows "n = int (openCount (batons s))
    \<and> (\<forall>a < length (heap (batons s)). connDone (Conn (heap (batons s) ! a)) = closed (heap (batons s) ! a))
    \<and> (\<forall>(b, e) \<in> set (batonEntries (batons s)). bStream e < length (heap (batons s)))
    \<and> (\<forall>f \<in> set fs. flStream f < length (heap (batons s)))"
  using conc_reachable_valid[OF assms]
  by (auto simp: validWorld_def validStore_def unaccounted_def streamOk_def)

section \<open>What interleavings do break\<close>

text \<open>An environment that counts: every read of the random source is new, a minute each.\<close>

definition tickEnv :: "nat env" where
  "tickEnv =
    \<lparr>drvExec = (\<lambda>h sql args w. (Inl ''none'', w)), drvQuery = (\<lambda>h sql args w. (Inl ''none'', w)),
     drvConn = (\<lambda>d w. (Inr 0, w)), drvRelease = (\<lambda>h w. w),
     randRead = (\<lambda>n w. (Inr (replicate n (of_nat w)), Suc w)),
     clock = (\<lambda>w. int w * minute)\<rparr>"

definition tickBaton :: "nat \<Rightarrow> string" where
  "tickBaton k = hexEncode (replicate 32 (of_nat k))"

definition tickStream :: "bool \<Rightarrow> stream" where
  "tickStream c =
    (newStream 0 \<lparr>handle = 0, connGeneration = 0, connDone = c\<rparr>)\<lparr>Mode := ModeReadWrite, closed := c\<rparr>"

text \<open>A store with one stream, and the batons that lead to it with their times.\<close>

definition tickStore :: "bool \<Rightarrow> (nat \<times> instant) list \<Rightarrow> baton_store" where
  "tickStore c bs =
    \<lparr>heap = [tickStream c],
     batonEntries = map (\<lambda>(k, t). (tickBaton k, \<lparr>bStream = 0, lastSeen = t\<rparr>)) bs, ttl = 10 * second\<rparr>"

definition tickConfig :: "(nat \<times> int) config" where
  "tickConfig =
    \<lparr>AuthFunc = None, BatonTTL = 0, Versions = [], AllowOrigins = [],
     BlacklistConf = testCfg\<lparr>Enabled := False\<rparr>\<rparr>"

definition tickServer :: "baton_store \<Rightarrow> (nat \<times> int) server" where
  "tickServer bs = (newServer 0 tickConfig)\<lparr>batons := bs\<rparr>"

abbreviation tickFlight :: "string \<Rightarrow> flight" where
  "tickFlight old \<equiv> \<lparr>flStream = 0, flOld = old, flTodo = [], flDone = [], flClosed = False\<rparr>"

lemma tickServer_simps [simp]:
  "(tickServer bs)\<lparr>batons := bs'\<rparr> = tickServer bs'" "batons (tickServer bs) = bs"
  "gdbHandle (db (tickServer bs)) = 0" "gdbGeneration (db (tickServer bs)) = 0"
  by (simp_all add: tickServer_def newServer_def Let_def)

lemma tickBaton_neq: "tickBaton 1 \<noteq> tickBaton 2" "tickBaton 1 \<noteq> tickBaton 3" "tickBaton 2 \<noteq> tickBaton 3"
  by code_simp+

lemma tick_runs:
  "resolveStream (counted tickEnv) (tickServer (newBatonStore (10 * second))) ModeReadWrite None (0, 0)
    = (Inr (0, []), tickStore False [], (1, 1))"
  "rotateBaton (counted tickEnv) 0 [] False (tickStore False []) (1, 1)
    = (Inr (Some (tickBaton 1)), tickStore False [(1, 2 * minute)], (2, 1))"
  "resolveStream (counted tickEnv) (tickServer (tickStore False [(1, 2 * minute)])) ModeReadWrite (Some (tickBaton 1)) (2, 1)
    = (Inr (0, tickBaton 1), tickStore False [(1, 2 * minute)], (2, 1))"
  "rotateBaton (counted tickEnv) 0 (tickBaton 1) False (tickStore False [(1, 2 * minute)]) (2, 1)
    = (Inr (Some (tickBaton 2)), tickStore False [(2, 3 * minute)], (3, 1))"
  "rotateBaton (counted tickEnv) 0 (tickBaton 1) False (tickStore False [(2, 3 * minute)]) (3, 1)
    = (Inr (Some (tickBaton 3)), tickStore False [(2, 3 * minute), (3, 4 * minute)], (4, 1))"
  "sweep (counted tickEnv) (tickStore False [(1, 2 * minute)]) (3, 1) = (tickStore True [], (3, 0))"
  "rotateBaton (counted tickEnv) 0 (tickBaton 1) False (tickStore True []) (3, 0)
    = (Inr (Some (tickBaton 3)), tickStore True [(3, 4 * minute)], (4, 0))"
  by code_simp+

lemma tick_one_baton:
  "conc_reachable tickEnv 0 tickConfig (tickServer (tickStore False [(1, 2 * minute)]), [], 2, 1)"
proof -
  have "newServer 0 tickConfig = tickServer (newBatonStore (10 * second))"
    by (simp add: tickServer_def newServer_def tickConfig_def Let_def)
  then have "conc_reachable tickEnv 0 tickConfig (tickServer (newBatonStore (10 * second)), [], 0, 0)"
    using conc_reachable.start[of tickEnv 0 tickConfig 0] by simp
  from conc_reachable.step[OF this conc_step.admitted[OF tick_runs(1), of "[]" "[]"]]
  have "conc_reachable tickEnv 0 tickConfig (tickServer (tickStore False []), [tickFlight []], 1, 1)" by simp
  moreover have "conc_step tickEnv (tickServer (tickStore False []), [tickFlight []], 1, 1)
      ((tickServer (tickStore False []))\<lparr>batons := tickStore False [(1, 2 * minute)]\<rparr>,
        take 0 [tickFlight []] @ drop (Suc 0) [tickFlight []], 2, 1)"
    by (rule conc_step.finish[of 0 _ "tickFlight []"], simp, simp, simp,
      unfold tickServer_simps flight.simps, rule tick_runs)
  ultimately show ?thesis using conc_reachable.step by fastforce
qed

lemma tick_in_use:
  "conc_reachable tickEnv 0 tickConfig
    (tickServer (tickStore False [(1, 2 * minute)]), [tickFlight (tickBaton 1)], 2, 1)"
proof -
  have r: "resolveStream (counted tickEnv) (tickServer (tickStore False [(1, 2 * minute)])) ModeReadWrite
      (Some (tickBaton 1)) (2, 1) = (Inr (0, tickBaton 1), tickStore False [(1, 2 * minute)], (2, 1))"
    by (rule tick_runs)
  from conc_reachable.step[OF tick_one_baton conc_step.admitted[OF r, of "[]" "[]"]]
  show ?thesis by simp
qed

text \<open>
  Limits of the store.  Two concurrent requests that present the same baton are both
  accepted and leave two live batons for one stream, so a baton is not good for one request
  only.  And a sweep does not notice that a stream is in use: a pipeline that outlasts the
  time to live has its stream closed under it and still hands out a new baton, which leads
  to a closed stream.
\<close>

theorem interleaving_limits:
  "(\<exists>s w. conc_reachable tickEnv 0 tickConfig (s, [], w)
      \<and> (\<exists>b b' a. b \<noteq> b' \<and> findBaton b (batons s) = Some a \<and> findBaton b' (batons s) = Some a))
   \<and> (\<exists>s w. conc_reachable tickEnv 0 tickConfig (s, [], w)
      \<and> (\<exists>b a. findBaton b (batons s) = Some a \<and> closed (heap (batons s) ! a)))"
proof
  let ?f = "tickFlight (tickBaton 1)"
  let ?one = "tickStore False [(1, 2 * minute)]"
  let ?two = "tickStore False [(2, 3 * minute), (3, 4 * minute)]"
  have r: "resolveStream (counted tickEnv) (tickServer ?one) ModeReadWrite
      (Some (tickBaton 1)) (2, 1) = (Inr (0, tickBaton 1), ?one, (2, 1))"
    by (rule tick_runs)
  from conc_reachable.step[OF tick_in_use conc_step.admitted[OF r, of _ "[]"]]
  have both: "conc_reachable tickEnv 0 tickConfig (tickServer ?one, [?f, ?f], 2, 1)" by simp
  have "conc_step tickEnv (tickServer ?one, [?f, ?f], 2, 1)
      ((tickServer ?one)\<lparr>batons := tickStore False [(2, 3 * minute)]\<rparr>, take 0 [?f, ?f] @ drop (Suc 0) [?f, ?f], 3, 1)"
    by (rule conc_step.finish[of 0 _ ?f], simp, simp, simp,
      unfold tickServer_simps flight.simps, rule tick_runs)
  from conc_reachable.step[OF both this]
  have first: "conc_reachable tickEnv 0 tickConfig (tickServer (tickStore False [(2, 3 * minute)]), [?f], 3, 1)"
    by simp
  have "conc_step tickEnv (tickServer (tickStore False [(2, 3 * minute)]), [?f], 3, 1)
      ((tickServer (tickStore False [(2, 3 * minute)]))\<lparr>batons := ?two\<rparr>, take 0 [?f] @ drop (Suc 0) [?f], 4, 1)"
    by (rule conc_step.finish[of 0 _ ?f], simp, simp, simp,
      unfold tickServer_simps flight.simps, rule tick_runs)
  from conc_reachable.step[OF first this]
  have "conc_reachable tickEnv 0 tickConfig (tickServer ?two, [], 4, 1)" by simp
  moreover have "findBaton (tickBaton 2) ?two = Some 0" "findBaton (tickBaton 3) ?two = Some 0"
    using tickBaton_neq by (simp_all add: findBaton_def tickStore_def)
  ultimately show "\<exists>s w. conc_reachable tickEnv 0 tickConfig (s, [], w)
      \<and> (\<exists>b b' a. b \<noteq> b' \<and> findBaton b (batons s) = Some a \<and> findBaton b' (batons s) = Some a)"
    using tickBaton_neq(3) tickServer_simps(2) by metis
next
  let ?f = "tickFlight (tickBaton 1)"
  let ?one = "tickStore False [(1, 2 * minute)]"
  let ?zombie = "tickStore True [(3, 4 * minute)]"
  from conc_reachable.step[OF tick_in_use conc_step.outside[where w' = 3]]
  have later: "conc_reachable tickEnv 0 tickConfig (tickServer ?one, [?f], 3, 1)" .
  have "sweep (counted tickEnv) (batons (tickServer ?one)) (3, 1) = (tickStore True [], (3, 0))"
    unfolding tickServer_simps by (rule tick_runs)
  from conc_reachable.step[OF later conc_step.sweep[OF this]]
  have swept: "conc_reachable tickEnv 0 tickConfig (tickServer (tickStore True []), [?f], 3, 0)" by simp
  have "conc_step tickEnv (tickServer (tickStore True []), [?f], 3, 0)
      ((tickServer (tickStore True []))\<lparr>batons := ?zombie\<rparr>, take 0 [?f] @ drop (Suc 0) [?f], 4, 0)"
    by (rule conc_step.finish[of 0 _ ?f], simp, simp, simp,
      unfold tickServer_simps flight.simps, rule tick_runs)
  from conc_reachable.step[OF swept this]
  have "conc_reachable tickEnv 0 tickConfig (tickServer ?zombie, [], 4, 0)" by simp
  moreover have "findBaton (tickBaton 3) ?zombie = Some 0" "closed (heap ?zombie ! 0)"
    by (simp_all add: findBaton_def tickStore_def tickStream_def)
  ultimately show "\<exists>s w. conc_reachable tickEnv 0 tickConfig (s, [], w)
      \<and> (\<exists>b a. findBaton b (batons s) = Some a \<and> closed (heap (batons s) ! a))"
    using tickServer_simps(2) by metis
qed

theorem interleaved_accounting_witness:
  "(1 :: int) = int (openCount (tickStore False [(1, 2 * minute)]))
    \<and> connDone (Conn (tickStream False)) = closed (tickStream False)"
  using interleaved_accounting[OF tick_in_use] by (simp add: tickStore_def)

end
