(* ===== verification/SessionProps.thy ===== *)
theory SessionProps
  imports Sessions Interleave
begin

text \<open>
  What the request handlers of a WebSocket session guarantee.  An interface states what a
  property of sessions must survive (driver calls, opening, removing, cursors, stored
  texts); every handler is then proved to keep it once.  It is used for the connections a
  session holds, and for the texts a read-only session sends.
\<close>

section \<open>The branches of the dispatcher\<close>

lemma guarded: "(c \<Longrightarrow> Q a) \<Longrightarrow> (\<not> c \<Longrightarrow> Q b) \<Longrightarrow> Q (if c then a else b)"
  by simp

lemma decoded_rule:
  "(\<And>e. R (Some (Inl e, sess, w))) \<Longrightarrow> (\<And>x. r = Inr x \<Longrightarrow> R (act x)) \<Longrightarrow>
    R (decoded sess w r act)"
  by (cases r) (simp_all add: decoded_def)

lemma wsDispatch_rule:
  assumes refuse: "\<And>e. R (Some (Inl e, sess, w))"
    and opens: "\<And>k. wsType D c raw = Inr ''open_stream'' \<Longrightarrow> decOpenStream D c raw = Inr k \<Longrightarrow>
      R (Some (wsOpenStream E s sess k w))"
    and assigned: "wsType D c raw = Inr ''open_stream_assigned'' \<Longrightarrow> R (wsOpenStreamAssigned E s sess w)"
    and closes: "\<And>k. wsType D c raw = Inr ''close_stream'' \<Longrightarrow> decCloseStream D c raw = Inr k \<Longrightarrow>
      R (Some (wsCloseStream E sess k w))"
    and execute: "\<And>q. wsType D c raw = Inr ''execute'' \<Longrightarrow> decWsExecute D c raw = Inr q \<Longrightarrow>
      R (Some (wsExecute E sess q w))"
    and batch: "\<And>q. wsType D c raw = Inr ''batch'' \<Longrightarrow> decWsBatch D c raw = Inr q \<Longrightarrow>
      R (Some (wsBatch E sess q w))"
    and store: "\<And>q. wsType D c raw = Inr ''store_sql'' \<Longrightarrow> decWsStoreSql D c raw = Inr q \<Longrightarrow>
      R (Some (wsStoreSQL sess q w))"
    and drops: "\<And>k. wsType D c raw = Inr ''close_sql'' \<Longrightarrow> decWsCloseSql D c raw = Inr k \<Longrightarrow>
      R (Some (Inr CloseSqlResp, sess\<lparr>sessSQL := closeSQL k (sessSQL sess)\<rparr>, w))"
    and sequence: "\<And>q. wsType D c raw = Inr ''sequence'' \<Longrightarrow> decSqlUse D c raw = Inr q \<Longrightarrow>
      R (Some (wsSequence E sess q w))"
    and describe: "\<And>q. wsType D c raw = Inr ''describe'' \<Longrightarrow> decSqlUse D c raw = Inr q \<Longrightarrow>
      R (Some (wsDescribe E sess q w))"
    and autocommit: "\<And>k. wsType D c raw = Inr ''get_autocommit'' \<Longrightarrow> decGetAutocommit D c raw = Inr k \<Longrightarrow>
      R (Some (wsGetAutocommit E sess k w))"
    and openCursor: "\<And>q. wsType D c raw = Inr ''open_cursor'' \<Longrightarrow> decOpenCursor D c raw = Inr q \<Longrightarrow>
      proto = ''hrana3'' \<or> proto = ''hrana3-bin'' \<Longrightarrow> R (Some (wsOpenCursor E sess q w))"
    and closeCursor: "\<And>k. wsType D c raw = Inr ''close_cursor'' \<Longrightarrow> decCloseCursor D c raw = Inr k \<Longrightarrow>
      R (Some (wsCloseCursor sess k w))"
    and fetchCursor: "\<And>q. wsType D c raw = Inr ''fetch_cursor'' \<Longrightarrow> decFetchCursor D c raw = Inr q \<Longrightarrow>
      R (Some (wsFetchCursor sess q w))"
  shows "R (dispatchWSRequest E D s raw c proto sess w)"
proof (cases "wsType D c raw")
  case (Inl e)
  show ?thesis unfolding dispatchWSRequest_def Inl sum.case by (rule refuse)
next
  case (Inr ty)
  show ?thesis
    unfolding dispatchWSRequest_def Inr sum.case
    by (intro guarded[where Q = R] decoded_rule[where R = R] refuse)
      (use assms Inr in simp_all)
qed

lemma drawId_rule:
  assumes "drawId E m w = Some (r, w')" and "P w"
    and "\<And>w r w'. P w \<Longrightarrow> randRead E 4 w = (r, w') \<Longrightarrow> P w'"
  shows "P w' \<and> (\<forall>key. r = Inr key \<longrightarrow> map_of m key = None)
    \<and> (\<forall>e. r = Inl e \<longrightarrow> (\<exists>v x. fst (randRead E 4 v) = Inl x))"
proof -
  have "(\<forall>w r w'. P w \<longrightarrow> randRead E 4 w = (r, w') \<longrightarrow> P w') \<longrightarrow> P w \<longrightarrow>
    P (snd (r, w')) \<and> (\<forall>key. fst (r, w') = Inr key \<longrightarrow> map_of m key = None)
    \<and> (\<forall>e. fst (r, w') = Inl e \<longrightarrow> (\<exists>v x. fst (randRead E 4 v) = Inl x))"
  proof (rule drawId.raw_induct[OF _ assms(1)], intro impI)
    fix draw E m w y
    assume ih: "\<And>E m w y. draw E m w = Some y \<Longrightarrow>
        (\<forall>w r w'. P w \<longrightarrow> randRead E 4 w = (r, w') \<longrightarrow> P w') \<longrightarrow> P w \<longrightarrow>
        P (snd y) \<and> (\<forall>key. fst y = Inr key \<longrightarrow> map_of m key = None)
        \<and> (\<forall>e. fst y = Inl e \<longrightarrow> (\<exists>v x. fst (randRead E 4 v) = Inl x))"
      and body: "(case randomInt32 E w of
         (Inl e, w') \<Rightarrow> Some (Inl e, w')
       | (Inr key, w') \<Rightarrow> if map_of m key = None then Some (Inr key, w') else draw E m w') = Some y"
      and keep: "\<forall>w r w'. P w \<longrightarrow> randRead E 4 w = (r, w') \<longrightarrow> P w'" and P: "P w"
    obtain x w1 where x: "randRead E 4 w = (x, w1)" by (metis surj_pair)
    then have "P w1" using keep P by blast
    moreover have "\<exists>v x. fst (randRead E 4 v) = Inl x" if "x = Inl e" for e
      using x that by (metis fst_conv)
    ultimately show "P (snd y) \<and> (\<forall>key. fst y = Inr key \<longrightarrow> map_of m key = None)
        \<and> (\<forall>e. fst y = Inl e \<longrightarrow> (\<exists>v x. fst (randRead E 4 v) = Inl x))"
      using body x ih[of E m w1 y] keep
      by (cases x) (auto simp: randomInt32_def split: if_splits)
  qed
  then show ?thesis using assms by auto
qed

section \<open>The contract of a session\<close>

text \<open>
  \<open>I sess w\<close> holds between requests, \<open>J sess st w\<close> while a stream is open and not yet
  in the session; \<open>allowed\<close> are the texts a driver call may carry.
\<close>

locale session_keeper =
  fixes E :: "'d env" and s :: "'d server" and allowed :: "string \<Rightarrow> bool"
    and I :: "session \<Rightarrow> 'd \<Rightarrow> bool" and J :: "session \<Rightarrow> stream \<Rightarrow> 'd \<Rightarrow> bool"
  assumes exec_keeps: "allowed sql \<Longrightarrow> I sess w \<Longrightarrow> I sess (snd (drvExec E h sql args w))"
    and query_keeps: "allowed sql \<Longrightarrow> I sess w \<Longrightarrow> I sess (snd (drvQuery E h sql args w))"
    and permitted: "I sess w \<Longrightarrow> getStream sess key = Some st \<Longrightarrow> modePermits (Mode st) sql \<Longrightarrow> allowed sql"
    and keyed: "I sess w \<Longrightarrow> wf_map (sessStreams sess)"
    and opened: "I sess w \<Longrightarrow> serverOpenStream E s w = (Inr st, w') \<Longrightarrow> J sess (st\<lparr>Mode := sessMode sess\<rparr>) w'"
    and not_opened: "I sess w \<Longrightarrow> serverOpenStream E s w = (Inl e, w') \<Longrightarrow> I sess w'"
    and drawn: "J sess st w \<Longrightarrow> randRead E 4 w = (r, w') \<Longrightarrow> J sess st w'"
    and added: "J sess st w \<Longrightarrow> getStream sess key = None \<Longrightarrow> I (addStream sess key st) w"
    and removed: "I sess w \<Longrightarrow> removeStream E sess key w = (sess', w') \<Longrightarrow> I sess' w'"
    and stored: "I sess w \<Longrightarrow> I (sess\<lparr>sessSQL := m\<rparr>) w"
    and entered: "I sess w \<Longrightarrow> getStream sess key = Some st \<Longrightarrow> (wf_map (Cursors st) \<Longrightarrow> wf_map C) \<Longrightarrow>
      I (setEntry sess key (st\<lparr>Cursors := C\<rparr>)) w"
    and cleared: "I sess w \<Longrightarrow> I (sess\<lparr>sessStreams :=
      map (\<lambda>(key, st). (key, st\<lparr>Cursors := AList.delete c (Cursors st)\<rparr>)) (sessStreams sess)\<rparr>) w"

sublocale session_keeper \<subseteq> drv: driver_invariant E allowed "I sess" for sess
  by unfold_locales (rule exec_keeps query_keeps, assumption+)+

context session_keeper
begin

lemma executor_kept:
  assumes "I sess w" and "getStream sess key = Some st"
  shows "I sess (snd (executeStmt E st stm S w))" and "I sess (snd (executeBatch E st steps S w))"
    and "I sess (snd (executeSequence E st q w))"
  using drv.executor_keeps[OF permitted[OF assms] assms(1)] by blast+

lemma unguarded_kept:
  assumes "I sess w" and "\<And>sql. allowed sql"
  shows "I sess (snd (describeStmt E st q w))" and "I sess (snd (executeBatchCursor E st steps S w))"
proof -
  have "(\<lambda>sql. True) = allowed" using assms(2) by auto
  then have frame: "driver_frame E (I sess)"
    unfolding driver_frame_def using drv.driver_invariant_axioms by simp
  show "I sess (snd (describeStmt E st q w))" and "I sess (snd (executeBatchCursor E st steps S w))"
    using driver_frame.describe_frame[OF frame assms(1) surjective_pairing]
      driver_frame.cursor_frame[OF frame assms(1) surjective_pairing] by blast+
qed

lemma withStream_kept:
  assumes "I sess w" and "\<And>st. getStream sess key = Some st \<Longrightarrow> \<not> IsSuperseded st \<Longrightarrow>
      (case act st of (r, sess', w') \<Rightarrow> I sess' w')"
  shows "case withStream E sess key w act of (r, sess', w') \<Rightarrow> I sess' w'"
  using assms removed[OF assms(1)]
  by (auto simp: withStream_def split: option.splits prod.splits)

lemma opening_kept:
  assumes "I sess w" and "getStream sess key = None"
  shows "case wsOpenStreamAdd E s sess key w of (r, sess', w') \<Rightarrow> I sess' w'"
  using assms opened not_opened added by (auto simp: wsOpenStreamAdd_def split: prod.splits sum.splits)

lemma drawId_kept:
  assumes "drawId E m w = Some (r, w')" and "J sess st w"
  shows "J sess st w'"
  using drawId_rule[where P = "J sess st", OF assms] drawn by blast

text \<open>The outcome of a request: \<open>I\<close>, or the one failure that keeps a stream.\<close>

definition kept :: "'d handled \<Rightarrow> bool" where
  "kept h \<longleftrightarrow> (case h of (r, sess, w) \<Rightarrow>
    I sess w \<or> r = Inl StoreStreamFailed \<and> (\<exists>st. J sess st w) \<and> (\<exists>v x. fst (randRead E 4 v) = Inl x))"

lemma keptI: "I sess w \<Longrightarrow> kept (r, sess, w)"
  by (simp add: kept_def)

lemma assigned_kept:
  assumes "I sess w" and "wsOpenStreamAssigned E s sess w = Some h"
  shows "kept h"
proof (cases "serverOpenStream E s w")
  case (Pair x w1)
  show ?thesis
  proof (cases x)
    case (Inl e)
    with assms Pair not_opened show ?thesis by (auto simp: wsOpenStreamAssigned_def keptI)
  next
    case (Inr st)
    let ?st = "st\<lparr>Mode := sessMode sess\<rparr>"
    have J1: "J sess ?st w1" using opened assms(1) Pair Inr by simp
    obtain r w2 where d: "drawId E (sessStreams sess) w1 = Some (r, w2)"
      using assms(2) Pair Inr
      by (auto simp: wsOpenStreamAssigned_def AddStreamAssinged_def split: option.splits)
    have J2: "J sess ?st w2" by (rule drawId_kept[OF d J1])
    show ?thesis
    proof (cases r)
      case (Inl e)
      then have "\<exists>v x. fst (randRead E 4 v) = Inl x"
        using drawId_rule[OF d, of "\<lambda>_. True"] by blast
      with Inl assms(2) Pair Inr d J2 show ?thesis
        by (auto simp: wsOpenStreamAssigned_def AddStreamAssinged_def kept_def)
    next
      case key: (Inr key)
      then have "getStream sess key = None"
        using drawId_rule[OF d, of "\<lambda>_. True"] by (simp add: getStream_def)
      with added[OF J2] assms(2) Pair Inr d key show ?thesis
        by (auto simp: wsOpenStreamAssigned_def AddStreamAssinged_def kept_def)
    qed
  qed
qed

lemma fetch_kept:
  assumes "I sess w"
  shows "case wsFetchCursor sess req w of (r, sess', w') \<Rightarrow> I sess' w'"
proof -
  obtain cursorKey n where req: "req = (cursorKey, n)" by (cases req)
  show ?thesis
  proof (cases "find (\<lambda>(key, st). map_of (Cursors st) cursorKey \<noteq> None) (sessStreams sess)")
    case None
    with assms req show ?thesis by (simp add: wsFetchCursor_def)
  next
    case (Some p)
    obtain key st where p: "p = (key, st)" by (cases p)
    have "(key, st) \<in> set (sessStreams sess)" using Some p find_Some_iff nth_mem by metis
    then have "getStream sess key = Some st" using keyed[OF assms] by (simp add: getStream_def)
    then show ?thesis using entered[OF assms] Some p req by (auto simp: wsFetchCursor_def split: prod.splits)
  qed
qed

lemma kept_case: "(case x of (r, sess', w') \<Rightarrow> I sess' w') \<Longrightarrow> kept x"
  by (auto simp: kept_def)

lemma stream_requests_kept:
  assumes "I sess w"
  shows "kept (wsExecute E sess q w)" and "kept (wsBatch E sess b w)" and "kept (wsSequence E sess t w)"
    and "kept (wsGetAutocommit E sess key w)" and "kept (wsOpenStream E s sess key w)"
    and "kept (wsCloseStream E sess key w)" and "kept (wsStoreSQL sess p w)"
    and "kept (wsCloseCursor sess key w)" and "kept (wsFetchCursor sess f w)"
proof -
  show "kept (wsExecute E sess q w)" "kept (wsBatch E sess b w)" "kept (wsSequence E sess t w)"
    unfolding wsExecute_def wsBatch_def wsSequence_def split_def
    by (intro kept_case withStream_kept assms; use executor_kept[OF assms] assms
        in \<open>force simp: split_def split: prod.splits sum.splits\<close>)+
  show "kept (wsGetAutocommit E sess key w)"
    unfolding wsGetAutocommit_def by (intro kept_case withStream_kept assms) (simp add: assms)
  show "kept (wsOpenStream E s sess key w)"
    using opening_kept[OF assms] assms
    by (auto simp: wsOpenStream_def keptI kept_case split: option.split)
  show "kept (wsCloseStream E sess key w)"
    using removed[OF assms] by (cases "removeStream E sess key w") (simp add: wsCloseStream_def keptI)
  show "kept (wsStoreSQL sess p w)"
    using stored[OF assms] assms by (auto simp: wsStoreSQL_def keptI split: sum.split)
  show "kept (wsCloseCursor sess key w)"
    using cleared[OF assms] by (auto simp: wsCloseCursor_def keptI)
  show "kept (wsFetchCursor sess f w)" by (rule kept_case[OF fetch_kept[OF assms]])
qed

lemma unguarded_requests_kept:
  assumes "I sess w" and "\<And>sql. allowed sql"
  shows "kept (wsDescribe E sess t w)" and "kept (wsOpenCursor E sess q w)"
proof -
  show "kept (wsDescribe E sess t w)"
    unfolding wsDescribe_def split_def
    by (intro kept_case withStream_kept assms(1); use unguarded_kept[OF assms] assms(1)
        in \<open>force simp: split_def split: prod.splits sum.splits\<close>)
  obtain key cursorKey b where q: "q = (key, cursorKey, b)" by (cases q)
  have "case (case executeBatchCursor E st b (sessSQL sess) w of
        (Inl e, w') \<Rightarrow> (Inl e, sess, w')
      | (Inr es, w') \<Rightarrow> (Inr OpenCursorResp, setEntry sess key
          (st\<lparr>Cursors := AList.update cursorKey (newCursor cursorKey es) (Cursors st)\<rparr>), w'))
      of (r, sess', w') \<Rightarrow> I sess' w'" if "getStream sess key = Some st" for st
    using unguarded_kept(2)[OF assms, of st b "sessSQL sess"] entered[OF _ that]
    by (auto split: prod.split sum.split)
  then show "kept (wsOpenCursor E sess q w)"
    unfolding wsOpenCursor_def q prod.case by (intro kept_case withStream_kept assms(1))
qed

text \<open>Every request: the two that bypass the mode only when every text is allowed.\<close>

lemma dispatch_keeps:
  assumes "I sess w"
    and "(\<forall>sql. allowed sql) \<or> (wsType D c raw \<noteq> Inr ''describe'' \<and> wsType D c raw \<noteq> Inr ''open_cursor'')"
    and "dispatchWSRequest E D s raw c proto sess w = Some h"
  shows "kept h"
proof -
  let ?R = "\<lambda>x. \<forall>h. x = Some h \<longrightarrow> kept h"
  note parts = stream_requests_kept[OF assms(1)]
  have "?R (dispatchWSRequest E D s raw c proto sess w)"
  proof (rule wsDispatch_rule[where R = ?R])
    show "?R (Some (wsDescribe E sess q w))" if "wsType D c raw = Inr ''describe''" for q
      using unguarded_requests_kept(1)[OF assms(1)] assms(2) that by auto
    show "?R (Some (wsOpenCursor E sess q w))" if "wsType D c raw = Inr ''open_cursor''" for q
      using unguarded_requests_kept(2)[OF assms(1)] assms(2) that by auto
  qed (use parts assigned_kept[OF assms(1)] assms(1) stored[OF assms(1)] in \<open>simp_all add: keptI\<close>)
  then show ?thesis using assms(3) by blast
qed

end

section \<open>Well-formed sessions\<close>

text \<open>
  The streams of a session are open, known under their own ids, and have the mode of the
  session.
\<close>

definition entryOk :: "conn_mode \<Rightarrow> i32 \<Rightarrow> stream \<Rightarrow> bool" where
  "entryOk mode key st \<longleftrightarrow> streamOk st \<and> \<not> closed st \<and> Mode st = mode \<and> streamId st = key"

definition sessOk :: "session \<Rightarrow> bool" where
  "sessOk sess \<longleftrightarrow>
    wf_map (sessStreams sess) \<and> (\<forall>(key, st) \<in> set (sessStreams sess). entryOk (sessMode sess) key st)"

lemma sessOk_new [inv_intros]: "sessOk (newSession mode)"
  by (simp add: sessOk_def newSession_def)

lemma sessOk_get: "sessOk sess \<Longrightarrow> getStream sess key = Some st \<Longrightarrow> entryOk (sessMode sess) key st"
  by (auto simp: sessOk_def getStream_def dest: map_of_SomeD)

lemma sessOk_set:
  assumes "sessOk sess" and "entryOk (sessMode sess) key st"
  shows "sessOk (setEntry sess key st)"
  using assms update_entries_subset[of key st "sessStreams sess"]
  by (auto simp: sessOk_def setEntry_def)

lemma sessOk_remove: "sessOk sess \<Longrightarrow> removeStream E sess key w = (sess', w') \<Longrightarrow> sessOk sess'"
  using delete_entries_subset[of key "sessStreams sess"]
  by (fastforce simp: sessOk_def removeStream_def split: option.splits)

lemma sessOk_cursors:
  "sessOk sess \<Longrightarrow>
    sessOk (sess\<lparr>sessStreams :=
      map (\<lambda>(key, st). (key, st\<lparr>Cursors := AList.delete c (Cursors st)\<rparr>)) (sessStreams sess)\<rparr>)"
  by (auto simp: sessOk_def entryOk_def streamOk_def comp_def split_def)

lemma entryOk_cursors: "entryOk mode key st \<Longrightarrow> (wf_map (Cursors st) \<Longrightarrow> wf_map C) \<Longrightarrow> entryOk mode key (st\<lparr>Cursors := C\<rparr>)"
  by (simp add: entryOk_def streamOk_def)

lemma entryOk_id: "entryOk mode k st \<Longrightarrow> entryOk mode key (st\<lparr>streamId := key\<rparr>)"
  by (simp add: entryOk_def streamOk_def)

lemma entryOk_opened:
  assumes "serverOpenStream E s w = (Inr st, w')"
  shows "entryOk mode (streamId st) (st\<lparr>Mode := mode\<rparr>)"
  using openStream_ok[OF assms[unfolded serverOpenStream_def]] by (simp add: entryOk_def streamOk_def)

lemma traced_open: "openStream (traced E) d g w = (r, w') \<Longrightarrow> snd w' = snd w"
  by (cases w) (auto simp: openStream_def dbConn_def randomInt32_def connClose_def traced_def Let_def
      split: prod.splits sum.splits)

lemma traced_remove:
  "removeStream (traced E) sess key w = (sess', w') \<Longrightarrow> snd w' = snd w \<and> sessMode sess' = sessMode sess"
  by (cases w) (auto simp: removeStream_def streamClose_def connClose_def traced_def split: option.splits if_splits)

section \<open>Connections of a session\<close>

text \<open>Connections held beyond those of the streams in the session.\<close>

definition sessHeld :: "session \<Rightarrow> 'd \<times> int \<Rightarrow> int" where
  "sessHeld sess w = snd w - int (length (sessStreams sess))"

lemma length_update_new: "map_of m k = None \<Longrightarrow> length (AList.update k v m) = Suc (length m)"
  by (induction m) (auto split: if_splits)

lemma length_update_old: "map_of m k = Some v' \<Longrightarrow> length (AList.update k v m) = length m"
  by (induction m) (auto split: if_splits)

lemma length_delete: "wf_map m \<Longrightarrow> map_of m k = Some v \<Longrightarrow> Suc (length (AList.delete k m)) = length m"
proof (induction m)
  case Nil
  then show ?case by simp
next
  case (Cons p m)
  obtain a b where p: "p = (a, b)" by (cases p)
  show ?case
  proof (cases "a = k")
    case True
    then have "AList.delete k m = m" using Cons.prems(1) p by (simp add: delete_id)
    then show ?thesis using True p by simp
  next
    case False
    then show ?thesis using Cons p by simp
  qed
qed

lemma held_remove:
  assumes "sessOk sess" and "removeStream (counted E) sess key w = (sess', w')"
  shows "sessHeld sess' w' = sessHeld sess w"
proof (cases "getStream sess key")
  case None
  with assms show ?thesis by (simp add: removeStream_def)
next
  case (Some st)
  obtain st' w1 where c: "streamClose (counted E) st w = (st', w1)" by (metis surj_pair)
  have "streamOk st" "\<not> closed st" using sessOk_get[OF assms(1) Some] by (simp_all add: entryOk_def)
  then have "snd w1 = snd w - 1" using counted_streamClose[OF _ c] by simp
  moreover have "Suc (length (AList.delete key (sessStreams sess))) = length (sessStreams sess)"
    using assms(1) Some by (auto simp: sessOk_def getStream_def intro: length_delete)
  ultimately show ?thesis using assms(2) Some c by (auto simp: removeStream_def sessHeld_def)
qed

interpretation held_session: session_keeper "counted E" s "\<lambda>_. True"
    "\<lambda>sess w. sessOk sess \<and> sessHeld sess w = n"
    "\<lambda>sess st w. sessOk sess \<and> entryOk (sessMode sess) (streamId st) st \<and> sessHeld sess w = n + 1"
  for E s n
proof (unfold_locales, goal_cases)
  case (5 sess w st w')
  then show ?case
    using counted_open[of E "gdbHandle (db s)" "gdbGeneration (db s)" w]
    by (auto simp: sessHeld_def serverOpenStream_def entryOk_opened)
next
  case (6 sess w e w')
  then show ?case
    using counted_open[of E "gdbHandle (db s)" "gdbGeneration (db s)" w]
    by (auto simp: sessHeld_def serverOpenStream_def)
next
  case (7 sess st w r w')
  then show ?case using counted_rand[of E 4 w r w'] by (simp add: sessHeld_def)
next
  case (8 sess st w key)
  then show ?case
    using sessOk_set[of sess key "st\<lparr>streamId := key\<rparr>"] entryOk_id[of "sessMode sess" "streamId st" st key]
    by (auto simp: addStream_def setEntry_def sessHeld_def getStream_def length_update_new)
next
  case (9 sess w key sess' w')
  then show ?case using sessOk_remove held_remove by metis
next
  case (11 sess w key st C)
  then show ?case
    using sessOk_set[of sess key "st\<lparr>Cursors := C\<rparr>"] sessOk_get[of sess key st] entryOk_cursors
    by (auto simp: setEntry_def sessHeld_def getStream_def length_update_old)
next
  case (12 sess w f)
  then show ?case using sessOk_cursors by (auto simp: sessHeld_def)
qed (auto simp: counted_def sessOk_def sessHeld_def split: prod.splits)

interpretation readonly_session: session_keeper "traced E" s "\<lambda>sql. \<not> isWriteStatement sql"
    "\<lambda>sess w. sessOk sess \<and> sessMode sess = ModeReadOnly \<and> (\<forall>sql \<in> set (snd w). \<not> isWriteStatement sql)"
    "\<lambda>sess st w. sessOk sess \<and> sessMode sess = ModeReadOnly \<and> entryOk ModeReadOnly (streamId st) st
       \<and> (\<forall>sql \<in> set (snd w). \<not> isWriteStatement sql)"
  for E s
proof (unfold_locales, goal_cases)
  case (3 sess w key st sql)
  then show ?case using sessOk_get[of sess key st] by (auto simp: entryOk_def modePermits_readonly)
next
  case (5 sess w st w')
  then show ?case
    using traced_open[of E "gdbHandle (db s)" "gdbGeneration (db s)" w "Inr st" w']
    by (auto simp: serverOpenStream_def entryOk_opened)
next
  case (8 sess st w key)
  then show ?case
    using sessOk_set[of sess key "st\<lparr>streamId := key\<rparr>"] entryOk_id[of "sessMode sess" "streamId st" st key]
    by (auto simp: addStream_def setEntry_def)
next
  case (9 sess w key sess' w')
  then show ?case using sessOk_remove[of sess "traced E" key w] traced_remove[of E sess key w] by auto
next
  case (6 sess w e w')
  then show ?case
    using traced_open[of E "gdbHandle (db s)" "gdbGeneration (db s)" w "Inl e" w']
    by (auto simp: serverOpenStream_def)
next
  case (11 sess w key st C)
  then show ?case
    using sessOk_set[of sess key "st\<lparr>Cursors := C\<rparr>"] sessOk_get[of sess key st] entryOk_cursors
    by (auto simp: setEntry_def)
next
  case (12 sess w c)
  then show ?case using sessOk_cursors by auto
qed (auto simp: traced_def sessOk_def split: prod.splits)

end
