(* ===== verification/SessionRequests.thy ===== *)
theory SessionRequests
  imports SessionProps
begin

text \<open>
  The requests of a WebSocket session, one by one: answers match their requests, a superseded
  stream is dropped, assigned ids are fresh, cursors deliver their batch, and a read-only
  session sends no write.
\<close>

section \<open>Answers\<close>

text \<open>
  C37.  An answer has the type of the request it answers, a request of an unknown type is
  refused by name and changes nothing, and cursors are opened under version 3 only.
\<close>

theorem ws_answer_type:
  shows "(\<forall>x sess' w'. dispatchWSRequest E D s raw c proto sess w = Some (Inr x, sess', w') \<longrightarrow>
      wsType D c raw = Inr (wsRespType x)
      \<and> (x = OpenCursorResp \<longrightarrow> proto = ''hrana3'' \<or> proto = ''hrana3-bin''))
    \<and> (\<forall>ty. wsType D c raw = Inr ty \<longrightarrow> ty \<notin> {''open_stream'', ''open_stream_assigned'', ''close_stream'',
        ''execute'', ''batch'', ''store_sql'', ''close_sql'', ''sequence'', ''describe'', ''get_autocommit'',
        ''open_cursor'', ''close_cursor'', ''fetch_cursor''} \<longrightarrow>
      dispatchWSRequest E D s raw c proto sess w = Some (Inl (UnknownRequest ty), sess, w))
    \<and> (\<forall>e. wsType D c raw = Inl e \<longrightarrow>
      dispatchWSRequest E D s raw c proto sess w = Some (Inl InvalidRequestPayload, sess, w))"
proof (intro conjI allI impI)
  fix x sess' w'
  let ?R = "\<lambda>h. \<forall>x sess' w'. h = Some (Inr x, sess', w') \<longrightarrow> wsType D c raw = Inr (wsRespType x)
      \<and> (x = OpenCursorResp \<longrightarrow> proto = ''hrana3'' \<or> proto = ''hrana3-bin'')"
  note handlers = wsOpenStream_def wsOpenStreamAdd_def wsOpenStreamAssigned_def AddStreamAssinged_def
    wsCloseStream_def wsExecute_def wsBatch_def wsStoreSQL_def wsSequence_def wsDescribe_def
    wsGetAutocommit_def wsOpenCursor_def wsCloseCursor_def wsFetchCursor_def withStream_def
  have "?R (dispatchWSRequest E D s raw c proto sess w)"
    by (rule wsDispatch_rule[where R = ?R])
      (auto simp: handlers split: option.splits sum.splits prod.splits if_splits)
  moreover assume "dispatchWSRequest E D s raw c proto sess w = Some (Inr x, sess', w')"
  ultimately show "wsType D c raw = Inr (wsRespType x)"
    and "x = OpenCursorResp \<Longrightarrow> proto = ''hrana3'' \<or> proto = ''hrana3-bin''" by blast+
qed (simp_all add: dispatchWSRequest_def)

text \<open>Decoders that read every payload as one request, on stream 1.\<close>

definition fixedDecoders :: "string \<Rightarrow> string \<Rightarrow> ws_decoders" where
  "fixedDecoders ty sql =
    \<lparr>wsType = \<lambda>c raw. Inr ty, decOpenStream = \<lambda>c raw. Inr 1, decOpenStreamAssigned = \<lambda>c raw. Inr (),
     decCloseStream = \<lambda>c raw. Inr 1, decWsExecute = \<lambda>c raw. Inr (1, execOnly sql),
     decWsBatch = \<lambda>c raw. Inr (1, []), decWsStoreSql = \<lambda>c raw. Inr (7, sql),
     decWsCloseSql = \<lambda>c raw. Inr 7, decSqlUse = \<lambda>c raw. Inr (1, Some sql, None),
     decGetAutocommit = \<lambda>c raw. Inr 1, decOpenCursor = \<lambda>c raw. Inr (1, 5, []),
     decCloseCursor = \<lambda>c raw. Inr 5, decFetchCursor = \<lambda>c raw. Inr (5, 10)\<rparr>"

definition oneStream :: "conn_mode \<Rightarrow> session" where
  "oneStream mode = addStream (newSession mode) 1 ((newStream 1 someConn)\<lparr>Mode := mode\<rparr>)"

lemma oneStream_get [simp]:
  "getStream (oneStream mode) key =
    (if key = 1 then Some ((newStream 1 someConn)\<lparr>Mode := mode\<rparr>) else None)"
  by (simp add: oneStream_def addStream_def setEntry_def getStream_def newSession_def newStream_def)

lemma oneStream_ok [simp]: "sessOk (oneStream mode)" "sessMode (oneStream mode) = mode"
  by (simp_all add: oneStream_def addStream_def setEntry_def newSession_def newStream_def
      sessOk_def entryOk_def streamOk_def)

lemma fixed_autocommit:
  "dispatchWSRequest (counted tickEnv) (fixedDecoders ''get_autocommit'' []) (tickServer bs) [] JSONCodec ''hrana1''
    (oneStream ModeUnset) w = Some (Inr (GetAutocommitResp True), oneStream ModeUnset, w)"
  by (simp add: dispatchWSRequest_def fixedDecoders_def decoded_def wsGetAutocommit_def withStream_def
      newStream_def)

theorem ws_answer_type_witness:
  "wsType (fixedDecoders ''get_autocommit'' []) JSONCodec [] = Inr (wsRespType (GetAutocommitResp True))"
  using ws_answer_type[of "counted tickEnv" "fixedDecoders ''get_autocommit'' []" "tickServer (newBatonStore 0)"
      "[]" JSONCodec "''hrana1''" "oneStream ModeUnset" "(0, 0)"]
    fixed_autocommit by blast

section \<open>Assigned ids\<close>

text \<open>What the random source answers at the \<open>k\<close>-th draw.\<close>

fun draws :: "'d env \<Rightarrow> nat \<Rightarrow> 'd \<Rightarrow> (error + i32) \<times> 'd" where
  "draws E 0 w = randomInt32 E w"
| "draws E (Suc k) w = draws E k (snd (randomInt32 E w))"

abbreviation usedDraw :: "(i32 \<times> stream) list \<Rightarrow> (error + i32) \<times> 'd \<Rightarrow> bool" where
  "usedDraw m x \<equiv> (\<exists>key. fst x = Inr key \<and> map_of m key \<noteq> None)"

lemma drawId_again: "usedDraw m (randomInt32 E w) \<Longrightarrow> drawId E m w = drawId E m (snd (randomInt32 E w))"
  by (subst drawId.simps) (auto split: prod.split sum.split)

lemma drawId_now: "\<not> usedDraw m (randomInt32 E w) \<Longrightarrow> drawId E m w = Some (randomInt32 E w)"
  by (subst drawId.simps) (auto split: prod.split sum.split)

lemma drawId_first:
  "\<not> usedDraw m (draws E k w) \<Longrightarrow> \<forall>j < k. usedDraw m (draws E j w) \<Longrightarrow> drawId E m w = Some (draws E k w)"
proof (induction k arbitrary: w)
  case 0
  then show ?case unfolding draws.simps by (intro drawId_now)
next
  case (Suc k)
  have "usedDraw m (randomInt32 E w)" using spec[OF Suc.prems(2), of 0] by simp
  from drawId_again[OF this] show ?case
    using Suc.IH[of "snd (randomInt32 E w)"] Suc.prems by (simp add: all_less_Suc_cases)
qed

lemma drawId_stops:
  assumes "drawId E m w = Some y"
  shows "\<exists>k. \<not> usedDraw m (draws E k w)"
proof (rule drawId.raw_induct[OF _ assms])
  fix draw E m w y
  assume ih: "\<And>E m w y. draw E m w = Some y \<Longrightarrow> \<exists>k. \<not> usedDraw m (draws E k w)"
    and body: "(case randomInt32 E w of
       (Inl e, w') \<Rightarrow> Some (Inl e, w')
     | (Inr key, w') \<Rightarrow> if map_of m key = None then Some (Inr key, w') else draw E m w') = Some y"
  show "\<exists>k. \<not> usedDraw m (draws E k w)"
  proof (cases "usedDraw m (randomInt32 E w)")
    case False
    then show ?thesis by (intro exI[of _ 0]) simp
  next
    case True
    then have "draw E m (snd (randomInt32 E w)) = Some y"
      using body by (auto split: prod.splits sum.splits)
    from ih[OF this] obtain k where "\<not> usedDraw m (draws E k (snd (randomInt32 E w)))" by blast
    then show ?thesis by (intro exI[of _ "Suc k"]) simp
  qed
qed

lemma assigned_None: "AddStreamAssinged E sess st w = None \<longleftrightarrow> drawId E (sessStreams sess) w = None"
  by (cases "drawId E (sessStreams sess) w") (auto simp: AddStreamAssinged_def split: sum.splits)

text \<open>
  C12.  \<open>AddStreamAssinged\<close> returns if and only if some draw fails or is an id that is not in
  use, and then it acts on the first such draw: a failed draw stores nothing, otherwise the
  stream is stored under an id that was free and no other stream changes.
\<close>

theorem assigned_id_fresh:
  shows "(AddStreamAssinged E sess st w = None \<longleftrightarrow> (\<forall>k. usedDraw (sessStreams sess) (draws E k w)))
    \<and> (\<forall>k. \<not> usedDraw (sessStreams sess) (draws E k w) \<longrightarrow>
        (\<forall>j < k. usedDraw (sessStreams sess) (draws E j w)) \<longrightarrow>
        (case draws E k w of
           (Inl e, w') \<Rightarrow> AddStreamAssinged E sess st w = Some (None, sess, w')
         | (Inr key, w') \<Rightarrow> getStream sess key = None \<and>
             (\<exists>sess'. AddStreamAssinged E sess st w = Some (Some key, sess', w')
               \<and> getStream sess' key = Some (st\<lparr>streamId := key\<rparr>)
               \<and> (\<forall>key'. key' \<noteq> key \<longrightarrow> getStream sess' key' = getStream sess key'))))"
proof (intro conjI allI impI)
  let ?m = "sessStreams sess"
  have "drawId E ?m w = None \<longleftrightarrow> (\<forall>k. usedDraw ?m (draws E k w))"
  proof
    assume none: "drawId E ?m w = None"
    show "\<forall>k. usedDraw ?m (draws E k w)"
    proof (rule ccontr)
      assume "\<not> (\<forall>k. usedDraw ?m (draws E k w))"
      then obtain k where "\<not> usedDraw ?m (draws E k w)" by blast
      then obtain k where "\<not> usedDraw ?m (draws E k w)" "\<forall>j < k. usedDraw ?m (draws E j w)"
        using exists_least_iff[of "\<lambda>k. \<not> usedDraw ?m (draws E k w)"] by blast
      from drawId_first[OF this] none show False by simp
    qed
  next
    assume used: "\<forall>k. usedDraw ?m (draws E k w)"
    show "drawId E ?m w = None"
    proof (rule ccontr)
      assume "drawId E ?m w \<noteq> None"
      then obtain y where y: "drawId E ?m w = Some y" by blast
      from drawId_stops[OF y] show False using used by (elim exE notE) (rule spec)
    qed
  qed
  moreover have "AddStreamAssinged E sess st w = None \<longleftrightarrow> drawId E ?m w = None"
    by (rule assigned_None)
  ultimately show "AddStreamAssinged E sess st w = None \<longleftrightarrow> (\<forall>k. usedDraw ?m (draws E k w))"
    by (simp only:)
  fix k
  assume "\<not> usedDraw ?m (draws E k w)" and "\<forall>j < k. usedDraw ?m (draws E j w)"
  from drawId_first[OF this] this(1) show "case draws E k w of
      (Inl e, w') \<Rightarrow> AddStreamAssinged E sess st w = Some (None, sess, w')
    | (Inr key, w') \<Rightarrow> getStream sess key = None \<and>
        (\<exists>sess'. AddStreamAssinged E sess st w = Some (Some key, sess', w')
          \<and> getStream sess' key = Some (st\<lparr>streamId := key\<rparr>)
          \<and> (\<forall>key'. key' \<noteq> key \<longrightarrow> getStream sess' key' = getStream sess key'))"
    by (auto simp: AddStreamAssinged_def addStream_def setEntry_def getStream_def
        split: prod.split sum.split)
qed

text \<open>Stream 0 exists; the source yields 0 first, then 1.\<close>

theorem assigned_id_fresh_witness:
  "getStream (addStream (newSession ModeUnset) 0 (newStream 0 someConn)) 16843009 = None \<and>
    (\<exists>sess'. AddStreamAssinged tickEnv (addStream (newSession ModeUnset) 0 (newStream 0 someConn))
        (newStream 7 someConn) 0 = Some (Some 16843009, sess', 2)
      \<and> getStream sess' 16843009 = Some (newStream 16843009 someConn))"
proof -
  have d: "draws tickEnv 0 0 = (Inr 0, 1)" "draws tickEnv 1 0 = (Inr 16843009, 2)"
    by (code_simp, code_simp)
  have s: "sessStreams (addStream (newSession ModeUnset) 0 (newStream 0 someConn)) = [(0, newStream 0 someConn)]"
    by (simp add: addStream_def setEntry_def newSession_def newStream_def)
  have u: "\<not> usedDraw [(0, newStream 0 someConn)] (draws tickEnv 1 0)"
    "\<forall>j < 1. usedDraw [(0, newStream 0 someConn)] (draws tickEnv j 0)"
    unfolding d(2) by (simp, simp add: d(1) del: draws.simps)
  note C = assigned_id_fresh[of tickEnv "addStream (newSession ModeUnset) 0 (newStream 0 someConn)"
        "newStream 7 someConn" 0, unfolded s, THEN conjunct2, THEN spec[of _ 1], THEN mp, OF u(1), THEN mp, OF u(2)]
  show ?thesis using C[unfolded d(2)] by (auto simp: newStream_def)
qed

section \<open>Superseded streams\<close>

text \<open>What a request on a superseded stream leaves.\<close>

definition dropped :: "'d env \<Rightarrow> session \<Rightarrow> i32 \<Rightarrow> stream \<Rightarrow> 'd \<Rightarrow> 'd handled" where
  "dropped E sess key st w =
    (Inl StreamIsSuperseded, sess\<lparr>sessStreams := AList.delete key (sessStreams sess)\<rparr>,
     snd (streamClose E st w))"

lemma withStream_superseded:
  "getStream sess key = Some st \<Longrightarrow> IsSuperseded st \<Longrightarrow> withStream E sess key w act = dropped E sess key st w"
  by (simp add: withStream_def removeStream_def dropped_def)

lemma superseded_requests:
  assumes "getStream sess key = Some st" and "IsSuperseded st"
  shows "wsExecute E sess (key, stm) w = dropped E sess key st w"
    and "wsBatch E sess (key, b) w = dropped E sess key st w"
    and "wsSequence E sess (key, q) w = dropped E sess key st w"
    and "wsDescribe E sess (key, q) w = dropped E sess key st w"
    and "wsGetAutocommit E sess key w = dropped E sess key st w"
    and "wsOpenCursor E sess (key, c, b) w = dropped E sess key st w"
  by (cases q; simp add: wsExecute_def wsBatch_def wsSequence_def wsDescribe_def wsGetAutocommit_def
      wsOpenCursor_def withStream_superseded[OF assms])+

section \<open>Cursors of a session\<close>

fun wsFetches :: "session \<Rightarrow> i32 \<Rightarrow> u32 list \<Rightarrow> 'd \<Rightarrow> (error + ws_response) list \<times> session \<times> 'd" where
  "wsFetches sess c [] w = ([], sess, w)"
| "wsFetches sess c (n # ns) w =
    (case wsFetchCursor sess (c, n) w of
       (r, sess', w') \<Rightarrow> (case wsFetches sess' c ns w' of (rs, x) \<Rightarrow> (r # rs, x)))"

text \<open>The cursor is open on one stream of the session, and on no other.\<close>

definition onlyOn :: "session \<Rightarrow> i32 \<Rightarrow> i32 \<Rightarrow> bool" where
  "onlyOn sess key c \<longleftrightarrow>
    wf_map (sessStreams sess) \<and>
    (\<forall>k st. k \<noteq> key \<longrightarrow> getStream sess k = Some st \<longrightarrow> map_of (Cursors st) c = None)"

lemma find_only:
  "wf_map m \<Longrightarrow> map_of m key = Some st \<Longrightarrow> Q st \<Longrightarrow> (\<And>k s. k \<noteq> key \<Longrightarrow> map_of m k = Some s \<Longrightarrow> \<not> Q s) \<Longrightarrow>
    find (\<lambda>(k, s). Q s) m = Some (key, st)"
proof (induction m)
  case Nil
  then show ?case by simp
next
  case (Cons p m)
  obtain k s where p: "p = (k, s)" by (cases p)
  show ?case
  proof (cases "k = key")
    case True
    with Cons.prems p show ?thesis by simp
  next
    case False
    have "\<not> Q s" using Cons.prems(4)[of k s] False p by simp
    moreover have "\<not> Q s'" if "k' \<noteq> key" "map_of m k' = Some s'" for k' s'
    proof -
      have "k' \<in> keys m" using map_of_SomeD[OF that(2)] by force
      then have "k' \<noteq> k" using Cons.prems(1) p by auto
      then show ?thesis using Cons.prems(4)[of k' s'] that p by simp
    qed
    ultimately show ?thesis using Cons p False by simp
  qed
qed

lemma onlyOn_set:
  assumes "onlyOn sess key c"
  shows "onlyOn (setEntry sess key st) key c" and "getStream (setEntry sess key st) key = Some st"
proof -
  have "getStream (setEntry sess key st) k = (if k = key then Some st else getStream sess k)" for k
    by (simp add: getStream_def setEntry_def)
  then show "onlyOn (setEntry sess key st) key c" "getStream (setEntry sess key st) key = Some st"
    using assms unfolding onlyOn_def by (simp_all add: setEntry_def)
qed

lemma fetch_only:
  assumes "onlyOn sess key c" and "getStream sess key = Some st" and "map_of (Cursors st) c = Some cur"
    and "fetch cur n = ((es, fin), cur')"
  shows "\<exists>sess' st'. wsFetchCursor sess (c, n) w = (Inr (FetchCursorResp es fin), sess', w)
    \<and> onlyOn sess' key c \<and> getStream sess' key = Some st' \<and> map_of (Cursors st') c = Some cur'"
proof -
  let ?st = "st\<lparr>Cursors := AList.update c cur' (Cursors st)\<rparr>"
  have "find (\<lambda>(k, s). map_of (Cursors s) c \<noteq> None) (sessStreams sess) = Some (key, st)"
  proof (rule find_only)
    show "wf_map (sessStreams sess)" using assms(1) by (simp add: onlyOn_def)
    show "map_of (sessStreams sess) key = Some st" using assms(2) by (simp add: getStream_def)
    show "map_of (Cursors st) c \<noteq> None" using assms(3) by simp
    show "\<not> map_of (Cursors s) c \<noteq> None" if "k \<noteq> key" "map_of (sessStreams sess) k = Some s" for k s
      using assms(1) that by (simp add: onlyOn_def getStream_def)
  qed
  then have "wsFetchCursor sess (c, n) w = (Inr (FetchCursorResp es fin), setEntry sess key ?st, w)"
    using assms(3,4) by (simp add: wsFetchCursor_def)
  moreover have "onlyOn (setEntry sess key ?st) key c" "getStream (setEntry sess key ?st) key = Some ?st"
    by (rule onlyOn_set[OF assms(1)])+
  ultimately show ?thesis by (intro exI[of _ "setEntry sess key ?st"] exI[of _ ?st]) simp
qed

lemma wsFetches_only:
  "onlyOn sess key c \<Longrightarrow> getStream sess key = Some st \<Longrightarrow> map_of (Cursors st) c = Some cur \<Longrightarrow>
    fetchAll cur ns = ((outs, d), cur') \<Longrightarrow>
    \<exists>dones sess'. wsFetches sess c ns w = (map2 (\<lambda>es fin. Inr (FetchCursorResp es fin)) outs dones, sess', w)
      \<and> length dones = length outs \<and> (ns \<noteq> [] \<longrightarrow> dones \<noteq> [] \<and> last dones = d)"
proof (induction ns arbitrary: sess st cur outs d cur')
  case Nil
  then show ?case by auto
next
  case (Cons n ns)
  obtain es fin cur1 where f: "fetch cur n = ((es, fin), cur1)" by (metis surj_pair)
  obtain outs1 d1 cur2 where a: "fetchAll cur1 ns = ((outs1, d1), cur2)" by (metis surj_pair)
  have res: "outs = es # outs1" "d = d1" using Cons.prems(4) f a by auto
  obtain sess1 st1 where s: "wsFetchCursor sess (c, n) w = (Inr (FetchCursorResp es fin), sess1, w)"
    "onlyOn sess1 key c" "getStream sess1 key = Some st1" "map_of (Cursors st1) c = Some cur1"
    using fetch_only[OF Cons.prems(1-3) f, of w] by (elim exE conjE) (rule that)
  obtain dones sess2 where r:
    "wsFetches sess1 c ns w = (map2 (\<lambda>es fin. Inr (FetchCursorResp es fin)) outs1 dones, sess2, w)"
    "length dones = length outs1" "ns \<noteq> [] \<longrightarrow> dones \<noteq> [] \<and> last dones = d1"
    using Cons.IH[OF s(2-4) a] by (elim exE conjE) (rule that)
  have "last (fin # dones) = d"
  proof (cases ns)
    case Nil
    then have "dones = []" "d = cursorDone cur1" using a r(2) res(2) by auto
    moreover have "cursorDone cur1 = fin" using f by (auto simp: fetch_def Let_def)
    ultimately show ?thesis by simp
  next
    case Cons
    then show ?thesis using r(3) res(2) by simp
  qed
  then show ?case using s(1) r(1,2) res(1) by (intro exI[of _ "fin # dones"] exI[of _ sess2]) simp
qed

text \<open>
  C33.  Over WebSocket a cursor delivers the batch it was opened with: whatever counts the
  client asks for, the answers to its fetches are the entries the batch produced, in order
  and each once, \<open>done\<close> comes with the answer that reaches the last entry, and no fetch
  touches the database.  It needs the cursor id to be unused on the other streams.
\<close>

theorem ws_cursor_delivers:
  assumes "onlyOn sess key c" and "getStream sess key = Some st" and "\<not> IsSuperseded st"
    and "ns \<noteq> []"
  shows "\<exists>es w1 sess1 outs dones sess2.
      executeBatchCursor E st b (sessSQL sess) w = (Inr es, w1)
      \<and> wsOpenCursor E sess (key, c, b) w = (Inr OpenCursorResp, sess1, w1)
      \<and> wsFetches sess1 c ns w1 = (map2 (\<lambda>es fin. Inr (FetchCursorResp es fin)) outs dones, sess2, w1)
      \<and> length dones = length outs
      \<and> concat outs = take (sum_list (map unat ns)) es
      \<and> (last dones \<longleftrightarrow> length es \<le> sum_list (map unat ns))"
proof -
  obtain es w1 where "cursorLoop E st (sessSQL sess) 0 b (replicate (length b) None)
      (replicate (length b) None) w = (es, w1)" by (metis surj_pair)
  then have x: "executeBatchCursor E st b (sessSQL sess) w = (Inr es, w1)"
    by (simp add: executeBatchCursor_def)
  let ?cur = "newCursor c es"
  let ?st = "st\<lparr>Cursors := AList.update c ?cur (Cursors st)\<rparr>"
  let ?sess = "setEntry sess key ?st"
  have o: "wsOpenCursor E sess (key, c, b) w = (Inr OpenCursorResp, ?sess, w1)"
    using assms(2,3) x by (simp add: wsOpenCursor_def withStream_def)
  obtain outs d cur' where f: "fetchAll ?cur ns = ((outs, d), cur')" by (metis surj_pair)
  have "onlyOn ?sess key c" "getStream ?sess key = Some ?st" "map_of (Cursors ?st) c = Some ?cur"
    using onlyOn_set[OF assms(1)] by simp_all
  from wsFetches_only[OF this f, of w1] obtain dones sess2 where w:
    "wsFetches ?sess c ns w1 = (map2 (\<lambda>es fin. Inr (FetchCursorResp es fin)) outs dones, sess2, w1)"
    "length dones = length outs" "ns \<noteq> [] \<longrightarrow> dones \<noteq> [] \<and> last dones = d"
    by (elim exE conjE) (rule that)
  have con: "concat outs = take (sum_list (map unat ns)) es"
    and d: "d \<longleftrightarrow> length es \<le> sum_list (map unat ns)"
    using fetchAll_concat[OF cursorInv_new f] assms(4) by (simp_all add: newCursor_def)
  have "last dones = d" using w(3) assms(4) by simp
  then have "last dones \<longleftrightarrow> length es \<le> sum_list (map unat ns)" using d by simp
  then show ?thesis using x o w(1,2) con by (intro exI conjI) assumption+
qed

theorem ws_cursor_delivers_witness:
  "\<exists>sess1 w1. wsOpenCursor (pickyEnv '''') (oneStream ModeUnset) (1, 5, []) () = (Inr OpenCursorResp, sess1, w1)"
proof -
  have o: "onlyOn (oneStream ModeUnset) 1 5"
    by (simp add: onlyOn_def del: fun_upd_apply) (simp add: oneStream_def addStream_def setEntry_def newSession_def)
  show ?thesis
    using ws_cursor_delivers[OF o, of "(newStream 1 someConn)\<lparr>Mode := ModeUnset\<rparr>" "[10]" "pickyEnv ''''" "[]" "()"]
    by (auto simp: newStream_def)
qed

end
