(* ===== verification/Websocket.thy ===== *)
theory Websocket
  imports SessionRequests
begin

text \<open>
  The message loop of a WebSocket connection, \<open>runWSSession\<close> of \<open>src/websocket.go\<close>, with
  the choice of subprotocol and codec, the strike on instant errors, \<open>EvolveDatabase\<close> and the
  session counters of \<open>src/hrana.go\<close>.  The loop reads frames one at a time; every request it
  accepts runs in a goroutine of its own, so requests of a connection are pending together and
  answered in any order, also after the loop has ended.
\<close>

section \<open>Subprotocols\<close>

definition protoCandidates :: "(string \<times> string) list" where
  "protoCandidates =
    [(''hrana3'', ''v3''), (''hrana3-bin'', ''v3''), (''hrana2'', ''v2''), (''hrana2-bin'', ''v2''),
     (''hrana1'', ''v1''), (''hrana1-bin'', ''v1'')]"

definition enabledSubprotocols :: "'d config \<Rightarrow> string list" where
  "enabledSubprotocols conf =
    (if Versions conf = [] then map fst protoCandidates
     else map fst (filter (\<lambda>(proto, ver). isVersionEnabled conf ver) protoCandidates))"

fun matchSubprotocol :: "string list \<Rightarrow> string \<Rightarrow> string" where
  "matchSubprotocol [] clientHeader = []"
| "matchSubprotocol (server # servers) clientHeader =
    (if list_ex (\<lambda>offered. trimSpace offered = server) (splitByte CHR '','' clientHeader)
     then server else matchSubprotocol servers clientHeader)"

datatype ws_op = OpText | OpBinary | OpOther nat

definition codecForProto :: "string \<Rightarrow> codec \<times> ws_op" where
  "codecForProto proto =
    (if hasSuffix proto ''-bin'' then (MsgpackCodec, OpBinary) else (JSONCodec, OpText))"

section \<open>Messages\<close>

text \<open>
  Decoding a frame: its \<open>type\<close>, the token of a \<open>hello\<close>, and the envelope of a request.  In
  the msgpack envelope the inner request is a tree that is encoded again.
\<close>

record frame_decoders =
  frameType :: "codec \<Rightarrow> bytes \<Rightarrow> error + string"
  decHello :: "codec \<Rightarrow> bytes \<Rightarrow> error + string option"
  decRequestMsg :: "bytes \<Rightarrow> error + (i32 \<times> bytes)"
  decAnyRequest :: "bytes \<Rightarrow> error + (i32 \<times> msgpack)"
  marshalAny :: "msgpack \<Rightarrow> error + bytes"

definition extractWSRequest :: "frame_decoders \<Rightarrow> codec \<Rightarrow> bytes \<Rightarrow> error + (i32 \<times> bytes)" where
  "extractWSRequest F c msg =
    (case c of
       JSONCodec \<Rightarrow> decRequestMsg F msg
     | MsgpackCodec \<Rightarrow>
         (case decAnyRequest F msg of
            Inl e \<Rightarrow> Inl e
          | Inr (key, req) \<Rightarrow>
              (case marshalAny F req of Inl e \<Rightarrow> Inl e | Inr inner \<Rightarrow> Inr (key, inner))))"

datatype ws_message =
    HelloOkMsg
  | HelloErrorMsg hrana_error
  | ResponseOkMsg i32 ws_response
  | ResponseErrorMsg string i32 hrana_error

fun messageValues :: "ws_message \<Rightarrow> val list" where
  "messageValues (ResponseOkMsg key (ExecuteResp r)) = resultValues r"
| "messageValues (ResponseOkMsg key (BatchResp br)) = batchValues br"
| "messageValues (ResponseOkMsg key (FetchCursorResp es fin)) = concat (map entryValues es)"
| "messageValues m = []"

text \<open>\<open>sendMsg\<close>: its error is dropped by every caller, a message that does not encode is lost.\<close>

definition sendMsg :: "codec \<Rightarrow> ws_message \<Rightarrow> ws_message list \<Rightarrow> ws_message list" where
  "sendMsg c m sent = (if list_all (encodesVal c) (messageValues m) then sent @ [m] else sent)"

definition responseMsg :: "i32 \<Rightarrow> error + ws_response \<Rightarrow> ws_message" where
  "responseMsg key r =
    (case r of
       Inl e \<Rightarrow> ResponseErrorMsg
         (if e = StreamIsSuperseded then ''stream_superseded_error'' else ''response_error'')
         key (newError e)
     | Inr resp \<Rightarrow> ResponseOkMsg key resp)"

section \<open>A connection\<close>

record ws_conn =
  wcSess :: session
  wcProto :: string
  wcRemote :: string
  wcStart :: instant
  wcAuthed :: bool
  wcMadeRequest :: bool
  wcDeadline :: "instant option"
  wcReading :: bool
  wcFinished :: bool
  wcPending :: "(i32 \<times> bytes) list"
  wcSent :: "ws_message list"

definition newConn :: "string \<Rightarrow> conn_mode \<Rightarrow> string \<Rightarrow> instant \<Rightarrow> ws_conn" where
  "newConn proto mode remote now =
    \<lparr>wcSess = newSession mode, wcProto = proto, wcRemote = remote, wcStart = now, wcAuthed = False,
     wcMadeRequest = False, wcDeadline = None, wcReading = True, wcFinished = False,
     wcPending = [], wcSent = []\<rparr>"

abbreviation wcCodec :: "ws_conn \<Rightarrow> codec" where
  "wcCodec wc \<equiv> fst (codecForProto (wcProto wc))"

text \<open>What \<open>ReadMessage\<close> delivers.\<close>

datatype ws_frame = ReadFailed | Frame ws_op bytes

text \<open>\<open>New\<close> has put a function into \<open>AuthFunc\<close>; without one every token is accepted.\<close>

definition authenticate :: "'d config \<Rightarrow> string \<Rightarrow> 'd \<Rightarrow> (string + instant option) \<times> 'd" where
  "authenticate conf token w = (case AuthFunc conf of None \<Rightarrow> (Inr None, w) | Some f \<Rightarrow> f token w)"

text \<open>One iteration of the loop: the new connection state, and the request it spawned.\<close>

definition onHello :: "'d config \<Rightarrow> frame_decoders \<Rightarrow> bytes \<Rightarrow> ws_conn \<Rightarrow> 'd \<Rightarrow> ws_conn \<times> 'd" where
  "onHello conf F msg wc w =
    (case decHello F (wcCodec wc) msg of
       Inl e \<Rightarrow> (wc\<lparr>wcReading := False\<rparr>, w)
     | Inr jwt \<Rightarrow>
         (case authenticate conf (case jwt of None \<Rightarrow> [] | Some t \<Rightarrow> t) w of
            (Inl e, w') \<Rightarrow>
              (wc\<lparr>wcReading := False,
                  wcSent := sendMsg (wcCodec wc) (HelloErrorMsg (newError (AuthError e))) (wcSent wc)\<rparr>, w')
          | (Inr expiry, w') \<Rightarrow>
              (wc\<lparr>wcDeadline := expiry, wcAuthed := True,
                  wcSent := sendMsg (wcCodec wc) HelloOkMsg (wcSent wc)\<rparr>, w')))"

definition onRequest :: "bool \<Rightarrow> frame_decoders \<Rightarrow> bytes \<Rightarrow> ws_conn \<Rightarrow> ws_conn" where
  "onRequest shutting F msg wc =
    (let wc1 = wc\<lparr>wcMadeRequest := True\<rparr> in
     if \<not> wcAuthed wc1 then wc1\<lparr>wcReading := False\<rparr>
     else if shutting then wc1\<lparr>wcReading := False\<rparr>
     else (case extractWSRequest F (wcCodec wc1) msg of
             Inl e \<Rightarrow> wc1\<lparr>wcReading := False\<rparr>
           | Inr req \<Rightarrow> wc1\<lparr>wcPending := wcPending wc1 @ [req]\<rparr>))"

definition readFrame ::
  "'d server \<Rightarrow> frame_decoders \<Rightarrow> ws_frame \<Rightarrow> ws_conn \<Rightarrow> 'd \<Rightarrow> ws_conn \<times> 'd" where
  "readFrame s F frame wc w =
    (case frame of
       ReadFailed \<Rightarrow> (wc\<lparr>wcReading := False\<rparr>, w)
     | Frame op msg \<Rightarrow>
         (if op \<noteq> snd (codecForProto (wcProto wc)) then (wc\<lparr>wcReading := False\<rparr>, w)
          else (case frameType F (wcCodec wc) msg of
                  Inl e \<Rightarrow> (wc\<lparr>wcReading := False\<rparr>, w)
                | Inr ty \<Rightarrow>
                    (if ty = ''hello'' then onHello (config s) F msg wc w
                     else if ty = ''request'' then (onRequest (closing s) F msg wc, w)
                     else (wc\<lparr>wcReading := False\<rparr>, w)))))"

text \<open>The goroutine of a request: dispatch it and send the answer.\<close>

definition respond ::
  "'d env \<Rightarrow> ws_decoders \<Rightarrow> 'd server \<Rightarrow> nat \<Rightarrow> ws_conn \<Rightarrow> 'd \<Rightarrow> (ws_conn \<times> 'd) option" where
  "respond E D s k wc w =
    (case wcPending wc ! k of
       (key, raw) \<Rightarrow>
         (case dispatchWSRequest E D s raw (wcCodec wc) (wcProto wc) (wcSess wc) w of
            None \<Rightarrow> None
          | Some (r, sess', w') \<Rightarrow>
              Some (wc\<lparr>wcSess := sess', wcPending := take k (wcPending wc) @ drop (Suc k) (wcPending wc),
                       wcSent := sendMsg (wcCodec wc) (responseMsg key r) (wcSent wc)\<rparr>, w')))"

text \<open>
  The deferred calls of \<open>runWSSession\<close>, last deferred first: the strike, leaving the table
  of connections, closing the streams.
\<close>

definition strikeDue :: "blacklist_config \<Rightarrow> instant \<Rightarrow> ws_conn \<Rightarrow> bool" where
  "strikeDue cfg now wc \<longleftrightarrow>
    now - wcStart wc < InstantErrorThreshold cfg \<and> (\<not> wcAuthed wc \<or> \<not> wcMadeRequest wc)"

definition finishConn ::
  "'d env \<Rightarrow> 'd server \<Rightarrow> ws_conn \<Rightarrow> 'd \<Rightarrow> 'd server \<times> ws_conn \<times> 'd" where
  "finishConn E s wc w =
    (let now = clock E w;
         bl = (if blacklist s \<noteq> None \<and> strikeDue (BlacklistConf (config s)) now wc
               then fst (recordBlacklistStrike (wcRemote wc) now (blacklist s)) else blacklist s)
     in case closeAll E (wcSess wc) w of
          (sess', w') \<Rightarrow> (s\<lparr>blacklist := bl\<rparr>, wc\<lparr>wcSess := sess', wcFinished := True\<rparr>, w'))"

section \<open>The database evolves\<close>

text \<open>
  \<open>EvolveDatabase\<close> swaps the database and marks the streams of the connections in the table;
  a finished connection is not in it.  The streams behind the batons are not visited.
\<close>

definition supersede :: "i64 \<Rightarrow> stream \<Rightarrow> stream" where
  "supersede newGen st = (if connGeneration (Conn st) = newGen then st else st\<lparr>IsSuperseded := True\<rparr>)"

definition evolveSession :: "i64 \<Rightarrow> session \<Rightarrow> session" where
  "evolveSession newGen sess =
    sess\<lparr>sessStreams := map (\<lambda>(key, st). (key, supersede newGen st)) (sessStreams sess)\<rparr>"

definition evolveDatabase ::
  "nat \<Rightarrow> 'd server \<Rightarrow> ws_conn list \<Rightarrow> 'd server \<times> ws_conn list" where
  "evolveDatabase h s wcs =
    (let newGen = gdbGeneration (db s) + 1
     in (s\<lparr>db := \<lparr>gdbHandle = h, gdbGeneration = newGen\<rparr>\<rparr>,
         map (\<lambda>wc. if wcFinished wc then wc else wc\<lparr>wcSess := evolveSession newGen (wcSess wc)\<rparr>) wcs))"

section \<open>All connections together\<close>

text \<open>
  The steps of the server: a connection is accepted, its loop reads a frame, one of its
  pending requests is answered, its deferred calls run, the database evolves, the server
  starts to shut down, and anything else happens outside.  \<open>drain\<close> restricts the runs to
  those in which a connection finishes after its requests have been answered.  The events
  of a run record which requests were received and answered on which connection.
\<close>

datatype ws_event = Accepted | Received nat i32 | Answered nat i32 | Quiet

type_synonym 'd ws_world = "'d server \<times> ws_conn list \<times> 'd"

definition received :: "nat \<Rightarrow> ws_conn \<Rightarrow> ws_conn \<Rightarrow> ws_event" where
  "received i wc wc' =
    (if length (wcPending wc) < length (wcPending wc') then Received i (fst (last (wcPending wc'))) else Quiet)"

inductive ws_step ::
  "'d env \<Rightarrow> ws_decoders \<Rightarrow> frame_decoders \<Rightarrow> bool \<Rightarrow> ws_event \<Rightarrow>
    ('d \<times> int) ws_world \<Rightarrow> ('d \<times> int) ws_world \<Rightarrow> bool"
  for E D F drain where
  accept: "matchSubprotocol (enabledSubprotocols (config s)) hdr = proto \<Longrightarrow> proto \<noteq> [] \<Longrightarrow>
    parseMode q = Inr mode \<Longrightarrow> \<not> closing s \<Longrightarrow>
    ws_step E D F drain Accepted (s, wcs, w) (s, wcs @ [newConn proto mode remote (clock (counted E) w)], w)"
| frame: "i < length wcs \<Longrightarrow> wcs ! i = wc \<Longrightarrow> wcReading wc \<Longrightarrow>
    readFrame s F fr wc w = (wc', w') \<Longrightarrow>
    ws_step E D F drain (received i wc wc') (s, wcs, w) (s, wcs[i := wc'], w')"
| answer: "i < length wcs \<Longrightarrow> wcs ! i = wc \<Longrightarrow> k < length (wcPending wc) \<Longrightarrow>
    respond (counted E) D s k wc w = Some (wc', w') \<Longrightarrow>
    ws_step E D F drain (Answered i (fst (wcPending wc ! k))) (s, wcs, w) (s, wcs[i := wc'], w')"
| finish: "i < length wcs \<Longrightarrow> wcs ! i = wc \<Longrightarrow> \<not> wcReading wc \<Longrightarrow> \<not> wcFinished wc \<Longrightarrow>
    (drain \<longrightarrow> wcPending wc = []) \<Longrightarrow> finishConn (counted E) s wc w = (s', wc', w') \<Longrightarrow>
    ws_step E D F drain Quiet (s, wcs, w) (s', wcs[i := wc'], w')"
| evolve: "evolveDatabase h s wcs = (s', wcs') \<Longrightarrow> ws_step E D F drain Quiet (s, wcs, w) (s', wcs', w)"
| shutdown: "ws_step E D F drain Quiet (s, wcs, w) (s\<lparr>closing := True\<rparr>, wcs, w)"
| outside: "ws_step E D F drain Quiet (s, wcs, w, n) (s, wcs, w', n)"

inductive ws_run ::
  "'d env \<Rightarrow> ws_decoders \<Rightarrow> frame_decoders \<Rightarrow> bool \<Rightarrow> nat \<Rightarrow> ('d \<times> int) config \<Rightarrow>
    ws_event list \<Rightarrow> ('d \<times> int) ws_world \<Rightarrow> bool"
  for E D F drain h conf where
  start: "ws_run E D F drain h conf [] (newServer h conf, [], w, 0)"
| step: "ws_run E D F drain h conf evs x \<Longrightarrow> ws_step E D F drain ev x y \<Longrightarrow>
    ws_run E D F drain h conf (evs @ [ev]) y"

end
