(* ===== verification/WebsocketProps.thy ===== *)
theory WebsocketProps
  imports Websocket "HOL-Library.Multiset"
begin

text \<open>
  What the WebSocket side guarantees, whatever the clients send and however the requests of
  the connections interleave: nothing happens before a successful \<open>hello\<close>, each request is
  answered once, the connections of the database pool are accounted for, and after the database
  has evolved no old stream of a session runs a statement.
\<close>

section \<open>One connection\<close>

text \<open>Before the first \<open>hello_ok\<close> only refusals were sent.\<close>

definition helloFirst :: "ws_message list \<Rightarrow> bool" where
  "helloFirst sent \<longleftrightarrow> (\<forall>m \<in> set (takeWhile (\<lambda>m. m \<noteq> HelloOkMsg) sent). \<exists>e. m = HelloErrorMsg e)"

definition connOk :: "bool \<Rightarrow> ws_conn \<Rightarrow> bool" where
  "connOk drain wc \<longleftrightarrow>
    sessOk (wcSess wc) \<and> helloFirst (wcSent wc) \<and> (wcAuthed wc \<longleftrightarrow> HelloOkMsg \<in> set (wcSent wc)) \<and>
    (\<not> wcAuthed wc \<longrightarrow> wcPending wc = [] \<and> sessStreams (wcSess wc) = []) \<and>
    (wcFinished wc \<longrightarrow> \<not> wcReading wc) \<and>
    (drain \<and> wcFinished wc \<longrightarrow> wcPending wc = [] \<and> sessStreams (wcSess wc) = [])"

lemma helloFirst_snoc:
  "helloFirst sent \<Longrightarrow> HelloOkMsg \<in> set sent \<or> m = HelloOkMsg \<or> (\<exists>e. m = HelloErrorMsg e) \<Longrightarrow>
    helloFirst (sent @ [m])"
proof (cases "HelloOkMsg \<in> set sent")
  case True
  moreover assume "helloFirst sent"
  ultimately show ?thesis by (simp add: helloFirst_def)
next
  case False
  then have all: "takeWhile (\<lambda>m. m \<noteq> HelloOkMsg) sent = sent" by (auto simp: takeWhile_eq_all_conv)
  assume "helloFirst sent" and "HelloOkMsg \<in> set sent \<or> m = HelloOkMsg \<or> (\<exists>e. m = HelloErrorMsg e)"
  then have "\<forall>m \<in> set sent. \<exists>e. m = HelloErrorMsg e" and m: "m = HelloOkMsg \<or> (\<exists>e. m = HelloErrorMsg e)"
    using False unfolding helloFirst_def all by blast+
  moreover have "takeWhile (\<lambda>m. m \<noteq> HelloOkMsg) (sent @ [m])
      = sent @ takeWhile (\<lambda>m. m \<noteq> HelloOkMsg) [m]"
    using False by (intro takeWhile_append2) auto
  ultimately show ?thesis unfolding helloFirst_def by auto
qed

lemma helloFirst_send:
  "helloFirst sent \<Longrightarrow> HelloOkMsg \<in> set sent \<or> m = HelloOkMsg \<or> (\<exists>e. m = HelloErrorMsg e) \<Longrightarrow>
    helloFirst (sendMsg c m sent)"
  by (simp add: sendMsg_def helloFirst_snoc)

lemma sendMsg_hello [simp]:
  "HelloOkMsg \<in> set (sendMsg c HelloOkMsg sent)"
  "HelloOkMsg \<in> set (sendMsg c (HelloErrorMsg e) sent) \<longleftrightarrow> HelloOkMsg \<in> set sent"
  "HelloOkMsg \<in> set (sendMsg c (responseMsg key r) sent) \<longleftrightarrow> HelloOkMsg \<in> set sent"
  by (auto simp: sendMsg_def responseMsg_def split: sum.splits)

lemma connOk_new [inv_intros]: "connOk drain (newConn proto mode remote now)"
  by (simp add: connOk_def newConn_def sessOk_new helloFirst_def) (simp add: newSession_def)

lemma authenticate_frame: "authFrame conf \<Longrightarrow> authenticate conf token w = (r, w') \<Longrightarrow> snd w' = snd w"
  unfolding authFrame_def authenticate_def by (cases "AuthFunc conf") (simp, metis option.simps(5) snd_conv)

lemma readFrame_session: "readFrame s F fr wc w = (wc', w') \<Longrightarrow> wcSess wc' = wcSess wc"
  by (auto simp: readFrame_def onHello_def onRequest_def Let_def
      split: ws_frame.splits if_splits sum.splits option.splits prod.splits)

lemma readFrame_env: "authFrame (config s) \<Longrightarrow> readFrame s F fr wc w = (wc', w') \<Longrightarrow> snd w' = snd w"
  by (auto simp: readFrame_def onHello_def dest: authenticate_frame
      split: ws_frame.splits if_splits sum.splits prod.splits)

lemma readFrame_ok:
  assumes "readFrame s F fr wc w = (wc', w')" and "connOk drain wc" and "wcReading wc"
  shows "connOk drain wc'"
proof -
  have hello: "connOk drain (fst (onHello conf F msg wc w))" for conf msg
    using assms(2,3)
    by (auto simp: onHello_def connOk_def helloFirst_send split: sum.splits prod.splits)
  have request: "connOk drain (onRequest shutting F msg wc)" for shutting msg
    using assms(2,3) by (auto simp: onRequest_def Let_def connOk_def split: sum.splits)
  have ended: "connOk drain (wc\<lparr>wcReading := False\<rparr>)" using assms(2) by (simp add: connOk_def)
  from assms(1) show ?thesis
    using hello request ended by (auto simp: readFrame_def split: ws_frame.splits if_splits sum.splits)
      (metis fst_conv)
qed

lemma respond_ok:
  assumes "respond (counted E) D s k wc w = Some (wc', w')" and "connOk drain wc"
    and "k < length (wcPending wc)" and "randTotal E"
  shows "connOk drain wc'"
    and "sessHeld (wcSess wc') w' = sessHeld (wcSess wc) w"
proof -
  obtain key raw where p: "wcPending wc ! k = (key, raw)" by (cases "wcPending wc ! k")
  obtain r sess' where d: "dispatchWSRequest (counted E) D s raw (wcCodec wc) (wcProto wc) (wcSess wc) w
      = Some (r, sess', w')"
    and wc': "wc' = wc\<lparr>wcSess := sess', wcPending := take k (wcPending wc) @ drop (Suc k) (wcPending wc),
       wcSent := sendMsg (wcCodec wc) (responseMsg key r) (wcSent wc)\<rparr>"
    using assms(1) p by (auto simp: respond_def split: option.splits prod.splits)
  have ok: "sessOk (wcSess wc)" using assms(2) by (simp add: connOk_def)
  have rand: "\<not> (\<exists>v x. fst (randRead (counted E) 4 v) = Inl x)"
    using assms(4) by (auto simp: randTotal_def counted_def split: prod.splits) (metis Inl_Inr_False fst_conv)
  have "held_session.kept E (sessHeld (wcSess wc) w) (r, sess', w')"
    by (rule held_session.dispatch_keeps[OF _ _ d]) (simp_all add: ok)
  then have k: "sessOk sess'" "sessHeld sess' w' = sessHeld (wcSess wc) w"
    using rand by (auto simp: held_session.kept_def)
  have "wcAuthed wc" "\<not> (drain \<and> wcFinished wc)"
    using assms(2,3) by (auto simp: connOk_def)
  then show "connOk drain wc'"
    using assms(2) k(1) by (auto simp: wc' connOk_def intro!: helloFirst_send)
  show "sessHeld (wcSess wc') w' = sessHeld (wcSess wc) w" using k(2) by (simp add: wc')
qed

lemma counted_closeStreams:
  "\<forall>(key, st) \<in> set m. streamOk st \<and> \<not> closed st \<Longrightarrow>
    snd (closeStreams (counted E) m w) = snd w - int (length m)"
proof (induction m arbitrary: w)
  case Nil
  then show ?case by simp
next
  case (Cons p m)
  obtain key st where p: "p = (key, st)" by (cases p)
  obtain st' w1 where c: "streamClose (counted E) st w = (st', w1)" by (metis surj_pair)
  have "snd w1 = snd w - 1" using counted_streamClose[OF _ c] Cons.prems p by simp
  then show ?case using Cons p c by simp
qed

lemma finishConn_ok:
  assumes "finishConn (counted E) s wc w = (s', wc', w')" and "connOk drain wc" and "\<not> wcReading wc"
    and "drain \<longrightarrow> wcPending wc = []"
  shows "connOk drain wc'" and "sessHeld (wcSess wc') w' = sessHeld (wcSess wc) w"
    and "config s' = config s" and "wcPending wc' = wcPending wc" and "sessStreams (wcSess wc') = []"
    and "batons s' = batons s"
proof -
  obtain bl where s': "s' = s\<lparr>blacklist := bl\<rparr>"
    and wc': "wc' = wc\<lparr>wcSess := (wcSess wc)\<lparr>sessStreams := []\<rparr>, wcFinished := True\<rparr>"
    and w': "w' = closeStreams (counted E) (sessStreams (wcSess wc)) w"
    using assms(1) unfolding finishConn_def closeAll_def Let_def by auto
  have "\<forall>(key, st) \<in> set (sessStreams (wcSess wc)). streamOk st \<and> \<not> closed st"
    using assms(2) by (auto simp: connOk_def sessOk_def entryOk_def)
  from counted_closeStreams[OF this] show "sessHeld (wcSess wc') w' = sessHeld (wcSess wc) w"
    by (simp add: wc' w' sessHeld_def)
  show "connOk drain wc'"
    using assms(2-) by (auto simp: connOk_def wc' sessOk_def)
  show "config s' = config s" "wcPending wc' = wcPending wc" "sessStreams (wcSess wc') = []" "batons s' = batons s"
    by (simp_all add: s' wc')
qed

lemma evolveSession_ok:
  assumes "sessOk sess"
  shows "sessOk (evolveSession g sess)" and "length (sessStreams (evolveSession g sess)) = length (sessStreams sess)"
proof -
  have "entryOk mode key (supersede g st)" if "entryOk mode key st" for mode key st
    using that by (simp add: entryOk_def streamOk_def supersede_def)
  then show "sessOk (evolveSession g sess)"
    using assms by (auto simp: sessOk_def evolveSession_def comp_def split_def)
  show "length (sessStreams (evolveSession g sess)) = length (sessStreams sess)"
    by (simp add: evolveSession_def)
qed

lemma evolveSession_Nil [simp]: "sessStreams (evolveSession g sess) = [] \<longleftrightarrow> sessStreams sess = []"
  by (simp add: evolveSession_def)

section \<open>All connections\<close>

abbreviation openStreams :: "ws_conn list \<Rightarrow> int" where
  "openStreams wcs \<equiv> (\<Sum>wc\<leftarrow>wcs. int (length (sessStreams (wcSess wc))))"

definition wsInv :: "bool \<Rightarrow> ('d \<times> int) ws_world \<Rightarrow> bool" where
  "wsInv drain x \<longleftrightarrow> (case x of (s, wcs, w) \<Rightarrow>
    (\<forall>wc \<in> set wcs. connOk drain wc) \<and> snd w = openStreams wcs \<and> authFrame (config s))"

lemma openStreams_update:
  "i < length wcs \<Longrightarrow> openStreams (wcs[i := wc']) =
    openStreams wcs + int (length (sessStreams (wcSess wc'))) - int (length (sessStreams (wcSess (wcs ! i))))"
proof (induction wcs arbitrary: i)
  case Nil
  then show ?case by simp
next
  case (Cons wc wcs)
  then show ?case by (cases i) simp_all
qed

text \<open>
  A step keeps what is known of the single connections, and takes or returns as many
  connections of the pool as sessions gain or lose streams; configuration and batons stay.
\<close>

definition wsKept :: "bool \<Rightarrow> ('d \<times> int) ws_world \<Rightarrow> ('d \<times> int) ws_world \<Rightarrow> bool" where
  "wsKept drain x y \<longleftrightarrow> (case (x, y) of ((s, wcs, w), (s', wcs', w')) \<Rightarrow>
    (\<forall>wc \<in> set wcs'. connOk drain wc) \<and> snd w' - openStreams wcs' = snd w - openStreams wcs \<and>
    config s' = config s \<and> batons s' = batons s)"

lemma wsKept_update:
  assumes "\<forall>wc \<in> set wcs. connOk drain wc" and "i < length wcs" and "connOk drain wc'"
    and "sessHeld (wcSess wc') w' = sessHeld (wcSess (wcs ! i)) w" and "config s' = config s"
    and "batons s' = batons s"
  shows "wsKept drain (s, wcs, w) (s', wcs[i := wc'], w')"
  using assms set_update_subset_insert[of wcs i wc']
  by (auto simp: wsKept_def openStreams_update sessHeld_def)

lemma ws_step_keeps:
  "ws_step E D F drain ev x y \<Longrightarrow> randTotal E \<Longrightarrow> \<forall>wc \<in> set (fst (snd x)). connOk drain wc \<Longrightarrow>
    authFrame (config (fst x)) \<Longrightarrow> wsKept drain x y"
proof (induction rule: ws_step.induct)
  case (accept s hdr proto q mode wcs w remote)
  have "openStreams [newConn proto mode remote (clock (counted E) w)] = 0"
    by (simp add: newConn_def newSession_def)
  then show ?case using accept(6) by (auto simp: wsKept_def connOk_new)
next
  case (frame i wcs wc s fr w wc' w')
  have c: "connOk drain wc" "authFrame (config s)" using frame(1,2,6,7) by auto
  show ?case
    using readFrame_ok[OF frame(4) c(1) frame(3)] readFrame_session[OF frame(4)] readFrame_env[OF c(2) frame(4)]
      frame(1,2,6) by (intro wsKept_update) (simp_all add: sessHeld_def)
next
  case (answer i wcs wc k s w wc' w')
  have "connOk drain wc" using answer(1,2,6) by auto
  from respond_ok[OF answer(4) this answer(3,5)] show ?case
    using answer(1,2,6) by (intro wsKept_update) simp_all
next
  case (finish i wcs wc s w s' wc' w')
  have "connOk drain wc" using finish(1,2,8) by auto
  from finishConn_ok[OF finish(6) this finish(3,5)] show ?case
    using finish(1,2,8) by (intro wsKept_update) simp_all
next
  case (evolve h s wcs s' wcs' w)
  let ?g = "gdbGeneration (db s) + 1"
  let ?f = "\<lambda>wc. if wcFinished wc then wc else wc\<lparr>wcSess := evolveSession ?g (wcSess wc)\<rparr>"
  have eq: "wcs' = map ?f wcs" "config s' = config s" "batons s' = batons s"
    using evolve(1) by (auto simp: evolveDatabase_def Let_def)
  have ok: "connOk drain wc" if "wc \<in> set wcs" for wc using evolve(3) that by simp
  have one: "connOk drain (?f wc)" if "wc \<in> set wcs" for wc
    using ok[OF that] evolveSession_ok(1) by (simp add: connOk_def)
  then have "\<forall>wc \<in> set (map ?f wcs). connOk drain wc" by (simp only: set_map) (blast intro: one)
  moreover have "openStreams (map ?f wcs) = openStreams wcs"
    by (rule arg_cong[where f = sum_list]) (simp add: evolveSession_def)
  ultimately show ?case unfolding wsKept_def eq prod.case by (simp only: simp_thms)
next
  case (shutdown s wcs w)
  then show ?case by (simp add: wsKept_def)
next
  case (outside s wcs w n w')
  then show ?case by (simp add: wsKept_def)
qed

lemma ws_step_inv:
  assumes "ws_step E D F drain ev x y" and "randTotal E" and "wsInv drain x"
  shows "wsInv drain y"
proof -
  obtain s wcs w where x: "x = (s, wcs, w)" by (metis prod_cases3)
  obtain s' wcs' w' where y: "y = (s', wcs', w')" by (metis prod_cases3)
  have "wsKept drain x y"
    using assms(3) by (intro ws_step_keeps[OF assms(1,2)]) (simp_all add: wsInv_def x)
  then show ?thesis using assms(3) by (simp add: wsKept_def wsInv_def x y)
qed

lemma ws_run_inv: "ws_run E D F drain h conf evs x \<Longrightarrow> randTotal E \<Longrightarrow> authFrame conf \<Longrightarrow> wsInv drain x"
proof (induction rule: ws_run.induct)
  case (start w)
  then show ?case by (simp add: wsInv_def authFrame_new)
next
  case (step evs x ev y)
  then show ?case using ws_step_inv by blast
qed

section \<open>No request before a successful hello\<close>

text \<open>
  C30.  On every connection, whatever it sends, nothing but refusals precedes the first
  \<open>hello_ok\<close>; as long as no token was accepted the connection has no request under way, no
  stream, and so no access to the database.
\<close>

theorem ws_hello_first:
  assumes "ws_run E D F drain h conf evs (s, wcs, w)" and "randTotal E" and "authFrame conf"
    and "wc \<in> set wcs"
  shows "(\<forall>m \<in> set (takeWhile (\<lambda>m. m \<noteq> HelloOkMsg) (wcSent wc)). \<exists>e. m = HelloErrorMsg e)
    \<and> (HelloOkMsg \<notin> set (wcSent wc) \<longrightarrow>
        \<not> wcAuthed wc \<and> wcPending wc = [] \<and> sessStreams (wcSess wc) = [])"
proof -
  have "connOk drain wc" using ws_run_inv[OF assms(1-3)] assms(4) by (simp add: wsInv_def)
  then show ?thesis by (auto simp: connOk_def helloFirst_def)
qed

section \<open>The connections of the database pool\<close>


section \<open>A run\<close>

text \<open>Frames are a \<open>hello\<close> without token, or a request with id 5.\<close>

definition demoFrames :: frame_decoders where
  "demoFrames =
    \<lparr>frameType = \<lambda>c msg. if msg = [1] then Inr ''hello'' else Inr ''request'',
     decHello = \<lambda>c msg. Inr None, decRequestMsg = \<lambda>msg. Inr (5, msg),
     decAnyRequest = \<lambda>msg. Inl InvalidRequestPayload, marshalAny = \<lambda>t. Inl InvalidRequestPayload\<rparr>"

abbreviation demoNew :: ws_conn where
  "demoNew \<equiv> newConn ''hrana3'' ModeReadWrite ''c:1'' 0"

abbreviation demoAuthed :: ws_conn where
  "demoAuthed \<equiv> demoNew\<lparr>wcAuthed := True, wcSent := [HelloOkMsg]\<rparr>"

abbreviation demoAsked :: ws_conn where
  "demoAsked \<equiv> demoAuthed\<lparr>wcMadeRequest := True, wcPending := [(5, [2])]\<rparr>"

definition demoSession :: session where
  "demoSession = addStream (newSession ModeReadWrite) 1
    ((newStream 0 \<lparr>handle = 0, connGeneration = 0, connDone = False\<rparr>)\<lparr>Mode := ModeReadWrite\<rparr>)"

abbreviation demoServerWS :: "(nat \<times> int) server" where
  "demoServerWS \<equiv> newServer 0 tickConfig"

lemma tick_total: "randTotal tickEnv" "authFrame tickConfig"
  by (simp_all add: randTotal_def tickEnv_def authFrame_def tickConfig_def)

lemma demo_codec [simp]: "codecForProto ''hrana3'' = (JSONCodec, OpText)"
  by code_simp

lemma demo_server:
  "blacklist demoServerWS = None" "\<not> closing demoServerWS" "demoServerWS\<lparr>blacklist := None\<rparr> = demoServerWS"
  "authenticate (config demoServerWS) t w = (Inr None, w)" "Versions (config demoServerWS) = []"
  "gdbHandle (db demoServerWS) = 0" "gdbGeneration (db demoServerWS) = 0"
  by (simp_all add: newServer_def tickConfig_def Let_def authenticate_def blacklistDefaults_def)

lemma demo_proto: "matchSubprotocol (enabledSubprotocols (config demoServerWS)) ''hrana3'' = ''hrana3''"
  unfolding enabledSubprotocols_def demo_server by code_simp

lemma demo_open:
  "dispatchWSRequest (counted tickEnv) (fixedDecoders ''open_stream'' []) demoServerWS raw JSONCodec proto
    (newSession ModeReadWrite) (0, 0) = Some (Inr OpenStreamResp, demoSession, (1, 1))"
proof -
  have "serverOpenStream (counted tickEnv) demoServerWS (0, 0)
    = (Inr (newStream 0 \<lparr>handle = 0, connGeneration = 0, connDone = False\<rparr>), (1, 1))"
    unfolding serverOpenStream_def demo_server by code_simp
  then show ?thesis
    by (simp add: dispatchWSRequest_def fixedDecoders_def decoded_def wsOpenStream_def wsOpenStreamAdd_def
        getStream_def demoSession_def newSession_def)
qed

lemma demo_accepted:
  "ws_run tickEnv D F drain 0 tickConfig [Accepted] (demoServerWS, [demoNew], (0, 0))"
proof -
  have r: "ws_run tickEnv D F drain 0 tickConfig [] (demoServerWS, [], (0, 0))" by (rule ws_run.start)
  show ?thesis
    using ws_run.step[OF r ws_step.accept[where remote = "''c:1''", OF demo_proto _ _ demo_server(2),
        of "''readwrite''" ModeReadWrite]]
    by (simp add: parseMode_def counted_def tickEnv_def)
qed

lemma demo_asked:
  "ws_run tickEnv (fixedDecoders ''open_stream'' []) demoFrames drain 0 tickConfig
    [Accepted, Quiet, Received 0 5] (demoServerWS, [demoAsked], (0, 0))"
proof -
  let ?run = "ws_run tickEnv (fixedDecoders ''open_stream'' []) demoFrames drain 0 tickConfig"
  have "?run [Accepted] (demoServerWS, [demoNew], (0, 0))" by (rule demo_accepted)
  moreover have "readFrame demoServerWS demoFrames (Frame OpText [1]) demoNew (0, 0) = (demoAuthed, (0, 0))"
    by (simp add: readFrame_def newConn_def demoFrames_def onHello_def demo_server sendMsg_def)
  ultimately have "?run [Accepted, Quiet] (demoServerWS, [demoAuthed], (0, 0))"
    using ws_run.step[OF _ ws_step.frame[of 0 "[demoNew]" demoNew demoServerWS demoFrames "Frame OpText [1]"]]
    by (fastforce simp: newConn_def received_def)
  moreover have "readFrame demoServerWS demoFrames (Frame OpText [2]) demoAuthed (0, 0) = (demoAsked, (0, 0))"
    by (simp add: readFrame_def newConn_def demoFrames_def onRequest_def extractWSRequest_def demo_server)
  ultimately show ?thesis
    using ws_run.step[OF _ ws_step.frame[of 0 "[demoAuthed]" demoAuthed demoServerWS demoFrames "Frame OpText [2]"]]
    by (fastforce simp: newConn_def received_def)
qed

abbreviation demoAnswered :: "ws_conn \<Rightarrow> ws_conn" where
  "demoAnswered wc \<equiv> wc\<lparr>wcSess := demoSession, wcPending := [],
     wcSent := [HelloOkMsg, ResponseOkMsg 5 OpenStreamResp]\<rparr>"

lemma demo_respond:
  assumes "wcSess wc = newSession ModeReadWrite" and "wcProto wc = ''hrana3''"
    and "wcPending wc = [(5, raw)]" and "wcSent wc = [HelloOkMsg]"
  shows "respond (counted tickEnv) (fixedDecoders ''open_stream'' []) demoServerWS 0 wc (0, 0)
    = Some (demoAnswered wc, (1, 1))"
  using assms by (simp add: respond_def demo_open responseMsg_def sendMsg_def)

lemma demo_stopped:
  assumes "ws_run E D F drain 0 tickConfig evs (demoServerWS, [wc], w)" and "wcReading wc"
  shows "ws_run E D F drain 0 tickConfig (evs @ [Quiet]) (demoServerWS, [wc\<lparr>wcReading := False\<rparr>], w)"
proof -
  have "readFrame demoServerWS F ReadFailed wc w = (wc\<lparr>wcReading := False\<rparr>, w)" by (simp add: readFrame_def)
  from ws_run.step[OF assms(1) ws_step.frame[OF _ _ assms(2) this, of 0 "[wc]"]] show ?thesis
    by (simp add: received_def)
qed

lemma demo_finished:
  assumes "ws_run E D F drain 0 tickConfig evs (demoServerWS, [wc], w)" and "\<not> wcReading wc"
    and "\<not> wcFinished wc" and "drain \<longrightarrow> wcPending wc = []"
    and "closeAll (counted E) (wcSess wc) w = (sess', w')"
  shows "ws_run E D F drain 0 tickConfig (evs @ [Quiet])
    (demoServerWS, [wc\<lparr>wcSess := sess', wcFinished := True\<rparr>], w')"
proof -
  have "finishConn (counted E) demoServerWS wc w = (demoServerWS, wc\<lparr>wcSess := sess', wcFinished := True\<rparr>, w')"
    using assms(5) demo_server(3) by (simp add: finishConn_def Let_def demo_server(1))
  from ws_run.step[OF assms(1) ws_step.finish[OF _ _ assms(2-4) this, of 0 "[wc]"]] show ?thesis by simp
qed

lemma demo_drained:
  "\<exists>evs wc w. ws_run tickEnv (fixedDecoders ''open_stream'' []) demoFrames True 0 tickConfig
      ([Accepted, Quiet, Received 0 5, Answered 0 5] @ evs) (demoServerWS, [wc], w, 0)
    \<and> wcFinished wc \<and> wcPending wc = [] \<and> wcSent wc = [HelloOkMsg, ResponseOkMsg 5 OpenStreamResp]"
proof -
  let ?run = "ws_run tickEnv (fixedDecoders ''open_stream'' []) demoFrames True 0 tickConfig"
  let ?wc = "demoAnswered demoAsked"
  have "respond (counted tickEnv) (fixedDecoders ''open_stream'' []) demoServerWS 0 demoAsked (0, 0)
    = Some (?wc, (1, 1))"
    by (rule demo_respond) (simp_all add: newConn_def)
  from ws_run.step[OF demo_asked ws_step.answer[OF _ _ _ this, of 0 "[demoAsked]"]]
  have "?run [Accepted, Quiet, Received 0 5, Answered 0 5] (demoServerWS, [?wc], (1, 1))" by simp
  from demo_stopped[OF this]
  have "?run ([Accepted, Quiet, Received 0 5, Answered 0 5] @ [Quiet])
      (demoServerWS, [?wc\<lparr>wcReading := False\<rparr>], (1, 1))"
    by (simp add: newConn_def)
  moreover have "closeAll (counted tickEnv) demoSession (1, 1) = (demoSession\<lparr>sessStreams := []\<rparr>, (1, 0))"
    by code_simp
  ultimately have "?run (([Accepted, Quiet, Received 0 5, Answered 0 5] @ [Quiet]) @ [Quiet])
      (demoServerWS, [?wc\<lparr>wcReading := False, wcSess := demoSession\<lparr>sessStreams := []\<rparr>, wcFinished := True\<rparr>],
       (1, 0))"
    by (intro demo_finished) (simp_all add: newConn_def)
  then show ?thesis unfolding append_assoc by (intro exI conjI) (assumption, simp_all)
qed

lemma demo_leak:
  "\<exists>evs wc w. ws_run tickEnv (fixedDecoders ''open_stream'' []) demoFrames False 0 tickConfig evs
      (demoServerWS, [wc], w, 1) \<and> wcFinished wc \<and> wcPending wc = []"
proof -
  let ?run = "ws_run tickEnv (fixedDecoders ''open_stream'' []) demoFrames False 0 tickConfig"
  have "?run ([Accepted, Quiet, Received 0 5] @ [Quiet])
      (demoServerWS, [demoAsked\<lparr>wcReading := False\<rparr>], (0, 0))"
    by (rule demo_stopped[OF demo_asked]) (simp add: newConn_def)
  then have "?run (([Accepted, Quiet, Received 0 5] @ [Quiet]) @ [Quiet])
      (demoServerWS, [demoAsked\<lparr>wcReading := False, wcSess := newSession ModeReadWrite, wcFinished := True\<rparr>],
       (0, 0))"
    by (rule demo_finished) (simp_all add: newConn_def closeAll_def newSession_def)
  moreover have "respond (counted tickEnv) (fixedDecoders ''open_stream'' []) demoServerWS 0
      (demoAsked\<lparr>wcReading := False, wcSess := newSession ModeReadWrite, wcFinished := True\<rparr>) (0, 0)
    = Some (demoAnswered (demoAsked\<lparr>wcReading := False, wcSess := newSession ModeReadWrite, wcFinished := True\<rparr>),
        (1, 1))"
    by (rule demo_respond) (simp_all add: newConn_def)
  ultimately show ?thesis
    using ws_run.step[OF _ ws_step.answer[of 0]] by fastforce
qed

theorem ws_hello_first_witness:
  "\<not> wcAuthed demoNew \<and> wcPending demoNew = []"
proof -
  have r: "ws_run tickEnv (fixedDecoders [] []) demoFrames False 0 tickConfig [Accepted]
      (demoServerWS, [demoNew], (0, 0))" by (rule demo_accepted)
  show ?thesis
    using ws_hello_first[OF r _ _, of demoNew] by (simp add: tick_total newConn_def)
qed


text \<open>The random source answers once and then fails.\<close>

definition failEnv :: "nat env" where
  "failEnv = tickEnv\<lparr>randRead := (\<lambda>n w. if w = 0 then (Inr (replicate n 0), 1) else (Inl ''entropy'', w))\<rparr>"

lemma demo_open_add:
  "wsOpenStreamAdd (counted tickEnv) demoServerWS (newSession ModeReadWrite) 1 (0, 0)
     = (Inr OpenStreamResp, demoSession, (1, 1))"
  "\<exists>sess'. wsOpenStreamAdd (counted tickEnv) demoServerWS demoSession 1 (1, 1)
     = (Inr OpenStreamResp, sess', (2, 2)) \<and> length (sessStreams sess') = 1"
proof -
  have o: "serverOpenStream (counted tickEnv) demoServerWS (0, 0)
    = (Inr (newStream 0 \<lparr>handle = 0, connGeneration = 0, connDone = False\<rparr>), (1, 1))"
    "fst (serverOpenStream (counted tickEnv) demoServerWS (1, 1))
      = Inr (newStream 0x1010101 \<lparr>handle = 0, connGeneration = 0, connDone = False\<rparr>)"
    "snd (serverOpenStream (counted tickEnv) demoServerWS (1, 1)) = (2, 2)"
    unfolding serverOpenStream_def demo_server by code_simp+
  show "wsOpenStreamAdd (counted tickEnv) demoServerWS (newSession ModeReadWrite) 1 (0, 0)
     = (Inr OpenStreamResp, demoSession, (1, 1))"
    unfolding wsOpenStreamAdd_def o by (simp add: demoSession_def newSession_def)
  show "\<exists>sess'. wsOpenStreamAdd (counted tickEnv) demoServerWS demoSession 1 (1, 1)
     = (Inr OpenStreamResp, sess', (2, 2)) \<and> length (sessStreams sess') = 1"
    using o(2,3) by (cases "serverOpenStream (counted tickEnv) demoServerWS (1, 1)")
      (simp add: wsOpenStreamAdd_def demoSession_def addStream_def setEntry_def newSession_def)
qed

lemma demo_assigned_fails:
  "wsOpenStreamAssigned (counted failEnv) demoServerWS (newSession ModeReadWrite) (0, 0)
    = Some (Inl StoreStreamFailed, newSession ModeReadWrite, (1, 1))"
proof -
  have o: "serverOpenStream (counted failEnv) demoServerWS (0, 0)
    = (Inr (newStream 0 \<lparr>handle = 0, connGeneration = 0, connDone = False\<rparr>), (1, 1))"
    "randomInt32 (counted failEnv) (1, 1) = (Inl (RandomError ''entropy''), (1, 1))"
    unfolding serverOpenStream_def demo_server by code_simp+
  have "drawId (counted failEnv) m (1, 1) = Some (Inl (RandomError ''entropy''), (1, 1))" for m
    by (subst drawId.simps) (simp only: o prod.case sum.case)
  then show ?thesis
    by (simp only: wsOpenStreamAssigned_def AddStreamAssinged_def o prod.case sum.case option.case)
qed

text \<open>
  How a session loses a connection.  A request that opens a stream and is answered
  after its connection has finished leaves the stream open with nobody to close it.  Two
  requests that open the same stream id and both look the id up before either adds its
  stream both succeed, and the first stream is overwritten without being closed.  And an
  assigned stream for which no id can be drawn is reported as failed and kept open.
\<close>

theorem ws_connection_leaks:
  "(\<exists>evs wc w. ws_run tickEnv (fixedDecoders ''open_stream'' []) demoFrames False 0 tickConfig evs
      (demoServerWS, [wc], w, 1) \<and> wcFinished wc \<and> wcPending wc = [])
   \<and> (\<exists>sess1 sess2 w1 w2. getStream (newSession ModeReadWrite) 1 = None
      \<and> wsOpenStreamAdd (counted tickEnv) demoServerWS (newSession ModeReadWrite) 1 (0, 0)
          = (Inr OpenStreamResp, sess1, w1)
      \<and> wsOpenStreamAdd (counted tickEnv) demoServerWS sess1 1 w1 = (Inr OpenStreamResp, sess2, w2)
      \<and> length (sessStreams sess2) = 1 \<and> snd w2 = 2)
   \<and> (\<exists>w'. wsOpenStreamAssigned (counted failEnv) demoServerWS (newSession ModeReadWrite) (0, 0)
        = Some (Inl StoreStreamFailed, newSession ModeReadWrite, w') \<and> snd w' = 1)"
proof (intro conjI)
  show "\<exists>sess1 sess2 w1 w2. getStream (newSession ModeReadWrite) 1 = None
      \<and> wsOpenStreamAdd (counted tickEnv) demoServerWS (newSession ModeReadWrite) 1 (0, 0)
          = (Inr OpenStreamResp, sess1, w1)
      \<and> wsOpenStreamAdd (counted tickEnv) demoServerWS sess1 1 w1 = (Inr OpenStreamResp, sess2, w2)
      \<and> length (sessStreams sess2) = 1 \<and> snd w2 = 2"
    using demo_open_add by (fastforce simp: getStream_def newSession_def)
qed (use demo_leak demo_assigned_fails in auto)

section \<open>Requests and answers\<close>

fun receivedOn :: "nat \<Rightarrow> ws_event list \<Rightarrow> i32 list" where
  "receivedOn i [] = []"
| "receivedOn i (Received j key # evs) = (if j = i then key # receivedOn i evs else receivedOn i evs)"
| "receivedOn i (ev # evs) = receivedOn i evs"

fun answeredOn :: "nat \<Rightarrow> ws_event list \<Rightarrow> i32 list" where
  "answeredOn i [] = []"
| "answeredOn i (Answered j key # evs) = (if j = i then key # answeredOn i evs else answeredOn i evs)"
| "answeredOn i (ev # evs) = answeredOn i evs"

lemma receivedOn_append [simp]: "receivedOn i (evs @ evs') = receivedOn i evs @ receivedOn i evs'"
  by (induction i evs rule: receivedOn.induct) simp_all

lemma answeredOn_append [simp]: "answeredOn i (evs @ evs') = answeredOn i evs @ answeredOn i evs'"
  by (induction i evs rule: answeredOn.induct) simp_all

abbreviation pendingIds :: "nat \<Rightarrow> ws_conn list \<Rightarrow> i32 multiset" where
  "pendingIds i wcs \<equiv> (if i < length wcs then mset (map fst (wcPending (wcs ! i))) else {#})"

lemma readFrame_pending:
  "readFrame s F fr wc w = (wc', w') \<Longrightarrow> wcPending wc' = wcPending wc
    \<or> (\<exists>req. wcPending wc' = wcPending wc @ [req])"
  by (auto simp: readFrame_def onHello_def onRequest_def Let_def
      split: ws_frame.splits if_splits sum.splits option.splits prod.splits)

lemma respond_pending:
  "respond E D s k wc w = Some (wc', w') \<Longrightarrow>
    wcPending wc' = take k (wcPending wc) @ drop (Suc k) (wcPending wc)"
  by (auto simp: respond_def split: option.splits prod.splits)

lemma mset_remove_nth:
  "k < length xs \<Longrightarrow> mset (map f xs) = add_mset (f (xs ! k)) (mset (map f (take k xs @ drop (Suc k) xs)))"
  by (subst id_take_nth_drop[of k xs]) simp_all

lemma mset_shift:
  fixes A :: "'a multiset"
  assumes "A + P = R" and "a + Q = r + P"
  shows "(A + a) + Q = R + r"
proof -
  have "(A + a) + Q = A + (r + P)" unfolding assms(2)[symmetric] by (simp add: add.assoc)
  also have "\<dots> = R + r" unfolding assms(1)[symmetric] by (simp add: ac_simps)
  finally show ?thesis .
qed

lemma finishConn_pending: "finishConn E s wc w = (s', wc', w') \<Longrightarrow> wcPending wc' = wcPending wc"
  by (auto simp: finishConn_def Let_def split: prod.splits)

lemma ws_step_answers:
  assumes "ws_step E D F drain ev x y"
  shows "mset (answeredOn i [ev]) + pendingIds i (fst (snd y)) = mset (receivedOn i [ev]) + pendingIds i (fst (snd x))"
  using assms
proof (cases rule: ws_step.cases)
  case (accept s hdr proto q mode wcs w remote)
  then show ?thesis by (auto simp: nth_append newConn_def)
next
  case (frame j wcs wc s fr w wc' w')
  show ?thesis
  proof (cases "wcPending wc' = wcPending wc")
    case True
    then show ?thesis using frame by (auto simp: received_def nth_list_update)
  next
    case False
    then obtain req where "wcPending wc' = wcPending wc @ [req]" using readFrame_pending[OF frame(7)] by blast
    then show ?thesis using frame by (auto simp: received_def nth_list_update)
  qed
next
  case (answer j wcs wc k s w wc' w')
  have "mset (map fst (wcPending wc)) = add_mset (fst (wcPending wc ! k)) (mset (map fst (wcPending wc')))"
    unfolding respond_pending[OF answer(7)] by (rule mset_remove_nth[OF answer(6)])
  then show ?thesis using answer by (auto simp: nth_list_update)
next
  case (finish j wcs wc s w s' wc' w')
  then show ?thesis by (auto simp: nth_list_update finishConn_pending)
next
  case (evolve h s wcs s' wcs' w)
  then have "wcs' = map (\<lambda>wc. if wcFinished wc then wc
      else wc\<lparr>wcSess := evolveSession (gdbGeneration (db s) + 1) (wcSess wc)\<rparr>) wcs"
    by (auto simp: evolveDatabase_def Let_def)
  then show ?thesis using evolve by simp
qed simp_all



section \<open>The database evolves\<close>

lemma getStream_evolve: "getStream (evolveSession g sess) key = map_option (supersede g) (getStream sess key)"
  by (simp add: getStream_def evolveSession_def map_of_map)

lemma supersede_close: "snd (streamClose E (supersede g st) w) = snd (streamClose E st w)"
  by (simp add: supersede_def streamClose_def split: prod.split)

text \<open>
  C32.  \<open>EvolveDatabase\<close> gives the database a new generation, to which streams opened from
  then on belong.  A stream that a connection in the table holds from another generation
  can never run SQL again: the first request on it, of whatever kind, is answered with the
  superseded error, removes the stream and gives its connection back; the next one does not
  find it.  The streams behind HTTP batons are not marked.
\<close>

theorem evolve_supersedes:
  assumes "evolveDatabase h s wcs = (s', wcs')" and "i < length wcs" and "\<not> wcFinished (wcs ! i)"
    and "getStream (wcSess (wcs ! i)) key = Some st"
    and "connGeneration (Conn st) \<noteq> gdbGeneration (db s) + 1"
  shows "gdbGeneration (db s') = gdbGeneration (db s) + 1 \<and> gdbHandle (db s') = h \<and> batons s' = batons s
    \<and> (\<forall>st' w w'. serverOpenStream E s' w = (Inr st', w') \<longrightarrow>
        \<not> IsSuperseded st' \<and> connGeneration (Conn st') = gdbGeneration (db s) + 1)
    \<and> (\<forall>w. \<exists>sess' w'. sess' = (wcSess (wcs' ! i))\<lparr>sessStreams := AList.delete key (sessStreams (wcSess (wcs' ! i)))\<rparr>
        \<and> w' = snd (streamClose E st w)
        \<and> wsExecute E (wcSess (wcs' ! i)) (key, stm) w = (Inl StreamIsSuperseded, sess', w')
        \<and> wsBatch E (wcSess (wcs' ! i)) (key, b) w = (Inl StreamIsSuperseded, sess', w')
        \<and> wsSequence E (wcSess (wcs' ! i)) (key, q) w = (Inl StreamIsSuperseded, sess', w')
        \<and> wsDescribe E (wcSess (wcs' ! i)) (key, q) w = (Inl StreamIsSuperseded, sess', w')
        \<and> wsGetAutocommit E (wcSess (wcs' ! i)) key w = (Inl StreamIsSuperseded, sess', w')
        \<and> wsOpenCursor E (wcSess (wcs' ! i)) (key, c, b) w = (Inl StreamIsSuperseded, sess', w')
        \<and> wsExecute E sess' (key, stm) w' = (Inl (StreamNotFound key), sess', w'))"
proof -
  let ?g = "gdbGeneration (db s) + 1"
  have s': "s' = s\<lparr>db := \<lparr>gdbHandle = h, gdbGeneration = ?g\<rparr>\<rparr>"
    and sess: "wcSess (wcs' ! i) = evolveSession ?g (wcSess (wcs ! i))"
    using assms(1-3) by (auto simp: evolveDatabase_def Let_def)
  have st: "getStream (wcSess (wcs' ! i)) key = Some (supersede ?g st)" "IsSuperseded (supersede ?g st)"
    using assms(4,5) by (simp_all add: sess getStream_evolve supersede_def)
  note r = superseded_requests[OF st, unfolded dropped_def supersede_close]
  have gone: "getStream (sess\<lparr>sessStreams := AList.delete key (sessStreams sess)\<rparr>) key = None" for sess
    by (simp add: getStream_def)
  have opened: "\<not> IsSuperseded st' \<and> connGeneration (Conn st') = ?g"
    if "serverOpenStream E s' w = (Inr st', w')" for st' w w'
    using openStream_ok[OF that[unfolded serverOpenStream_def]] by (simp add: s')
  show ?thesis
    using opened by (auto simp: s' r withStream_def gone wsExecute_def[of E "_\<lparr>sessStreams := _\<rparr>"])
qed

section \<open>Instant errors\<close>

text \<open>
  Which sessions strike: the end of a session registers one strike against its
  address, if the blacklist is enabled, exactly when it comes before the threshold and the
  session did not both authenticate and make a request; and it always closes its streams.
\<close>

theorem session_end_strikes:
  shows "\<exists>s' wc' w'. finishConn E s wc w = (s', wc', w')
    \<and> blacklist s' =
        (if clock E w - wcStart wc < InstantErrorThreshold (BlacklistConf (config s))
            \<and> \<not> (wcAuthed wc \<and> wcMadeRequest wc)
         then map_option (\<lambda>bl. snd (strike (remoteIP (wcRemote wc)) (clock E w) bl)) (blacklist s)
         else blacklist s)
    \<and> sessStreams (wcSess wc') = [] \<and> wcFinished wc'"
  by (auto simp: finishConn_def closeAll_def strikeDue_def recordBlacklistStrike_def Let_def
      split: option.split prod.split)

theorem evolve_supersedes_witness:
  "\<exists>s' wcs' sess' w'. evolveDatabase 9 demoServerWS [demoAnswered demoAsked] = (s', wcs')
    \<and> wsGetAutocommit (counted tickEnv) (wcSess (wcs' ! 0)) 1 (0, 1) = (Inl StreamIsSuperseded, sess', w')"
proof -
  obtain s' wcs' where e: "evolveDatabase 9 demoServerWS [demoAnswered demoAsked] = (s', wcs')"
    by (metis surj_pair)
  have g: "getStream (wcSess ([demoAnswered demoAsked] ! 0)) 1 =
      Some ((newStream 1 \<lparr>handle = 0, connGeneration = 0, connDone = False\<rparr>)\<lparr>Mode := ModeReadWrite\<rparr>)"
    by (simp add: demoSession_def addStream_def setEntry_def getStream_def newSession_def newStream_def)
  have "\<exists>sess' w'. wsGetAutocommit (counted tickEnv) (wcSess (wcs' ! 0)) 1 (0, 1) = (Inl StreamIsSuperseded, sess', w')"
    using evolve_supersedes[OF e _ _ g, of "counted tickEnv"] by (simp add: newConn_def newStream_def demo_server)
  then show ?thesis using e by blast
qed

end
