(* ===== verification/Upgrade.thy ===== *)
theory Upgrade
  imports WebsocketProps
begin

unbundle bit_operations_syntax

text \<open>
  How a WebSocket connection is let in: the HTTP request that \<open>ServeConn\<close> of
  \<open>src/websocket.go\<close> reads from a raw connection with the parser of \<open>src/utils.go\<close>, the
  checks it makes in turn, and the handshake response; and \<open>serveWSUpgrade\<close> for connections
  that come through \<open>ServeHTTP\<close>.  The input of a connection is the text that arrives on it
  before it is closed.
\<close>

section \<open>Reading a request\<close>

text \<open>\<open>ReadString\<close> delivers a line with its end, or fails when the input ends before one.\<close>

definition readString :: "char \<Rightarrow> string \<Rightarrow> (string \<times> string) option" where
  "readString c s =
    (case indexByte s c of None \<Rightarrow> None | Some i \<Rightarrow> Some (take (Suc i) s, drop (Suc i) s))"

lemma readString_shorter: "readString c s = Some (line, rest) \<Longrightarrow> length rest < length s"
  by (auto simp: readString_def split: option.splits dest: indexByte_Some)

lemma readString_line: "c \<notin> set a \<Longrightarrow> readString c (a @ c # b) = Some (a @ [c], b)"
  by (simp add: readString_def indexByte_append)

text \<open>
  \<open>strings.ToLower\<close>, exact on ASCII and on the two other runes whose lower case is ASCII
  (U+0130 and U+212A).  Only ASCII names are looked up, so other runes may stay as they are.
\<close>

fun toLower :: "string \<Rightarrow> string" where
  "toLower [] = []"
| "toLower [c] = [lowerByte c]"
| "toLower [c, d] =
    (if c = CHR 0xC4 \<and> d = CHR 0xB0 then ''i'' else lowerByte c # toLower [d])"
| "toLower (c # d # e # s) =
    (if c = CHR 0xC4 \<and> d = CHR 0xB0 then CHR ''i'' # toLower (e # s)
     else if c = CHR 0xE2 \<and> d = CHR 0x84 \<and> e = CHR 0xAA then CHR ''k'' # toLower s
     else lowerByte c # toLower (d # e # s))"

record minimalHTTPRequest =
  mMethod :: string
  mPath :: string
  mHeaders :: "(string \<times> string) list"

definition header :: "minimalHTTPRequest \<Rightarrow> string \<Rightarrow> string" where
  "header r key = (case map_of (mHeaders r) (toLower key) of None \<Rightarrow> [] | Some v \<Rightarrow> v)"

text \<open>The loop over the header lines ends with the first blank one.\<close>

function readHeaders :: "string \<Rightarrow> (string \<times> string) list \<Rightarrow> (string \<times> string) list option" where
  "readHeaders s m =
    (case readString CHR 0x0A s of
       None \<Rightarrow> None
     | Some (hline0, rest) \<Rightarrow>
         (let hline = trimSpace hline0 in
          if hline = [] then Some m
          else (case indexByte hline CHR '':'' of
                  None \<Rightarrow> readHeaders rest m
                | Some i \<Rightarrow>
                    readHeaders rest
                      (AList.update (toLower (trimSpace (take i hline))) (trimSpace (drop (i + 1) hline)) m))))"
  by pat_completeness auto
termination
  by (relation "measure (\<lambda>(s, m). length s)") (auto dest: readString_shorter)

declare readHeaders.simps [simp del]

definition readHTTPRequest :: "string \<Rightarrow> minimalHTTPRequest option" where
  "readHTTPRequest s =
    (case readString CHR 0x0A s of
       None \<Rightarrow> None
     | Some (line, rest) \<Rightarrow>
         (case splitByte CHR '' '' (trimSpace line) of
            meth # p # pieces \<Rightarrow>
              (case readHeaders rest [] of
                 None \<Rightarrow> None
               | Some hs \<Rightarrow> Some \<lparr>mMethod = meth, mPath = p, mHeaders = hs\<rparr>)
          | _ \<Rightarrow> None))"

section \<open>Query parameters\<close>

text \<open>
  \<open>url.ParseQuery\<close>: pairs separated by \<open>&\<close>, name and value by the first \<open>=\<close>, both
  unescaped; a semicolon or a bad escape is an error.  The first value of a name counts.
\<close>

definition hexVal :: "char \<Rightarrow> nat option" where
  "hexVal c =
    (let n = of_char c :: nat in
     if 48 \<le> n \<and> n \<le> 57 then Some (n - 48)
     else if 97 \<le> n \<and> n \<le> 102 then Some (n - 87)
     else if 65 \<le> n \<and> n \<le> 70 then Some (n - 55) else None)"

fun queryUnescape :: "string \<Rightarrow> string option" where
  "queryUnescape [] = Some []"
| "queryUnescape (c # s) =
    (if c = CHR 0x25 then
       (case s of
          a # b # s' \<Rightarrow>
            (case (hexVal a, hexVal b) of
               (Some h, Some l) \<Rightarrow> map_option ((#) (char_of (16 * h + l))) (queryUnescape s')
             | _ \<Rightarrow> None)
        | _ \<Rightarrow> None)
     else map_option ((#) (if c = CHR ''+'' then CHR '' '' else c)) (queryUnescape s))"

definition parsePair :: "string \<Rightarrow> (string \<times> string) option" where
  "parsePair piece =
    (let (k, v) = (case indexByte piece CHR ''='' of
                     None \<Rightarrow> (piece, []) | Some i \<Rightarrow> (take i piece, drop (i + 1) piece))
     in if CHR '';'' \<in> set piece then None
        else (case (queryUnescape k, queryUnescape v) of
                (Some k', Some v') \<Rightarrow> Some (k', v') | _ \<Rightarrow> None))"

fun parsePairs :: "string list \<Rightarrow> (string \<times> string) list option" where
  "parsePairs [] = Some []"
| "parsePairs (piece # pieces) =
    (if piece = [] then parsePairs pieces
     else (case (parsePair piece, parsePairs pieces) of (Some p, Some ps) \<Rightarrow> Some (p # ps) | _ \<Rightarrow> None))"

definition queryParam :: "minimalHTTPRequest \<Rightarrow> string \<Rightarrow> string" where
  "queryParam r key =
    (case indexByte (mPath r) CHR ''?'' of
       None \<Rightarrow> []
     | Some i \<Rightarrow>
         (case parsePairs (splitByte CHR ''&'' (drop (i + 1) (mPath r))) of
            None \<Rightarrow> []
          | Some vals \<Rightarrow> (case map_of vals key of None \<Rightarrow> [] | Some v \<Rightarrow> v)))"

section \<open>The handshake\<close>

text \<open>\<open>crypto/sha1\<close>: the padding, the message schedule, and the eighty rounds of a block.\<close>

definition bytesOf :: "string \<Rightarrow> bytes" where
  "bytesOf s = map (\<lambda>c. of_nat (of_char c)) s"

definition be32 :: "bytes \<Rightarrow> u32" where
  "be32 bs = foldl (\<lambda>acc b. push_bit 8 acc OR ucast b) 0 bs"

definition bytes32 :: "u32 \<Rightarrow> bytes" where
  "bytes32 x = [ucast (drop_bit 24 x), ucast (drop_bit 16 x), ucast (drop_bit 8 x), ucast x]"

definition shaPad :: "bytes \<Rightarrow> bytes" where
  "shaPad msg =
    (let n = length msg; z = (119 - n mod 64) mod 64 in
     msg @ [0x80] @ replicate z 0 @ bytes32 (ucast (drop_bit 29 (of_nat n :: u64))) @ bytes32 (push_bit 3 (of_nat n)))"

fun chunks :: "nat \<Rightarrow> nat \<Rightarrow> 'a list \<Rightarrow> 'a list list" where
  "chunks k 0 xs = []"
| "chunks k (Suc m) xs = take k xs # chunks k m (drop k xs)"

text \<open>The schedule is built with the latest word first.\<close>

fun schedule :: "nat \<Rightarrow> u32 list \<Rightarrow> u32 list" where
  "schedule 0 ws = rev ws"
| "schedule (Suc m) ws =
    schedule m (word_rotl 1 ((ws ! 2) XOR (ws ! 7) XOR (ws ! 13) XOR (ws ! 15)) # ws)"

type_synonym sha_state = "u32 \<times> u32 \<times> u32 \<times> u32 \<times> u32"

fun shaRound :: "sha_state \<Rightarrow> nat \<times> u32 \<Rightarrow> sha_state" where
  "shaRound (a, b, c, d, e) (t, x) =
    (let (f, k) = (if t < 20 then ((b AND c) OR ((NOT b) AND d), 0x5A827999)
                   else if t < 40 then (b XOR c XOR d, 0x6ED9EBA1)
                   else if t < 60 then ((b AND c) OR (b AND d) OR (c AND d), 0x8F1BBCDC)
                   else (b XOR c XOR d, 0xCA62C1D6))
     in (word_rotl 5 a + f + e + k + x, a, word_rotl 30 b, c, d))"

fun addState :: "sha_state \<Rightarrow> sha_state \<Rightarrow> sha_state" where
  "addState (a, b, c, d, e) (a', b', c', d', e') = (a + a', b + b', c + c', d + d', e + e')"

definition shaBlock :: "sha_state \<Rightarrow> bytes \<Rightarrow> sha_state" where
  "shaBlock h blk =
    (let ws = schedule 64 (rev (map be32 (chunks 4 16 blk)))
     in addState h (foldl shaRound h (zip [0 ..< 80] ws)))"

definition sha1 :: "bytes \<Rightarrow> bytes" where
  "sha1 msg =
    (let p = shaPad msg in
     case foldl shaBlock (0x67452301, 0xEFCDAB89, 0x98BADCFE, 0x10325476, 0xC3D2E1F0)
            (chunks 64 (length p div 64) p) of
       (a, b, c, d, e) \<Rightarrow> concat (map bytes32 [a, b, c, d, e]))"

definition wsAccept :: "string \<Rightarrow> string" where
  "wsAccept key = b64Encode (sha1 (bytesOf (key @ ''258EAFA5-E914-47DA-95CA-C5AB0DC85B11'')))"

section \<open>Letting a connection in\<close>

definition crlf :: string where
  "crlf = [CHR 0x0D, CHR 0x0A]"

definition rawStatus :: "string \<Rightarrow> string" where
  "rawStatus line = ''HTTP/1.1 '' @ line @ crlf @ ''Content-Length: 0'' @ crlf @ crlf"

definition tooManyRequestsRawHTTP :: "duration \<Rightarrow> string" where
  "tooManyRequestsRawHTTP retryAfter =
    ''HTTP/1.1 429 Too Many Requests'' @ crlf @ ''Retry-After: '' @ formatInt (retryAfterSeconds retryAfter)
    @ crlf @ ''Content-Length: 0'' @ crlf @ crlf"

definition handshake :: "string \<Rightarrow> string \<Rightarrow> string" where
  "handshake accept proto =
    ''HTTP/1.1 101 Switching Protocols'' @ crlf @ ''Upgrade: websocket'' @ crlf
    @ ''Connection: Upgrade'' @ crlf @ ''Sec-WebSocket-Accept: '' @ accept @ crlf
    @ ''Sec-WebSocket-Protocol: '' @ proto @ crlf @ crlf"

text \<open>
  The outcome: a reply after which the connection is closed, closing without one, or the
  handshake and a session with a subprotocol and a mode.
\<close>

datatype upgrade = RawReply string | Dropped | Upgraded string string conn_mode

definition serveConn ::
  "'d server \<Rightarrow> instant \<Rightarrow> string \<Rightarrow> string \<Rightarrow> upgrade \<times> 'd server" where
  "serveConn s now remote input =
    (if closing s then (RawReply (rawStatus ''503 Service Unavailable''), s)
     else (case checkBlacklist remote now (blacklist s) of
       ((blocked, retryAfter), bl) \<Rightarrow>
         (let s' = s\<lparr>blacklist := bl\<rparr> in
          if blocked then (RawReply (tooManyRequestsRawHTTP retryAfter), s')
          else (case readHTTPRequest input of
             None \<Rightarrow> (Dropped, s')
           | Some req \<Rightarrow>
               (let proto = matchSubprotocol (enabledSubprotocols (config s')) (header req ''sec-websocket-protocol'') in
                if proto = [] then (RawReply (rawStatus ''400 Bad Request''), s')
                else (case parseMode (queryParam req ''mode'') of
                   Inl e \<Rightarrow> (RawReply (rawStatus ''400 Bad Request''), s')
                 | Inr mode \<Rightarrow>
                     (Upgraded (handshake (wsAccept (header req ''sec-websocket-key'')) proto) proto mode, s')))))))"

text \<open>
  Through \<open>ServeHTTP\<close> the handshake and the choice of the subprotocol are the work of the
  WebSocket library's acceptor, which answers by itself when it refuses.
\<close>

datatype ws_upgrade = BadMode error | AcceptorRefused | UpgradedBy string conn_mode

definition serveWSUpgrade :: "(http_request \<Rightarrow> string option) \<Rightarrow> http_request \<Rightarrow> ws_upgrade" where
  "serveWSUpgrade acceptor r =
    (case parseMode (rqQuery r ''mode'') of
       Inl e \<Rightarrow> BadMode e
     | Inr mode \<Rightarrow> (case acceptor r of None \<Rightarrow> AcceptorRefused | Some proto \<Rightarrow> UpgradedBy proto mode))"

section \<open>Negotiation\<close>

definition offers :: "string \<Rightarrow> string \<Rightarrow> bool" where
  "offers clientHeader proto \<longleftrightarrow> proto \<in> trimSpace ` set (splitByte CHR '','' clientHeader)"

lemma matchSubprotocol_spec:
  "[] \<notin> set servers \<Longrightarrow>
    (matchSubprotocol servers hdr = [] \<longleftrightarrow> (\<forall>q \<in> set servers. \<not> offers hdr q)) \<and>
    (matchSubprotocol servers hdr \<noteq> [] \<longrightarrow>
      (\<exists>pre post. servers = pre @ matchSubprotocol servers hdr # post \<and>
        offers hdr (matchSubprotocol servers hdr) \<and> (\<forall>q \<in> set pre. \<not> offers hdr q)))"
proof (induction servers)
  case Nil
  then show ?case by simp
next
  case (Cons p ps)
  have o: "list_ex (\<lambda>offered. trimSpace offered = p) (splitByte CHR '','' hdr) \<longleftrightarrow> offers hdr p"
    by (auto simp: offers_def list_ex_iff)
  show ?case
  proof (cases "offers hdr p")
    case True
    then have m: "matchSubprotocol (p # ps) hdr = p" using o by simp
    have "p # ps = [] @ p # ps" "\<forall>q \<in> set []. \<not> offers hdr q" by simp_all
    then show ?thesis unfolding m using True Cons.prems by (metis list.set_intros(1))
  next
    case False
    then have m: "matchSubprotocol (p # ps) hdr = matchSubprotocol ps hdr" using o by simp
    have ih: "(matchSubprotocol ps hdr = [] \<longleftrightarrow> (\<forall>q \<in> set ps. \<not> offers hdr q)) \<and>
      (matchSubprotocol ps hdr \<noteq> [] \<longrightarrow>
        (\<exists>pre post. ps = pre @ matchSubprotocol ps hdr # post \<and>
          offers hdr (matchSubprotocol ps hdr) \<and> (\<forall>q \<in> set pre. \<not> offers hdr q)))"
      using Cons by simp
    show ?thesis
      unfolding m
    proof (intro conjI impI)
      show "matchSubprotocol ps hdr = [] \<longleftrightarrow> (\<forall>q \<in> set (p # ps). \<not> offers hdr q)" using ih False by simp
      assume "matchSubprotocol ps hdr \<noteq> []"
      then obtain pre post where "ps = pre @ matchSubprotocol ps hdr # post"
        "offers hdr (matchSubprotocol ps hdr)" "\<forall>q \<in> set pre. \<not> offers hdr q"
        using ih by blast
      then show "\<exists>pre post. p # ps = pre @ matchSubprotocol ps hdr # post \<and>
          offers hdr (matchSubprotocol ps hdr) \<and> (\<forall>q \<in> set pre. \<not> offers hdr q)"
        using False by (intro exI[of _ "p # pre"] exI[of _ post]) simp
    qed
  qed
qed

lemma enabled_nonempty: "[] \<notin> set (enabledSubprotocols conf)"
  by (auto simp: enabledSubprotocols_def protoCandidates_def)

lemma enabled_iff:
  "p \<in> set (enabledSubprotocols conf) \<longleftrightarrow> (\<exists>v. (p, v) \<in> set protoCandidates \<and> isVersionEnabled conf v)"
  by (force simp: enabledSubprotocols_def isVersionEnabled_def)

lemma parseMode_iff: "(\<exists>mode. parseMode q = Inr mode) \<longleftrightarrow> q \<in> {'''', ''readonly'', ''readwrite''}"
  by (auto simp: parseMode_def)

lemma serveConn_upgraded:
  "serveConn s now remote input = (Upgraded hs proto mode, s') \<longleftrightarrow>
    \<not> closing s \<and> \<not> fst (fst (checkBlacklist remote now (blacklist s)))
    \<and> s' = s\<lparr>blacklist := snd (checkBlacklist remote now (blacklist s))\<rparr>
    \<and> (\<exists>req. readHTTPRequest input = Some req
        \<and> proto = matchSubprotocol (enabledSubprotocols (config s)) (header req ''sec-websocket-protocol'')
        \<and> proto \<noteq> [] \<and> parseMode (queryParam req ''mode'') = Inr mode
        \<and> hs = handshake (wsAccept (header req ''sec-websocket-key'')) proto)"
  by (auto simp: serveConn_def Let_def split: prod.split option.split sum.split)

text \<open>
  C34.  \<open>ServeConn\<close> starts a session exactly when the server is not shutting down, the address
  is not blocked, a request can be read, the client offers an enabled subprotocol, and its
  \<open>mode\<close> is a known one.  The subprotocol of the session is the server's first choice among
  those the client offers, of an enabled version, and the handshake answers the client's key.
\<close>

theorem serve_conn_accepts:
  "((\<exists>hs proto mode s'. serveConn s now remote input = (Upgraded hs proto mode, s')) \<longleftrightarrow>
      \<not> closing s \<and> \<not> fst (fst (checkBlacklist remote now (blacklist s)))
      \<and> (\<exists>req. readHTTPRequest input = Some req
          \<and> (\<exists>p \<in> set (enabledSubprotocols (config s)). offers (header req ''sec-websocket-protocol'') p)
          \<and> queryParam req ''mode'' \<in> {'''', ''readonly'', ''readwrite''}))
    \<and> (\<forall>hs proto mode s'. serveConn s now remote input = (Upgraded hs proto mode, s') \<longrightarrow>
      (\<exists>req pre post. readHTTPRequest input = Some req
        \<and> enabledSubprotocols (config s) = pre @ proto # post
        \<and> offers (header req ''sec-websocket-protocol'') proto
        \<and> (\<forall>q \<in> set pre. \<not> offers (header req ''sec-websocket-protocol'') q)
        \<and> parseMode (queryParam req ''mode'') = Inr mode
        \<and> hs = handshake (wsAccept (header req ''sec-websocket-key'')) proto)
      \<and> (\<exists>v. (proto, v) \<in> set protoCandidates \<and> isVersionEnabled (config s) v))"
proof (intro conjI allI impI)
  note M = matchSubprotocol_spec[OF enabled_nonempty, of "config s"]
  show "(\<exists>hs proto mode s'. serveConn s now remote input = (Upgraded hs proto mode, s')) \<longleftrightarrow>
      \<not> closing s \<and> \<not> fst (fst (checkBlacklist remote now (blacklist s)))
      \<and> (\<exists>req. readHTTPRequest input = Some req
          \<and> (\<exists>p \<in> set (enabledSubprotocols (config s)). offers (header req ''sec-websocket-protocol'') p)
          \<and> queryParam req ''mode'' \<in> {'''', ''readonly'', ''readwrite''})"
    unfolding serveConn_upgraded parseMode_iff[symmetric] using M by blast
  fix hs proto mode s'
  assume "serveConn s now remote input = (Upgraded hs proto mode, s')"
  then obtain req where r: "readHTTPRequest input = Some req"
    "proto = matchSubprotocol (enabledSubprotocols (config s)) (header req ''sec-websocket-protocol'')"
    "proto \<noteq> []" "parseMode (queryParam req ''mode'') = Inr mode"
    "hs = handshake (wsAccept (header req ''sec-websocket-key'')) proto"
    unfolding serveConn_upgraded by blast
  obtain pre post where p: "enabledSubprotocols (config s) = pre @ proto # post"
    "offers (header req ''sec-websocket-protocol'') proto"
    "\<forall>q \<in> set pre. \<not> offers (header req ''sec-websocket-protocol'') q"
    using M[of "header req ''sec-websocket-protocol''"] r(2,3) by auto
  show "\<exists>req pre post. readHTTPRequest input = Some req
        \<and> enabledSubprotocols (config s) = pre @ proto # post
        \<and> offers (header req ''sec-websocket-protocol'') proto
        \<and> (\<forall>q \<in> set pre. \<not> offers (header req ''sec-websocket-protocol'') q)
        \<and> parseMode (queryParam req ''mode'') = Inr mode
        \<and> hs = handshake (wsAccept (header req ''sec-websocket-key'')) proto"
    using r p by blast
  show "\<exists>v. (proto, v) \<in> set protoCandidates \<and> isVersionEnabled (config s) v"
    using p(1) enabled_iff[of proto "config s"] by simp
qed

definition demoUpgrade :: string where
  "demoUpgrade = ''GET /?mode=readonly HTTP/1.1'' @ crlf @ ''Host: example'' @ crlf
    @ ''Sec-WebSocket-Protocol: hrana2, hrana3'' @ crlf @ crlf"

theorem serve_conn_accepts_witness:
  "\<exists>hs proto mode s'. serveConn demoServerWS 0 ''10.0.0.1:5'' demoUpgrade = (Upgraded hs proto mode, s')"
proof -
  have r: "readHTTPRequest demoUpgrade = Some \<lparr>mMethod = ''GET'', mPath = ''/?mode=readonly'',
      mHeaders = [(''host'', ''example''), (''sec-websocket-protocol'', ''hrana2, hrana3'')]\<rparr>"
    by code_simp
  have p: "''hrana3'' \<in> set (enabledSubprotocols (config demoServerWS))"
    by (simp add: enabledSubprotocols_def demo_server protoCandidates_def)
  have o: "offers ''hrana2, hrana3'' ''hrana3''" unfolding offers_def by code_simp
  have q: "queryParam \<lparr>mMethod = ''GET'', mPath = ''/?mode=readonly'', mHeaders = hs\<rparr> ''mode'' = ''readonly''" for hs
    unfolding queryParam_def by code_simp
  have h: "header \<lparr>mMethod = ''GET'', mPath = ''/?mode=readonly'',
      mHeaders = [(''host'', ''example''), (''sec-websocket-protocol'', ''hrana2, hrana3'')]\<rparr>
      ''sec-websocket-protocol'' = ''hrana2, hrana3''"
    by code_simp
  have "\<not> closing demoServerWS \<and> \<not> fst (fst (checkBlacklist ''10.0.0.1:5'' 0 (blacklist demoServerWS)))"
    using demo_server(2) by (simp add: demo_server(1) checkBlacklist_def)
  then show ?thesis
    using serve_conn_accepts[of demoServerWS 0 "''10.0.0.1:5''" demoUpgrade] r h p o q by fastforce
qed

section \<open>Requests a client writes\<close>

definition renderRequest :: "string \<Rightarrow> string \<Rightarrow> (string \<times> string) list \<Rightarrow> string" where
  "renderRequest meth path hs =
    meth @ '' '' @ path @ '' HTTP/1.1'' @ crlf
    @ concat (map (\<lambda>(k, v). k @ '': '' @ v @ crlf) hs) @ crlf"

definition visible :: "string \<Rightarrow> bool" where
  "visible s \<longleftrightarrow> s \<noteq> [] \<and> (\<forall>c \<in> set s. \<not> spaceByte c)"

text \<open>A header value may have spaces inside, not at its ends, and no line break.\<close>

definition solid :: "string \<Rightarrow> bool" where
  "solid s \<longleftrightarrow> s \<noteq> [] \<and> \<not> spaceByte (hd s) \<and> \<not> spaceByte (last s) \<and> CHR 0x0A \<notin> set s"

lemma spaceByte_break: "spaceByte CHR 0x0A" "spaceByte CHR '' ''"
  by code_simp+

lemma visible_solid: "visible s \<Longrightarrow> solid s"
  using spaceByte_break by (auto simp: visible_def solid_def)

lemma trim_line:
  assumes "a \<noteq> []" and "\<not> spaceByte (hd a)" and "\<not> spaceByte (last a)" and "trimRight b = []"
  shows "trimSpace (a @ b) = a"
proof -
  have "trimLeft (a @ b) = a @ b"
    using assms(1,2) by (cases a) (simp_all add: trimLeft_keep)
  moreover have "trimRight (a @ b) = a"
  proof -
    have "butlast a @ last a # b = a @ b"
      using append_butlast_last_id[OF assms(1)] by (metis append.assoc append_Cons append_Nil)
    then show ?thesis
      using trimRight_keep[OF assms(3), of "butlast a" b] unfolding assms(4)
      by (simp only: append_butlast_last_id[OF assms(1)])
  qed
  ultimately show ?thesis unfolding trimSpace_def by (simp only:)
qed

lemma trimRight_crlf [simp]: "trimRight [] = []" "trimRight [CHR 0x0D, CHR 0x0A] = []"
  by code_simp+

lemma trim_solid: "solid s \<Longrightarrow> trimSpace s = s"
  using trim_line[of s "[]"] by (simp add: solid_def)

lemma trim_value: "solid v \<Longrightarrow> trimSpace (CHR '' '' # v) = v"
  using trimSpace_rune[of "'' ''" v] trim_solid[of v] by (simp add: spaceRunes_def)

lemma readHeaders_line:
  assumes "visible k" and "CHR '':'' \<notin> set k" and "solid v"
  shows "readHeaders (k @ '': '' @ v @ crlf @ rest) m = readHeaders rest (AList.update (toLower k) v m)"
proof -
  let ?line = "k @ '': '' @ v @ [CHR 0x0D]"
  have "CHR 0x0A \<notin> set ?line" using visible_solid[OF assms(1)] assms(3) by (simp add: solid_def)
  then have r: "readString CHR 0x0A (k @ '': '' @ v @ crlf @ rest) = Some (?line @ [CHR 0x0A], rest)"
    using readString_line[of "CHR 0x0A" ?line rest] by (simp add: crlf_def)
  have t: "trimSpace (?line @ [CHR 0x0A]) = k @ '': '' @ v"
    using trim_line[of "k @ '': '' @ v" "[CHR 0x0D, CHR 0x0A]"] visible_solid[OF assms(1)] assms(3)
    by (simp add: solid_def)
  have i: "indexByte (k @ '': '' @ v) CHR '':'' = Some (length k)"
    using indexByte_append[OF assms(2), of "CHR '' '' # v"] by simp
  show ?thesis
    using trim_solid[OF visible_solid[OF assms(1)]] trim_value[OF assms(3)] assms(1)
    by (subst readHeaders.simps) (simp only: r t i option.case prod.case Let_def, simp add: visible_def)
qed

lemma readHeaders_end: "readHeaders (crlf @ rest) m = Some m"
proof -
  have "readString CHR 0x0A (crlf @ rest) = Some (crlf, rest)"
    using readString_line[of "CHR 0x0A" "[CHR 0x0D]" rest] by (simp add: crlf_def)
  moreover have "trimSpace crlf = []" by code_simp
  ultimately show ?thesis by (subst readHeaders.simps) simp
qed

lemma readHeaders_all:
  "\<forall>(k, v) \<in> set hs. visible k \<and> CHR '':'' \<notin> set k \<and> solid v \<Longrightarrow>
    readHeaders (concat (map (\<lambda>(k, v). k @ '': '' @ v @ crlf) hs) @ crlf @ rest) m
      = Some (foldl (\<lambda>m (k, v). AList.update (toLower k) v m) m hs)"
proof (induction hs arbitrary: m)
  case Nil
  then show ?case by (simp add: readHeaders_end)
next
  case (Cons p hs)
  obtain k v where p: "p = (k, v)" by (cases p)
  then show ?case using Cons readHeaders_line[of k v] by simp
qed

lemma foldl_update:
  "distinct (map (toLower \<circ> fst) hs) \<Longrightarrow>
    map_of (foldl (\<lambda>m (k, v). AList.update (toLower k) v m) m hs) x =
      (case map_of (map (\<lambda>(k, v). (toLower k, v)) hs) x of Some v \<Rightarrow> Some v | None \<Rightarrow> map_of m x)"
proof (induction hs arbitrary: m)
  case Nil
  then show ?case by simp
next
  case (Cons p hs)
  obtain k v where p: "p = (k, v)" by (cases p)
  have "map_of (map (\<lambda>(k, v). (toLower k, v)) hs) (toLower k) = None"
    using Cons.prems p by (force simp: map_of_eq_None_iff)
  then show ?case using Cons p by (auto split: option.splits)
qed

text \<open>
  C35.  Reading back: from a request line and header lines as clients write them, with names
  that differ also in lower case, the parser recovers the method, the path and every header
  under its name in any case, finds no other header, and does not look at what follows.
\<close>

theorem request_roundtrip:
  assumes "visible meth" and "visible path"
    and "\<forall>(k, v) \<in> set hs. visible k \<and> CHR '':'' \<notin> set k \<and> solid v"
    and "distinct (map (toLower \<circ> fst) hs)"
  shows "\<exists>req. readHTTPRequest (renderRequest meth path hs @ rest) = Some req
    \<and> mMethod req = meth \<and> mPath req = path
    \<and> (\<forall>k v key. (k, v) \<in> set hs \<longrightarrow> toLower key = toLower k \<longrightarrow> header req key = v)
    \<and> (\<forall>key. toLower key \<notin> toLower ` fst ` set hs \<longrightarrow> header req key = [])"
proof -
  let ?line = "meth @ '' '' @ path @ '' HTTP/1.1'' @ [CHR 0x0D]"
  let ?m = "foldl (\<lambda>m (k, v). AList.update (toLower k) v m) [] hs"
  let ?tail = "concat (map (\<lambda>(k, v). k @ '': '' @ v @ crlf) hs) @ crlf @ rest"
  have "CHR 0x0A \<notin> set ?line"
    using visible_solid[OF assms(1)] visible_solid[OF assms(2)] by (simp add: solid_def)
  then have r: "readString CHR 0x0A (renderRequest meth path hs @ rest) = Some (?line @ [CHR 0x0A], ?tail)"
    using readString_line[of "CHR 0x0A" ?line ?tail] by (simp add: renderRequest_def crlf_def)
  have "\<not> spaceByte CHR ''1''" by code_simp
  then have t: "trimSpace (?line @ [CHR 0x0A]) = meth @ '' '' @ path @ '' HTTP/1.1''"
    using trim_line[of "meth @ '' '' @ path @ '' HTTP/1.1''" "[CHR 0x0D, CHR 0x0A]"] visible_solid[OF assms(1)]
    by (simp add: solid_def)
  have "CHR '' '' \<notin> set meth" "CHR '' '' \<notin> set path" using assms(1,2) spaceByte_break by (auto simp: visible_def)
  then have sp: "splitByte CHR '' '' (meth @ '' '' @ path @ '' HTTP/1.1'') = [meth, path, ''HTTP/1.1'']"
    using splitByte_append[of "CHR '' ''" meth] splitByte_append[of "CHR '' ''" path]
      splitByte_single[of "CHR '' ''" "''HTTP/1.1''"] by simp
  have p: "readHTTPRequest (renderRequest meth path hs @ rest)
      = Some \<lparr>mMethod = meth, mPath = path, mHeaders = ?m\<rparr>"
    unfolding readHTTPRequest_def r option.case prod.case t sp list.case
    by (simp only: readHeaders_all[OF assms(3)] option.case)
  let ?low = "map (\<lambda>(k, v). (toLower k, v)) hs"
  have look: "header \<lparr>mMethod = meth, mPath = path, mHeaders = ?m\<rparr> key
      = (case map_of ?low (toLower key) of None \<Rightarrow> [] | Some v \<Rightarrow> v)" for key
    using foldl_update[OF assms(4), of "[]"] by (simp add: header_def split: option.split)
  have "wf_map ?low" using assms(4) by (simp add: comp_def split_def)
  then have "map_of ?low (toLower k) = Some v" if "(k, v) \<in> set hs" for k v
    using that by (intro map_of_is_SomeI) force+
  moreover have "map_of ?low x = None" if "x \<notin> toLower ` fst ` set hs" for x
    using that by (force simp: map_of_eq_None_iff)
  ultimately show ?thesis using p look by (intro exI conjI) (assumption, simp_all)
qed

theorem request_roundtrip_witness:
  "\<exists>req. readHTTPRequest (renderRequest ''GET'' ''/x'' [(''Sec-WebSocket-Key'', ''a b'')] @ []) = Some req
    \<and> header req ''sec-websocket-KEY'' = ''a b''"
proof -
  have v: "visible ''GET''" "visible ''/x''" "visible ''Sec-WebSocket-Key''" "solid ''a b''"
    by code_simp+
  have l: "toLower ''sec-websocket-KEY'' = toLower ''Sec-WebSocket-Key''" by code_simp
  show ?thesis
    using request_roundtrip[OF v(1,2), of "[(''Sec-WebSocket-Key'', ''a b'')]" "[]"] v(3,4) l by fastforce
qed

end
