(* ===== verification/Lifecycle.thy ===== *)
theory Lifecycle
  imports Upgrade
begin

text \<open>
  What runs beside the requests: the interval of \<open>src/interval_func.go\<close> that drives the
  sweeps of the baton store and the blacklist, and the shutdown of the server, \<open>Close\<close> of
  \<open>src/hrana.go\<close> with \<open>closeAllWSConns\<close> of \<open>src/websocket.go\<close>.  The lemmas show that
  an interval never runs its function twice at once and what \<open>Stop\<close> leaves possible, that a
  shutdown can always finish, and that it returns every connection of the database pool,
  those of WebSocket sessions and those of HTTP streams.
\<close>

section \<open>Intervals\<close>

text \<open>
  A timer that fires starts a goroutine.  It takes the lock and leaves when the interval was
  stopped; otherwise it calls the function without the lock, takes the lock again and arms
  the timer.  The phases are the points between which other goroutines can run.
\<close>

datatype run_phase = Entered | Passed | InCall | Returned

record interval =
  ivTimer :: bool
  ivStopped :: bool
  ivRuns :: "run_phase list"

datatype interval_event = Fire | Check nat | Call nat | Return nat | Rearm nat | StopCall

definition IntervalFunc :: interval where
  "IntervalFunc = \<lparr>ivTimer = True, ivStopped = False, ivRuns = []\<rparr>"

text \<open>\<open>Stop\<close>: its result is that of the timer, true when the timer was still armed.\<close>

definition stopInterval :: "interval \<Rightarrow> bool \<times> interval" where
  "stopInterval i =
    (if ivStopped i then (False, i) else (ivTimer i, i\<lparr>ivStopped := True, ivTimer := False\<rparr>))"

definition atPhase :: "interval \<Rightarrow> nat \<Rightarrow> run_phase \<Rightarrow> bool" where
  "atPhase i k p \<longleftrightarrow> k < length (ivRuns i) \<and> ivRuns i ! k = p"

definition goOn :: "interval \<Rightarrow> nat \<Rightarrow> run_phase \<Rightarrow> interval" where
  "goOn i k p = i\<lparr>ivRuns := (ivRuns i)[k := p]\<rparr>"

definition leave :: "interval \<Rightarrow> nat \<Rightarrow> interval" where
  "leave i k = i\<lparr>ivRuns := take k (ivRuns i) @ drop (Suc k) (ivRuns i)\<rparr>"

fun intervalStep :: "interval_event \<Rightarrow> interval \<Rightarrow> interval option" where
  "intervalStep Fire i =
    (if ivTimer i then Some (i\<lparr>ivTimer := False, ivRuns := ivRuns i @ [Entered]\<rparr>) else None)"
| "intervalStep (Check k) i =
    (if atPhase i k Entered then Some (if ivStopped i then leave i k else goOn i k Passed) else None)"
| "intervalStep (Call k) i = (if atPhase i k Passed then Some (goOn i k InCall) else None)"
| "intervalStep (Return k) i = (if atPhase i k InCall then Some (goOn i k Returned) else None)"
| "intervalStep (Rearm k) i =
    (if atPhase i k Returned
     then Some (if ivStopped i then leave i k else (leave i k)\<lparr>ivTimer := True\<rparr>) else None)"
| "intervalStep StopCall i = Some (snd (stopInterval i))"

fun intervalRun :: "interval_event list \<Rightarrow> interval \<Rightarrow> interval option" where
  "intervalRun [] i = Some i"
| "intervalRun (ev # evs) i = (case intervalStep ev i of None \<Rightarrow> None | Some j \<Rightarrow> intervalRun evs j)"

fun isCall :: "interval_event \<Rightarrow> bool" where
  "isCall (Call _) = True"
| "isCall _ = False"

abbreviation passed :: "interval \<Rightarrow> nat" where
  "passed i \<equiv> length (filter ((=) Passed) (ivRuns i))"

definition intervalInv :: "interval \<Rightarrow> bool" where
  "intervalInv i \<longleftrightarrow> (ivRuns i = [] \<or> (\<exists>p. ivRuns i = [p]) \<and> \<not> ivTimer i) \<and> (ivStopped i \<longrightarrow> \<not> ivTimer i)"

lemmas interval_defs = intervalInv_def atPhase_def goOn_def leave_def stopInterval_def

lemma intervalStep_inv: "intervalInv i \<Longrightarrow> intervalStep ev i = Some j \<Longrightarrow> intervalInv j"
  by (cases ev) (auto simp: interval_defs split: if_splits)

lemma intervalStep_stopped:
  "intervalInv i \<Longrightarrow> intervalStep ev i = Some j \<Longrightarrow> ivStopped i \<Longrightarrow>
    ivStopped j \<and> passed j + (if isCall ev then 1 else 0) \<le> passed i"
  by (cases ev) (auto simp: interval_defs split: if_splits)

lemma intervalRun_inv: "intervalInv i \<Longrightarrow> intervalRun evs i = Some j \<Longrightarrow> intervalInv j"
  by (induction evs arbitrary: i) (auto dest: intervalStep_inv split: option.splits)

lemma intervalRun_stopped:
  "intervalInv i \<Longrightarrow> intervalRun evs i = Some j \<Longrightarrow> ivStopped i \<Longrightarrow>
    ivStopped j \<and> passed j + length (filter isCall evs) \<le> passed i"
proof (induction evs arbitrary: i)
  case Nil
  then show ?case by simp
next
  case (Cons ev evs)
  then obtain i' where i': "intervalStep ev i = Some i'" "intervalRun evs i' = Some j"
    by (auto split: option.splits)
  note S = intervalStep_stopped[OF Cons.prems(1) i'(1) Cons.prems(3)]
  then show ?case
    using Cons.IH[OF intervalStep_inv[OF Cons.prems(1) i'(1)] i'(2)] by auto
qed

text \<open>
  C40.  However the firings, the calls and \<open>Stop\<close> interleave, at most one run is under way,
  and the timer is not armed meanwhile.  After \<open>Stop\<close> the timer is never armed again, and
  the function begins at most once more: when a run had passed its check and not yet called.
\<close>

theorem interval_stop:
  assumes "intervalRun pre IntervalFunc = Some i" and "intervalRun post (snd (stopInterval i)) = Some j"
  shows "length (ivRuns i) \<le> 1 \<and> (ivTimer i \<longrightarrow> ivRuns i = [])
    \<and> ivStopped j \<and> \<not> ivTimer j
    \<and> length (filter isCall post) \<le> (if ivRuns i = [Passed] then 1 else 0)"
proof -
  have I: "intervalInv i"
    by (rule intervalRun_inv[OF _ assms(1)]) (simp add: intervalInv_def IntervalFunc_def)
  have s: "intervalStep StopCall i = Some (snd (stopInterval i))" by simp
  note J = intervalStep_inv[OF I s]
  have st: "ivStopped (snd (stopInterval i))" by (simp add: stopInterval_def)
  have p: "passed (snd (stopInterval i)) = passed i" by (simp add: stopInterval_def)
  have "intervalInv j" by (rule intervalRun_inv[OF J assms(2)])
  moreover have "passed i \<le> (if ivRuns i = [Passed] then 1 else 0)" using I by (auto simp: intervalInv_def)
  ultimately show ?thesis
    using intervalRun_stopped[OF J assms(2) st] I p by (auto simp: intervalInv_def)
qed

theorem interval_stop_witness:
  "\<exists>i j. intervalRun [Fire, Check 0] IntervalFunc = Some i \<and> intervalRun [Call 0, Return 0, Rearm 0] (snd (stopInterval i)) = Some j
    \<and> \<not> ivTimer j"
proof -
  obtain i j where r: "intervalRun [Fire, Check 0] IntervalFunc = Some i"
    "intervalRun [Call 0, Return 0, Rearm 0] (snd (stopInterval i)) = Some j"
    by (simp add: IntervalFunc_def interval_defs)
  with interval_stop[OF r] show ?thesis by blast
qed

text \<open>
  \<open>Stop\<close> reports false when the timer has fired, although this call did stop the interval:
  the function is not called again.
\<close>

lemma stop_reports_false:
  "\<exists>i. intervalRun [Fire] IntervalFunc = Some i \<and> \<not> ivStopped i \<and> fst (stopInterval i) = False
    \<and> intervalRun [Check 0] (snd (stopInterval i)) = Some \<lparr>ivTimer = False, ivStopped = True, ivRuns = []\<rparr>"
  by (simp add: IntervalFunc_def interval_defs)

section \<open>All traffic together\<close>

text \<open>
  The server with its WebSocket connections and its HTTP requests, and the beginning of
  \<open>Close\<close>: it sets \<open>closing\<close> and closes every connection, so that no session reads another
  frame.  \<open>Close\<close> then waits for the sessions and their requests, and \<open>closeEnd\<close> releases the
  streams behind the batons.  A session counts as finished once all its deferred calls have
  run.
\<close>

definition closeAllWSConns :: "ws_conn list \<Rightarrow> ws_conn list" where
  "closeAllWSConns wcs = map (\<lambda>wc. if wcFinished wc then wc else wc\<lparr>wcReading := False\<rparr>) wcs"

fun closeBegin :: "('d \<times> int) ws_world \<Rightarrow> ('d \<times> int) ws_world" where
  "closeBegin (s, wcs, w) = (s\<lparr>closing := True\<rparr>, closeAllWSConns wcs, w)"

definition closeEnd :: "'d env \<Rightarrow> 'd server \<Rightarrow> 'd \<Rightarrow> 'd server \<times> 'd" where
  "closeEnd E s w = (case closeStore E (batons s) w of (bs, w') \<Rightarrow> (s\<lparr>batons := bs\<rparr>, w'))"

inductive server_run ::
  "'d env \<Rightarrow> ws_decoders \<Rightarrow> frame_decoders \<Rightarrow> body_decoders \<Rightarrow> nat \<Rightarrow> ('d \<times> int) config \<Rightarrow>
    ('d \<times> int) ws_world \<Rightarrow> bool"
  for E D F B h conf where
  start: "server_run E D F B h conf (newServer h conf, [], w, 0)"
| session: "server_run E D F B h conf x \<Longrightarrow> ws_step E D F True ev x y \<Longrightarrow> server_run E D F B h conf y"
| web: "server_run E D F B h conf (s, wcs, w) \<Longrightarrow> http_step E B noCollision (s, w) (s', w') \<Longrightarrow>
    server_run E D F B h conf (s', wcs, w')"
| closing: "server_run E D F B h conf x \<Longrightarrow> server_run E D F B h conf (closeBegin x)"

definition serverInv :: "('d \<times> int) ws_world \<Rightarrow> bool" where
  "serverInv x \<longleftrightarrow> (case x of (s, wcs, w) \<Rightarrow>
    (\<forall>wc \<in> set wcs. connOk True wc) \<and> snd w = openStreams wcs + int (openCount (batons s)) \<and>
    storeInv (batons s) \<and> healthy (batons s) \<and> authFrame (config s))"

lemma closeAll_ok:
  "\<forall>wc \<in> set wcs. connOk drain wc \<Longrightarrow> \<forall>wc \<in> set (closeAllWSConns wcs). connOk drain wc"
  "openStreams (closeAllWSConns wcs) = openStreams wcs"
proof -
  show "\<forall>wc \<in> set wcs. connOk drain wc \<Longrightarrow> \<forall>wc \<in> set (closeAllWSConns wcs). connOk drain wc"
    by (auto simp: closeAllWSConns_def connOk_def)
  show "openStreams (closeAllWSConns wcs) = openStreams wcs"
    unfolding closeAllWSConns_def by (induction wcs) simp_all
qed

lemma server_run_inv:
  "server_run E D F B h conf x \<Longrightarrow> randTotal E \<Longrightarrow> authFrame conf \<Longrightarrow> serverInv x"
proof (induction rule: server_run.induct)
  case (start w)
  then show ?case
    using storeInv_new by (simp add: serverInv_def authFrame_new)
      (simp add: healthy_def newServer_def Let_def newBatonStore_def openCount_def storeInv_new)
next
  case (session x ev y)
  obtain s wcs w where x: "x = (s, wcs, w)" by (metis prod_cases3)
  obtain s' wcs' w' where y: "y = (s', wcs', w')" by (metis prod_cases3)
  have I: "serverInv x" using session by blast
  then have "wsKept True x y"
    by (intro ws_step_keeps[OF session.hyps(2) session.prems(1)]) (simp_all add: serverInv_def x)
  then show ?case using I by (simp add: serverInv_def wsKept_def x y)
next
  case (web s wcs w s' w')
  have I: "serverInv (s, wcs, w)" using web by blast
  have "storeInv (batons s)" "authFrame (config s)" using I by (simp_all add: serverInv_def)
  then show ?case
    using step_keeps[OF web.hyps(2)] I web.prems by (simp add: serverInv_def unaccounted_def)
next
  case (closing x)
  obtain s wcs w where x: "x = (s, wcs, w)" by (metis prod_cases3)
  have "serverInv x" using closing by blast
  then show ?case using closeAll_ok(1)[of wcs True] closeAll_ok(2)[of wcs] by (simp add: serverInv_def x)
qed

lemma closeStore_spec:
  assumes "closeStore (counted E) bs w = (bs', w')" and "storeInv bs" and "healthy bs"
  shows "batonEntries bs' = []" and "\<forall>st \<in> set (heap bs'). closed st"
    and "snd w' = snd w - int (openCount bs)"
proof -
  let ?as = "map (\<lambda>(b, e). bStream e) (batonEntries bs)"
  obtain s1 where c: "closeEach (counted E) ?as bs w = (s1, w')" and b: "bs' = s1\<lparr>batonEntries := []\<rparr>"
    using assms(1) by (auto simp: closeStore_def split: prod.splits)
  note I = storeInvD[OF assms(2)]
  have mem: "findBaton b bs = Some a \<Longrightarrow> a \<in> set ?as" for a b
    by (force simp: findBaton_def split: option.splits dest: map_of_SomeD)
  have mem': "a \<in> set ?as \<Longrightarrow> \<exists>b. findBaton b bs = Some a" for a
    using map_of_is_SomeI[OF I(1)] by (force simp: findBaton_def)
  have "\<forall>a \<in> set ?as. a < length (heap bs)" using mem' I(2) by blast
  note S = closeEach_spec[OF c this]
  have ok: "\<forall>a < length (heap bs). streamOk (heap bs ! a)" using I(4) by simp
  note S = S[OF ok]
  have all: "closed (heap s1 ! a)" if "a < length (heap s1)" for a
  proof (cases "a \<in> set ?as")
    case True
    then show ?thesis using S by blast
  next
    case False
    then have "\<not> (\<exists>b. findBaton b bs = Some a)" using mem by blast
    then have "closed (heap bs ! a)" using assms(3) that S by (auto simp: healthy_def covered_def)
    then show ?thesis using S False by metis
  qed
  then show "\<forall>st \<in> set (heap bs'). closed st" by (auto simp: b in_set_conv_nth)
  then have "openCount bs' = 0" by (simp add: openCount_def)
  then show "snd w' = snd w - int (openCount bs)" using S by (simp add: b openCount_def)
  show "batonEntries bs' = []" by (simp add: b)
qed


lemma ws_run_server: "ws_run E D F True h conf evs x \<Longrightarrow> server_run E D F B h conf x"
  by (induction rule: ws_run.induct) (auto intro: server_run.start server_run.session)


section \<open>A shutdown can finish\<close>

text \<open>What \<open>Close\<close> waits for: the requests under way and the sessions themselves.\<close>

definition connBusy :: "ws_conn \<Rightarrow> nat" where
  "connBusy wc = length (wcPending wc) + (if wcFinished wc then 0 else 1)"

abbreviation busy :: "ws_conn list \<Rightarrow> nat" where
  "busy wcs \<equiv> (\<Sum>wc\<leftarrow>wcs. connBusy wc)"

definition shut :: "('d \<times> int) ws_world \<Rightarrow> bool" where
  "shut x \<longleftrightarrow> (case x of (s, wcs, w) \<Rightarrow> closing s \<and> (\<forall>wc \<in> set wcs. \<not> wcReading wc))"

lemma busy_update:
  "i < length wcs \<Longrightarrow> busy (wcs[i := wc']) + connBusy (wcs ! i) = busy wcs + connBusy wc'"
proof (induction wcs arbitrary: i)
  case Nil
  then show ?case by simp
next
  case (Cons wc wcs)
  then show ?case by (cases i) auto
qed

lemma busy_0: "busy wcs = 0 \<longleftrightarrow> (\<forall>wc \<in> set wcs. wcFinished wc \<and> wcPending wc = [])"
  by (auto simp: connBusy_def split: if_splits)

lemma shut_update:
  "shut (s, wcs, w) \<Longrightarrow> \<not> wcReading wc \<Longrightarrow> closing s' \<Longrightarrow> shut (s', wcs[i := wc], w')"
  using set_update_subset_insert[of wcs i wc] by (auto simp: shut_def)

lemma closeBegin_shut: "\<forall>wc \<in> set wcs. wcFinished wc \<longrightarrow> \<not> wcReading wc \<Longrightarrow> shut (closeBegin (s, wcs, w))"
  by (auto simp: shut_def closeAllWSConns_def)

lemma respond_busy:
  assumes "respond E D s k wc w = Some (wc', w')" and "k < length (wcPending wc)"
  shows "Suc (connBusy wc') = connBusy wc" and "wcReading wc' = wcReading wc"
  using assms by (auto simp: respond_def connBusy_def split: prod.splits option.splits)

lemma finish_busy:
  assumes "finishConn E s wc w = (s', wc', w')" and "\<not> wcFinished wc"
  shows "Suc (connBusy wc') = connBusy wc" and "wcReading wc' = wcReading wc" and "closing s' = closing s"
  using assms by (auto simp: finishConn_def Let_def connBusy_def split: prod.splits)

lemma evolve_busy:
  assumes "evolveDatabase h s wcs = (s', wcs')"
  shows "busy wcs' = busy wcs" and "closing s' = closing s" and "\<forall>wc \<in> set wcs. \<not> wcReading wc \<Longrightarrow> \<forall>wc \<in> set wcs'. \<not> wcReading wc"
proof -
  have e: "wcs' = map (\<lambda>wc. if wcFinished wc then wc
      else wc\<lparr>wcSess := evolveSession (gdbGeneration (db s) + 1) (wcSess wc)\<rparr>) wcs" and c: "closing s' = closing s"
    using assms by (auto simp: evolveDatabase_def Let_def)
  show "busy wcs' = busy wcs" unfolding e by (induction wcs) (simp_all add: connBusy_def)
  show "closing s' = closing s" by (rule c)
  show "\<forall>wc \<in> set wcs. \<not> wcReading wc \<Longrightarrow> \<forall>wc \<in> set wcs'. \<not> wcReading wc" by (auto simp: e)
qed

lemma shut_step:
  "ws_step E D F drain ev x y \<Longrightarrow> shut x \<Longrightarrow> shut y \<and> busy (fst (snd y)) \<le> busy (fst (snd x))"
proof (induction rule: ws_step.induct)
  case (accept s hdr proto q mode wcs w remote)
  then show ?case by (simp add: shut_def)
next
  case (frame i wcs wc s fr w wc' w')
  then show ?case by (auto simp: shut_def)
next
  case (answer i wcs wc k s w wc' w')
  have "\<not> wcReading wc" using answer(1,2,5) by (auto simp: shut_def)
  then have "\<not> wcReading wc'" using respond_busy(2)[OF answer(4,3)] by simp
  from shut_update[OF answer(5) this, of s i w'] answer(5) respond_busy(1)[OF answer(4,3)]
    busy_update[OF answer(1), of wc'] answer(2) show ?case
    by (simp add: shut_def)
next
  case (finish i wcs wc s w s' wc' w')
  have "\<not> wcReading wc'" "closing s'" using finish_busy(2,3)[OF finish(6,4)] finish(3,7) by (simp_all add: shut_def)
  from shut_update[OF finish(7) this, of i w'] finish_busy(1)[OF finish(6,4)]
    busy_update[OF finish(1), of wc'] finish(2) show ?case by simp
next
  case (evolve h s wcs s' wcs' w)
  with evolve_busy[OF evolve(1)] show ?case by (auto simp: shut_def)
next
  case (shutdown s wcs w)
  then show ?case by (simp add: shut_def)
next
  case (outside s wcs w n w')
  then show ?case by (simp add: shut_def)
qed

text \<open>A finite sequence of steps.\<close>

inductive ws_steps ::
  "'d env \<Rightarrow> ws_decoders \<Rightarrow> frame_decoders \<Rightarrow> nat \<Rightarrow> ('d \<times> int) ws_world \<Rightarrow> ('d \<times> int) ws_world \<Rightarrow> bool"
  for E D F where
  none: "ws_steps E D F 0 x x"
| more: "ws_step E D F True ev x y \<Longrightarrow> ws_steps E D F n y z \<Longrightarrow> ws_steps E D F (Suc n) x z"

definition alwaysReturns :: "'d env \<Rightarrow> ws_decoders \<Rightarrow> bool" where
  "alwaysReturns E D \<longleftrightarrow>
    (\<forall>s raw c p sess w. dispatchWSRequest (counted E) D s raw c p sess w \<noteq> None)"

lemma shut_progress:
  assumes "shut (s, wcs, w)" and "alwaysReturns E D" and "busy wcs = Suc n"
  shows "\<exists>ev s' wcs' w'. ws_step E D F True ev (s, wcs, w) (s', wcs', w') \<and> busy wcs' = n"
proof -
  have "\<not> (\<forall>wc \<in> set wcs. wcFinished wc \<and> wcPending wc = [])" using assms(3) busy_0[of wcs] by simp
  then obtain i where i: "i < length wcs" "\<not> (wcFinished (wcs ! i) \<and> wcPending (wcs ! i) = [])"
    by (auto simp: in_set_conv_nth)
  let ?wc = "wcs ! i"
  have nr: "\<not> wcReading ?wc" using assms(1) i(1) by (simp add: shut_def)
  show ?thesis
  proof (cases "wcPending ?wc = []")
    case True
    obtain s' wc' w' where f: "finishConn (counted E) s ?wc w = (s', wc', w')" by (metis prod_cases3)
    have nf: "\<not> wcFinished ?wc" using True i(2) by simp
    have "ws_step E D F True Quiet (s, wcs, w) (s', wcs[i := wc'], w')"
      by (rule ws_step.finish[OF i(1) refl nr nf _ f]) (simp add: True)
    moreover have "busy (wcs[i := wc']) = n"
      using finish_busy(1)[OF f nf] busy_update[OF i(1), of wc'] assms(3) by simp
    ultimately show ?thesis by blast
  next
    case False
    obtain key raw where p: "wcPending ?wc ! 0 = (key, raw)" by (cases "wcPending ?wc ! 0")
    obtain r where "dispatchWSRequest (counted E) D s raw (wcCodec ?wc) (wcProto ?wc) (wcSess ?wc) w = Some r"
      using assms(2) unfolding alwaysReturns_def by (metis option.exhaust)
    then obtain wc' w' where r: "respond (counted E) D s 0 ?wc w = Some (wc', w')"
      by (cases r) (auto simp: respond_def p)
    have k: "0 < length (wcPending ?wc)" using False by simp
    have "busy (wcs[i := wc']) = n"
      using respond_busy(1)[OF r k] busy_update[OF i(1), of wc'] assms(3) by simp
    with ws_step.answer[OF i(1) refl k r, of F True] show ?thesis by blast
  qed
qed

text \<open>
  C16.  \<open>Close\<close> can finish, and nothing new delays it: once the connections are closed, no
  step adds to what it waits for, and as long as every request gets an answer, the requests
  under way and the sessions can be brought to an end in as many steps as there are of them.
\<close>

theorem close_can_finish:
  assumes "\<forall>wc \<in> set wcs. wcFinished wc \<longrightarrow> \<not> wcReading wc" and "alwaysReturns E D"
    and "closeBegin (s, wcs, w) = (s0, wcs0, w0)"
  shows "(\<exists>s' wcs' w'. ws_steps E D F (busy wcs) (s0, wcs0, w0) (s', wcs', w')
      \<and> (\<forall>wc \<in> set wcs'. wcFinished wc \<and> wcPending wc = []))
    \<and> (\<forall>n y. ws_steps E D F n (s0, wcs0, w0) y \<longrightarrow> busy (fst (snd y)) \<le> busy wcs \<and> length (fst (snd y)) = length wcs)"
proof -
  have shut: "shut (s0, wcs0, w0)" using closeBegin_shut[OF assms(1)] assms(3) by metis
  have b: "busy wcs0 = busy wcs" "length wcs0 = length wcs"
  proof -
    have e: "wcs0 = closeAllWSConns wcs" using assms(3) by simp
    show "busy wcs0 = busy wcs" unfolding e closeAllWSConns_def by (induction wcs) (simp_all add: connBusy_def)
    show "length wcs0 = length wcs" by (simp add: e closeAllWSConns_def)
  qed
  have finish: "\<exists>s' wcs' w'. ws_steps E D F n (s, wcs, w) (s', wcs', w') \<and> busy wcs' = 0"
    if "shut (s, wcs, w)" "busy wcs = n" for n s wcs and w :: "'a \<times> int"
    using that
  proof (induction n arbitrary: s wcs w)
    case 0
    then show ?case using ws_steps.none by blast
  next
    case (Suc n)
    obtain ev s1 wcs1 w1 where st: "ws_step E D F True ev (s, wcs, w) (s1, wcs1, w1)" "busy wcs1 = n"
      using shut_progress[OF Suc.prems(1) assms(2) Suc.prems(2)] by blast
    have "shut (s1, wcs1, w1)" using shut_step[OF st(1) Suc.prems(1)] by blast
    from Suc.IH[OF this st(2)] show ?case using ws_steps.more[OF st(1)] by blast
  qed
  have bound: "shut x \<Longrightarrow> ws_steps E D F n x y \<Longrightarrow> busy (fst (snd y)) \<le> busy (fst (snd x)) \<and> length (fst (snd y)) = length (fst (snd x))"
    for n x y
  proof (rotate_tac, induction rule: ws_steps.induct)
    case (none x)
    then show ?case by simp
  next
    case (more ev x y n z)
    have "length (fst (snd y)) = length (fst (snd x))"
      using more.hyps(1) more.prems by (cases rule: ws_step.cases) (auto simp: shut_def evolveDatabase_def Let_def)
    then show ?case using shut_step[OF more.hyps(1) more.prems] more.IH by auto
  qed
  show ?thesis using finish[OF shut b(1)] bound[OF shut] b busy_0 by (auto 4 4)
qed

text \<open>Only drawing an id can go on for ever; a random source that fails ends it.\<close>

lemma decoded_returns: "(\<And>req. f req \<noteq> None) \<Longrightarrow> decoded sess w x f \<noteq> None"
  by (cases x) (simp_all add: decoded_def)

lemma if_returns: "x \<noteq> None \<Longrightarrow> y \<noteq> None \<Longrightarrow> (if b then x else y) \<noteq> None"
  by simp

lemma alwaysReturns_draws:
  assumes "\<And>m w. drawId (counted E) m w \<noteq> None"
  shows "alwaysReturns E D"
proof -
  have a: "AddStreamAssinged (counted E) sess st w \<noteq> None" for sess st w
    using assms[of "sessStreams sess" w] by (auto simp: AddStreamAssinged_def split: sum.splits)
  have b: "wsOpenStreamAssigned (counted E) s sess w \<noteq> None" for s sess w
    unfolding wsOpenStreamAssigned_def
    by (auto split: sum.splits prod.splits option.splits simp: a simp del: not_None_eq)
  have "dispatchWSRequest (counted E) D s raw c p sess w \<noteq> None" for s raw c p sess w
  proof (cases "wsType D c raw")
    case (Inl e)
    then show ?thesis by (simp add: dispatchWSRequest_def)
  next
    case (Inr ty)
    show ?thesis unfolding dispatchWSRequest_def Inr sum.case
      by (intro if_returns decoded_returns b option.distinct(2))
  qed
  then show ?thesis by (simp add: alwaysReturns_def)
qed

definition dryEnv :: "nat env" where
  "dryEnv = tickEnv\<lparr>randRead := (\<lambda>n w. (Inl ''entropy'', w))\<rparr>"

lemma dry_returns: "alwaysReturns dryEnv D"
proof (rule alwaysReturns_draws)
  have "randomInt32 (counted dryEnv) w = (Inl (RandomError ''entropy''), w)" for w
    by (cases w) (simp add: randomInt32_def dryEnv_def counted_def)
  then show "drawId (counted dryEnv) m w \<noteq> None" for m w by (subst drawId.simps) simp
qed

theorem close_can_finish_witness:
  "\<exists>s' wcs' w'. ws_steps dryEnv (fixedDecoders ''open_stream'' []) demoFrames 2
      (closeBegin (demoServerWS, [demoAsked], (0, 0))) (s', wcs', w') \<and> list_all wcFinished wcs'"
proof -
  obtain s0 wcs0 w0 where c: "closeBegin (demoServerWS, [demoAsked], (0 :: nat, 0 :: int)) = (s0, wcs0, w0)"
    by (metis prod_cases3)
  have b: "busy [demoAsked] = 2" by (simp add: connBusy_def newConn_def)
  have "\<forall>wc \<in> set [demoAsked]. wcFinished wc \<longrightarrow> \<not> wcReading wc" by (simp add: newConn_def)
  from close_can_finish[OF this dry_returns c, of "fixedDecoders ''open_stream'' []" demoFrames]
  obtain s' wcs' w' where "ws_steps dryEnv (fixedDecoders ''open_stream'' []) demoFrames 2 (s0, wcs0, w0) (s', wcs', w')"
    and "\<forall>wc \<in> set wcs'. wcFinished wc" unfolding b by blast
  then show ?thesis unfolding c list_all_iff by blast
qed

end
