(* ===== verification/HttpJson.thy ===== *)
theory HttpJson
  imports HttpProps
begin

text \<open>
  The JSON bodies of the HTTP interface: the request bodies of \<open>src/types.go\<close> as the handlers
  decode them, and the document \<open>writeCodec\<close> and \<open>writeHTTPError\<close> of \<open>src/http.go\<close> send.
  With these the body decoders of the handlers are no longer left open for JSON; what remains
  a parameter is the lexical level of JSON, and the MessagePack library.
\<close>

section \<open>Request bodies\<close>

definition readPipelineReq :: "go_text \<Rightarrow> json \<Rightarrow> error + (string option \<times> stream_request list)" where
  "readPipelineReq T =
    readStruct BadJson (\<lambda>(b, reqs) k j.
        if k = ''baton'' then map_sum BadJson (\<lambda>x. (x, reqs)) (ptrString j)
        else if k = ''requests'' then
          map_sum id (\<lambda>x. (b, x)) (readSlice BadJson (unmarshalStreamRequest T emptyRequest) j)
        else Inr (b, reqs)) (None, [])"

definition readCursorReq :: "go_text \<Rightarrow> json \<Rightarrow> error + (string option \<times> batch)" where
  "readCursorReq T =
    readStruct BadJson (\<lambda>(b, bat) k j.
        if k = ''baton'' then map_sum BadJson (\<lambda>x. (x, bat)) (ptrString j)
        else if k = ''batch'' then map_sum id (\<lambda>x. (b, x)) (readBatch T bat j)
        else Inr (b, bat)) (None, [])"

text \<open>\<open>lexJson\<close> reads the first document of a body; \<open>M\<close> are the decoders for MessagePack.\<close>

definition viaJson :: "(bytes \<Rightarrow> json_error + json) \<Rightarrow> (json \<Rightarrow> error + 'b) \<Rightarrow> (codec \<Rightarrow> bytes \<Rightarrow> error + 'b) \<Rightarrow>
    codec \<Rightarrow> bytes \<Rightarrow> error + 'b" where
  "viaJson lexJson f g c bs =
    (case c of
       JSONCodec \<Rightarrow> (case lexJson bs of Inl e \<Rightarrow> Inl (BadJson e) | Inr j \<Rightarrow> f j)
     | MsgpackCodec \<Rightarrow> g c bs)"

definition jsonBodies :: "go_text \<Rightarrow> (bytes \<Rightarrow> json_error + json) \<Rightarrow> body_decoders \<Rightarrow> body_decoders" where
  "jsonBodies T lexJson M =
    \<lparr>decodeV1Execute = viaJson lexJson (readStmtReq T) (decodeV1Execute M),
     decodeV1Batch = viaJson lexJson (readBatchReq T) (decodeV1Batch M),
     decodePipeline = viaJson lexJson (readPipelineReq T) (decodePipeline M),
     decodeCursor = viaJson lexJson (readCursorReq T) (decodeCursor M)\<rparr>"

section \<open>Response bodies\<close>

definition writeStreamResult :: "go_text \<Rightarrow> stream_result \<Rightarrow> error + json" where
  "writeStreamResult T r =
    (case r of
       StreamOk resp \<Rightarrow>
         map_sum id (\<lambda>j. JObj [(''type'', JStr ''ok''), (''response'', j)]) (marshalStreamResponse T resp)
     | StreamError e \<Rightarrow> Inr (JObj [(''type'', JStr ''error''), (''error'', writeError T e)]))"

definition writePipelineResp :: "go_text \<Rightarrow> string option \<Rightarrow> stream_result list \<Rightarrow> error + json" where
  "writePipelineResp T baton results =
    map_sum id (\<lambda>rs. JObj [(''baton'', jOpt baton), (''base_url'', JNull), (''results'', JArr rs)])
      (mapR (writeStreamResult T) results)"

text \<open>
  The one document of a body, if there is one: a body that could not be encoded is empty, plain
  text is no document, and the body of a cursor is a sequence of documents.
\<close>

definition docOf :: "error + json \<Rightarrow> json option" where
  "docOf r = (case r of Inl _ \<Rightarrow> None | Inr j \<Rightarrow> Some j)"

fun bodyDoc :: "go_text \<Rightarrow> resp_body \<Rightarrow> json option" where
  "bodyDoc T (ErrorBody e) = Some (writeError T e)"
| "bodyDoc T (V1ExecuteBody r) = docOf (map_sum id (\<lambda>j. JObj [(''result'', j)]) (writeStmtResult T r))"
| "bodyDoc T (V1BatchBody r) = docOf (map_sum id (\<lambda>j. JObj [(''result'', j)]) (writeBatchResult T r))"
| "bodyDoc T (PipelineBody b rs) = docOf (writePipelineResp T b rs)"
| "bodyDoc T _ = None"

section \<open>What can be encoded\<close>

lemma mapR_ok: "(\<exists>ys. mapR f xs = Inr ys) \<longleftrightarrow> (\<forall>x \<in> set xs. \<exists>y. f x = Inr y)"
proof (induction xs)
  case Nil
  then show ?case by simp
next
  case (Cons x xs)
  then show ?case by (cases "f x"; cases "mapR f xs") auto
qed

lemma map_sum_ok: "(\<exists>y. map_sum f g r = Inr y) \<longleftrightarrow> (\<exists>x. r = Inr x)"
  by (cases r) auto

lemma encodesVal_json: "encodesVal JSONCodec v \<longleftrightarrow> (\<exists>j. marshalValue formatF v = Inr j)"
  by (simp add: encodesVal_def marshalValue_def)

lemma writeStmtResult_ok:
  "(\<exists>j. writeStmtResult T r = Inr j) \<longleftrightarrow> list_all (encodesVal JSONCodec) (resultValues r)"
  by (auto simp: writeStmtResult_def writeRows_def map_sum_ok mapR_ok resultValues_def list_all_iff
      encodesVal_json[of _ "fmtFloat T"])

lemma writeBatchResult_ok:
  "(\<exists>j. writeBatchResult T br = Inr j) \<longleftrightarrow> list_all (encodesVal JSONCodec) (batchValues br)"
proof -
  have "(\<exists>j. writePtr (writeStmtResult T) x = Inr j) \<longleftrightarrow>
      list_all (encodesVal JSONCodec) (case x of None \<Rightarrow> [] | Some r \<Rightarrow> resultValues r)" for x
    by (cases x) (simp_all add: writePtr_def writeStmtResult_ok)
  then show ?thesis
    by (auto simp: writeBatchResult_def map_sum_ok mapR_ok batchValues_def list_all_iff)
qed

lemma writeStreamResult_ok:
  "(\<exists>j. writeStreamResult T r = Inr j) \<longleftrightarrow> list_all (encodesVal JSONCodec) (streamValues r)"
proof (cases r)
  case (StreamOk resp)
  then show ?thesis
    by (cases resp) (simp_all add: writeStreamResult_def marshalStreamResponse_def withResult_def map_sum_ok
        writeStmtResult_ok writeBatchResult_ok)
qed (simp add: writeStreamResult_def)

text \<open>
  The body of an answer has a document exactly when its values can be encoded, the
  condition under which the handlers send it at all.
\<close>

definition oneDocument :: "resp_body \<Rightarrow> bool" where
  "oneDocument b \<longleftrightarrow> (\<exists>r. b = V1ExecuteBody r) \<or> (\<exists>r. b = V1BatchBody r) \<or> (\<exists>t rs. b = PipelineBody t rs)"

lemma document_encodes:
  assumes "oneDocument b"
  shows "bodyDoc T b \<noteq> None \<longleftrightarrow> list_all (encodesVal JSONCodec) (bodyValues b)"
proof -
  have d: "docOf r \<noteq> None \<longleftrightarrow> (\<exists>j. r = Inr j)" for r by (cases r) (simp_all add: docOf_def)
  have p: "list_all (encodesVal JSONCodec) (concat (map streamValues rs))
      \<longleftrightarrow> (\<forall>r \<in> set rs. list_all (encodesVal JSONCodec) (streamValues r))" for rs
    by (auto simp: list_all_iff)
  show ?thesis
    using assms unfolding oneDocument_def
    by (elim disjE exE) (simp_all add: d map_sum_ok writeStmtResult_ok writeBatchResult_ok
        writePipelineResp_def mapR_ok writeStreamResult_ok p del: not_None_eq)
qed

lemma body_document:
  assumes "oneDocument b" and "bodyDoc T b \<noteq> None"
  shows "body (writeCodec hdr JSONCodec code b) = b"
  using document_encodes[OF assms(1), of T] assms(2) by (simp add: writeCodec_def)

end
