(* ===== verification/ClientData.thy ===== *)
theory ClientData
  imports Msgpack DbConn
begin

text \<open>
  The data of the Go client in \<open>src/clients/hranago\<close>: its \<open>Value\<close> with both codecs
  (\<open>types.go\<close>), the conversions to and from the values of \<open>database/sql/driver\<close>
  (\<open>convert.go\<close>) and the rows of a result (\<open>rows.go\<close>).
  The lemmas show that values cross between client and server in both directions, and that
  the rows of a result are delivered once and in order.
\<close>

section \<open>Errors\<close>

datatype (plugins only: code) cl_error =
    CBadJson json_error
  | CUnknownValueType string
  | CIntegerValue json_error
  | CInvalidInteger string num_error
  | CFloatValue json_error
  | CTextValue json_error
  | CInvalidBlob
    \<comment> \<open>convert.go\<close>
  | CUnsupportedArg string
  | CArg nat cl_error
  | CScan
    \<comment> \<open>dsn.go\<close>
  | CInvalidDSN string
  | CScheme string
  | CHttpVersion string
  | CWsVersion string
    \<comment> \<open>conn.go\<close>
  | CMarshalRequest cl_error
  | CHttpError string
  | CServerReturned nat string
  | CDecodeResponse cl_error
  | CEmptyResponse
  | CServerError string
  | CUnknownPipelineError
  | CMissingResult
    \<comment> \<open>ws_conn.go and js-conn.go\<close>
  | CDial string
  | CConnectTimeout
  | CHelloSend cl_error
  | CHelloResponse string
  | CHelloDecode json_error
  | CHelloTimeout
  | CAuthRejected "string option"
  | CUnexpectedHello string
  | CConnClosed
  | CMarshal cl_error
  | CWrite string
  | CSend cl_error
  | CCancelled
  | CRead string
  | COpenStream cl_error
  | CRecover cl_error
  | CRecoverDecode json_error
  | CExecuteResponse cl_error

section \<open>Value\<close>

record cvalue =
  cTyp :: string
  cInteger :: i64
  cFloat :: f64
  cText :: string
  cBlob :: bytes

definition cZero :: cvalue where
  "cZero = \<lparr>cTyp = [], cInteger = 0, cFloat = 0, cText = [], cBlob = []\<rparr>"

definition nullValue :: cvalue where "nullValue = cZero\<lparr>cTyp := ''null''\<rparr>"

definition integerValue :: "i64 \<Rightarrow> cvalue" where
  "integerValue i = cZero\<lparr>cTyp := ''integer'', cInteger := i\<rparr>"

definition floatValue :: "f64 \<Rightarrow> cvalue" where
  "floatValue f = cZero\<lparr>cTyp := ''float'', cFloat := f\<rparr>"

definition textValue :: "string \<Rightarrow> cvalue" where
  "textValue s = cZero\<lparr>cTyp := ''text'', cText := s\<rparr>"

definition blobValue :: "bytes \<Rightarrow> cvalue" where
  "blobValue b = cZero\<lparr>cTyp := ''blob'', cBlob := b\<rparr>"

lemmas cvalue_defs = cZero_def nullValue_def integerValue_def floatValue_def textValue_def blobValue_def

definition cMarshalJSON :: "(f64 \<Rightarrow> string) \<Rightarrow> cvalue \<Rightarrow> cl_error + json" where
  "cMarshalJSON formatF v =
    (if cTyp v = ''null'' \<or> cTyp v = '''' then Inr (JObj [(''type'', JStr ''null'')])
     else if cTyp v = ''integer'' then
       Inr (JObj [(''type'', JStr ''integer''), (''value'', JStr (formatInt (sint (cInteger v))))])
     else if cTyp v = ''float'' then
       (if f64Finite (cFloat v)
        then Inr (JObj [(''type'', JStr ''float''), (''value'', JNum (formatF (cFloat v)))])
        else Inl (CBadJson (UnsupportedFloat (cFloat v))))
     else if cTyp v = ''text'' then
       Inr (JObj [(''type'', JStr ''text''), (''value'', JStr (coerceUtf8 (cText v)))])
     else if cTyp v = ''blob'' then
       Inr (JObj [(''base64'', JStr (b64Encode (cBlob v))), (''type'', JStr ''blob'')])
     else Inl (CUnknownValueType (cTyp v)))"

text \<open>The anonymous struct is that of the server; its fields are decoded the same way.\<close>

definition cValueOfRaw :: "(string \<Rightarrow> f64 option) \<Rightarrow> cvalue \<Rightarrow> raw_value \<Rightarrow> cl_error + cvalue" where
  "cValueOfRaw parseF v r =
    (let v = v\<lparr>cTyp := rType r\<rparr> in
     if rType r = ''null'' then Inr v
     else if rType r = ''integer'' then
       (case rawString r of
          Inl e \<Rightarrow> Inl (CIntegerValue e)
        | Inr s \<Rightarrow>
            (case parseInt 64 s of
               Inl e \<Rightarrow> Inl (CInvalidInteger s e)
             | Inr i \<Rightarrow> Inr (v\<lparr>cInteger := word_of_int i\<rparr>)))
     else if rType r = ''float'' then
       (case (case rValue r of None \<Rightarrow> Inl UnexpectedEnd | Some j \<Rightarrow> decodeFloat parseF 0 j) of
          Inl e \<Rightarrow> Inl (CFloatValue e)
        | Inr f \<Rightarrow> Inr (v\<lparr>cFloat := f\<rparr>))
     else if rType r = ''text'' then
       (case rawString r of
          Inl e \<Rightarrow> Inl (CTextValue e)
        | Inr s \<Rightarrow> Inr (v\<lparr>cText := s\<rparr>))
     else if rType r = ''blob'' then
       (case b64Decode (rBase64 r) of None \<Rightarrow> Inl CInvalidBlob | Some b \<Rightarrow> Inr (v\<lparr>cBlob := b\<rparr>))
     else Inl (CUnknownValueType (rType r)))"

definition cUnmarshalJSON :: "(string \<Rightarrow> f64 option) \<Rightarrow> cvalue \<Rightarrow> json \<Rightarrow> cl_error + cvalue" where
  "cUnmarshalJSON parseF v data =
    (case data of
       JObj kvs \<Rightarrow>
         (case decodeRaw rawZero kvs of
            Inl e \<Rightarrow> Inl (CBadJson e)
          | Inr r \<Rightarrow> cValueOfRaw parseF v r)
     | JNull \<Rightarrow> cValueOfRaw parseF v rawZero
     | _ \<Rightarrow> Inl (CBadJson (UnmarshalType ''struct'')))"

definition cMarshalMsgpack :: "cvalue \<Rightarrow> cl_error + msgpack" where
  "cMarshalMsgpack v =
    (if cTyp v = ''null'' \<or> cTyp v = '''' then Inr (MMap [(''type'', MStr ''null'')])
     else if cTyp v = ''integer'' then
       Inr (MMap [(''type'', MStr ''integer''), (''value'', MStr (formatInt (sint (cInteger v))))])
     else if cTyp v = ''float'' then
       Inr (MMap [(''type'', MStr ''float''), (''value'', MFloat64 (cFloat v))])
     else if cTyp v = ''text'' then
       Inr (MMap [(''type'', MStr ''text''), (''value'', MStr (cText v))])
     else if cTyp v = ''blob'' then
       Inr (MMap [(''type'', MStr ''blob''), (''base64'', MStr (b64Encode (cBlob v)))])
     else Inl (CUnknownValueType (cTyp v)))"

text \<open>
  The client keeps the raw value and decodes it again.  A missing value and nil leave nothing
  to decode.  \<open>decF\<close> and \<open>decF32\<close> are the library's decoders of a float64 and of a float32
  (widened); the second is tried when the first fails.
\<close>

definition rawMsgpackString :: "raw_msgpack \<Rightarrow> string option" where
  "rawMsgpackString r = (if mpValue r = MNil then None else msgpackString (mpValue r))"

definition cValueOfMsgpack ::
  "(msgpack \<Rightarrow> f64 option) \<Rightarrow> (msgpack \<Rightarrow> f64 option) \<Rightarrow> cvalue \<Rightarrow> raw_msgpack \<Rightarrow> cl_error + cvalue" where
  "cValueOfMsgpack decF decF32 v r =
    (let v = v\<lparr>cTyp := mpType r\<rparr> in
     if mpType r = ''null'' then Inr v
     else if mpType r = ''integer'' then
       (case rawMsgpackString r of
          None \<Rightarrow> Inl (CIntegerValue (UnmarshalType ''string''))
        | Some s \<Rightarrow>
            (case parseInt 64 s of
               Inl e \<Rightarrow> Inl (CInvalidInteger s e)
             | Inr i \<Rightarrow> Inr (v\<lparr>cInteger := word_of_int i\<rparr>)))
     else if mpType r = ''float'' then
       (case decF (mpValue r) of
          None \<Rightarrow>
            (case decF32 (mpValue r) of
               None \<Rightarrow> Inl (CFloatValue (UnmarshalType ''float64''))
             | Some f \<Rightarrow> Inr (v\<lparr>cFloat := f\<rparr>))
        | Some f \<Rightarrow> Inr (v\<lparr>cFloat := f\<rparr>))
     else if mpType r = ''text'' then
       (case rawMsgpackString r of
          None \<Rightarrow> Inl (CTextValue (UnmarshalType ''string''))
        | Some s \<Rightarrow> Inr (v\<lparr>cText := s\<rparr>))
     else if mpType r = ''blob'' then
       (case b64Decode (mpBase64 r) of None \<Rightarrow> Inl CInvalidBlob | Some b \<Rightarrow> Inr (v\<lparr>cBlob := b\<rparr>))
     else Inl (CUnknownValueType (mpType r)))"

definition cUnmarshalMsgpack ::
  "(msgpack \<Rightarrow> f64 option) \<Rightarrow> (msgpack \<Rightarrow> f64 option) \<Rightarrow> cvalue \<Rightarrow> msgpack \<Rightarrow> cl_error + cvalue" where
  "cUnmarshalMsgpack decF decF32 v data =
    (case data of
       MMap kvs \<Rightarrow>
         (case decodeRawMsgpack \<lparr>mpType = [], mpValue = MNil, mpBase64 = []\<rparr> kvs of
            Inl e \<Rightarrow> Inl (CBadJson e)
          | Inr r \<Rightarrow> cValueOfMsgpack decF decF32 v r)
     | MNil \<Rightarrow> cValueOfMsgpack decF decF32 v \<lparr>mpType = [], mpValue = MNil, mpBase64 = []\<rparr>
     | _ \<Rightarrow> Inl (CBadJson (UnmarshalType ''struct'')))"

section \<open>Values of database/sql\<close>

text \<open>
  \<open>driver.Value\<close>: the types the code tells apart, a point in time as seconds and
  nanoseconds of UTC, and any other type by its name.
\<close>

datatype driver_value =
    DNil
  | DInt64 i64
  | DFloat64 f64
  | DBool bool
  | DString string
  | DBytes bytes
  | DTime int nat
  | DOther string

text \<open>\<open>t.UTC().Format(time.RFC3339Nano)\<close>; the civil date by the usual count of days.\<close>

definition pad :: "nat \<Rightarrow> nat \<Rightarrow> string" where
  "pad k n = replicate (k - length (natDigits n)) CHR ''0'' @ natDigits n"

definition civil :: "int \<Rightarrow> int \<times> nat \<times> nat" where
  "civil days =
    (let z = days + 719468; era = z div 146097; doe = z mod 146097;
         yoe = (doe - doe div 1460 + doe div 36524 - doe div 146096) div 365;
         doy = doe - (365 * yoe + yoe div 4 - yoe div 100);
         mp = (5 * doy + 2) div 153;
         d = doy - (153 * mp + 2) div 5 + 1;
         m = (if mp < 10 then mp + 3 else mp - 9);
         y = yoe + era * 400 + (if m \<le> 2 then 1 else 0)
     in (y, nat m, nat d))"

definition fraction :: "nat \<Rightarrow> string" where
  "fraction ns =
    (let ds = rev (dropWhile ((=) CHR ''0'') (rev (pad 9 ns))) in if ds = [] then [] else CHR ''.'' # ds)"

definition rfc3339Nano :: "int \<Rightarrow> nat \<Rightarrow> string" where
  "rfc3339Nano sec ns =
    (let (y, m, d) = civil (sec div 86400); t = nat (sec mod 86400)
     in (if y < 0 then ''-'' else []) @ pad 4 (nat \<bar>y\<bar>) @ ''-'' @ pad 2 m @ ''-'' @ pad 2 d @ ''T''
        @ pad 2 (t div 3600) @ '':'' @ pad 2 (t div 60 mod 60) @ '':'' @ pad 2 (t mod 60) @ fraction ns @ ''Z'')"

fun driverValueToHrana :: "driver_value \<Rightarrow> cl_error + cvalue" where
  "driverValueToHrana DNil = Inr nullValue"
| "driverValueToHrana (DInt64 i) = Inr (integerValue i)"
| "driverValueToHrana (DFloat64 f) = Inr (floatValue f)"
| "driverValueToHrana (DBool b) = Inr (integerValue (if b then 1 else 0))"
| "driverValueToHrana (DString s) = Inr (textValue s)"
| "driverValueToHrana (DBytes b) = Inr (blobValue b)"
| "driverValueToHrana (DTime sec ns) = Inr (textValue (rfc3339Nano sec ns))"
| "driverValueToHrana (DOther t) = Inl (CUnsupportedArg t)"

definition hranaValueToDriver :: "cvalue \<Rightarrow> driver_value" where
  "hranaValueToDriver v =
    (if cTyp v = ''null'' \<or> cTyp v = '''' then DNil
     else if cTyp v = ''integer'' then DInt64 (cInteger v)
     else if cTyp v = ''float'' then DFloat64 (cFloat v)
     else if cTyp v = ''text'' then DString (cText v)
     else if cTyp v = ''blob'' then DBytes (cBlob v)
     else DNil)"

section \<open>Statements\<close>

record named_value =
  nvName :: string
  nvOrdinal :: nat
  nvValue :: driver_value

record cnamed_arg =
  cnName :: string
  cnValue :: cvalue

record cstmt =
  cSQL :: string
  cArgs :: "cvalue list"
  cNamedArgs :: "cnamed_arg list"
  cWantRows :: bool

fun convertArgs :: "nat \<Rightarrow> named_value list \<Rightarrow> cl_error + (string \<times> cvalue) list" where
  "convertArgs i [] = Inr []"
| "convertArgs i (a # as) =
    (case driverValueToHrana (nvValue a) of
       Inl e \<Rightarrow> Inl (CArg i e)
     | Inr v \<Rightarrow> (case convertArgs (Suc i) as of Inl e \<Rightarrow> Inl e | Inr vs \<Rightarrow> Inr ((nvName a, v) # vs)))"

definition buildStmt :: "string \<Rightarrow> named_value list \<Rightarrow> bool \<Rightarrow> cl_error + cstmt" where
  "buildStmt sql args want =
    (let s = \<lparr>cSQL = sql, cArgs = [], cNamedArgs = [], cWantRows = want\<rparr> in
     if args = [] then Inr s
     else (case convertArgs 0 args of
             Inl e \<Rightarrow> Inl e
           | Inr vs \<Rightarrow>
               (if list_ex (\<lambda>a. nvName a \<noteq> []) args
                then Inr (s\<lparr>cNamedArgs := map (\<lambda>(n, v). \<lparr>cnName = n, cnValue = v\<rparr>) vs\<rparr>)
                else Inr (s\<lparr>cArgs := map snd vs\<rparr>))))"

definition valuesToNamedValues :: "driver_value list \<Rightarrow> named_value list" where
  "valuesToNamedValues vals =
    map (\<lambda>(i, v). \<lparr>nvName = [], nvOrdinal = i + 1, nvValue = v\<rparr>) (enumerate 0 vals)"

section \<open>Results\<close>

record ccol =
  ccName :: "string option"
  ccDecltype :: "string option"

record cstmt_result =
  cCols :: "ccol list"
  cRows :: "cvalue list list"
  cAffected :: u64
  cRowid :: "string option"

text \<open>
  \<open>fmt.Sscanf(s, "%d", &id)\<close>: leading blanks, an optional sign and decimal digits, up to
  the first other byte; a line break is no blank.
\<close>

definition scanInt :: "string \<Rightarrow> cl_error + i64" where
  "scanInt s0 =
    (let s = trimRunes (filter (\<lambda>r. r \<noteq> [CHR 0x0A]) spaceRunes) s0;
         (sign, rest) = (case s of c # cs \<Rightarrow> if c = CHR ''+'' \<or> c = CHR ''-'' then ([c], cs) else ([], s) | [] \<Rightarrow> ([], []));
         ds = takeWhile (\<lambda>c. digitVal c \<noteq> None) rest
     in if ds = [] then Inl CScan
        else (case parseInt 64 (sign @ ds) of Inl e \<Rightarrow> Inl CScan | Inr i \<Rightarrow> Inr (word_of_int i)))"

definition resultLastInsertId :: "cstmt_result \<Rightarrow> cl_error + i64" where
  "resultLastInsertId r = (case cRowid r of None \<Rightarrow> Inr 0 | Some s \<Rightarrow> scanInt s)"

text \<open>The conversion of a \<open>uint64\<close> to an \<open>int64\<close> keeps the bits.\<close>

definition resultRowsAffected :: "cstmt_result \<Rightarrow> i64" where
  "resultRowsAffected r = cAffected r"

record crows =
  rwResult :: cstmt_result
  rwPos :: nat

definition newRows :: "cstmt_result \<Rightarrow> crows" where
  "newRows r = \<lparr>rwResult = r, rwPos = 0\<rparr>"

definition rowsColumns :: "crows \<Rightarrow> string list" where
  "rowsColumns r = map (\<lambda>c. case ccName c of Some n \<Rightarrow> n | None \<Rightarrow> []) (cCols (rwResult r))"

text \<open>A row longer than \<open>dest\<close> is an index out of range.\<close>

datatype next_result = EndOfRows | NextRow "driver_value list" | IndexPanic

definition rowsNext :: "crows \<Rightarrow> driver_value list \<Rightarrow> next_result \<times> crows" where
  "rowsNext r dest =
    (if rwPos r \<ge> length (cRows (rwResult r)) then (EndOfRows, r)
     else (let row = cRows (rwResult r) ! rwPos r; r' = r\<lparr>rwPos := rwPos r + 1\<rparr>
           in if length row > length dest then (IndexPanic, r')
              else (NextRow (map hranaValueToDriver row @ drop (length row) dest), r')))"

datatype scan_type = ScanAny | ScanInt64 | ScanFloat64 | ScanString | ScanBytes

definition columnTypeScanType :: "crows \<Rightarrow> nat \<Rightarrow> scan_type" where
  "columnTypeScanType r index =
    (if index \<ge> length (cCols (rwResult r)) then ScanAny
     else (case ccDecltype (cCols (rwResult r) ! index) of
             None \<Rightarrow> ScanAny
           | Some t \<Rightarrow>
               if t \<in> set [''INTEGER'', ''INT'', ''TINYINT'', ''SMALLINT'', ''MEDIUMINT'', ''BIGINT''] then ScanInt64
               else if t \<in> set [''REAL'', ''FLOAT'', ''DOUBLE''] then ScanFloat64
               else if t \<in> set [''TEXT'', ''VARCHAR'', ''CHAR'', ''CLOB''] then ScanString
               else if t = ''BLOB'' then ScanBytes
               else ScanAny))"

definition columnTypeDatabaseTypeName :: "crows \<Rightarrow> nat \<Rightarrow> string" where
  "columnTypeDatabaseTypeName r index =
    (if index \<ge> length (cCols (rwResult r)) then []
     else (case ccDecltype (cCols (rwResult r) ! index) of None \<Rightarrow> [] | Some t \<Rightarrow> t))"

section \<open>One codec on both sides\<close>

definition toServer :: "cvalue \<Rightarrow> val" where
  "toServer v =
    \<lparr>IsNull = (cTyp v = ''null''), Integer = cInteger v, Float = cFloat v, Text = cText v, Blob = cBlob v,
     vtyp = cTyp v\<rparr>"

lemma toServer_built [simp]:
  "toServer nullValue = NullValue" "toServer (integerValue i) = IntValue i"
  "toServer (floatValue f) = FloatValue f" "toServer (textValue s) = TextValue s"
  "toServer (blobValue b) = BlobValue b"
  by (simp_all add: toServer_def cvalue_defs value_defs)

lemma toServer_inj: "toServer v = toServer v' \<longleftrightarrow> v = v'"
  by (cases v; cases v') (auto simp: toServer_def)

lemma marshal_agree: "cMarshalJSON formatF v = Inr j \<longleftrightarrow> marshalValue formatF (toServer v) = Inr j"
  by (auto simp: cMarshalJSON_def marshalValue_def toServer_def)

lemma valueOfRaw_agree:
  "valueOfRaw parseF zeroValue r = Inr v \<longleftrightarrow> (\<exists>c. cValueOfRaw parseF cZero r = Inr c \<and> v = toServer c)"
  unfolding valueOfRaw_def cValueOfRaw_def Let_def
  by (simp add: toServer_def cZero_def zeroValue_def split: sum.split option.split) auto

lemma codec_reads:
  "unmarshalValue parseF zeroValue j = Inr v \<longleftrightarrow>
    (\<exists>c. cUnmarshalJSON parseF cZero j = Inr c \<and> v = toServer c)"
  by (cases j) (simp_all add: unmarshalValue_def cUnmarshalJSON_def valueOfRaw_agree split: sum.split)


definition cBuilt :: "cvalue \<Rightarrow> bool" where
  "cBuilt v \<longleftrightarrow> builtValue (toServer v)"

lemma driverValue_built: "driverValueToHrana d = Inr c \<Longrightarrow> cBuilt c"
  by (cases d) (auto simp: cBuilt_def value_defs)

lemma hranaValue_back:
  "hranaValueToDriver nullValue = DNil" "hranaValueToDriver (integerValue i) = DInt64 i"
  "hranaValueToDriver (floatValue f) = DFloat64 f" "hranaValueToDriver (textValue s) = DString s"
  "hranaValueToDriver (blobValue b) = DBytes b"
  by (simp_all add: hranaValueToDriver_def cvalue_defs)

section \<open>Numbers in results\<close>

lemma digit_no_space: "digitVal c \<noteq> None \<or> c = CHR ''-'' \<Longrightarrow> \<not> spaceByte c"
proof -
  assume "digitVal c \<noteq> None \<or> c = CHR ''-''"
  then have "(of_char c :: nat) \<in> {45..57}" by (auto simp: digitVal_def Let_def split: if_splits)
  then show ?thesis by (auto simp: spaceByte_def spaceRunes_def)
qed

lemma blanks_keep:
  assumes "\<not> spaceByte c"
  shows "trimRunes (filter (\<lambda>r. r \<noteq> [CHR 0x0A]) spaceRunes) (c # s) = c # s"
proof (rule trimRunes_stop)
  fix r :: string
  assume "r \<in> set (filter (\<lambda>r. r \<noteq> [CHR 0x0A]) spaceRunes)" and r: "r \<noteq> []"
  then have "r \<in> set spaceRunes" by simp
  then have "c \<notin> set r" using assms by (auto simp: spaceByte_def)
  then show "\<not> hasPrefix (c # s) r" using r by (cases r) auto
qed

lemma takeWhile_digits: "takeWhile (\<lambda>c. digitVal c \<noteq> None) (natDigits n) = natDigits n"
  using natDigits_digit by (simp only: takeWhile_eq_all_conv) blast

text \<open>A row id the server prints is scanned back.\<close>

lemma scanInt_formatInt: "scanInt (formatInt (sint (i :: i64))) = Inr i"
proof (cases "sint i < 0")
  case True
  then have f: "formatInt (sint i) = CHR ''-'' # natDigits (nat (- sint i))" by (simp add: formatInt_def)
  have "parseInt 64 (CHR ''-'' # natDigits (nat (- sint i))) = Inr (sint i)" using parse_sint[of i] f by simp
  then show ?thesis
    using digit_no_space[of "CHR ''-''"] by (simp add: scanInt_def f blanks_keep takeWhile_digits Let_def del: not_None_eq)
next
  case False
  obtain c cs where c: "natDigits (nat (sint i)) = c # cs" "c \<noteq> CHR ''-''" "c \<noteq> CHR ''+''"
    using natDigits_hd by blast
  have f: "formatInt (sint i) = c # cs" using False c by (simp add: formatInt_def)
  have "digitVal c \<noteq> None" using natDigits_digit[of c "nat (sint i)"] c(1) by simp
  moreover have "parseInt 64 (c # cs) = Inr (sint i)" using parse_sint[of i] f by simp
  moreover have "takeWhile (\<lambda>c. digitVal c \<noteq> None) cs = cs"
    using takeWhile_digits[of "nat (sint i)"] unfolding c(1) by (auto split: if_splits)
  ultimately show ?thesis
    using digit_no_space[of c] c(2,3) by (simp add: scanInt_def f blanks_keep Let_def takeWhile_eq_all_conv[THEN iffD2] del: not_None_eq)
qed

section \<open>Rows\<close>

fun nexts :: "nat \<Rightarrow> driver_value list \<Rightarrow> crows \<Rightarrow> next_result list" where
  "nexts 0 dest r = []"
| "nexts (Suc n) dest r = (case rowsNext r dest of (x, r') \<Rightarrow> x # nexts n dest r')"

lemma nexts_from:
  assumes "\<forall>row \<in> set (cRows res). length row = length dest" and "p \<le> length (cRows res)"
  shows "nexts n dest \<lparr>rwResult = res, rwPos = p\<rparr>
    = map (\<lambda>row. NextRow (map hranaValueToDriver row)) (take n (drop p (cRows res)))
      @ replicate (n - (length (cRows res) - p)) EndOfRows"
  using assms(2)
proof (induction n arbitrary: p)
  case 0
  then show ?case by simp
next
  case (Suc n)
  show ?case
  proof (cases "p < length (cRows res)")
    case True
    have d: "drop p (cRows res) = cRows res ! p # drop (Suc p) (cRows res)" by (rule Cons_nth_drop_Suc[OF True, symmetric])
    have "length (cRows res ! p) = length dest" using assms(1) True by simp
    then show ?thesis using Suc.IH[of "Suc p"] True by (simp add: rowsNext_def Let_def d)
  next
    case False
    then show ?thesis using Suc.IH[of p] Suc.prems by (simp add: rowsNext_def)
  qed
qed

text \<open>
  Reading a result: successive calls of \<open>Next\<close> deliver its rows once and in order,
  each value converted, and then the end of the rows for ever.
\<close>

theorem rows_deliver_all:
  assumes "\<forall>row \<in> set (cRows res). length row = length (cCols res)" and "length dest = length (cCols res)"
  shows "nexts n dest (newRows res)
    = map (\<lambda>row. NextRow (map hranaValueToDriver row)) (take n (cRows res))
      @ replicate (n - length (cRows res)) EndOfRows"
  using nexts_from[of res dest 0 n] assms by (simp add: newRows_def)

theorem rows_deliver_all_witness:
  "nexts 3 [DNil] (newRows \<lparr>cCols = [\<lparr>ccName = Some ''a'', ccDecltype = None\<rparr>],
      cRows = [[integerValue 1], [nullValue]], cAffected = 0, cRowid = None\<rparr>)
    = [NextRow [DInt64 1], NextRow [DNil], EndOfRows]"
  using rows_deliver_all[of "\<lparr>cCols = [\<lparr>ccName = Some ''a'', ccDecltype = None\<rparr>],
      cRows = [[integerValue 1], [nullValue]], cAffected = 0, cRowid = None\<rparr>" "[DNil]" 3]
  by (simp add: hranaValue_back)

end
