(* ===== verification/ClientDsn.thy ===== *)
theory ClientDsn
  imports ClientData Upgrade
begin

text \<open>
  The data source name of the Go client, \<open>src/clients/hranago/dsn.go\<close>, and what it selects:
  transport, protocol version, codec.  The client then asks for a subprotocol or an endpoint
  that the server (\<open>src/hrana.go\<close>, \<open>src/http.go\<close>) offers under the same name.
\<close>

text \<open>
  \<open>url.Parse\<close> is a parameter.  Of its result the code uses the scheme, the raw query, and
  the text of the URL without its query.
\<close>

record url =
  uScheme :: string
  uRawQuery :: string
  uBare :: string

record cconfig =
  cfBaseURL :: string
  cfToken :: string
  cfVersion :: string
  cfTransport :: string
  cfCodec :: codec

text \<open>\<open>u.Query().Get(key)\<close>: pairs that cannot be parsed are left out.\<close>

definition queryGet :: "string \<Rightarrow> string \<Rightarrow> string" where
  "queryGet raw key =
    (case map_of (List.map_filter parsePair (filter (\<lambda>p. p \<noteq> []) (splitByte CHR ''&'' raw))) key of
       None \<Rightarrow> [] | Some v \<Rightarrow> v)"

definition trimSlashes :: "string \<Rightarrow> string" where
  "trimSlashes s = rev (dropWhile ((=) CHR ''/'') (rev s))"

definition transportOf :: "string \<Rightarrow> string option" where
  "transportOf scheme =
    (if scheme = ''http'' \<or> scheme = ''https'' then Some ''http''
     else if scheme = ''ws'' \<or> scheme = ''wss'' then Some ''ws''
     else None)"

definition parseDSN :: "(string \<Rightarrow> string + url) \<Rightarrow> string \<Rightarrow> cl_error + cconfig" where
  "parseDSN urlParse dsn =
    (case urlParse dsn of
       Inl e \<Rightarrow> Inl (CInvalidDSN e)
     | Inr u \<Rightarrow>
         (case transportOf (uScheme u) of
            None \<Rightarrow> Inl (CScheme (uScheme u))
          | Some transport \<Rightarrow>
              (let token = queryGet (uRawQuery u) ''token'';
                   v0 = queryGet (uRawQuery u) ''version'';
                   version = (if v0 = [] then ''v3'' else v0)
               in if transport = ''http'' \<and> version \<noteq> ''v2'' \<and> version \<noteq> ''v3'' then Inl (CHttpVersion version)
                  else if transport \<noteq> ''http'' \<and> version \<noteq> ''v1'' \<and> version \<noteq> ''v2'' \<and> version \<noteq> ''v3''
                    then Inl (CWsVersion version)
                  else Inr \<lparr>cfBaseURL = trimSlashes (uBare u), cfToken = token, cfVersion = version,
                            cfTransport = transport,
                            cfCodec = (if queryGet (uRawQuery u) ''codec'' = ''msgpack'' then MsgpackCodec
                                       else JSONCodec)\<rparr>)))"

text \<open>The subprotocol the two WebSocket clients ask for; the native one always speaks JSON.\<close>

definition wsSubproto :: "cconfig \<Rightarrow> string" where
  "wsSubproto cfg = ''hrana'' @ drop 1 (cfVersion cfg)"

definition jsSubproto :: "cconfig \<Rightarrow> string" where
  "jsSubproto cfg = wsSubproto cfg @ (if cfCodec cfg = MsgpackCodec then ''-bin'' else [])"

text \<open>The endpoint of a pipeline.\<close>

definition endpoint :: "cconfig \<Rightarrow> string \<Rightarrow> string" where
  "endpoint cfg base = base @ ''/'' @ cfVersion cfg @ ''/pipeline''"

lemma transportOf_cases: "transportOf x = Some t \<Longrightarrow> t = ''http'' \<or> t = ''ws''"
  by (auto simp: transportOf_def split: if_splits)

lemma both_accepted:
  "(if a then Inl x else if b then Inl y else Inr z) = Inr r \<Longrightarrow> \<not> a \<and> \<not> b \<and> r = z"
  by (simp split: if_split_asm)

lemma parseDSN_config:
  assumes "parseDSN urlParse dsn = Inr cfg"
  shows "cfTransport cfg = ''http'' \<and> cfVersion cfg \<in> {''v2'', ''v3''}
      \<or> cfTransport cfg = ''ws'' \<and> cfVersion cfg \<in> {''v1'', ''v2'', ''v3''}"
    and "\<exists>u :: url. cfBaseURL cfg = trimSlashes (uBare u)"
proof -
  obtain u where u: "urlParse dsn = Inr u" using assms by (auto simp: parseDSN_def split: sum.splits)
  obtain t where t: "transportOf (uScheme u) = Some t"
    using assms u by (auto simp: parseDSN_def split: option.splits)
  define v where "v = (if queryGet (uRawQuery u) ''version'' = [] then ''v3'' else queryGet (uRawQuery u) ''version'')"
  have "(if t = ''http'' \<and> v \<noteq> ''v2'' \<and> v \<noteq> ''v3'' then Inl (CHttpVersion v)
      else if t \<noteq> ''http'' \<and> v \<noteq> ''v1'' \<and> v \<noteq> ''v2'' \<and> v \<noteq> ''v3'' then Inl (CWsVersion v)
      else Inr \<lparr>cfBaseURL = trimSlashes (uBare u), cfToken = queryGet (uRawQuery u) ''token'', cfVersion = v,
                cfTransport = t,
                cfCodec = (if queryGet (uRawQuery u) ''codec'' = ''msgpack'' then MsgpackCodec else JSONCodec)\<rparr>) = Inr cfg"
    using assms unfolding parseDSN_def u t sum.case option.case Let_def v_def by (simp only:)
  then have c: "\<not> (t = ''http'' \<and> v \<noteq> ''v2'' \<and> v \<noteq> ''v3'')"
    "\<not> (t \<noteq> ''http'' \<and> v \<noteq> ''v1'' \<and> v \<noteq> ''v2'' \<and> v \<noteq> ''v3'')"
    "cfg = \<lparr>cfBaseURL = trimSlashes (uBare u), cfToken = queryGet (uRawQuery u) ''token'', cfVersion = v,
                cfTransport = t,
                cfCodec = (if queryGet (uRawQuery u) ''codec'' = ''msgpack'' then MsgpackCodec else JSONCodec)\<rparr>"
    by (blast dest: both_accepted)+
  show "cfTransport cfg = ''http'' \<and> cfVersion cfg \<in> {''v2'', ''v3''}
      \<or> cfTransport cfg = ''ws'' \<and> cfVersion cfg \<in> {''v1'', ''v2'', ''v3''}"
    using c(1,2) transportOf_cases[OF t] unfolding c(3) by (simp only: cconfig.simps insert_iff empty_iff) blast
  show "\<exists>u :: url. cfBaseURL cfg = trimSlashes (uBare u)" unfolding c(3) cconfig.simps by (intro exI, rule refl)
qed

lemma trimSlashes_last: "trimSlashes s = [] \<or> last (trimSlashes s) \<noteq> CHR ''/''"
proof (cases "dropWhile ((=) CHR ''/'') (rev s)")
  case Nil
  then show ?thesis by (simp add: trimSlashes_def)
next
  case (Cons c cs)
  then have "CHR ''/'' \<noteq> c" by (metis dropWhile_eq_Cons_conv)
  then show ?thesis by (simp add: trimSlashes_def Cons)
qed

lemma parseDSN_base:
  "parseDSN urlParse dsn = Inr cfg \<Longrightarrow> cfBaseURL cfg = [] \<or> last (cfBaseURL cfg) \<noteq> CHR ''/''"
  using parseDSN_config(2) trimSlashes_last by metis

lemma subproto_codec:
  "v \<in> {''v1'', ''v2'', ''v3''} \<Longrightarrow>
    fst (codecForProto (''hrana'' @ drop 1 v)) = JSONCodec \<and> fst (codecForProto ((''hrana'' @ drop 1 v) @ ''-bin'')) = MsgpackCodec"
  by (elim insertE emptyE; simp only:; code_simp)

lemma subproto_enabled:
  assumes "v \<in> {''v1'', ''v2'', ''v3''}"
  shows "''hrana'' @ drop 1 v \<in> set (enabledSubprotocols conf) \<longleftrightarrow> isVersionEnabled conf v"
    and "(''hrana'' @ drop 1 v) @ ''-bin'' \<in> set (enabledSubprotocols conf) \<longleftrightarrow> isVersionEnabled conf v"
  using assms unfolding enabled_iff by (auto simp: protoCandidates_def)

text \<open>
  What a data source name selects: HTTP with version 2 or 3, or WebSocket with version 1
  to 3, version 3 by default, and a base URL without a slash at its end.  The server offers
  the subprotocol a WebSocket client asks for exactly when it has that version enabled, and
  then speaks the codec of the client.
\<close>

theorem dsn_selects:
  assumes "parseDSN urlParse dsn = Inr cfg"
  shows "(cfTransport cfg = ''http'' \<and> cfVersion cfg \<in> {''v2'', ''v3''}
      \<or> cfTransport cfg = ''ws'' \<and> cfVersion cfg \<in> {''v1'', ''v2'', ''v3''})
    \<and> (cfBaseURL cfg = [] \<or> last (cfBaseURL cfg) \<noteq> CHR ''/'')
    \<and> (wsSubproto cfg \<in> set (enabledSubprotocols conf) \<longleftrightarrow> isVersionEnabled conf (cfVersion cfg))
    \<and> (jsSubproto cfg \<in> set (enabledSubprotocols conf) \<longleftrightarrow> isVersionEnabled conf (cfVersion cfg))
    \<and> fst (codecForProto (wsSubproto cfg)) = JSONCodec
    \<and> fst (codecForProto (jsSubproto cfg)) = cfCodec cfg"
proof -
  note c = parseDSN_config(1)[OF assms]
  then have v: "cfVersion cfg \<in> {''v1'', ''v2'', ''v3''}" by blast
  have "cfCodec cfg = JSONCodec \<or> cfCodec cfg = MsgpackCodec" using codec.exhaust by blast
  then show ?thesis
    using c parseDSN_base[OF assms] subproto_enabled[OF v, of conf] subproto_codec[OF v]
    by (auto simp: wsSubproto_def jsSubproto_def)
qed

definition demoUrl :: "string \<Rightarrow> string + url" where
  "demoUrl s = Inr \<lparr>uScheme = ''ws'', uRawQuery = ''token=a+b&version=v2&codec=msgpack'', uBare = ''ws://h:1/''\<rparr>"

theorem dsn_selects_witness:
  "parseDSN demoUrl ''ws://h:1/?token=a+b&version=v2&codec=msgpack''
      = Inr \<lparr>cfBaseURL = ''ws://h:1'', cfToken = ''a b'', cfVersion = ''v2'', cfTransport = ''ws'', cfCodec = MsgpackCodec\<rparr>
    \<and> jsSubproto \<lparr>cfBaseURL = ''ws://h:1'', cfToken = ''a b'', cfVersion = ''v2'', cfTransport = ''ws'', cfCodec = MsgpackCodec\<rparr>
      \<in> set (enabledSubprotocols (config demoServerWS))"
proof -
  have p: "parseDSN demoUrl ''ws://h:1/?token=a+b&version=v2&codec=msgpack''
      = Inr \<lparr>cfBaseURL = ''ws://h:1'', cfToken = ''a b'', cfVersion = ''v2'', cfTransport = ''ws'', cfCodec = MsgpackCodec\<rparr>"
    by code_simp
  show ?thesis
    using dsn_selects[OF p, of "config demoServerWS"] p by (simp add: isVersionEnabled_def demo_server)
qed

end
