(* ===== verification/HttpClient.thy ===== *)
theory HttpClient
  imports HttpJson ClientDsn
begin

text \<open>
  The \<open>database/sql\<close> driver over HTTP, \<open>src/clients/hranago/conn.go\<close> with \<open>stmt.go\<close>, \<open>tx.go\<close>
  and the pipeline types of \<open>types.go\<close>: a connection keeps a baton, sends each statement as a
  pipeline and takes over the baton of the answer.
  Statements, prepared statements and transactions run on an executor, so that they serve both
  transports.
\<close>

section \<open>The documents of the client\<close>

definition writeCArgs :: "go_text \<Rightarrow> cvalue list \<Rightarrow> cl_error + json" where
  "writeCArgs T vs = map_sum id JArr (mapR (cMarshalJSON (fmtFloat T)) vs)"

definition writeCNamed :: "go_text \<Rightarrow> cnamed_arg list \<Rightarrow> cl_error + json" where
  "writeCNamed T ns =
    map_sum id JArr (mapR (\<lambda>n. map_sum id (\<lambda>v. JObj [(''name'', jStr (cnName n)), (''value'', v)])
      (cMarshalJSON (fmtFloat T) (cnValue n))) ns)"

text \<open>\<open>args\<close> and \<open>named_args\<close> are left out when empty.\<close>

definition writeCStmt :: "go_text \<Rightarrow> cstmt \<Rightarrow> cl_error + json" where
  "writeCStmt T s =
    (case writeCArgs T (cArgs s) of
       Inl e \<Rightarrow> Inl e
     | Inr as \<Rightarrow>
         (case writeCNamed T (cNamedArgs s) of
            Inl e \<Rightarrow> Inl e
          | Inr ns \<Rightarrow>
              Inr (JObj ([(''sql'', jStr (cSQL s))]
                @ (if cArgs s = [] then [] else [(''args'', as)])
                @ (if cNamedArgs s = [] then [] else [(''named_args'', ns)])
                @ [(''want_rows'', JBool (cWantRows s))]))))"

text \<open>The two stream requests the client sends.\<close>

datatype crequest = CExecute cstmt | CClose

fun writeCRequest :: "go_text \<Rightarrow> crequest \<Rightarrow> cl_error + json" where
  "writeCRequest T (CExecute s) =
    map_sum id (\<lambda>j. JObj [(''type'', JStr ''execute''), (''stmt'', j)]) (writeCStmt T s)"
| "writeCRequest T CClose = Inr (JObj [(''type'', JStr ''close'')])"

definition writePipelineReq :: "go_text \<Rightarrow> string option \<Rightarrow> crequest list \<Rightarrow> cl_error + json" where
  "writePipelineReq T baton reqs =
    map_sum id (\<lambda>rs. JObj (omitNil ''baton'' baton @ [(''requests'', JArr rs)]))
      (mapR (writeCRequest T) reqs)"

record cpipe_result =
  crType :: string
  crResponse :: "(string \<times> cstmt_result option) option"
  crError :: "string option"

record cpipeline_resp =
  prBaton :: "string option"
  prBaseURL :: "string option"
  prResults :: "cpipe_result list"

definition readCCol :: "json \<Rightarrow> cl_error + ccol" where
  "readCCol =
    readStruct CBadJson (\<lambda>c k j.
        if k = ''name'' then map_sum CBadJson (\<lambda>x. c\<lparr>ccName := x\<rparr>) (ptrString j)
        else if k = ''decltype'' then map_sum CBadJson (\<lambda>x. c\<lparr>ccDecltype := x\<rparr>) (ptrString j)
        else Inr c)
      \<lparr>ccName = None, ccDecltype = None\<rparr>"

definition noResult :: cstmt_result where
  "noResult = \<lparr>cCols = [], cRows = [], cAffected = 0, cRowid = None\<rparr>"

definition readCResult :: "go_text \<Rightarrow> cstmt_result \<Rightarrow> json \<Rightarrow> cl_error + cstmt_result" where
  "readCResult T =
    readStruct CBadJson (\<lambda>r k j.
        if k = ''cols'' then map_sum id (\<lambda>x. r\<lparr>cCols := x\<rparr>) (readSlice CBadJson readCCol j)
        else if k = ''rows'' then
          map_sum id (\<lambda>x. r\<lparr>cRows := x\<rparr>)
            (readSlice CBadJson (readSlice CBadJson (cUnmarshalJSON (parseFloat T) cZero)) j)
        else if k = ''affected_row_count'' then
          map_sum CBadJson (\<lambda>x. r\<lparr>cAffected := x\<rparr>)
            (keepOr (cAffected r) (map_sum id (map_option word_of_nat) (ptrUint 64 j)))
        else if k = ''last_insert_rowid'' then map_sum CBadJson (\<lambda>x. r\<lparr>cRowid := x\<rparr>) (ptrString j)
        else Inr r)"

text \<open>Pointers to structs: \<open>null\<close> empties them, anything else is read into a new struct.\<close>

definition readPtr :: "(json \<Rightarrow> 'e + 'a) \<Rightarrow> json \<Rightarrow> 'e + 'a option" where
  "readPtr f j = (if j = JNull then Inr None else map_sum id Some (f j))"

definition readCResponse :: "go_text \<Rightarrow> json \<Rightarrow> cl_error + (string \<times> cstmt_result option)" where
  "readCResponse T =
    readStruct CBadJson (\<lambda>(t, r) k j.
        if k = ''type'' then map_sum CBadJson (\<lambda>x. (x, r)) (decodeString t j)
        else if k = ''result'' then map_sum id (\<lambda>x. (t, x)) (readPtr (readCResult T noResult) j)
        else Inr (t, r)) ([], None)"

definition readCError :: "json \<Rightarrow> cl_error + string" where
  "readCError =
    readStruct CBadJson (\<lambda>m k j.
        if k = ''message'' then map_sum CBadJson id (decodeString m j)
        else if k = ''code'' then map_sum CBadJson (\<lambda>_. m) (ptrString j)
        else Inr m) []"

definition readCStreamResult :: "go_text \<Rightarrow> json \<Rightarrow> cl_error + cpipe_result" where
  "readCStreamResult T =
    readStruct CBadJson (\<lambda>r k j.
        if k = ''type'' then map_sum CBadJson (\<lambda>x. r\<lparr>crType := x\<rparr>) (decodeString (crType r) j)
        else if k = ''response'' then map_sum id (\<lambda>x. r\<lparr>crResponse := x\<rparr>) (readPtr (readCResponse T) j)
        else if k = ''error'' then map_sum id (\<lambda>x. r\<lparr>crError := x\<rparr>) (readPtr readCError j)
        else Inr r)
      \<lparr>crType = [], crResponse = None, crError = None\<rparr>"

definition readPipelineResp :: "go_text \<Rightarrow> json \<Rightarrow> cl_error + cpipeline_resp" where
  "readPipelineResp T =
    readStruct CBadJson (\<lambda>p k j.
        if k = ''baton'' then map_sum CBadJson (\<lambda>x. p\<lparr>prBaton := x\<rparr>) (ptrString j)
        else if k = ''base_url'' then map_sum CBadJson (\<lambda>x. p\<lparr>prBaseURL := x\<rparr>) (ptrString j)
        else if k = ''results'' then
          map_sum id (\<lambda>x. p\<lparr>prResults := x\<rparr>) (readSlice CBadJson (readCStreamResult T) j)
        else Inr p)
      \<lparr>prBaton = None, prBaseURL = None, prResults = []\<rparr>"

section \<open>The connection\<close>

record cconn =
  cnCfg :: cconfig
  cnBaton :: "string option"
  cnBase :: string
  cnClosed :: bool

definition newHttpConn :: "cconfig \<Rightarrow> cconn" where
  "newHttpConn cfg = \<lparr>cnCfg = cfg, cnBaton = None, cnBase = cfBaseURL cfg, cnClosed = False\<rparr>"

text \<open>
  The way to the server is a parameter: given the URL, the headers and the document of a
  \<open>POST\<close> request it fails (the request cannot be built or sent), or it delivers a status and
  the document of the body, if the body has one.
\<close>

record http_reply =
  rpStatus :: nat
  rpDoc :: "json option"

type_synonym 'w transport =
  "string \<Rightarrow> (string \<times> string) list \<Rightarrow> json \<Rightarrow> 'w \<Rightarrow> (string + http_reply) \<times> 'w"

definition requestHeaders :: "cconfig \<Rightarrow> (string \<times> string) list" where
  "requestHeaders cfg =
    [(''Content-Type'', ''application/json''), (''Accept'', ''application/json'')]
    @ (if cfToken cfg = [] then [] else [(''Authorization'', ''Bearer '' @ cfToken cfg)])"

text \<open>The text the client looks for in the body of a failure.\<close>

definition failureText :: "json option \<Rightarrow> string" where
  "failureText doc =
    (case doc of
       None \<Rightarrow> []
     | Some j \<Rightarrow>
         (case readStruct CBadJson (\<lambda>m k j. if k = ''error'' then map_sum CBadJson id (decodeString m j) else Inr m) [] j of
            Inl _ \<Rightarrow> [] | Inr m \<Rightarrow> m))"

definition sendPipeline ::
  "go_text \<Rightarrow> 'w transport \<Rightarrow> cconn \<Rightarrow> crequest list \<Rightarrow> 'w \<Rightarrow> (cl_error + cpipeline_resp) \<times> cconn \<times> 'w" where
  "sendPipeline T post c reqs w =
    (case writePipelineReq T (cnBaton c) reqs of
       Inl e \<Rightarrow> (Inl (CMarshalRequest e), c, w)
     | Inr data \<Rightarrow>
         (case post (endpoint (cnCfg c) (cnBase c)) (requestHeaders (cnCfg c)) data w of
            (Inl e, w') \<Rightarrow> (Inl (CHttpError e), c, w')
          | (Inr rp, w') \<Rightarrow>
              (if rpStatus rp \<noteq> 200 then (Inl (CServerReturned (rpStatus rp) (failureText (rpDoc rp))), c, w')
               else (case rpDoc rp of
                  None \<Rightarrow> (Inl (CDecodeResponse (CBadJson UnexpectedEnd)), c, w')
                | Some j \<Rightarrow>
                    (case readPipelineResp T j of
                       Inl e \<Rightarrow> (Inl (CDecodeResponse e), c, w')
                     | Inr p \<Rightarrow>
                         (Inr p,
                          c\<lparr>cnBaton := prBaton p,
                            cnBase := (case prBaseURL p of Some (x # xs) \<Rightarrow> x # xs | _ \<Rightarrow> cnBase c)\<rparr>, w'))))))"

definition firstResult :: "cpipeline_resp \<Rightarrow> cl_error + cstmt_result" where
  "firstResult p =
    (case prResults p of
       [] \<Rightarrow> Inl CEmptyResponse
     | r # _ \<Rightarrow>
         (if crType r = ''error'' then
            (case crError r of Some m \<Rightarrow> Inl (CServerError m) | None \<Rightarrow> Inl CUnknownPipelineError)
          else (case crResponse r of
                  Some (_, Some res) \<Rightarrow> Inr res
                | _ \<Rightarrow> Inl CMissingResult)))"

definition execStatement ::
  "go_text \<Rightarrow> 'w transport \<Rightarrow> cconn \<Rightarrow> cstmt \<Rightarrow> 'w \<Rightarrow> (cl_error + cstmt_result) \<times> cconn \<times> 'w" where
  "execStatement T post c s w =
    (case sendPipeline T post c [CExecute s] w of
       (Inl e, c', w') \<Rightarrow> (Inl e, c', w')
     | (Inr p, c', w') \<Rightarrow> (firstResult p, c', w'))"

text \<open>\<open>Close\<close>: the second call, and the first on a connection without a baton, do nothing.\<close>

definition closeHttpConn ::
  "go_text \<Rightarrow> 'w transport \<Rightarrow> cconn \<Rightarrow> 'w \<Rightarrow> cl_error option \<times> cconn \<times> 'w" where
  "closeHttpConn T post c w =
    (if cnClosed c then (None, c, w)
     else (let c1 = c\<lparr>cnClosed := True\<rparr> in
           case cnBaton c of
             None \<Rightarrow> (None, c1, w)
           | Some _ \<Rightarrow>
               (case sendPipeline T post c1 [CClose] w of
                  (Inl e, c', w') \<Rightarrow> (Some e, c', w')
                | (Inr _, c', w') \<Rightarrow> (None, c', w'))))"

section \<open>Statements and transactions\<close>

text \<open>
  \<open>stmtExecutor\<close>, the interface both kinds of connection implement: a function from a
  statement and the state of connection and world.
\<close>

type_synonym 's executor = "cstmt \<Rightarrow> 's \<Rightarrow> (cl_error + cstmt_result) \<times> 's"

definition runArgs ::
  "'s executor \<Rightarrow> bool \<Rightarrow> string \<Rightarrow> named_value list \<Rightarrow> 's \<Rightarrow> (cl_error + cstmt_result) \<times> 's" where
  "runArgs run want query args st =
    (case buildStmt query args want of Inl e \<Rightarrow> (Inl e, st) | Inr s \<Rightarrow> run s st)"

definition execQuery :: "'s executor \<Rightarrow> string \<Rightarrow> named_value list \<Rightarrow> 's \<Rightarrow> (cl_error + cstmt_result) \<times> 's" where
  "execQuery run = runArgs run False"

definition queryRows :: "'s executor \<Rightarrow> string \<Rightarrow> named_value list \<Rightarrow> 's \<Rightarrow> (cl_error + crows) \<times> 's" where
  "queryRows run query args st =
    (case runArgs run True query args st of
       (Inl e, st') \<Rightarrow> (Inl e, st') | (Inr r, st') \<Rightarrow> (Inr (newRows r), st'))"

definition plainStmt :: "string \<Rightarrow> cstmt" where
  "plainStmt sql = \<lparr>cSQL = sql, cArgs = [], cNamedArgs = [], cWantRows = False\<rparr>"

definition runPlain :: "'s executor \<Rightarrow> string \<Rightarrow> 's \<Rightarrow> cl_error option \<times> 's" where
  "runPlain run sql st = (case run (plainStmt sql) st of (Inl e, st') \<Rightarrow> (Some e, st') | (Inr _, st') \<Rightarrow> (None, st'))"

definition beginTx :: "'s executor \<Rightarrow> bool \<Rightarrow> 's \<Rightarrow> cl_error option \<times> 's" where
  "beginTx run readOnly = runPlain run (if readOnly then ''BEGIN DEFERRED'' else ''BEGIN'')"

definition commitTx :: "'s executor \<Rightarrow> 's \<Rightarrow> cl_error option \<times> 's" where
  "commitTx run = runPlain run ''COMMIT''"

definition rollbackTx :: "'s executor \<Rightarrow> 's \<Rightarrow> cl_error option \<times> 's" where
  "rollbackTx run = runPlain run ''ROLLBACK''"

text \<open>A prepared statement keeps its text and numbers the arguments of the legacy calls.\<close>

definition preparedExec :: "'s executor \<Rightarrow> string \<Rightarrow> driver_value list \<Rightarrow> 's \<Rightarrow> (cl_error + cstmt_result) \<times> 's" where
  "preparedExec run sql vals = execQuery run sql (valuesToNamedValues vals)"

definition preparedQuery :: "'s executor \<Rightarrow> string \<Rightarrow> driver_value list \<Rightarrow> 's \<Rightarrow> (cl_error + crows) \<times> 's" where
  "preparedQuery run sql vals = queryRows run sql (valuesToNamedValues vals)"

definition httpExecutor :: "go_text \<Rightarrow> 'w transport \<Rightarrow> (cconn \<times> 'w) executor" where
  "httpExecutor T post s st = (case st of (c, w) \<Rightarrow> execStatement T post c s w)"

end
