(* ===== verification/WsClient.thy ===== *)
theory WsClient
  imports HttpClient
begin

text \<open>
  The WebSocket connection of the client, \<open>src/clients/hranago/ws_conn.go\<close>: the handshake, the
  table of pending requests, the read loop, and the recovery of a stream the server has
  superseded.  Goroutines are values that say where a goroutine stands and what it still has
  to do; a step of one of them is a critical section or a channel operation.
  \<open>js-conn.go\<close> is the same program over the callbacks of a browser, in the theories \<open>JsClient\<close>
  and \<open>JsRequests\<close>.
\<close>

section \<open>Messages\<close>

text \<open>\<open>map[string]any\<close>: the requests of this client, with their \<open>stream_id\<close> if they have one.\<close>

datatype wpayload =
    POpenStream i32
  | PExecute i32 cstmt
  | PCloseStream i32
  | POpenAssigned

fun streamIdOf :: "wpayload \<Rightarrow> i32 option" where
  "streamIdOf (POpenStream i) = Some i"
| "streamIdOf (PExecute i s) = Some i"
| "streamIdOf (PCloseStream i) = Some i"
| "streamIdOf POpenAssigned = None"

fun withStreamId :: "i32 \<Rightarrow> wpayload \<Rightarrow> wpayload" where
  "withStreamId i (POpenStream _) = POpenStream i"
| "withStreamId i (PExecute _ s) = PExecute i s"
| "withStreamId i (PCloseStream _) = PCloseStream i"
| "withStreamId i POpenAssigned = POpenAssigned"

definition jInt32 :: "i32 \<Rightarrow> json" where
  "jInt32 i = JNum (formatInt (sint i))"

text \<open>The keys of a map are written in order.\<close>

fun writeWsPayload :: "go_text \<Rightarrow> wpayload \<Rightarrow> cl_error + json" where
  "writeWsPayload T (POpenStream i) =
    Inr (JObj [(''stream_id'', jInt32 i), (''type'', JStr ''open_stream'')])"
| "writeWsPayload T (PExecute i s) =
    map_sum id (\<lambda>j. JObj [(''stmt'', j), (''stream_id'', jInt32 i), (''type'', JStr ''execute'')]) (writeCStmt T s)"
| "writeWsPayload T (PCloseStream i) =
    Inr (JObj [(''stream_id'', jInt32 i), (''type'', JStr ''close_stream'')])"
| "writeWsPayload T POpenAssigned = Inr (JObj [(''type'', JStr ''open_stream_assigned'')])"

definition writeWsRequest :: "go_text \<Rightarrow> i32 \<Rightarrow> wpayload \<Rightarrow> cl_error + json" where
  "writeWsRequest T key p =
    map_sum id (\<lambda>j. JObj [(''type'', JStr ''request''), (''request_id'', jInt32 key), (''request'', j)])
      (writeWsPayload T p)"

text \<open>The handshake: the \<open>hello\<close> message and the verdict on its answer.\<close>

definition helloMessage :: "cconfig \<Rightarrow> json" where
  "helloMessage cfg =
    JObj ((''type'', JStr ''hello'') # (if cfToken cfg = [] then [] else [(''jwt'', jStr (cfToken cfg))]))"

definition readHello :: "json \<Rightarrow> cl_error + (string \<times> string option)" where
  "readHello =
    readStruct CHelloDecode (\<lambda>(t, e) k j.
        if k = ''type'' then map_sum CHelloDecode (\<lambda>x. (x, e)) (decodeString t j)
        else if k = ''error'' then map_sum id (\<lambda>x. (t, x)) (readPtr readCError j)
        else Inr (t, e)) ([], None)"

definition helloVerdict :: "cl_error + (string \<times> string option) \<Rightarrow> cl_error option" where
  "helloVerdict r =
    (case r of
       Inl e \<Rightarrow> Some e
     | Inr (t, e) \<Rightarrow>
         (if t = ''hello_ok'' then None
          else if t = ''hello_error'' then Some (CAuthRejected e)
          else Some (CUnexpectedHello t)))"

text \<open>What the read loop makes of a message; anything it cannot read is skipped.\<close>

datatype wframe =
    FOk i32 json
  | FError i32 string
  | FSuperseded i32 string
  | FSkip

definition readInt32 :: "i32 \<Rightarrow> json \<Rightarrow> json_error + i32" where
  "readInt32 old j = keepOr old (ptrInt32 j)"

definition readBase :: "json \<Rightarrow> json_error + (string \<times> i32)" where
  "readBase =
    readStruct id (\<lambda>(t, i) k j.
        if k = ''type'' then map_sum id (\<lambda>x. (x, i)) (decodeString t j)
        else if k = ''request_id'' then map_sum id (\<lambda>x. (t, x)) (readInt32 i j)
        else Inr (t, i)) ([], 0)"

definition readOk :: "json \<Rightarrow> json_error + (i32 \<times> json)" where
  "readOk =
    readStruct id (\<lambda>(i, r) k j.
        if k = ''request_id'' then map_sum id (\<lambda>x. (x, r)) (readInt32 i j)
        else if k = ''response'' then Inr (i, j)
        else Inr (i, r)) (0, JNull)"

definition readFailed :: "json \<Rightarrow> cl_error + (i32 \<times> string)" where
  "readFailed =
    readStruct CBadJson (\<lambda>(i, m) k j.
        if k = ''request_id'' then map_sum CBadJson (\<lambda>x. (x, m)) (readInt32 i j)
        else if k = ''error'' then map_sum id (\<lambda>x. (i, x)) (if j = JNull then Inr m else readCError j)
        else Inr (i, m)) (0, [])"

definition readServerFrame :: "json \<Rightarrow> wframe" where
  "readServerFrame j =
    (case readBase j of
       Inl _ \<Rightarrow> FSkip
     | Inr (t, _) \<Rightarrow>
         (if t = ''response_ok'' then (case readOk j of Inl _ \<Rightarrow> FSkip | Inr (i, r) \<Rightarrow> FOk i r)
          else if t = ''response_error'' then (case readFailed j of Inl _ \<Rightarrow> FSkip | Inr (i, m) \<Rightarrow> FError i m)
          else if t = ''stream_superseded_error'' then
            (case readFailed j of Inl _ \<Rightarrow> FSkip | Inr (i, m) \<Rightarrow> FSuperseded i m)
          else FSkip))"

definition readAssigned :: "json \<Rightarrow> cl_error + i32" where
  "readAssigned =
    readStruct CRecoverDecode (\<lambda>i k j.
        if k = ''stream_id'' then map_sum CRecoverDecode id (readInt32 i j)
        else if k = ''type'' then map_sum CRecoverDecode (\<lambda>_. i) (ptrString j)
        else Inr i) 0"

definition readExecuted :: "go_text \<Rightarrow> json \<Rightarrow> cl_error + cstmt_result" where
  "readExecuted T j =
    map_sum CExecuteResponse id
      (readStruct CBadJson (\<lambda>r k j.
        if k = ''result'' then readCResult T r j
        else if k = ''type'' then map_sum CBadJson (\<lambda>_. r) (ptrString j)
        else Inr r) noResult j)"

section \<open>Shared state\<close>

text \<open>
  The result of a request arrives over a channel with room for one; channels are numbered, a
  channel is its buffer.  \<open>dones\<close> are the channels a recovery closes at its end.
\<close>

type_synonym wresult = "cl_error + json"

record wpending =
  wpPayload :: wpayload
  wpCh :: nat
  wpRetries :: nat

record wclient =
  reqIDSeq :: i32
  wpendings :: "(i32 \<times> wpending) list"
  wclosed :: bool
  closeErr :: "cl_error option"
  wstream :: i32
  recovering :: "nat option"
  chans :: "wresult option list"
  dones :: "bool list"

definition newWsClient :: wclient where
  "newWsClient =
    \<lparr>reqIDSeq = 0, wpendings = [], wclosed = False, closeErr = None, wstream = 0, recovering = None,
     chans = [], dones = []\<rparr>"

definition maxStreamRetries :: nat where
  "maxStreamRetries = 3"

text \<open>The beginning of \<open>sendRequestWithRetries\<close>: a number, a channel, an entry in the table.\<close>

definition registerRequest :: "wpayload \<Rightarrow> nat \<Rightarrow> wclient \<Rightarrow> (cl_error + i32 \<times> nat) \<times> wclient" where
  "registerRequest p retries c =
    (let key = reqIDSeq c + 1; ch = length (chans c);
         c1 = c\<lparr>reqIDSeq := key, chans := chans c @ [None]\<rparr> in
     if wclosed c then (Inl CConnClosed, c1)
     else (Inr (key, ch),
           c1\<lparr>wpendings := AList.update key \<lparr>wpPayload = p, wpCh = ch, wpRetries = retries\<rparr> (wpendings c)\<rparr>))"

definition dropRequest :: "i32 \<Rightarrow> wclient \<Rightarrow> wclient" where
  "dropRequest key c = c\<lparr>wpendings := AList.delete key (wpendings c)\<rparr>"

text \<open>Sending on a channel and receiving from it, when that is possible.\<close>

definition canSend :: "nat \<Rightarrow> wclient \<Rightarrow> bool" where
  "canSend ch c \<longleftrightarrow> chans c ! ch = None"

definition sendTo :: "nat \<Rightarrow> wresult \<Rightarrow> wclient \<Rightarrow> wclient" where
  "sendTo ch r c = c\<lparr>chans := (chans c)[ch := Some r]\<rparr>"

definition receive :: "nat \<Rightarrow> wclient \<Rightarrow> wclient" where
  "receive ch c = c\<lparr>chans := (chans c)[ch := None]\<rparr>"

text \<open>
  The end of the read loop: the connection is closed and every pending request fails, as long
  as none of the sends blocks.
\<close>

fun failAll :: "cl_error \<Rightarrow> (i32 \<times> wpending) list \<Rightarrow> wclient \<Rightarrow> wclient option" where
  "failAll e [] c = Some c"
| "failAll e ((key, p) # ps) c =
    (if canSend (wpCh p) c then failAll e ps (dropRequest key (sendTo (wpCh p) (Inl e) c)) else None)"

definition readLoopEnd :: "cl_error \<Rightarrow> wclient \<Rightarrow> wclient option" where
  "readLoopEnd e c =
    (let c1 = c\<lparr>wclosed := True, closeErr := Some e\<rparr> in failAll e (wpendings c1) c1)"

text \<open>\<open>handleClose\<close> of \<open>js-conn.go\<close> does so only if the connection is not closed yet.\<close>

definition jsHandleClose :: "cl_error \<Rightarrow> wclient \<Rightarrow> wclient option" where
  "jsHandleClose e c = (if wclosed c then Some c else readLoopEnd e c)"

section \<open>Goroutines\<close>

text \<open>What happens with the result of a request once it is there.\<close>

datatype wcont =
    ToCaller
  | ToRetry wpending
  | RecoverClose wpending
  | RecoverOpen wpending

text \<open>
  A goroutine: about to call \<open>sendRequestWithRetries\<close>; about to write; in its \<open>select\<close>; at the
  beginning of \<open>retrySupersededRequest\<close>; waiting for another recovery; about to send a request
  again; about to answer on a channel; returned to the caller; ended.
\<close>

datatype goroutine =
    Calling wpayload nat wcont
  | Writing i32 nat wpayload wcont
  | Selecting i32 nat wcont
  | Retrying wpending string
  | Awaiting nat wpending
  | Resending wpending
  | Replying nat wresult
  | Returned wresult
  | Ended

definition recoverEnd :: "wclient \<Rightarrow> wclient" where
  "recoverEnd c =
    (case recovering c of
       None \<Rightarrow> c
     | Some d \<Rightarrow> c\<lparr>recovering := None, dones := (dones c)[d := True]\<rparr>)"

text \<open>\<open>sendRequestWithRetries\<close> returns \<open>r\<close>.\<close>

fun resume :: "wcont \<Rightarrow> wresult \<Rightarrow> wclient \<Rightarrow> goroutine \<times> wclient" where
  "resume ToCaller r c = (Returned r, c)"
| "resume (ToRetry p) r c = (Replying (wpCh p) r, c)"
| "resume (RecoverClose p) r c = (Calling POpenAssigned 0 (RecoverOpen p), c)"
| "resume (RecoverOpen p) r c =
    (case r of
       Inl e \<Rightarrow> (Replying (wpCh p) (Inl (CRecover e)), recoverEnd c)
     | Inr j \<Rightarrow>
         (case readAssigned j of
            Inl e \<Rightarrow> (Replying (wpCh p) (Inl e), recoverEnd c)
          | Inr sid \<Rightarrow> (Resending p, recoverEnd (c\<lparr>wstream := sid\<rparr>))))"

text \<open>\<open>retrySupersededRequest\<close> up to its first wait.\<close>

definition retryStart :: "wpending \<Rightarrow> string \<Rightarrow> wclient \<Rightarrow> goroutine \<times> wclient" where
  "retryStart p msg c =
    (if streamIdOf (wpPayload p) = None \<or> wpRetries p \<ge> maxStreamRetries
     then (Replying (wpCh p) (Inl (CServerError msg)), c)
     else (case recovering c of
             Some d \<Rightarrow> (Awaiting d p, c)
           | None \<Rightarrow>
               (Calling (PCloseStream (wstream c)) 0 (RecoverClose p),
                c\<lparr>recovering := Some (length (dones c)), dones := dones c @ [False]\<rparr>)))"

text \<open>
  The contexts: a request of the caller may be given up, those of a recovery time out, the
  request sent again cannot be given up.  \<open>quit\<close> says which contexts end.
\<close>

fun timesOut :: "wcont \<Rightarrow> bool" where
  "timesOut ToCaller = False"
| "timesOut (ToRetry p) = False"
| "timesOut (RecoverClose p) = True"
| "timesOut (RecoverOpen p) = True"

fun mayCancel :: "wcont \<Rightarrow> bool" where
  "mayCancel (ToRetry p) = False"
| "mayCancel _ = True"

inductive go_step :: "(wcont \<Rightarrow> bool) \<Rightarrow> wclient \<Rightarrow> goroutine \<Rightarrow> wclient \<Rightarrow> goroutine \<Rightarrow> bool"
  for quit :: "wcont \<Rightarrow> bool" where
  refused: "registerRequest p n c = (Inl e, c1) \<Longrightarrow> resume k (Inl e) c1 = (g, c2) \<Longrightarrow>
    go_step quit c (Calling p n k) c2 g"
| registered: "registerRequest p n c = (Inr (key, ch), c1) \<Longrightarrow>
    go_step quit c (Calling p n k) c1 (Writing key ch p k)"
| written: "go_step quit c (Writing key ch p k) c (Selecting key ch k)"
| unwritten: "resume k (Inl (CSend e)) (dropRequest key c) = (g, c1) \<Longrightarrow>
    go_step quit c (Writing key ch p k) c1 g"
| received: "chans c ! ch = Some r \<Longrightarrow> resume k r (receive ch c) = (g, c1) \<Longrightarrow>
    go_step quit c (Selecting key ch k) c1 g"
| cancelled: "quit k \<Longrightarrow> resume k (Inl CCancelled) (dropRequest key c) = (g, c1) \<Longrightarrow>
    go_step quit c (Selecting key ch k) c1 g"
| retrying: "retryStart p msg c = (g, c1) \<Longrightarrow> go_step quit c (Retrying p msg) c1 g"
| awaited: "dones c ! d \<Longrightarrow> go_step quit c (Awaiting d p) c (Resending p)"
| resending: "go_step quit c (Resending p) c
    (Calling (withStreamId (wstream c) (wpPayload p)) (wpRetries p + 1) (ToRetry p))"
| replying: "canSend ch c \<Longrightarrow> go_step quit c (Replying ch r) (sendTo ch r c) Ended"

section \<open>The connection\<close>

text \<open>The read loop: waiting for a message, about to send a result, or over.\<close>

datatype wreader = RLoop | RSend nat wresult | REnd

text \<open>\<open>dispatch\<close> up to its send, and \<open>handleStreamSuperseded\<close> with the goroutine it starts.\<close>

definition dispatchResult :: "i32 \<Rightarrow> wresult \<Rightarrow> wclient \<Rightarrow> wreader \<times> wclient" where
  "dispatchResult key r c =
    (case map_of (wpendings c) key of
       None \<Rightarrow> (RLoop, c)
     | Some p \<Rightarrow> (RSend (wpCh p) r, dropRequest key c))"

definition handleStreamSuperseded :: "i32 \<Rightarrow> string \<Rightarrow> wclient \<Rightarrow> goroutine list \<times> wclient" where
  "handleStreamSuperseded key msg c =
    (case map_of (wpendings c) key of
       None \<Rightarrow> ([], c)
     | Some p \<Rightarrow> ([Retrying p msg], dropRequest key c))"

fun handleFrame :: "wframe \<Rightarrow> wclient \<Rightarrow> wreader \<times> goroutine list \<times> wclient" where
  "handleFrame (FOk key j) c = (case dispatchResult key (Inr j) c of (r, c1) \<Rightarrow> (r, [], c1))"
| "handleFrame (FError key msg) c =
    (case dispatchResult key (Inl (CServerError msg)) c of (r, c1) \<Rightarrow> (r, [], c1))"
| "handleFrame (FSuperseded key msg) c =
    (case handleStreamSuperseded key msg c of (gs, c1) \<Rightarrow> (RLoop, gs, c1))"
| "handleFrame FSkip c = (RLoop, [], c)"

text \<open>\<open>Close\<close> up to its request.\<close>

definition closeWsBegin :: "wclient \<Rightarrow> goroutine list \<times> wclient" where
  "closeWsBegin c =
    (if wclosed c then ([], c)
     else ([Calling (PCloseStream (wstream c)) 0 ToCaller], c\<lparr>wclosed := True\<rparr>))"

type_synonym wsystem = "wclient \<times> wreader \<times> goroutine list"

inductive wstep :: "wsystem \<Rightarrow> wsystem \<Rightarrow> bool" where
  opens: "wstep (c, r, gs) (c, r, gs @ [Calling (POpenStream (wstream c)) 0 ToCaller])"
| executes: "wstep (c, r, gs) (c, r, gs @ [Calling (PExecute (wstream c) s) 0 ToCaller])"
| closes: "closeWsBegin c = (new, c') \<Longrightarrow> wstep (c, r, gs) (c', r, gs @ new)"
| goes: "i < length gs \<Longrightarrow> go_step mayCancel c (gs ! i) c' g \<Longrightarrow> wstep (c, r, gs) (c', r, gs[i := g])"
| frame: "handleFrame f c = (r, new, c') \<Longrightarrow> wstep (c, RLoop, gs) (c', r, gs @ new)"
| delivers: "canSend ch c \<Longrightarrow> wstep (c, RSend ch x, gs) (sendTo ch x c, RLoop, gs)"
| ends: "readLoopEnd e c = Some c' \<Longrightarrow> wstep (c, RLoop, gs) (c', REnd, gs)"

inductive ws_running :: "wsystem \<Rightarrow> bool" where
  start: "ws_running (newWsClient, RLoop, [])"
| step: "ws_running s \<Longrightarrow> wstep s s' \<Longrightarrow> ws_running s'"

end
