(* ===== verification/WsClientProps.thy ===== *)
theory WsClientProps
  imports WsClient
begin

text \<open>
  The WebSocket client: every channel has at most one sender, so no send blocks, under every
  schedule.  The proofs count, for a channel, who may still send on it and who
  waits for it.
\<close>

section \<open>Counting entries\<close>

abbreviation one :: "bool \<Rightarrow> nat" where
  "one b \<equiv> of_bool b"

definition tally :: "('b \<Rightarrow> bool) \<Rightarrow> ('a \<times> 'b) list \<Rightarrow> nat" where
  "tally P xs = length (filter (P \<circ> snd) xs)"

lemma tally_simps [simp]:
  "tally P [] = 0" "tally P ((k, v) # xs) = one (P v) + tally P xs"
  "tally P (xs @ ys) = tally P xs + tally P ys"
  by (simp_all add: tally_def)

lemma tally_delete:
  "map_of xs k = Some v \<Longrightarrow> wf_map xs \<Longrightarrow> tally P (AList.delete k xs) + one (P v) = tally P xs"
proof (induction xs)
  case (Cons x xs)
  obtain k' v' where x: "x = (k', v')" by fastforce
  show ?case
  proof (cases "k' = k")
    case True
    then have "map_of xs k = None" using Cons.prems(2) by (simp add: x map_of_eq_None_iff)
    then have "AList.delete k xs = xs" by (simp add: delete_idem map_of_eq_None_iff)
    then show ?thesis using Cons.prems(1) True by (simp add: x)
  next
    case False
    then show ?thesis using Cons by (simp add: x)
  qed
qed simp

lemma tally_delete_le: "tally P (AList.delete k xs) \<le> tally P xs"
  by (induction xs) (auto simp: tally_def)

lemma tally_delete_same:
  "\<forall>(k', v) \<in> set xs. k' = k \<longrightarrow> \<not> P v \<Longrightarrow> tally P (AList.delete k xs) = tally P xs"
  by (induction xs) (auto simp: tally_def)

lemma tally_update_le: "tally P (AList.update k v xs) \<le> tally P xs + one (P v)"
  by (induction xs) (auto simp: tally_def)

lemma tally_update_new:
  "k \<notin> fst ` set xs \<Longrightarrow> tally P (AList.update k v xs) = tally P xs + one (P v)"
  by (induction xs) (auto simp: tally_def)

lemma sum_list_update_nat:
  "i < length gs \<Longrightarrow> sum_list (map f (gs[i := g])) + f (gs ! i) = sum_list (map f gs) + (f g :: nat)"
  by (induction gs arbitrary: i) (auto split: nat.split)

lemma sum_list_pos: "0 < sum_list (map f gs) \<Longrightarrow> \<exists>g \<in> set gs. 0 < (f g :: nat)"
  by (induction gs) auto

lemma sum_list_member: "g \<in> set gs \<Longrightarrow> f g \<le> sum_list (map f gs)" for f :: "'a \<Rightarrow> nat"
  by (induction gs) auto

section \<open>Who sends on a channel\<close>

fun contOwn :: "nat \<Rightarrow> wcont \<Rightarrow> nat" where
  "contOwn ch ToCaller = 0"
| "contOwn ch (ToRetry p) = one (wpCh p = ch)"
| "contOwn ch (RecoverClose p) = one (wpCh p = ch)"
| "contOwn ch (RecoverOpen p) = one (wpCh p = ch)"

fun goOwn :: "nat \<Rightarrow> goroutine \<Rightarrow> nat" where
  "goOwn ch (Calling p n k) = contOwn ch k"
| "goOwn ch (Writing key c p k) = contOwn ch k"
| "goOwn ch (Selecting key c k) = contOwn ch k"
| "goOwn ch (Retrying p m) = one (wpCh p = ch)"
| "goOwn ch (Awaiting d p) = one (wpCh p = ch)"
| "goOwn ch (Resending p) = one (wpCh p = ch)"
| "goOwn ch (Replying c r) = one (c = ch)"
| "goOwn ch _ = 0"

fun readerOwn :: "nat \<Rightarrow> wreader \<Rightarrow> nat" where
  "readerOwn ch (RSend c r) = one (c = ch)"
| "readerOwn ch _ = 0"

definition full :: "nat \<Rightarrow> wresult option list \<Rightarrow> nat" where
  "full ch cs = one (ch < length cs \<and> cs ! ch \<noteq> None)"

definition own :: "nat \<Rightarrow> wclient \<Rightarrow> nat" where
  "own ch c = tally (\<lambda>p. wpCh p = ch) (wpendings c) + full ch (chans c)"

lemma full_append [simp]: "full ch (cs @ [None]) = full ch cs"
proof -
  have "(ch < length (cs @ [None]) \<and> (cs @ [None]) ! ch \<noteq> None) \<longleftrightarrow> (ch < length cs \<and> cs ! ch \<noteq> None)"
    by (auto simp: nth_append)
  then show ?thesis unfolding full_def by presburger
qed

lemma full_send_le: "full ch (cs[d := Some r]) \<le> full ch cs + one (d = ch)"
  by (cases "d = ch") (simp_all add: full_def)

lemma full_send: "d < length cs \<Longrightarrow> cs ! d = None \<Longrightarrow> full ch (cs[d := Some r]) = full ch cs + one (d = ch)"
  by (cases "d = ch") (simp_all add: full_def)

lemma full_receive: "d < length cs \<Longrightarrow> cs ! d = Some r \<Longrightarrow> full ch (cs[d := None]) + one (d = ch) = full ch cs"
  by (cases "d = ch") (simp_all add: full_def)

lemma full_receive_le: "full ch (cs[d := None]) \<le> full ch cs"
  by (cases "d = ch"; cases "d < length cs") (simp_all add: full_def)

definition owners :: "nat \<Rightarrow> wsystem \<Rightarrow> nat" where
  "owners ch s = (case s of (c, r, gs) \<Rightarrow> own ch c + readerOwn ch r + sum_list (map (goOwn ch) gs))"

definition fresh :: "nat \<Rightarrow> wclient \<Rightarrow> wclient \<Rightarrow> nat" where
  "fresh ch c c' = one (length (chans c) \<le> ch \<and> ch < length (chans c'))"

lemma resume_frame:
  "resume k r c = (g, c') \<Longrightarrow> goOwn ch g = contOwn ch k \<and> wpendings c' = wpendings c \<and> chans c' = chans c
    \<and> wclosed c' = wclosed c \<and> reqIDSeq c' = reqIDSeq c"
  by (cases k) (auto simp: recoverEnd_def split: sum.splits option.splits)

lemma own_cong: "wpendings c' = wpendings c \<Longrightarrow> chans c' = chans c \<Longrightarrow> own ch c' = own ch c"
  by (simp add: own_def)

lemma own_drop: "own ch (dropRequest key c) \<le> own ch c"
  using tally_delete_le by (simp add: own_def dropRequest_def)

lemma own_send: "own ch (sendTo d r c) \<le> own ch c + one (d = ch)"
  using full_send_le by (simp add: own_def sendTo_def)

lemma own_receive: "own ch (receive d c) \<le> own ch c"
  using full_receive_le by (simp add: own_def receive_def)

lemma registered_iff:
  "registerRequest p n c = (Inr (key, ch'), c') \<longleftrightarrow> \<not> wclosed c \<and> key = reqIDSeq c + 1 \<and> ch' = length (chans c)
    \<and> c' = c\<lparr>reqIDSeq := key, chans := chans c @ [None],
           wpendings := AList.update key \<lparr>wpPayload = p, wpCh = ch', wpRetries = n\<rparr> (wpendings c)\<rparr>"
  by (auto simp: registerRequest_def Let_def)

lemma refused_iff:
  "registerRequest p n c = (Inl e, c') \<longleftrightarrow> wclosed c \<and> e = CConnClosed
    \<and> c' = c\<lparr>reqIDSeq := reqIDSeq c + 1, chans := chans c @ [None]\<rparr>"
  by (auto simp: registerRequest_def Let_def)

lemma fresh_next: "length (chans c') = Suc (length (chans c)) \<Longrightarrow> fresh ch c c' = one (ch = length (chans c))"
  unfolding fresh_def by (rule arg_cong[where f = of_bool]) auto

lemma own_register:
  assumes "registerRequest p n c = (x, c')"
  shows "own ch c' \<le> own ch c + fresh ch c c' \<and> length (chans c') = Suc (length (chans c))"
proof (cases x)
  case (Inl e)
  then have c': "c' = c\<lparr>reqIDSeq := reqIDSeq c + 1, chans := chans c @ [None]\<rparr>" using assms refused_iff by blast
  show ?thesis by (simp add: c' own_def)
next
  case (Inr y)
  then obtain key ch' where "registerRequest p n c = (Inr (key, ch'), c')" using assms by (cases y) auto
  note r = this[unfolded registered_iff]
  have "length (chans c') = Suc (length (chans c))" using r by simp
  moreover have "own ch c' \<le> own ch c + one (ch = length (chans c))"
    using tally_update_le[of "\<lambda>p. wpCh p = ch" key "\<lparr>wpPayload = p, wpCh = ch', wpRetries = n\<rparr>" "wpendings c"] r
    by (simp add: own_def eq_commute[of ch])
  ultimately show ?thesis using fresh_next by simp
qed

lemma go_owners:
  "go_step quit c g c' g' \<Longrightarrow>
    own ch c' + goOwn ch g' \<le> own ch c + goOwn ch g + fresh ch c c' \<and> length (chans c) \<le> length (chans c')"
proof (induction rule: go_step.induct)
  case (refused p n c e c1 k g c2)
  then show ?case
    using own_register[OF refused(1), of ch] resume_frame[OF refused(2), of ch] own_cong[of c2 c1 ch]
      fresh_next[of c1 c ch] fresh_next[of c2 c ch] by simp
next
  case (unwritten k e key c g c1 ch' p)
  then show ?case
    using resume_frame[OF unwritten(1), of ch] own_drop[of ch key c] own_cong[of c1 "dropRequest key c" ch]
    by (simp add: dropRequest_def)
next
  case (received c ch' r k g c1 key)
  then show ?case
    using resume_frame[OF received(2), of ch] own_receive[of ch ch' c] own_cong[of c1 "receive ch' c" ch]
    by (simp add: receive_def)
next
  case (cancelled k key c g c1 ch')
  then show ?case
    using resume_frame[OF cancelled(2), of ch] own_drop[of ch key c] own_cong[of c1 "dropRequest key c" ch]
    by (simp add: dropRequest_def)
next
  case (retrying p msg c g c1)
  then show ?case by (auto simp: retryStart_def own_def split: if_splits option.splits)
next
  case (replying ch' c r)
  then show ?case using own_send[of ch ch' r c] by (simp add: sendTo_def)
next
  case (registered p n c key ch' c1 k)
  then show ?case using own_register[OF registered(1), of ch] by simp
qed auto

section \<open>No send blocks\<close>

definition chanInv :: "wsystem \<Rightarrow> bool" where
  "chanInv s \<longleftrightarrow> wf_map (wpendings (fst s)) \<and> (\<forall>ch. owners ch s \<le> one (ch < length (chans (fst s))))"

lemma chanInv_mono:
  assumes "chanInv s" and "\<And>ch. owners ch s' \<le> owners ch s" and "wf_map (wpendings (fst s'))"
    and "length (chans (fst s')) = length (chans (fst s))"
  shows "chanInv s'"
  using assms unfolding chanInv_def by (metis order_trans)

lemma drop_entry:
  assumes "wf_map (wpendings c)" and "map_of (wpendings c) key = Some p"
  shows "own ch (dropRequest key c) + one (wpCh p = ch) = own ch c"
  using tally_delete[OF assms(2,1), of "\<lambda>p. wpCh p = ch"] by (simp add: own_def dropRequest_def)

lemma handleFrame_owners:
  assumes "wf_map (wpendings c)" and "handleFrame f c = (r, new, c')"
  shows "own ch c' + readerOwn ch r + sum_list (map (goOwn ch) new) = own ch c \<and> chans c' = chans c
    \<and> wf_map (wpendings c')"
  using assms drop_entry[OF assms(1)]
  by (cases f) (auto simp: dispatchResult_def handleStreamSuperseded_def dropRequest_def[of _ c] split: option.splits)

lemma go_wf: "go_step quit c g c' g' \<Longrightarrow> wf_map (wpendings c) \<Longrightarrow> wf_map (wpendings c')"
  by (induction rule: go_step.induct)
    (auto simp: registered_iff refused_iff dropRequest_def receive_def sendTo_def retryStart_def
      dest!: resume_frame[where ch = 0] split: if_splits option.splits)

lemma failAll_owners:
  "failAll e ps c = Some c' \<Longrightarrow> wf_map (wpendings c) \<Longrightarrow> wf_map ps \<Longrightarrow> set ps \<subseteq> set (wpendings c) \<Longrightarrow>
    own ch c' \<le> own ch c \<and> length (chans c') = length (chans c) \<and> wf_map (wpendings c')"
proof (induction ps arbitrary: c)
  case Nil
  then show ?case by simp
next
  case (Cons x ps)
  obtain key p where x: "x = (key, p)" by fastforce
  let ?c = "dropRequest key (sendTo (wpCh p) (Inl e) c)"
  have f: "failAll e ps ?c = Some c'" using Cons.prems(1) by (simp add: x split: if_splits)
  have "map_of (wpendings c) key = Some p" using Cons.prems(2,4) by (simp add: x map_of_in_set_iff[symmetric])
  then have "own ch ?c + one (wpCh p = ch) = own ch (sendTo (wpCh p) (Inl e) c)"
    using Cons.prems(2) by (intro drop_entry) (simp_all add: sendTo_def)
  then have "own ch ?c \<le> own ch c" using own_send[of ch "wpCh p" "Inl e" c] by simp
  moreover have "set ps \<subseteq> set (wpendings ?c)"
    using Cons.prems(3,4) by (auto simp: x dropRequest_def sendTo_def AList.delete_eq) force
  moreover have "wf_map (wpendings ?c)" using Cons.prems(2) by (simp add: dropRequest_def sendTo_def)
  moreover have "length (chans ?c) = length (chans c)" by (simp add: dropRequest_def sendTo_def)
  ultimately show ?case using Cons.IH[OF f] Cons.prems(3) by (auto simp: x)
qed

lemma readLoopEnd_owners:
  assumes "readLoopEnd e c = Some c'" and "wf_map (wpendings c)"
  shows "own ch c' \<le> own ch c \<and> length (chans c') = length (chans c) \<and> wf_map (wpendings c')"
  using failAll_owners[OF assms(1)[unfolded readLoopEnd_def Let_def], of ch] assms(2) by (simp add: own_def)

lemma wstep_chanInv:
  assumes "wstep s s'" and "chanInv s"
  shows "chanInv s'"
  using assms
proof (induction rule: wstep.induct)
  case (closes c new c' r gs)
  have "owners ch (c', r, gs @ new) = owners ch (c, r, gs)" for ch
    using closes(1) by (auto simp: closeWsBegin_def owners_def own_def split: if_splits)
  then show ?case using closes by (intro chanInv_mono[OF closes(2)]) (auto simp: closeWsBegin_def chanInv_def split: if_splits)
next
  case (goes i gs c c' g r)
  have "owners ch (c', r, gs[i := g]) \<le> one (ch < length (chans c'))" for ch
  proof -
    have "owners ch (c', r, gs[i := g]) \<le> owners ch (c, r, gs) + fresh ch c c'"
      using go_owners[OF goes(2), of ch] sum_list_update_nat[OF goes(1), of "goOwn ch" g] by (simp add: owners_def)
    moreover have "owners ch (c, r, gs) \<le> one (ch < length (chans c))" using goes(3) by (simp add: chanInv_def)
    ultimately show ?thesis
      using go_owners[OF goes(2), of ch] by (cases "ch < length (chans c)") (auto simp: fresh_def)
  qed
  then show ?case using goes(3) go_wf[OF goes(2)] by (simp add: chanInv_def)
next
  case (frame f c r new c' gs)
  have w: "wf_map (wpendings c)" using frame(2) by (simp add: chanInv_def)
  show ?case
    using handleFrame_owners[OF w frame(1)]
    by (intro chanInv_mono[OF frame(2)]) (simp_all add: owners_def add.assoc[symmetric] order.eq_iff)
next
  case (delivers ch c x gs)
  have "owners d (sendTo ch x c, RLoop, gs) \<le> owners d (c, RSend ch x, gs)" for d
    using own_send[of d ch x c] by (simp add: owners_def)
  then show ?case using delivers(2) by (intro chanInv_mono[OF delivers(2)]) (simp_all add: chanInv_def sendTo_def)
next
  case (ends e c c' gs)
  have w: "wf_map (wpendings c)" using ends(2) by (simp add: chanInv_def)
  show ?case
    using readLoopEnd_owners[OF ends(1) w] by (intro chanInv_mono[OF ends(2)]) (simp_all add: owners_def)
qed (simp_all add: chanInv_def owners_def)

lemma running_chanInv: "ws_running s \<Longrightarrow> chanInv s"
proof (induction rule: ws_running.induct)
  case start
  then show ?case by (simp add: chanInv_def owners_def own_def full_def newWsClient_def)
qed (rule wstep_chanInv)

definition heldBy :: "nat \<Rightarrow> wsystem \<Rightarrow> nat" where
  "heldBy ch s = (case s of (c, r, gs) \<Rightarrow>
    tally (\<lambda>p. wpCh p = ch) (wpendings c) + readerOwn ch r + sum_list (map (goOwn ch) gs))"

lemma owners_split: "owners ch (c, r, gs) = heldBy ch (c, r, gs) + full ch (chans c)"
  by (simp add: owners_def own_def heldBy_def)

lemma owners_bounds:
  assumes "chanInv (c, r, gs)"
  shows "heldBy ch (c, r, gs) + full ch (chans c) \<le> 1"
    and "0 < heldBy ch (c, r, gs) \<Longrightarrow> ch < length (chans c)"
proof -
  have o: "heldBy ch (c, r, gs) + full ch (chans c) \<le> one (ch < length (chans c))"
    using assms unfolding chanInv_def owners_split fst_conv by blast
  show "heldBy ch (c, r, gs) + full ch (chans c) \<le> 1"
    using order_trans[OF o of_bool_less_eq_one] .
  show "ch < length (chans c)" if "0 < heldBy ch (c, r, gs)"
  proof (rule ccontr)
    assume "\<not> ch < length (chans c)"
    then show False using o that by (simp only: of_bool_eq)
  qed
qed

lemma owner_can_send:
  assumes "chanInv (c, r, gs)" and "0 < heldBy ch (c, r, gs)"
  shows "canSend ch c \<and> ch < length (chans c)"
proof -
  have "full ch (chans c) = 0" using owners_bounds(1)[OF assms(1), of ch] assms(2) by linarith
  with owners_bounds(2)[OF assms] show ?thesis by (simp add: full_def canSend_def)
qed

lemma held_go: "g \<in> set gs \<Longrightarrow> goOwn ch g \<le> heldBy ch (c, r, gs)"
  using sum_list_member[of g gs "goOwn ch"] by (simp add: heldBy_def)

lemma failAll_total:
  "wf_map ps \<Longrightarrow> (\<And>ch. tally (\<lambda>p. wpCh p = ch) ps + full ch (chans c) \<le> one (ch < length (chans c))) \<Longrightarrow> failAll e ps c \<noteq> None"
proof (induction ps arbitrary: c)
  case Nil
  then show ?case by simp
next
  case (Cons x ps)
  obtain key p where x: "x = (key, p)" by fastforce
  have 1: "1 + tally (\<lambda>q. wpCh q = wpCh p) ps + full (wpCh p) (chans c) \<le> one (wpCh p < length (chans c))"
    using Cons.prems(2)[of "wpCh p"] by (simp add: x)
  then have l: "wpCh p < length (chans c)" by (cases "wpCh p < length (chans c)") simp_all
  then have s: "canSend (wpCh p) c" using 1 by (simp add: full_def canSend_def)
  let ?c = "dropRequest key (sendTo (wpCh p) (Inl e) c)"
  have "tally (\<lambda>q. wpCh q = ch) ps + full ch (chans ?c) \<le> one (ch < length (chans ?c))" for ch
    using Cons.prems(2)[of ch] l s full_send[of "wpCh p" "chans c" ch "Inl e"]
    by (simp add: x dropRequest_def sendTo_def canSend_def)
  with Cons.IH[of ?c] Cons.prems(1) s show ?case by (simp add: x)
qed

lemma readLoopEnd_total:
  assumes "chanInv (c, r, gs)"
  shows "readLoopEnd e c \<noteq> None"
proof -
  have "tally (\<lambda>p. wpCh p = ch) (wpendings c) + full ch (chans c) \<le> one (ch < length (chans c))" for ch
  proof -
    have "owners ch (c, r, gs) \<le> one (ch < length (chans c))" using assms by (simp only: chanInv_def fst_conv)
    then show ?thesis unfolding owners_split heldBy_def prod.case by linarith
  qed
  then show ?thesis
    unfolding readLoopEnd_def Let_def using assms by (intro failAll_total) (simp_all add: chanInv_def)
qed

text \<open>
  C14.  No send of the client blocks: whenever the read loop or a goroutine is about to send a
  result on a channel, the channel is empty; and when the read loop ends it can fail every
  pending request.  So a response can neither stop the read loop nor keep the lock.
\<close>

theorem ws_sends_never_block:
  assumes "ws_running (c, r, gs)"
  shows "(\<forall>ch x. r = RSend ch x \<longrightarrow> canSend ch c)
    \<and> (\<forall>ch x. Replying ch x \<in> set gs \<longrightarrow> canSend ch c)
    \<and> (\<forall>e. readLoopEnd e c \<noteq> None)
    \<and> (\<forall>ch x. r = RSend ch x \<longrightarrow> (\<forall>y. Replying ch y \<notin> set gs) \<and> (\<forall>(key, p) \<in> set (wpendings c). wpCh p \<noteq> ch))"
proof -
  note I = running_chanInv[OF assms]
  have 1: "canSend ch c" if "r = RSend ch x" for ch x
    using owner_can_send[OF I, of ch] that by (simp add: heldBy_def)
  have 2: "canSend ch c" if "Replying ch x \<in> set gs" for ch x
    using owner_can_send[OF I, of ch] held_go[OF that, of ch c r] by simp
  note 3 = readLoopEnd_total[OF I]
  have "(\<forall>y. Replying ch y \<notin> set gs) \<and> (\<forall>(key, p) \<in> set (wpendings c). wpCh p \<noteq> ch)" if r: "r = RSend ch x" for ch x
  proof -
    have z: "sum_list (map (goOwn ch) gs) = 0 \<and> tally (\<lambda>p. wpCh p = ch) (wpendings c) = 0"
      using owners_bounds(1)[OF I, of ch] unfolding heldBy_def prod.case r readerOwn.simps
      by (intro conjI; simp only: of_bool_eq simp_thms; linarith)
    have "Replying ch y \<notin> set gs" for y
      using sum_list_member[of "Replying ch y" gs "goOwn ch"] z by auto
    moreover have "\<forall>(key, p) \<in> set (wpendings c). wpCh p \<noteq> ch"
      using z by (auto simp: tally_def filter_empty_conv)
    ultimately show ?thesis by blast
  qed
  with 1 2 3 show ?thesis by blast
qed

end
