(* ===== verification/WsClientLive.thy ===== *)
theory WsClientLive
  imports WsClientProps
begin

text \<open>
  The WebSocket client returns: once the read loop is over every goroutine that waits for a
  result is served by another one, so that the calls of the client come to an end under
  every schedule.  Requests are numbered with 32 bits, and the statements hold as long as the
  numbers do not come round.  And a request is repeated a bounded number of times.
\<close>

section \<open>Who waits\<close>

fun goWaits :: "nat \<Rightarrow> goroutine \<Rightarrow> nat" where
  "goWaits ch (Writing key c p k) = one (c = ch)"
| "goWaits ch (Selecting key c k) = one (c = ch)"
| "goWaits ch _ = 0"

fun keyed :: "wclient \<Rightarrow> goroutine \<Rightarrow> bool" where
  "keyed c (Writing key ch p k) \<longleftrightarrow> key = of_nat (ch + 1) \<and> ch < length (chans c) \<and> (\<forall>d. 0 < contOwn d k \<longrightarrow> d < ch)"
| "keyed c (Selecting key ch k) \<longleftrightarrow> key = of_nat (ch + 1) \<and> ch < length (chans c) \<and> (\<forall>d. 0 < contOwn d k \<longrightarrow> d < ch)"
| "keyed c _ \<longleftrightarrow> True"

abbreviation noWrap :: "wclient \<Rightarrow> bool" where
  "noWrap c \<equiv> length (chans c) < 2 ^ 32"

text \<open>The numbers of requests are those of their channels.\<close>

definition numbered :: "wclient \<Rightarrow> bool" where
  "numbered c \<longleftrightarrow> wf_map (wpendings c) \<and> reqIDSeq c = of_nat (length (chans c))
    \<and> (\<forall>(key, p) \<in> set (wpendings c). key = of_nat (wpCh p + 1) \<and> wpCh p < length (chans c))"

lemma i32_of_nat_inj: "(of_nat m :: i32) = of_nat n \<Longrightarrow> m < 2 ^ 32 \<Longrightarrow> n < 2 ^ 32 \<Longrightarrow> m = n"
  by (simp add: word_of_nat_eq_iff take_bit_nat_eq_self)

lemma numbered_entry:
  assumes "numbered c" and "noWrap c" and "map_of (wpendings c) (of_nat (ch + 1)) = Some p" and "ch < length (chans c)"
  shows "wpCh p = ch"
proof -
  have "(of_nat (ch + 1), p) \<in> set (wpendings c)" using assms(3) by (rule map_of_SomeD)
  then have "(of_nat (ch + 1) :: i32) = of_nat (wpCh p + 1)" "wpCh p < length (chans c)"
    using assms(1) by (auto simp: numbered_def)
  from i32_of_nat_inj[OF this(1)] this(2) assms(2,4) show ?thesis by simp
qed

lemma numbered_fresh:
  assumes "numbered c" and "length (chans c) + 1 < 2 ^ 32"
  shows "reqIDSeq c + 1 \<notin> fst ` set (wpendings c)"
proof
  assume "reqIDSeq c + 1 \<in> fst ` set (wpendings c)"
  then obtain p where "(reqIDSeq c + 1, p) \<in> set (wpendings c)" by auto
  then have "(of_nat (length (chans c) + 1) :: i32) = of_nat (wpCh p + 1)" "wpCh p < length (chans c)"
    using assms(1) by (auto simp: numbered_def add.commute)
  from i32_of_nat_inj[OF this(1)] this(2) assms(2) show False by simp
qed

lemma drop_waiter:
  assumes "numbered c" and "noWrap c" and "ch < length (chans c)"
  shows "own d c \<le> own d (dropRequest (of_nat (ch + 1)) c) + one (ch = d)"
proof (cases "map_of (wpendings c) (of_nat (ch + 1))")
  case None
  then have "dropRequest (of_nat (ch + 1)) c = c"
    by (simp add: dropRequest_def delete_idem map_of_eq_None_iff)
  then show ?thesis by simp
next
  case (Some p)
  have w: "wf_map (wpendings c)" using assms(1) by (simp add: numbered_def)
  have "wpCh p = ch" using numbered_entry[OF assms(1,2) Some assms(3)] .
  with drop_entry[OF w Some, of d] show ?thesis by simp
qed

lemma resume_waits: "resume k r c = (g, c') \<Longrightarrow> goWaits ch g = 0"
  by (cases k) (auto split: sum.splits)

lemma go_waits:
  assumes "go_step quit c g c' g'" and "numbered c" and "noWrap c'" and "keyed c g"
    and "\<And>ch r. g = Replying ch r \<Longrightarrow> ch < length (chans c)"
  shows "goWaits d g' + own d c + goOwn d g \<le> own d c' + goOwn d g' + goWaits d g"
  using assms
proof (induction rule: go_step.induct)
  case (refused p n c e c1 k g c2)
  then show ?case
    using resume_frame[OF refused(2), of d] resume_waits[OF refused(2), of d] own_cong[of c2 c1 d]
    by (simp add: refused_iff own_def)
next
  case (registered p n c key ch c1 k)
  note r = registered(1)[unfolded registered_iff]
  have "key \<notin> fst ` set (wpendings c)" using numbered_fresh[OF registered(2)] registered(3) r by simp
  from tally_update_new[OF this] r have "own d c1 = own d c + one (ch = d)" by (simp add: own_def)
  then show ?case by simp
next
  case (unwritten k e key c g c1 ch p)
  have nw: "noWrap c" using unwritten(3) resume_frame[OF unwritten(1), of d] by (simp add: dropRequest_def)
  show ?case
    using resume_frame[OF unwritten(1), of d] resume_waits[OF unwritten(1), of d] own_cong[of c1 "dropRequest key c" d]
      drop_waiter[OF unwritten(2) nw, of ch d] unwritten(4) by simp
next
  case (received c ch r k g c1 key)
  have "own d (receive ch c) + one (ch = d) = own d c"
    using full_receive[of ch "chans c" r d] received by (simp add: own_def receive_def)
  then show ?case
    using resume_frame[OF received(2), of d] resume_waits[OF received(2), of d] own_cong[of c1 "receive ch c" d] by simp
next
  case (cancelled k key c g c1 ch)
  have nw: "noWrap c" using cancelled(4) resume_frame[OF cancelled(2), of d] by (simp add: dropRequest_def)
  show ?case
    using resume_frame[OF cancelled(2), of d] resume_waits[OF cancelled(2), of d] own_cong[of c1 "dropRequest key c" d]
      drop_waiter[OF cancelled(3) nw, of ch d] cancelled(5) by simp
next
  case (retrying p msg c g c1)
  then show ?case by (auto simp: retryStart_def own_def split: if_splits option.splits)
next
  case (replying ch c r)
  then show ?case
    using full_send[of ch "chans c" d r] replying(5)[OF refl] by (simp add: own_def sendTo_def canSend_def)
qed auto

section \<open>Every waiting goroutine is served\<close>

definition wsServed :: "wsystem \<Rightarrow> bool" where
  "wsServed s = (case s of (c, r, gs) \<Rightarrow>
    numbered c \<and> (\<forall>g \<in> set gs. keyed c g) \<and> (\<forall>ch. sum_list (map (goWaits ch) gs) \<le> owners ch s))"

lemma keyed_mono: "keyed c g \<Longrightarrow> length (chans c) \<le> length (chans c') \<Longrightarrow> keyed c' g"
  by (cases g) auto

lemma numbered_frame:
  "numbered c \<Longrightarrow> wf_map (wpendings c') \<Longrightarrow> set (wpendings c') \<subseteq> set (wpendings c) \<Longrightarrow>
    reqIDSeq c' = reqIDSeq c \<Longrightarrow> length (chans c') = length (chans c) \<Longrightarrow> numbered c'"
  unfolding numbered_def by auto

lemma numbered_drop: "numbered c \<Longrightarrow> numbered (dropRequest key c)"
  by (rule numbered_frame) (auto simp: dropRequest_def numbered_def AList.delete_eq)

lemma set_update_le: "set (AList.update k v xs) \<subseteq> insert (k, v) (set xs)"
  by (induction xs) auto

lemma go_numbered:
  assumes "go_step quit c g c' g'" and "numbered c"
  shows "numbered c'"
  using assms
proof (induction rule: go_step.induct)
  case (refused p n c e c1 k g c2)
  then have "numbered c1" unfolding refused_iff by (auto simp: numbered_def add.commute)
  then show ?case
    using resume_frame[OF refused(2), of 0] by (intro numbered_frame[of c1 c2]) (simp_all add: numbered_def)
next
  case (registered p n c key ch c1 k)
  note r = registered(1)[unfolded registered_iff]
  have "set (wpendings c1) \<subseteq> insert (key, \<lparr>wpPayload = p, wpCh = ch, wpRetries = n\<rparr>) (set (wpendings c))"
    using r set_update_le by fastforce
  then show ?case using registered(2) r by (fastforce simp: numbered_def add.commute)
next
  case (unwritten k e key c g c1 ch p)
  then show ?case
    using resume_frame[OF unwritten(1), of 0] numbered_drop[OF unwritten(2), of key]
    by (intro numbered_frame[of "dropRequest key c" c1]) (simp_all add: numbered_def)
next
  case (received c ch r k g c1 key)
  then show ?case
    using resume_frame[OF received(2), of 0] by (intro numbered_frame[of c c1]) (simp_all add: numbered_def receive_def)
next
  case (cancelled k key c g c1 ch)
  then show ?case
    using resume_frame[OF cancelled(2), of 0] numbered_drop[OF cancelled(3), of key]
    by (intro numbered_frame[of "dropRequest key c" c1]) (simp_all add: numbered_def)
next
  case (retrying p msg c g c1)
  then show ?case by (auto simp: retryStart_def numbered_def split: if_splits option.splits)
qed (simp_all add: numbered_def sendTo_def)

lemma go_keyed:
  assumes "go_step quit c g c' g'" and "numbered c" and "keyed c g" and "\<And>ch. 0 < goOwn ch g \<Longrightarrow> ch < length (chans c)"
  shows "keyed c' g'"
  using assms
proof (induction rule: go_step.induct)
  case (registered p n c key ch c1 k)
  then show ?case by (auto simp: registered_iff numbered_def add.commute)
next
  case (refused p n c e c1 k g c2)
  then show ?case by (cases k) (auto split: sum.splits)
next
  case (unwritten k e key c g c1 ch p)
  then show ?case by (cases k) (auto split: sum.splits)
next
  case (received c ch r k g c1 key)
  then show ?case by (cases k) (auto split: sum.splits)
next
  case (cancelled k key c g c1 ch)
  then show ?case by (cases k) (auto split: sum.splits)
next
  case (retrying p msg c g c1)
  then show ?case by (auto simp: retryStart_def split: if_splits option.splits)
qed auto

lemma go_chans: "go_step quit c g c' g' \<Longrightarrow> length (chans c) \<le> length (chans c')"
  using go_owners by blast

lemma handleFrame_numbered:
  assumes "handleFrame f c = (r, new, c')" and "numbered c"
  shows "numbered c' \<and> chans c' = chans c"
  using assms numbered_drop[OF assms(2)]
  by (cases f) (auto simp: dispatchResult_def handleStreamSuperseded_def dropRequest_def[of _ c] split: option.splits)

lemma handleFrame_new:
  assumes "handleFrame f c = (r, new, c')" and "g \<in> set new"
  shows "keyed c' g \<and> goWaits ch g = 0"
  using assms
  by (cases f) (auto simp: dispatchResult_def handleStreamSuperseded_def split: option.splits)

lemma failAll_exact:
  "failAll e ps c = Some c' \<Longrightarrow> numbered c \<Longrightarrow> wf_map ps \<Longrightarrow> set ps \<subseteq> set (wpendings c) \<Longrightarrow>
    own ch c' = own ch c \<and> numbered c' \<and> length (chans c') = length (chans c)
    \<and> set (wpendings c') \<subseteq> {x \<in> set (wpendings c). fst x \<notin> fst ` set ps}"
proof (induction ps arbitrary: c)
  case Nil
  then show ?case by simp
next
  case (Cons x ps)
  obtain key p where x: "x = (key, p)" by fastforce
  let ?s = "sendTo (wpCh p) (Inl e) c"
  let ?c = "dropRequest key ?s"
  have f: "failAll e ps ?c = Some c'" and s: "canSend (wpCh p) c" using Cons.prems(1) by (simp_all add: x split: if_splits)
  have w: "wf_map (wpendings c)" and l: "wpCh p < length (chans c)"
    using Cons.prems(2,4) by (auto simp: numbered_def x)
  have n: "numbered ?s" by (rule numbered_frame[OF Cons.prems(2)]) (simp_all add: sendTo_def w)
  have "map_of (wpendings ?s) key = Some p" using w Cons.prems(4) by (simp add: sendTo_def x map_of_in_set_iff[symmetric])
  from drop_entry[OF _ this, of ch] have "own ch ?c = own ch c"
    using full_send[OF l, of ch "Inl e"] s w by (simp add: own_def sendTo_def canSend_def)
  moreover have d: "set (wpendings ?c) = {x \<in> set (wpendings c). fst x \<noteq> key}"
    by (auto simp: dropRequest_def sendTo_def AList.delete_eq)
  moreover have "set ps \<subseteq> set (wpendings ?c)" unfolding d using Cons.prems(3,4) by (force simp: x)
  moreover have "length (chans ?c) = length (chans c)" by (simp add: dropRequest_def sendTo_def)
  ultimately show ?case using Cons.IH[OF f numbered_drop[OF n]] Cons.prems(3) by (auto simp: x)
qed

lemma readLoopEnd_exact:
  assumes "readLoopEnd e c = Some c'" and "numbered c"
  shows "own ch c' = own ch c" and "numbered c'" and "length (chans c') = length (chans c)" and "wpendings c' = []"
proof -
  let ?c = "c\<lparr>wclosed := True, closeErr := Some e\<rparr>"
  have n: "numbered ?c" "wf_map (wpendings c)" using assms(2) by (simp_all add: numbered_def)
  from failAll_exact[OF assms(1)[unfolded readLoopEnd_def Let_def] n(1), of ch] n(2)
  have f: "own ch c' = own ch ?c" "numbered c'" "length (chans c') = length (chans c)"
    "set (wpendings c') \<subseteq> {x \<in> set (wpendings c). fst x \<notin> fst ` set (wpendings c)}" by auto
  then show "own ch c' = own ch c" "numbered c'" "length (chans c') = length (chans c)" by (simp_all add: own_def)
  show "wpendings c' = []" using f(4) by (cases "wpendings c'") auto
qed

lemma served_step:
  assumes "wstep s s'" and "chanInv s" and "wsServed s" and "noWrap (fst s')"
  shows "wsServed s'"
  using assms
proof (induction rule: wstep.induct)
  case (closes c new c' r gs)
  have o: "owners ch (c', r, gs @ new) = owners ch (c, r, gs)" "sum_list (map (goWaits ch) (gs @ new)) = sum_list (map (goWaits ch) gs)" for ch
    using closes(1) by (auto simp: closeWsBegin_def owners_def own_def split: if_splits)
  have c: "chans c' = chans c" "numbered c' = numbered c" "\<forall>g \<in> set new. keyed c' g"
    using closes(1) by (auto simp: closeWsBegin_def numbered_def split: if_splits)
  have "keyed c' g" if "g \<in> set gs" for g
    using closes(3) that keyed_mono[of c g c'] c(1) by (simp add: wsServed_def)
  then show ?case using closes(3) c(2,3) unfolding wsServed_def prod.case o by auto
next
  case (goes i gs c c' g r)
  have gi: "gs ! i \<in> set gs" using goes(1) by simp
  have n: "numbered c" and k: "keyed c (gs ! i)" and W: "\<And>ch. sum_list (map (goWaits ch) gs) \<le> owners ch (c, r, gs)"
    using goes(4) gi by (auto simp: wsServed_def)
  have b: "ch < length (chans c)" if "0 < goOwn ch (gs ! i)" for ch
    using owners_bounds(2)[of c r gs ch] goes(3) held_go[OF gi, of ch c r] that by simp
  have nw: "noWrap c'" using goes(5) by simp
  have r: "ch < length (chans c)" if "gs ! i = Replying ch x" for ch x using b[of ch] that by simp
  have L: "goWaits d g + own d c + goOwn d (gs ! i) \<le> own d c' + goOwn d g + goWaits d (gs ! i)" for d
    using r by (intro go_waits[OF goes(2) n nw k])
  have "sum_list (map (goWaits d) (gs[i := g])) \<le> owners d (c', r, gs[i := g])" for d
    using L[of d] W[of d] sum_list_update_nat[OF goes(1), of "goWaits d" g] sum_list_update_nat[OF goes(1), of "goOwn d" g]
    unfolding owners_def prod.case by linarith
  moreover have "keyed c' h" if "h \<in> set (gs[i := g])" for h
  proof (cases "h = g")
    case True
    then show ?thesis using go_keyed[OF goes(2) n k b] by simp
  next
    case False
    then have "h \<in> set gs" using that set_update_subset_insert by fast
    then show ?thesis using goes(4) keyed_mono[OF _ go_chans[OF goes(2)]] by (auto simp: wsServed_def)
  qed
  ultimately show ?case using go_numbered[OF goes(2) n] by (auto simp: wsServed_def)
next
  case (frame f c r new c' gs)
  have n: "numbered c" using frame(3) by (simp add: wsServed_def)
  then have w: "wf_map (wpendings c)" by (simp add: numbered_def)
  note N = handleFrame_numbered[OF frame(1) n] and O = handleFrame_owners[OF w frame(1)]
  have z: "sum_list (map (goWaits ch) new) = 0" for ch using handleFrame_new[OF frame(1)] by simp
  have "sum_list (map (goWaits ch) (gs @ new)) \<le> owners ch (c', r, gs @ new)" for ch
  proof -
    have "sum_list (map (goWaits ch) gs) \<le> own ch c + sum_list (map (goOwn ch) gs)"
      using frame(3) by (simp add: wsServed_def owners_def)
    with O[of ch] z[of ch] show ?thesis by (simp add: owners_def del: sum_list_eq_0_iff)
  qed
  moreover have "keyed c' g" if "g \<in> set gs" for g
    using frame(3) that keyed_mono[of c g c'] N by (simp add: wsServed_def)
  then have "\<forall>g \<in> set (gs @ new). keyed c' g" using handleFrame_new[OF frame(1)] by auto
  ultimately show ?case using N by (simp add: wsServed_def)
next
  case (delivers ch c x gs)
  have l: "ch < length (chans c)"
    using owners_bounds(2)[OF delivers(2), of ch] by (simp add: heldBy_def)
  have "owners d (sendTo ch x c, RLoop, gs) = owners d (c, RSend ch x, gs)" for d
    using full_send[OF l, of d x] delivers(1) by (simp add: owners_def own_def sendTo_def canSend_def)
  moreover have "keyed (sendTo ch x c) g" if "keyed c g" for g
    using keyed_mono[OF that, of "sendTo ch x c"] by (simp add: sendTo_def)
  ultimately show ?case using delivers(3) by (auto simp: wsServed_def numbered_def sendTo_def)
next
  case (ends e c c' gs)
  have n: "numbered c" using ends(3) by (simp add: wsServed_def)
  note E = readLoopEnd_exact[OF ends(1) n]
  have "owners d (c', REnd, gs) = owners d (c, RLoop, gs)" for d using E(1)[of d] by (simp add: owners_def)
  moreover have "keyed c' g" if "keyed c g" for g using keyed_mono[OF that, of c'] E(3) by simp
  ultimately show ?case using ends(3) E(2) by (auto simp: wsServed_def)
qed (auto simp: wsServed_def owners_def)

lemma running_grows:
  assumes "ws_running s" and "wstep s s'"
  shows "length (chans (fst s)) \<le> length (chans (fst s'))"
  using assms(2) running_chanInv[OF assms(1)]
proof (induction rule: wstep.induct)
  case (closes c new c' r gs)
  then show ?case by (auto simp: closeWsBegin_def split: if_splits)
next
  case (goes i gs c c' g r)
  then show ?case using go_chans by simp
next
  case (frame f c r new c' gs)
  then show ?case using handleFrame_owners[OF _ frame(1)] by (simp add: chanInv_def)
next
  case (ends e c c' gs)
  then show ?case using readLoopEnd_owners[OF ends(1)] by (simp add: chanInv_def)
qed (simp_all add: sendTo_def)

lemma running_served: "ws_running s \<Longrightarrow> noWrap (fst s) \<Longrightarrow> wsServed s"
proof (induction rule: ws_running.induct)
  case start
  then show ?case by (simp add: wsServed_def numbered_def newWsClient_def)
next
  case (step s s')
  then show ?case
    using served_step[OF step.hyps(2) running_chanInv[OF step.hyps(1)]] running_grows[OF step.hyps] by simp
qed

section \<open>Recoveries\<close>

text \<open>At most one goroutine recovers the stream, exactly while \<open>recovering\<close> is set.\<close>

fun contRecovers :: "wcont \<Rightarrow> nat" where
  "contRecovers (RecoverClose p) = 1"
| "contRecovers (RecoverOpen p) = 1"
| "contRecovers _ = 0"

fun goRecovers :: "goroutine \<Rightarrow> nat" where
  "goRecovers (Calling p n k) = contRecovers k"
| "goRecovers (Writing key ch p k) = contRecovers k"
| "goRecovers (Selecting key ch k) = contRecovers k"
| "goRecovers _ = 0"

fun awaits :: "wclient \<Rightarrow> goroutine \<Rightarrow> bool" where
  "awaits c (Awaiting d p) \<longleftrightarrow> d < length (dones c) \<and> (dones c ! d \<or> recovering c = Some d)"
| "awaits c _ \<longleftrightarrow> True"

definition recoverInv :: "wsystem \<Rightarrow> bool" where
  "recoverInv s = (case s of (c, r, gs) \<Rightarrow>
    sum_list (map goRecovers gs) = one (recovering c \<noteq> None) \<and> (\<forall>g \<in> set gs. awaits c g)
    \<and> (\<forall>d. recovering c = Some d \<longrightarrow> d < length (dones c)))"

text \<open>A step changes the recovery only by beginning one or by ending its own.\<close>

definition sameRecovery :: "wclient \<Rightarrow> wclient \<Rightarrow> bool" where
  "sameRecovery c c' \<longleftrightarrow> recovering c' = recovering c \<and> dones c' = dones c"

lemma resume_recovery:
  assumes "resume k r c = (g, c')" and "contRecovers k = 1 \<Longrightarrow> recovering c \<noteq> None"
  shows "(sameRecovery c c' \<and> goRecovers g = contRecovers k
      \<or> (\<exists>d. recovering c = Some d \<and> contRecovers k = 1 \<and> goRecovers g = 0 \<and>
        recovering c' = None \<and> dones c' = (dones c)[d := True])) \<and> awaits c' g"
  using assms by (cases k) (auto simp: sameRecovery_def recoverEnd_def split: sum.splits)

definition recoveryStep :: "wclient \<Rightarrow> goroutine \<Rightarrow> wclient \<Rightarrow> goroutine \<Rightarrow> bool" where
  "recoveryStep c g c' g' \<longleftrightarrow> awaits c' g' \<and>
    (sameRecovery c c' \<and> goRecovers g' = goRecovers g
    \<or> (goRecovers g = 0 \<and> goRecovers g' = 1 \<and> recovering c = None \<and> recovering c' = Some (length (dones c))
      \<and> dones c' = dones c @ [False])
    \<or> (\<exists>d. recovering c = Some d \<and> goRecovers g = 1 \<and> goRecovers g' = 0 \<and> recovering c' = None
      \<and> dones c' = (dones c)[d := True]))"

lemma resume_recoveryStep:
  assumes "resume k r c1 = (g, c')" and "sameRecovery c c1" and "goRecovers g0 = contRecovers k"
    and "goRecovers g0 = 1 \<Longrightarrow> recovering c \<noteq> None"
  shows "recoveryStep c g0 c' g"
  using resume_recovery[OF assms(1)] assms(2-4) unfolding recoveryStep_def sameRecovery_def by auto

lemma go_recovery:
  "go_step quit c g c' g' \<Longrightarrow> (goRecovers g = 1 \<Longrightarrow> recovering c \<noteq> None) \<Longrightarrow>
    (\<And>d. recovering c = Some d \<Longrightarrow> d < length (dones c)) \<Longrightarrow> recoveryStep c g c' g'"
proof (induction rule: go_step.induct)
  case (refused p n c e c1 k g c2)
  have "sameRecovery c c1" using refused(1) by (simp add: refused_iff sameRecovery_def)
  then show ?case by (rule resume_recoveryStep[OF refused(2)]) (use refused(3) in simp_all)
next
  case (unwritten k e key c g c1 ch p)
  show ?case by (rule resume_recoveryStep[OF unwritten(1)]) (use unwritten(2) in \<open>simp_all add: sameRecovery_def dropRequest_def\<close>)
next
  case (received c ch r k g c1 key)
  show ?case by (rule resume_recoveryStep[OF received(2)]) (use received(3) in \<open>simp_all add: sameRecovery_def receive_def\<close>)
next
  case (cancelled k key c g c1 ch)
  show ?case by (rule resume_recoveryStep[OF cancelled(2)]) (use cancelled(3) in \<open>simp_all add: sameRecovery_def dropRequest_def\<close>)
next
  case (retrying p msg c g c1)
  then show ?case by (auto simp: retryStart_def recoveryStep_def sameRecovery_def split: if_splits option.splits)
qed (auto simp: recoveryStep_def sameRecovery_def registered_iff sendTo_def)

lemma recoverInv_same:
  assumes "recoverInv (c, r, gs)" and "sameRecovery c c'" and "\<forall>g \<in> set new. goRecovers g = 0 \<and> awaits c' g"
  shows "recoverInv (c', r', gs @ new)"
proof -
  have "awaits c' g = awaits c g" for g using assms(2) by (cases g) (simp_all add: sameRecovery_def)
  moreover have "sum_list (map goRecovers new) = 0" using assms(3) by simp
  ultimately show ?thesis using assms by (auto simp: recoverInv_def sameRecovery_def)
qed

lemma failAll_recovery: "failAll e ps c = Some c' \<Longrightarrow> sameRecovery c c'"
  by (induction ps arbitrary: c) (auto simp: sameRecovery_def dropRequest_def sendTo_def split: if_splits)

lemma awaits_later:
  "awaits c g \<Longrightarrow> recoveryStep c h c' h' \<Longrightarrow> (\<And>d. recovering c = Some d \<Longrightarrow> d < length (dones c)) \<Longrightarrow> awaits c' g"
  by (cases g) (auto simp: recoveryStep_def sameRecovery_def nth_append nth_list_update)

lemma recoverInv_step: "wstep s s' \<Longrightarrow> recoverInv s \<Longrightarrow> recoverInv s'"
proof (induction rule: wstep.induct)
  case (closes c new c' r gs)
  then show ?case
    by (intro recoverInv_same[OF closes(2)]) (auto simp: closeWsBegin_def sameRecovery_def split: if_splits)
next
  case (goes i gs c c' g r)
  have gi: "gs ! i \<in> set gs" using goes(1) by simp
  note S = sum_list_update_nat[OF goes(1), of goRecovers g]
  have I: "sum_list (map goRecovers gs) = one (recovering c \<noteq> None)" "\<forall>g \<in> set gs. awaits c g"
    and d: "\<And>d. recovering c = Some d \<Longrightarrow> d < length (dones c)"
    using goes(3) by (auto simp: recoverInv_def)
  have "goRecovers (gs ! i) = 1 \<Longrightarrow> recovering c \<noteq> None"
    using sum_list_member[OF gi, of goRecovers] I(1) by (cases "recovering c") auto
  with d have R: "recoveryStep c (gs ! i) c' g" by (intro go_recovery[OF goes(2)])
  have "\<forall>h \<in> set (gs[i := g]). awaits c' h"
  proof
    fix h assume "h \<in> set (gs[i := g])"
    then have "h = g \<or> h \<in> set gs" using set_update_subset_insert by fast
    then show "awaits c' h" using I(2) awaits_later[OF _ R d] R unfolding recoveryStep_def by blast
  qed
  moreover have "sum_list (map goRecovers (gs[i := g])) = one (recovering c' \<noteq> None)"
    using R S I(1) unfolding recoveryStep_def sameRecovery_def by (elim conjE disjE exE) simp_all
  moreover have "d < length (dones c')" if "recovering c' = Some d" for d
    using R that d unfolding recoveryStep_def sameRecovery_def by auto
  ultimately show ?case by (simp add: recoverInv_def)
next
  case (frame f c r new c' gs)
  then show ?case
    by (intro recoverInv_same[OF frame(2)]; cases f)
      (auto simp: dispatchResult_def handleStreamSuperseded_def dropRequest_def sameRecovery_def split: option.splits)
next
  case (delivers ch c x gs)
  show ?case using recoverInv_same[OF delivers(2), of "sendTo ch x c" "[]" RLoop] by (simp add: sameRecovery_def sendTo_def)
next
  case (ends e c c' gs)
  have "sameRecovery c c'" using failAll_recovery[OF ends(1)[unfolded readLoopEnd_def Let_def]] by (simp add: sameRecovery_def)
  then show ?case using recoverInv_same[OF ends(2), of c' "[]" REnd] by simp
next
  case (opens c r gs)
  show ?case using recoverInv_same[OF opens, of c] by (simp add: sameRecovery_def)
next
  case (executes c r gs s)
  show ?case using recoverInv_same[OF executes, of c] by (simp add: sameRecovery_def)
qed

lemma running_recoverInv: "ws_running s \<Longrightarrow> recoverInv s"
  by (induction rule: ws_running.induct) (simp add: recoverInv_def newWsClient_def, rule recoverInv_step)

section \<open>After the read loop\<close>

definition endInv :: "wsystem \<Rightarrow> bool" where
  "endInv s = (case s of (c, r, gs) \<Rightarrow> r = REnd \<longrightarrow> wclosed c \<and> wpendings c = [])"

lemma go_closed:
  "go_step quit c g c' g' \<Longrightarrow> wclosed c \<Longrightarrow> wpendings c = [] \<Longrightarrow> wclosed c' \<and> wpendings c' = []"
  by (induction rule: go_step.induct)
    (auto simp: registered_iff refused_iff dropRequest_def receive_def sendTo_def retryStart_def
      dest!: resume_frame[where ch = 0] split: if_splits option.splits)

lemma failAll_closed: "failAll e ps c = Some c' \<Longrightarrow> wclosed c' = wclosed c"
proof (induction ps arbitrary: c)
  case (Cons x ps)
  then show ?case by (cases x) (fastforce simp: dropRequest_def sendTo_def split: if_splits)
qed simp

lemma running_endInv: "ws_running s \<Longrightarrow> noWrap (fst s) \<Longrightarrow> wsServed s \<and> endInv s"
proof (induction rule: ws_running.induct)
  case start
  then show ?case using running_served[OF ws_running.start] by (simp add: endInv_def newWsClient_def)
next
  case (step s s')
  have V: "wsServed s'" using running_served[OF ws_running.step[OF step.hyps] step.prems] .
  have nw: "noWrap (fst s)" using running_grows[OF step.hyps] step.prems by simp
  have E: "endInv s" and S: "wsServed s" using step.IH[OF nw] by simp_all
  have "endInv s'"
    using step.hyps(2) E S
  proof (induction rule: wstep.induct)
    case (goes i gs c c' g r)
    then show ?case using go_closed[OF goes(2)] by (auto simp: endInv_def)
  next
    case (frame f c r new c' gs)
    then show ?case
      by (cases f) (auto simp: endInv_def dispatchResult_def handleStreamSuperseded_def split: option.splits)
  next
    case (ends e c c' gs)
    have "wclosed c'" using failAll_closed[OF ends(1)[unfolded readLoopEnd_def Let_def]] by simp
    moreover have "wpendings c' = []" using readLoopEnd_exact(4)[OF ends(1)] ends(3) by (simp add: wsServed_def)
    ultimately show ?case by (simp add: endInv_def)
  qed (auto simp: endInv_def closeWsBegin_def split: if_splits)
  with V show ?case by simp
qed

text \<open>Work left: every step of a goroutine makes it less.\<close>

fun contWork :: "wcont \<Rightarrow> nat" where
  "contWork ToCaller = 0"
| "contWork (ToRetry p) = 1"
| "contWork (RecoverOpen p) = 5"
| "contWork (RecoverClose p) = 8"

fun goWork :: "goroutine \<Rightarrow> nat" where
  "goWork (Calling p n k) = contWork k + 3"
| "goWork (Writing key ch p k) = contWork k + 2"
| "goWork (Selecting key ch k) = contWork k + 1"
| "goWork (Retrying p m) = 12"
| "goWork (Awaiting d p) = 6"
| "goWork (Resending p) = 5"
| "goWork (Replying ch r) = 1"
| "goWork _ = 0"

lemma resume_work: "resume k r c = (g, c') \<Longrightarrow> goWork g \<le> contWork k"
  by (cases k) (auto split: sum.splits)

lemma go_work: "go_step quit c g c' g' \<Longrightarrow> goWork g' < goWork g"
  by (induction rule: go_step.induct)
    (auto simp: retryStart_def dest!: resume_work split: if_splits option.splits)

fun atRest :: "goroutine \<Rightarrow> bool" where
  "atRest (Returned r) = True"
| "atRest Ended = True"
| "atRest _ = False"

text \<open>Steps of goroutines in any order, with callers that do not give up.\<close>

inductive go_run :: "nat \<Rightarrow> wclient \<times> goroutine list \<Rightarrow> wclient \<times> goroutine list \<Rightarrow> bool" where
  stay: "go_run 0 x x"
| move: "go_run n x (c, gs) \<Longrightarrow> i < length gs \<Longrightarrow> go_step timesOut c (gs ! i) c' g \<Longrightarrow> go_run (Suc n) x (c', gs[i := g])"

lemma go_step_patient: "go_step timesOut c g c' g' \<Longrightarrow> go_step mayCancel c g c' g'"
proof (induction rule: go_step.induct)
  case (cancelled k key c g c1 ch)
  then have "mayCancel k" by (cases k) simp_all
  then show ?case using cancelled(2) by (rule go_step.cancelled)
qed (rule go_step.intros; assumption)+

lemma go_run_running:
  "go_run n x y \<Longrightarrow> ws_running (fst x, r, snd x) \<Longrightarrow>
    ws_running (fst y, r, snd y) \<and> n + sum_list (map goWork (snd y)) \<le> sum_list (map goWork (snd x))"
proof (induction rule: go_run.induct)
  case (stay x)
  then show ?case by simp
next
  case (move n x c gs i c' g)
  have "ws_running (c', r, gs[i := g])"
    using move ws_running.step wstep.goes[OF move(2) go_step_patient[OF move(3)]] by fastforce
  then show ?case
    using move sum_list_update_nat[OF move(2), of goWork g] go_work[OF move(3)] by fastforce
qed

definition stuck :: "wclient \<Rightarrow> goroutine \<Rightarrow> bool" where
  "stuck c g \<longleftrightarrow> (\<forall>c' g'. \<not> go_step timesOut c g c' g')"

lemma stuck_cases:
  assumes "stuck c g" and "\<not> atRest g"
  obtains (reply) ch r where "g = Replying ch r" "\<not> canSend ch c"
    | (select) key ch k where "g = Selecting key ch k" "chans c ! ch = None" "\<not> timesOut k"
    | (wait) d p where "g = Awaiting d p" "\<not> dones c ! d"
proof (cases g)
  case (Calling p n k)
  obtain x c1 where r: "registerRequest p n c = (x, c1)" by fastforce
  show ?thesis
  proof (cases x)
    case (Inl e)
    obtain h c2 where "resume k (Inl e) c1 = (h, c2)" by fastforce
    then have "go_step timesOut c g c2 h" unfolding Calling using r Inl by (blast intro: go_step.refused)
    then show ?thesis using assms(1) by (simp add: stuck_def)
  next
    case (Inr y)
    obtain key ch where y: "y = (key, ch)" by fastforce
    have "go_step timesOut c g c1 (Writing key ch p k)"
      unfolding Calling using r Inr y by (blast intro: go_step.registered)
    then show ?thesis using assms(1) by (simp add: stuck_def)
  qed
next
  case (Writing key ch p k)
  then show ?thesis using assms(1) go_step.written unfolding stuck_def by blast
next
  case (Selecting key ch k)
  show ?thesis
  proof (rule select[OF Selecting])
    show "chans c ! ch = None"
    proof (rule ccontr)
      assume "chans c ! ch \<noteq> None"
      then obtain r where "chans c ! ch = Some r" by blast
      moreover obtain h c1 where "resume k r (receive ch c) = (h, c1)" by fastforce
      ultimately show False using assms(1) go_step.received unfolding stuck_def Selecting by blast
    qed
    show "\<not> timesOut k"
    proof
      assume "timesOut k"
      moreover obtain h c1 where "resume k (Inl CCancelled) (dropRequest key c) = (h, c1)" by fastforce
      ultimately show False using assms(1) go_step.cancelled unfolding stuck_def Selecting by blast
    qed
  qed
next
  case (Retrying p m)
  obtain h c1 where "retryStart p m c = (h, c1)" by fastforce
  then show ?thesis using assms(1) go_step.retrying unfolding stuck_def Retrying by blast
next
  case (Awaiting d p)
  then show ?thesis using wait assms(1) go_step.awaited unfolding stuck_def by blast
next
  case (Resending p)
  then show ?thesis using assms(1) go_step.resending unfolding stuck_def by blast
next
  case (Replying ch r)
  then show ?thesis using reply assms(1) go_step.replying unfolding stuck_def by blast
qed (use assms(2) in simp_all)

text \<open>Nothing can be stuck after the read loop: follow who serves whom.\<close>

lemma nothing_waits:
  assumes "chanInv (c, REnd, gs)" and "wsServed (c, REnd, gs)" and "recoverInv (c, REnd, gs)"
    and "endInv (c, REnd, gs)" and "\<forall>g \<in> set gs. stuck c g"
  shows "\<forall>g \<in> set gs. atRest g"
proof -
  have no_reply: "g \<noteq> Replying ch r \<or> canSend ch c" if "g \<in> set gs" for g ch r
    using owner_can_send[OF assms(1), of ch] held_go[OF that, of ch c REnd] by auto
  have no_wait: "dones c ! d" if w: "Awaiting d p \<in> set gs" for d p
  proof (rule ccontr)
    assume "\<not> dones c ! d"
    then have "0 < sum_list (map goRecovers gs)" using assms(3) w by (fastforce simp: recoverInv_def)
    then obtain g where g: "g \<in> set gs" "0 < goRecovers g" using sum_list_pos by blast
    have "stuck c g" "\<not> atRest g" using assms(5) g by (blast, cases g) auto
    then show False
    proof (cases rule: stuck_cases)
      case (select key ch k)
      then show False using g(2) by (cases k) simp_all
    qed (use g(2) in simp_all)
  qed
  have no_select: "False" if "Selecting key ch k \<in> set gs" for key ch k
    using that
  proof (induction "length (chans c) - ch" arbitrary: key ch k rule: less_induct)
    case less
    have ch: "ch < length (chans c)" using assms(2) less.prems by (auto simp: wsServed_def)
    have "stuck c (Selecting key ch k)" using assms(5) less.prems by blast
    then have "chans c ! ch = None" by (cases rule: stuck_cases) simp_all
    then have f: "full ch (chans c) = 0" by (simp add: full_def)
    have "1 \<le> sum_list (map (goWaits ch) gs)" using sum_list_member[OF less.prems, of "goWaits ch"] by simp
    moreover have "sum_list (map (goWaits ch) gs) \<le> owners ch (c, REnd, gs)"
      using assms(2) unfolding wsServed_def prod.case by blast
    ultimately have "0 < owners ch (c, REnd, gs)" by linarith
    then have "0 < sum_list (map (goOwn ch) gs)"
      using assms(4) f by (simp add: owners_def own_def endInv_def)
    then obtain g where g: "g \<in> set gs" "0 < goOwn ch g" using sum_list_pos by blast
    have "stuck c g" "\<not> atRest g" using assms(5) g by (blast, cases g) auto
    then show False
    proof (cases rule: stuck_cases)
      case (reply d r)
      then show False using no_reply[OF g(1)] by blast
    next
      case (select key' d k')
      have "keyed c g" using assms(2) g(1) by (simp add: wsServed_def)
      then have "ch < d" "d < length (chans c)" using g(2) select(1) by auto
      then have "length (chans c) - d < length (chans c) - ch" by linarith
      then show False using less.hyps[of d key' k'] g(1) select(1) by simp
    next
      case (wait d p)
      then show False using no_wait g(1) by blast
    qed
  qed
  show ?thesis
  proof (rule ballI, rule ccontr)
    fix g assume g: "g \<in> set gs" and "\<not> atRest g"
    with assms(5) have "stuck c g" by blast
    from this \<open>\<not> atRest g\<close> show False
    proof (cases rule: stuck_cases)
      case (reply ch r)
      then show False using no_reply[OF g] by blast
    next
      case (select key ch k)
      then show False using no_select g by blast
    next
      case (wait d p)
      then show False using no_wait g by blast
    qed
  qed
qed

text \<open>
  C13.  Calls return: after the end of the read loop the goroutines of the client make only
  finitely many steps, in whatever order they are scheduled, and as long as one of them has
  not returned or ended, one of them can go on, without any caller giving up.
\<close>

theorem ws_calls_return:
  assumes "ws_running (c, REnd, gs)" and "go_run n (c, gs) (c', gs')" and "length (chans c') < 2 ^ 32"
  shows "n + sum_list (map goWork gs') \<le> sum_list (map goWork gs)
    \<and> ((\<forall>g \<in> set gs'. atRest g) \<or> (\<exists>i c'' g. i < length gs' \<and> go_step timesOut c' (gs' ! i) c'' g))"
proof -
  have R: "ws_running (c', REnd, gs')" "n + sum_list (map goWork gs') \<le> sum_list (map goWork gs)"
    using go_run_running[OF assms(2), of REnd] assms(1) by simp_all
  have S: "wsServed (c', REnd, gs')" "endInv (c', REnd, gs')" using running_endInv[OF R(1)] assms(3) by simp_all
  have "\<forall>g \<in> set gs'. atRest g" if "\<not> (\<exists>i c'' g. i < length gs' \<and> go_step timesOut c' (gs' ! i) c'' g)"
    using nothing_waits[OF running_chanInv[OF R(1)] S(1) running_recoverInv[OF R(1)] S(2)] that
    unfolding stuck_def by (metis in_set_conv_nth)
  with R(2) show ?thesis by blast
qed

section \<open>A connection that is closed\<close>

lemma failAll_pending: "failAll e ps c = Some c' \<Longrightarrow> set (wpendings c') = {x \<in> set (wpendings c). fst x \<notin> fst ` set ps}"
proof (induction ps arbitrary: c)
  case (Cons x ps)
  obtain key p where x: "x = (key, p)" by fastforce
  have "failAll e ps (dropRequest key (sendTo (wpCh p) (Inl e) c)) = Some c'"
    using Cons.prems by (simp add: x split: if_splits)
  from Cons.IH[OF this] show ?case by (auto simp: x dropRequest_def sendTo_def AList.delete_eq)
qed simp

lemma readLoopEnd_empty: "readLoopEnd e c = Some c' \<Longrightarrow> wpendings c' = []"
  using failAll_pending[of e "wpendings c" "c\<lparr>wclosed := True, closeErr := Some e\<rparr>" c']
  by (cases "wpendings c'") (auto simp: readLoopEnd_def)

lemma tally_member: "(k, v) \<in> set xs \<Longrightarrow> P v \<Longrightarrow> 0 < tally P xs"
  by (force simp: tally_def filter_empty_conv)

lemma failAll_fails:
  assumes "failAll e ps c = Some c'" and "\<And>ch. tally (\<lambda>p. wpCh p = ch) ps \<le> 1"
    and "\<forall>(key, p) \<in> set ps. wpCh p < length (chans c)"
  shows "length (chans c') = length (chans c)
    \<and> (\<forall>ch. chans c' ! ch = (if 0 < tally (\<lambda>p. wpCh p = ch) ps then Some (Inl e) else chans c ! ch))"
  using assms
proof (induction ps arbitrary: c)
  case Nil
  then show ?case by simp
next
  case (Cons x ps)
  obtain key p where x: "x = (key, p)" by fastforce
  let ?c = "dropRequest key (sendTo (wpCh p) (Inl e) c)"
  have f: "failAll e ps ?c = Some c'" using Cons.prems(1) by (simp add: x split: if_splits)
  have t: "tally (\<lambda>p. wpCh p = ch) ps \<le> 1" for ch using Cons.prems(2)[of ch] by (simp add: x)
  have z: "tally (\<lambda>q. wpCh q = wpCh p) ps = 0" using Cons.prems(2)[of "wpCh p"] by (simp add: x)
  have c: "chans ?c = (chans c)[wpCh p := Some (Inl e)]" by (simp add: dropRequest_def sendTo_def)
  have "\<forall>(key, p) \<in> set ps. wpCh p < length (chans ?c)" using Cons.prems(3) by (auto simp: c)
  note I = Cons.IH[OF f t this]
  have "chans c' ! ch = (if 0 < tally (\<lambda>p. wpCh p = ch) (x # ps) then Some (Inl e) else chans c ! ch)" for ch
    using I z Cons.prems(3) by (cases "wpCh p = ch") (auto simp: x c)
  then show ?case using I by (simp add: c)
qed

text \<open>
  C39.  After \<open>Close\<close> has begun no request is sent any more, so that its own \<open>close_stream\<close>
  is refused.  The requests still pending fail when the read loop of the native client ends;
  the client of the browser leaves them pending for ever, because \<open>handleClose\<close> returns at
  once on a closed connection.
\<close>

theorem ws_close_pending:
  assumes "ws_running (c, RLoop, gs)" and "closeWsBegin c = (new, c1)" and "\<not> wclosed c"
    and "map_of (wpendings c1) key = Some p"
  shows "new = [Calling (PCloseStream (wstream c)) 0 ToCaller]
    \<and> fst (registerRequest (PCloseStream (wstream c)) 0 c1) = Inl CConnClosed
    \<and> (\<exists>c2. readLoopEnd e c1 = Some c2 \<and> wpendings c2 = [] \<and> chans c2 ! wpCh p = Some (Inl e))
    \<and> jsHandleClose e c1 = Some c1 \<and> chans c1 ! wpCh p = None"
proof -
  have c1: "c1 = c\<lparr>wclosed := True\<rparr>" "new = [Calling (PCloseStream (wstream c)) 0 ToCaller]"
    using assms(2,3) by (auto simp: closeWsBegin_def)
  have run: "ws_running (c1, RLoop, gs @ new)" using ws_running.step[OF assms(1) wstep.closes[OF assms(2)]] .
  note I = running_chanInv[OF run]
  have b: "tally (\<lambda>p. wpCh p = ch) (wpendings c1) \<le> 1" for ch
    using owners_bounds(1)[OF I, of ch] by (simp add: heldBy_def)
  have l: "\<forall>(key, p) \<in> set (wpendings c1). wpCh p < length (chans c1)"
  proof clarify
    fix key p assume "(key, p) \<in> set (wpendings c1)"
    then have "0 < tally (\<lambda>q. wpCh q = wpCh p) (wpendings c1)" by (rule tally_member) simp
    then show "wpCh p < length (chans c1)" using owners_bounds(2)[OF I] by (simp add: heldBy_def)
  qed
  have p: "0 < tally (\<lambda>q. wpCh q = wpCh p) (wpendings c1)"
    using tally_member[OF map_of_SomeD[OF assms(4)]] by simp
  then have "canSend (wpCh p) c1" using owner_can_send[OF I, of "wpCh p"] by (simp add: heldBy_def)
  then have n: "chans c1 ! wpCh p = None" by (simp add: canSend_def)
  obtain c2 where c2: "readLoopEnd e c1 = Some c2"
    using readLoopEnd_total[OF I] by blast
  have f: "failAll e (wpendings c1) (c1\<lparr>wclosed := True, closeErr := Some e\<rparr>) = Some c2"
    using c2 by (simp add: readLoopEnd_def)
  have "wpendings c2 = []" using readLoopEnd_empty[OF c2] .
  moreover have "chans c2 ! wpCh p = Some (Inl e)"
    using failAll_fails[OF f b] l p by simp
  ultimately show ?thesis using c1 c2 n by (simp add: registerRequest_def Let_def jsHandleClose_def)
qed

section \<open>Bounded repetition\<close>

text \<open>How often the request of a goroutine has been repeated, and whether it may be once more.\<close>

fun contRetries :: "wcont \<Rightarrow> bool" where
  "contRetries ToCaller \<longleftrightarrow> True"
| "contRetries (ToRetry p) \<longleftrightarrow> True"
| "contRetries (RecoverClose p) \<longleftrightarrow> wpRetries p < maxStreamRetries"
| "contRetries (RecoverOpen p) \<longleftrightarrow> wpRetries p < maxStreamRetries"

fun goRetries :: "goroutine \<Rightarrow> bool" where
  "goRetries (Calling p n k) \<longleftrightarrow> n \<le> maxStreamRetries \<and> contRetries k"
| "goRetries (Writing key ch p k) \<longleftrightarrow> contRetries k"
| "goRetries (Selecting key ch k) \<longleftrightarrow> contRetries k"
| "goRetries (Retrying p msg) \<longleftrightarrow> wpRetries p \<le> maxStreamRetries"
| "goRetries (Awaiting d p) \<longleftrightarrow> wpRetries p < maxStreamRetries"
| "goRetries (Resending p) \<longleftrightarrow> wpRetries p < maxStreamRetries"
| "goRetries (Replying ch r) \<longleftrightarrow> True"
| "goRetries (Returned r) \<longleftrightarrow> True"
| "goRetries Ended \<longleftrightarrow> True"

definition entryRetries :: "wclient \<Rightarrow> bool" where
  "entryRetries c \<longleftrightarrow> (\<forall>(key, p) \<in> set (wpendings c). wpRetries p \<le> maxStreamRetries)"

lemma entryRetries_less:
  "set (wpendings c') \<subseteq> set (wpendings c) \<Longrightarrow> entryRetries c \<Longrightarrow> entryRetries c'"
  by (auto simp: entryRetries_def)

lemma drop_less: "set (wpendings (dropRequest key c)) \<subseteq> set (wpendings c)"
  by (auto simp: dropRequest_def AList.delete_eq)

lemma resume_retries:
  "resume k r c = (g, c') \<Longrightarrow> contRetries k \<Longrightarrow> goRetries g \<and> wpendings c' = wpendings c"
  by (cases k) (auto simp: recoverEnd_def maxStreamRetries_def split: sum.splits option.splits)

lemma go_retries:
  "go_step quit c g c' g' \<Longrightarrow> goRetries g \<Longrightarrow> entryRetries c \<Longrightarrow> goRetries g' \<and> entryRetries c'"
proof (induction rule: go_step.induct)
  case (registered p n c key ch c1 k)
  then have "wpendings c1 = AList.update key \<lparr>wpPayload = p, wpCh = ch, wpRetries = n\<rparr> (wpendings c)"
    by (auto simp: registerRequest_def Let_def split: if_splits)
  then have "set (wpendings c1) \<subseteq> insert (key, \<lparr>wpPayload = p, wpCh = ch, wpRetries = n\<rparr>) (set (wpendings c))"
    using set_update_le[of key "\<lparr>wpPayload = p, wpCh = ch, wpRetries = n\<rparr>" "wpendings c"] by simp
  then show ?case using registered by (auto simp: entryRetries_def)
next
  case (refused p n c e c1 k g c2)
  then show ?case using resume_retries[OF refused(2)] by (auto simp: refused_iff entryRetries_def)
next
  case (unwritten k e key c g c1 ch p)
  then show ?case using resume_retries[OF unwritten(1)] entryRetries_less[OF drop_less] by (simp add: entryRetries_def)
next
  case (received c ch r k g c1 key)
  then show ?case using resume_retries[OF received(2)] by (simp add: entryRetries_def receive_def)
next
  case (cancelled k key c g c1 ch)
  then show ?case using resume_retries[OF cancelled(2)] entryRetries_less[OF drop_less] by (simp add: entryRetries_def)
qed (auto simp: retryStart_def entryRetries_def sendTo_def split: if_splits option.splits)

lemma failAll_less: "failAll e ps c = Some c' \<Longrightarrow> set (wpendings c') \<subseteq> set (wpendings c)"
proof (induction ps arbitrary: c)
  case (Cons x ps)
  then show ?case using drop_less by (cases x) (fastforce simp: sendTo_def dropRequest_def split: if_splits)
qed simp

text \<open>A request is sent at most four times: once, and three times after it was superseded.\<close>

lemma retries_bounded:
  "ws_running (c, r, gs) \<Longrightarrow> entryRetries c \<and> list_all goRetries gs"
proof (induction "(c, r, gs)" arbitrary: c r gs rule: ws_running.induct)
  case start
  then show ?case by (simp add: entryRetries_def newWsClient_def)
next
  case (step s c' r' gs')
  obtain c r gs where s: "s = (c, r, gs)" by (cases s)
  then have I: "entryRetries c" "list_all goRetries gs" using step.hyps(2) by blast+
  from step.hyps(3)[unfolded s] I show ?case
  proof (induction "(c, r, gs)" "(c', r', gs')" rule: wstep.induct)
    case (goes i g)
    then show ?case using go_retries[OF goes(2)] by (auto simp: list_all_length nth_list_update)
  next
    case (frame f new)
    have "p \<in> snd ` set (wpendings c)" if "map_of (wpendings c) key = Some p" for key p
      using map_of_SomeD[OF that] by force
    then show ?case using frame drop_less
      by (cases f) (fastforce simp: dispatchResult_def handleStreamSuperseded_def entryRetries_def split: option.splits)+
  next
    case (ends e)
    then show ?case using failAll_less by (auto simp: readLoopEnd_def entryRetries_def Let_def) fastforce
  qed (auto simp: closeWsBegin_def entryRetries_def sendTo_def split: if_splits)
qed

section \<open>A concrete connection\<close>

definition demoCall :: wclient where
  "demoCall = snd (registerRequest (POpenStream 0) 0 newWsClient)"

lemma demo_call: "registerRequest (POpenStream 0) 0 newWsClient = (Inr (1, 0), demoCall)"
  by (simp add: demoCall_def registerRequest_def newWsClient_def Let_def)

lemma demo_calling: "ws_running (demoCall, RLoop, [Selecting 1 0 ToCaller])"
proof -
  have "ws_running (newWsClient, RLoop, [Calling (POpenStream 0) 0 ToCaller])"
    using ws_running.step[OF ws_running.start wstep.opens] by (simp add: newWsClient_def)
  then have "ws_running (demoCall, RLoop, [Writing 1 0 (POpenStream 0) ToCaller])"
    by (rule ws_running.step) (use wstep.goes[of 0 "[Calling (POpenStream 0) 0 ToCaller]"] go_step.registered[OF demo_call] in simp)
  then show ?thesis
    by (rule ws_running.step) (use wstep.goes[of 0 "[Writing 1 0 (POpenStream 0) ToCaller]"] go_step.written in simp)
qed

lemma demo_ended:
  "readLoopEnd (CRead ''eof'') demoCall = Some (demoCall\<lparr>wclosed := True, closeErr := Some (CRead ''eof''),
    chans := [Some (Inl (CRead ''eof''))], wpendings := []\<rparr>)"
  by (simp add: readLoopEnd_def demoCall_def registerRequest_def newWsClient_def Let_def canSend_def
      dropRequest_def sendTo_def)

theorem ws_sends_never_block_witness:
  "\<exists>c. ws_running (c, RSend 0 (Inr JNull), [Selecting 1 0 ToCaller]) \<and> canSend 0 c"
proof -
  obtain c where "handleFrame (FOk 1 JNull) demoCall = (RSend 0 (Inr JNull), [], c)"
    by (simp add: dispatchResult_def demoCall_def registerRequest_def newWsClient_def Let_def)
  from ws_running.step[OF demo_calling wstep.frame[OF this]]
  have r: "ws_running (c, RSend 0 (Inr JNull), [Selecting 1 0 ToCaller])" by simp
  with ws_sends_never_block[OF r] show ?thesis by blast
qed

theorem ws_calls_return_witness:
  "\<exists>c gs c' gs'. ws_running (c, REnd, gs) \<and> gs = [Selecting 1 0 ToCaller] \<and> go_run 1 (c, gs) (c', gs')
    \<and> gs' = [Returned (Inl (CRead ''eof''))] \<and> 1 + sum_list (map goWork gs') \<le> sum_list (map goWork gs)"
proof -
  define c where "c = demoCall\<lparr>wclosed := True, closeErr := Some (CRead ''eof''),
    chans := [Some (Inl (CRead ''eof''))], wpendings := []\<rparr>"
  have r: "ws_running (c, REnd, [Selecting 1 0 ToCaller])"
    using ws_running.step[OF demo_calling wstep.ends[OF demo_ended]] by (simp add: c_def)
  have "go_step timesOut c (Selecting 1 0 ToCaller) (receive 0 c) (Returned (Inl (CRead ''eof'')))"
    by (rule go_step.received) (simp_all add: c_def)
  then have g: "go_run 1 (c, [Selecting 1 0 ToCaller]) (receive 0 c, [Returned (Inl (CRead ''eof''))])"
    using go_run.move[OF go_run.stay, of 0 "[Selecting 1 0 ToCaller]" c] by simp
  have "length (chans (receive 0 c)) < 2 ^ 32" by (simp add: receive_def c_def)
  with ws_calls_return[OF r g] r g show ?thesis by blast
qed

theorem ws_close_pending_witness:
  "\<exists>c1. closeWsBegin demoCall = ([Calling (PCloseStream 0) 0 ToCaller], c1) \<and> jsHandleClose (CRead ''closed'') c1 = Some c1
    \<and> chans c1 ! 0 = None"
proof -
  obtain new c1 where b: "closeWsBegin demoCall = (new, c1)" by fastforce
  have o: "\<not> wclosed demoCall" "wstream demoCall = 0"
    by (simp_all add: demoCall_def registerRequest_def newWsClient_def Let_def)
  then have "map_of (wpendings c1) 1 = Some \<lparr>wpPayload = POpenStream 0, wpCh = 0, wpRetries = 0\<rparr>"
    using b by (simp add: closeWsBegin_def) (auto simp: demoCall_def registerRequest_def newWsClient_def Let_def)
  from ws_close_pending[OF demo_calling b o(1) this, of "CRead ''closed''"] b o(2) show ?thesis by simp
qed

end
