(* ===== verification/JsClient.thy ===== *)
theory JsClient
  imports WsClientLive
begin

text \<open>
  The connection of the browser, \<open>src/clients/hranago/js-conn.go\<close>: the callbacks of the socket,
  \<open>newJSWSConn\<close> waiting for them, and the goroutines of the requests.  Requests, retries and
  recovery do what those of \<open>ws_conn.go\<close> do, as \<open>JsRequests\<close> shows, so they are the goroutines of
  \<open>WsClient\<close>; instead of a
  read loop there are callbacks, each run to its end by the event loop of the page.
\<close>

section \<open>State\<close>

datatype js_callback = CbOpen | CbError | CbMessage | CbClose

text \<open>
  The callbacks that are registered, whether \<open>cleanupCallbacks\<close> has been started, and the
  channels of the handshake with room for one: \<open>openCh\<close> takes nil or an error.
\<close>

record js_conn =
  jsClient :: wclient
  jsCbs :: "js_callback list"
  jsCleaning :: bool
  jsOpenCh :: "cl_error option option"
  jsHelloCh :: "json option"
  jsIsHello :: bool

text \<open>Where \<open>newJSWSConn\<close> is; \<open>JsOpening i\<close> waits for goroutine \<open>i\<close>, the request of \<open>openStream\<close>.\<close>

datatype js_phase = JsDialling | JsHello | JsOpening nat | JsReady | JsFailed cl_error

definition newJsConn :: js_conn where
  "newJsConn =
    \<lparr>jsClient = newWsClient, jsCbs = [CbOpen, CbError], jsCleaning = False, jsOpenCh = None,
     jsHelloCh = None, jsIsHello = True\<rparr>"

section \<open>Callbacks\<close>

text \<open>A send that is dropped when there is no room.\<close>

definition offerOpen :: "cl_error option \<Rightarrow> js_conn \<Rightarrow> js_conn" where
  "offerOpen v c = (if jsOpenCh c = None then c\<lparr>jsOpenCh := Some v\<rparr> else c)"

text \<open>A callback that would block is no value: it would stop the event loop of the page.\<close>

definition jsClosed :: "cl_error \<Rightarrow> js_conn \<Rightarrow> js_conn option" where
  "jsClosed e c =
    map_option (\<lambda>c1. c\<lparr>jsClient := c1, jsCleaning := jsCleaning c \<or> \<not> wclosed (jsClient c)\<rparr>)
      (jsHandleClose e (jsClient c))"

definition jsHandleMessage :: "json \<Rightarrow> js_conn \<Rightarrow> (goroutine list \<times> js_conn) option" where
  "jsHandleMessage j c =
    (case handleFrame (readServerFrame j) (jsClient c) of
       (RSend ch x, new, c1) \<Rightarrow> (if canSend ch c1 then Some (new, c\<lparr>jsClient := sendTo ch x c1\<rparr>) else None)
     | (_, new, c1) \<Rightarrow> Some (new, c\<lparr>jsClient := c1\<rparr>))"

definition jsOnMessage :: "json \<Rightarrow> js_conn \<Rightarrow> (goroutine list \<times> js_conn) option" where
  "jsOnMessage j c =
    (if jsIsHello c
     then (if jsHelloCh c = None then Some ([], c\<lparr>jsIsHello := False, jsHelloCh := Some j\<rparr>) else None)
     else jsHandleMessage j c)"

fun jsEvent :: "js_callback \<Rightarrow> json \<Rightarrow> js_conn \<Rightarrow> (goroutine list \<times> js_conn) option" where
  "jsEvent CbOpen j c = Some ([], offerOpen None c)"
| "jsEvent CbError j c =
    map_option (\<lambda>c1. ([], c1))
      (jsClosed (CRead ''websocket error'') (offerOpen (Some (CDial ''websocket connection failed'')) c))"
| "jsEvent CbMessage j c = jsOnMessage j c"
| "jsEvent CbClose j c = map_option (\<lambda>c1. ([], c1)) (jsClosed (CRead ''websocket closed'') c)"

definition cleanupCallbacks :: "js_conn \<Rightarrow> js_conn" where
  "cleanupCallbacks c = c\<lparr>jsCbs := []\<rparr>"

section \<open>The connection\<close>

definition jsCloseBegin :: "js_conn \<Rightarrow> goroutine list \<times> js_conn" where
  "jsCloseBegin c = (case closeWsBegin (jsClient c) of (new, c1) \<Rightarrow> (new, c\<lparr>jsClient := c1\<rparr>))"

type_synonym js_system = "js_conn \<times> js_phase \<times> goroutine list"

text \<open>\<open>newJSWSConn\<close> gives up: it closes the connection and returns the error.\<close>

definition jsGiveUp :: "cl_error \<Rightarrow> js_conn \<Rightarrow> goroutine list \<Rightarrow> js_system" where
  "jsGiveUp e c gs = (case jsCloseBegin c of (new, c1) \<Rightarrow> (c1, JsFailed e, gs @ new))"

inductive js_step :: "js_system \<Rightarrow> js_system \<Rightarrow> bool" where
  event: "cb \<in> set (jsCbs c) \<Longrightarrow> jsEvent cb j c = Some (new, c') \<Longrightarrow> js_step (c, ph, gs) (c', ph, gs @ new)"
| cleaned: "jsCleaning c \<Longrightarrow> js_step (c, ph, gs) (cleanupCallbacks (c\<lparr>jsCleaning := False\<rparr>), ph, gs)"
| dialled: "jsOpenCh c = Some None \<Longrightarrow>
    js_step (c, JsDialling, gs) (c\<lparr>jsOpenCh := None, jsCbs := jsCbs c @ [CbMessage, CbClose]\<rparr>, JsHello, gs)"
| unsent: "jsOpenCh c = Some None \<Longrightarrow>
    js_step (c, JsDialling, gs)
      (jsGiveUp (CHelloSend e) (c\<lparr>jsOpenCh := None, jsCbs := jsCbs c @ [CbMessage, CbClose]\<rparr>) gs)"
| refused: "jsOpenCh c = Some (Some e) \<Longrightarrow>
    js_step (c, JsDialling, gs) (cleanupCallbacks (c\<lparr>jsOpenCh := None\<rparr>), JsFailed e, gs)"
| timeout: "js_step (c, JsDialling, gs) (cleanupCallbacks c, JsFailed CConnectTimeout, gs)"
| answered: "jsHelloCh c = Some j \<Longrightarrow> helloVerdict (readHello j) = None \<Longrightarrow>
    js_step (c, JsHello, gs)
      (c\<lparr>jsHelloCh := None\<rparr>, JsOpening (length gs), gs @ [Calling (POpenStream (wstream (jsClient c))) 0 ToCaller])"
| rejected: "jsHelloCh c = Some j \<Longrightarrow> helloVerdict (readHello j) = Some e \<Longrightarrow>
    js_step (c, JsHello, gs) (jsGiveUp e (c\<lparr>jsHelloCh := None\<rparr>) gs)"
| no_hello: "js_step (c, JsHello, gs) (jsGiveUp CHelloTimeout c gs)"
| opened: "i < length gs \<Longrightarrow> gs ! i = Returned (Inr x) \<Longrightarrow> js_step (c, JsOpening i, gs) (c, JsReady, gs)"
| not_opened: "i < length gs \<Longrightarrow> gs ! i = Returned (Inl e) \<Longrightarrow>
    js_step (c, JsOpening i, gs) (jsGiveUp (COpenStream e) c gs)"
| executes: "js_step (c, JsReady, gs) (c, JsReady, gs @ [Calling (PExecute (wstream (jsClient c)) s) 0 ToCaller])"
| closes: "jsCloseBegin c = (new, c') \<Longrightarrow> js_step (c, JsReady, gs) (c', JsReady, gs @ new)"
| goes: "i < length gs \<Longrightarrow> go_step mayCancel (jsClient c) (gs ! i) c1 g \<Longrightarrow>
    js_step (c, ph, gs) (c\<lparr>jsClient := c1\<rparr>, ph, gs[i := g])"

inductive js_running :: "js_system \<Rightarrow> bool" where
  start: "js_running (newJsConn, JsDialling, [])"
| step: "js_running s \<Longrightarrow> js_step s s' \<Longrightarrow> js_running s'"

section \<open>The browser connection is a native one\<close>

text \<open>
  The callbacks stand for the read loop: it waits for messages, or is over once
  \<open>handleClose\<close> has failed the pending requests.
\<close>

definition asNative :: "js_system \<Rightarrow> wreader \<Rightarrow> bool" where
  "asNative s r = (case s of (c, ph, gs) \<Rightarrow>
     ws_running (jsClient c, r, gs)
     \<and> (r = RLoop \<or> r = REnd \<and> wclosed (jsClient c) \<and> wpendings (jsClient c) = [])
     \<and> (jsIsHello c \<longrightarrow> jsHelloCh c = None))"

lemma handleFrame_none: "wpendings c = [] \<Longrightarrow> handleFrame f c = (RLoop, [], c)"
  by (cases f) (simp_all add: dispatchResult_def handleStreamSuperseded_def)

lemma handleFrame_reader: "handleFrame f c = (r, new, c') \<Longrightarrow> r = RLoop \<or> (\<exists>ch x. r = RSend ch x)"
  by (cases f) (auto simp: dispatchResult_def handleStreamSuperseded_def split: option.splits)

text \<open>A message is handled, by a step of the read loop and the send it may ask for.\<close>

lemma message_native:
  assumes "asNative (c, ph, gs) r"
  obtains new c' where "jsHandleMessage j c = Some (new, c')" and "asNative (c', ph, gs @ new) r"
proof (cases "r = RLoop")
  case True
  obtain r1 new c1 where f: "handleFrame (readServerFrame j) (jsClient c) = (r1, new, c1)"
    by (cases "handleFrame (readServerFrame j) (jsClient c)") blast
  have run: "ws_running (c1, r1, gs @ new)"
    using assms True wstep.frame[OF f, of gs] ws_running.step by (auto simp: asNative_def)
  consider "r1 = RLoop" | ch x where "r1 = RSend ch x" using handleFrame_reader[OF f] by blast
  then show ?thesis
  proof cases
    case 1
    then show ?thesis using that[of new "c\<lparr>jsClient := c1\<rparr>"] assms True f run
      by (simp add: jsHandleMessage_def asNative_def)
  next
    case 2
    have can: "canSend ch c1"
      using owner_can_send[OF running_chanInv[OF run], of ch] 2 by (simp add: heldBy_def)
    then have "ws_running (sendTo ch x c1, RLoop, gs @ new)"
      using run wstep.delivers ws_running.step 2 by blast
    then show ?thesis using that[of new "c\<lparr>jsClient := sendTo ch x c1\<rparr>"] assms True f can 2
      by (simp add: jsHandleMessage_def asNative_def)
  qed
next
  case False
  then have "handleFrame (readServerFrame j) (jsClient c) = (RLoop, [], jsClient c)"
    using assms by (intro handleFrame_none) (auto simp: asNative_def)
  then show ?thesis using that[of "[]" c] assms by (simp add: jsHandleMessage_def)
qed

lemma closed_native:
  assumes "asNative (c, ph, gs) r"
  obtains c' r' where "jsClosed e c = Some c'" and "asNative (c', ph, gs) r'" and "jsCbs c' = jsCbs c"
proof (cases "wclosed (jsClient c)")
  case True
  then show ?thesis using that[of c r] assms by (simp add: jsClosed_def jsHandleClose_def)
next
  case False
  then have r: "r = RLoop" using assms by (auto simp: asNative_def)
  then have run: "ws_running (jsClient c, RLoop, gs)" using assms by (simp add: asNative_def)
  obtain c1 where e: "readLoopEnd e (jsClient c) = Some c1"
    using readLoopEnd_total[OF running_chanInv[OF run], of e] by blast
  have "wclosed c1" using failAll_closed[OF e[unfolded readLoopEnd_def Let_def]] by simp
  moreover have "ws_running (c1, REnd, gs)" using run wstep.ends[OF e] ws_running.step by blast
  ultimately show ?thesis
    using that[of "c\<lparr>jsClient := c1, jsCleaning := True\<rparr>" REnd] False e assms readLoopEnd_empty[OF e]
    by (simp add: jsClosed_def jsHandleClose_def asNative_def)
qed

lemma asNative_simps [simp]:
  "asNative (c\<lparr>jsCbs := x\<rparr>, ph, gs) r = asNative (c, ph, gs) r"
  "asNative (c\<lparr>jsCleaning := b\<rparr>, ph, gs) r = asNative (c, ph, gs) r"
  "asNative (c\<lparr>jsOpenCh := v\<rparr>, ph, gs) r = asNative (c, ph, gs) r"
  by (simp_all add: asNative_def)

lemma event_native:
  assumes "asNative (c, ph, gs) r"
  obtains new c' r' where "jsEvent cb j c = Some (new, c')" and "asNative (c', ph, gs @ new) r'"
proof (cases cb)
  case CbOpen
  then show ?thesis using that[of "[]" "offerOpen None c" r] assms by (simp add: offerOpen_def)
next
  case CbError
  let ?c = "offerOpen (Some (CDial ''websocket connection failed'')) c"
  have "asNative (?c, ph, gs) r" using assms by (simp add: offerOpen_def)
  then obtain c1 r1 where "jsClosed (CRead ''websocket error'') ?c = Some c1" "asNative (c1, ph, gs) r1"
    by (rule closed_native)
  then show ?thesis using that[of "[]" c1 r1] CbError by simp
next
  case CbClose
  obtain c1 r1 where "jsClosed (CRead ''websocket closed'') c = Some c1" "asNative (c1, ph, gs) r1"
    using assms by (rule closed_native)
  then show ?thesis using that[of "[]" c1 r1] CbClose by simp
next
  case CbMessage
  show ?thesis
  proof (cases "jsIsHello c")
    case True
    then show ?thesis
      using that[of "[]" "c\<lparr>jsIsHello := False, jsHelloCh := Some j\<rparr>" r] assms CbMessage
      by (simp add: jsOnMessage_def asNative_def)
  next
    case False
    obtain new c' where "jsHandleMessage j c = Some (new, c')" "asNative (c', ph, gs @ new) r"
      using assms by (rule message_native)
    then show ?thesis using that[of new c' r] CbMessage False by (simp add: jsOnMessage_def)
  qed
qed

lemma close_native:
  assumes "asNative (c, ph, gs) r" and "jsCloseBegin c = (new, c')"
  shows "asNative (c', ph', gs @ new) r"
proof -
  obtain c1 where c1: "closeWsBegin (jsClient c) = (new, c1)" "c' = c\<lparr>jsClient := c1\<rparr>"
    using assms(2) by (auto simp: jsCloseBegin_def split: prod.splits)
  then have "ws_running (c1, r, gs @ new)" using assms(1) wstep.closes ws_running.step by (auto simp: asNative_def)
  then show ?thesis using assms(1) c1 by (auto simp: asNative_def closeWsBegin_def split: if_splits)
qed

lemma giveUp_native: "asNative (c, ph, gs) r \<Longrightarrow> asNative (jsGiveUp e c gs) r"
  using close_native by (auto simp: jsGiveUp_def split: prod.splits)

lemma spawn_native:
  assumes "asNative (c, ph, gs) r" and "wstep (jsClient c, r, gs) (jsClient c, r, gs @ [g])"
  shows "asNative (c, ph', gs @ [g]) r"
  using assms ws_running.step by (auto simp: asNative_def)

lemma js_step_native:
  assumes "js_step s s'" and "asNative s r"
  shows "\<exists>r'. asNative s' r'"
  using assms
proof (induction rule: js_step.induct)
  case (event cb c j new c' ph gs)
  then show ?case using event_native[OF event(3), of cb j] by (metis option.inject prod.inject)
next
  case (answered c j gs)
  then have "asNative (c\<lparr>jsHelloCh := None\<rparr>, JsHello, gs) r" by (simp add: asNative_def)
  from spawn_native[OF this] show ?case by (auto intro: wstep.opens)
next
  case (rejected c j e gs)
  then have "asNative (c\<lparr>jsHelloCh := None\<rparr>, JsHello, gs) r" by (simp add: asNative_def)
  then show ?case using giveUp_native by blast
next
  case (executes c gs s)
  then show ?case using spawn_native[OF executes] by (auto intro: wstep.executes)
next
  case (goes i gs c c1 g ph)
  then have "ws_running (c1, r, gs[i := g])" using wstep.goes[OF goes(1,2)] ws_running.step by (auto simp: asNative_def)
  then show ?case using goes go_closed[OF goes(2)] by (intro exI[of _ r]) (auto simp: asNative_def)
next
  case (unsent c e gs)
  then show ?case by (intro exI[of _ r] giveUp_native[of _ JsDialling]) simp
next
  case (no_hello c gs)
  then show ?case using giveUp_native by blast
next
  case (not_opened i gs e c)
  then show ?case using giveUp_native by blast
next
  case (closes c new c' gs)
  then show ?case using close_native[OF closes(2,1)] by blast
qed (auto simp: asNative_def cleanupCallbacks_def)

lemma js_running_native: "js_running s \<Longrightarrow> \<exists>r. asNative s r"
proof (induction rule: js_running.induct)
  case start
  show ?case using ws_running.start by (intro exI[of _ RLoop]) (simp add: asNative_def newJsConn_def)
next
  case (step s s')
  then show ?case using js_step_native by blast
qed

text \<open>
  C15.  Every run of the browser connection is a run of the native one, whose read loop is
  waiting or over; so its channels are used as safely, and no callback ever blocks the event
  loop of the page.
\<close>

theorem js_refines_native:
  assumes "js_running (c, ph, gs)"
  shows "(\<exists>r. ws_running (jsClient c, r, gs) \<and> (r = RLoop \<or> r = REnd))
    \<and> (\<exists>new c'. jsEvent cb j c = Some (new, c'))
    \<and> (Replying ch x \<in> set gs \<longrightarrow> canSend ch (jsClient c))"
proof -
  obtain r where r: "asNative (c, ph, gs) r" using js_running_native[OF assms] by blast
  then have run: "ws_running (jsClient c, r, gs)" "r = RLoop \<or> r = REnd" by (auto simp: asNative_def)
  moreover obtain new c' where "jsEvent cb j c = Some (new, c')" using event_native[OF r] by blast
  moreover have "canSend ch (jsClient c)" if "Replying ch x \<in> set gs"
    using owner_can_send[OF running_chanInv[OF run(1)], of ch] held_go[OF that, of ch "jsClient c" r] by simp
  ultimately show ?thesis by blast
qed

text \<open>
  Once the application has closed the connection, the socket's events leave its callbacks
  registered: only a close that finds the connection open starts \<open>cleanupCallbacks\<close>.
\<close>

lemma go_keeps_closed: "go_step quit c g c' g' \<Longrightarrow> wclosed c \<Longrightarrow> wclosed c'"
  by (induction rule: go_step.induct)
    (auto simp: registered_iff refused_iff dropRequest_def receive_def sendTo_def retryStart_def
      dest!: resume_frame[where ch = 0] split: if_splits option.splits)

lemma js_closed_keeps_callbacks:
  assumes "js_step (c, JsReady, gs) (c', ph', gs')" and "wclosed (jsClient c)" and "\<not> jsCleaning c"
  shows "ph' = JsReady \<and> wclosed (jsClient c') \<and> \<not> jsCleaning c' \<and> jsCbs c' = jsCbs c"
  using assms
proof (induction "(c, JsReady, gs)" "(c', ph', gs')" rule: js_step.induct)
  case (event cb j new)
  have frame: "wclosed c1" if "handleFrame f (jsClient c) = (r1, new, c1)" for f r1 new c1
    using that event.prems by (cases f) (auto simp: dispatchResult_def handleStreamSuperseded_def dropRequest_def split: option.splits)
  show ?case
  proof (cases cb)
    case CbMessage
    then show ?thesis using event frame
      by (auto simp: jsOnMessage_def jsHandleMessage_def sendTo_def split: if_splits prod.splits wreader.splits)
  qed (use event in \<open>auto simp: offerOpen_def jsClosed_def jsHandleClose_def split: if_splits\<close>)
next
  case (closes new)
  then show ?case by (auto simp: jsCloseBegin_def closeWsBegin_def)
next
  case (goes i c1 g)
  then show ?case using go_keeps_closed[OF goes(2)] by auto
qed auto

definition demoJs :: js_conn where
  "demoJs = newJsConn\<lparr>jsClient := demoCall, jsCbs := [CbOpen, CbError, CbMessage, CbClose], jsIsHello := False\<rparr>"

lemma js_go:
  "js_running (c, ph, [g]) \<Longrightarrow> go_step mayCancel (jsClient c) g c1 g' \<Longrightarrow> js_running (c\<lparr>jsClient := c1\<rparr>, ph, [g'])"
  using js_running.step js_step.goes[of 0 "[g]" c c1 g' ph] by fastforce

lemma demo_js: "js_running (demoJs, JsOpening 0, [Selecting 1 0 ToCaller])"
proof -
  let ?c1 = "newJsConn\<lparr>jsOpenCh := Some None\<rparr>"
  let ?c2 = "newJsConn\<lparr>jsCbs := [CbOpen, CbError, CbMessage, CbClose]\<rparr>"
  let ?j = "JObj [(''type'', JStr ''hello_ok'')]"
  let ?c3 = "?c2\<lparr>jsIsHello := False, jsHelloCh := Some ?j\<rparr>"
  let ?c4 = "?c2\<lparr>jsIsHello := False\<rparr>"
  have "js_running (?c1, JsDialling, [])"
    using js_running.step[OF js_running.start js_step.event[of CbOpen newJsConn JNull "[]" ?c1]]
    by (simp add: newJsConn_def offerOpen_def)
  from js_running.step[OF this js_step.dialled] have "js_running (?c2, JsHello, [])"
    by (simp add: newJsConn_def)
  from js_running.step[OF this js_step.event[of CbMessage _ ?j "[]" ?c3]]
  have "js_running (?c3, JsHello, [])"
    by (simp add: newJsConn_def jsOnMessage_def)
  moreover have "helloVerdict (readHello ?j) = None" by code_simp
  ultimately have 4: "js_running (?c4, JsOpening 0, [Calling (POpenStream 0) 0 ToCaller])"
    using js_running.step[OF _ js_step.answered[of ?c3 ?j "[]"]] by (simp add: newJsConn_def newWsClient_def)
  have "go_step mayCancel (jsClient ?c4) (Calling (POpenStream 0) 0 ToCaller) demoCall (Writing 1 0 (POpenStream 0) ToCaller)"
    using go_step.registered[OF demo_call] by (simp add: newJsConn_def)
  from js_go[OF 4 this] have 5: "js_running (demoJs, JsOpening 0, [Writing 1 0 (POpenStream 0) ToCaller])"
    by (simp add: demoJs_def newJsConn_def)
  from js_go[OF 5 go_step.written] show ?thesis by simp
qed

theorem js_refines_native_witness:
  "(\<exists>r. ws_running (demoCall, r, [Selecting 1 0 ToCaller]) \<and> (r = RLoop \<or> r = REnd))
    \<and> (\<exists>new c'. jsOnMessage (JObj [(''type'', JStr ''response_ok''), (''request_id'', JNum ''1'')]) demoJs = Some (new, c'))"
  using js_refines_native[OF demo_js, of CbMessage] by (simp add: demoJs_def)

end
