(* ===== verification/WsJson.thy ===== *)
theory WsJson
  imports HttpJson Websocket
begin

text \<open>
  The JSON messages of the WebSocket interface, \<open>src/types.go\<close>: the envelope, the request
  payloads as the handlers decode them, and the messages of the server.  As for HTTP, the
  lexical level of JSON is a parameter, and so are the MessagePack structs.
\<close>

section \<open>Reading\<close>

text \<open>A struct with a \<open>type\<close>, of which \<open>f\<close> reads the other members.\<close>

definition readTyped :: "('r \<Rightarrow> string \<Rightarrow> json \<Rightarrow> error + 'r) \<Rightarrow> 'r \<Rightarrow> json \<Rightarrow> error + 'r" where
  "readTyped f =
    readStruct BadJson (\<lambda>r k j. if k = ''type'' then map_sum BadJson (\<lambda>_. r) (ptrString j) else f r k j)"

definition memberInt32 :: "i32 \<Rightarrow> json \<Rightarrow> error + i32" where
  "memberInt32 old j = map_sum BadJson id (keepOr old (ptrInt32 j))"

definition readHelloMsg :: "json \<Rightarrow> error + string option" where
  "readHelloMsg = readTyped (\<lambda>t k j. if k = ''jwt'' then map_sum BadJson id (ptrString j) else Inr t) None"

text \<open>The envelope: the inner request stays a document.\<close>

definition readRequestMsg :: "json \<Rightarrow> error + (i32 \<times> json option)" where
  "readRequestMsg =
    readTyped (\<lambda>(i, r) k j.
        if k = ''request_id'' then map_sum id (\<lambda>x. (x, r)) (memberInt32 i j)
        else if k = ''request'' then Inr (i, Some j)
        else Inr (i, r)) (0, None)"

definition readStreamId :: "json \<Rightarrow> error + i32" where
  "readStreamId = readTyped (\<lambda>i k j. if k = ''stream_id'' then memberInt32 i j else Inr i) 0"

definition readCursorId :: "json \<Rightarrow> error + i32" where
  "readCursorId = readTyped (\<lambda>i k j. if k = ''cursor_id'' then memberInt32 i j else Inr i) 0"

definition readNoFields :: "json \<Rightarrow> error + unit" where
  "readNoFields = readTyped (\<lambda>_ k j. Inr ()) ()"

definition readExecuteReq :: "go_text \<Rightarrow> json \<Rightarrow> error + (i32 \<times> stmt)" where
  "readExecuteReq T =
    readTyped (\<lambda>(i, s) k j.
        if k = ''stream_id'' then map_sum id (\<lambda>x. (x, s)) (memberInt32 i j)
        else if k = ''stmt'' then map_sum id (\<lambda>x. (i, x)) (readStmt T s j)
        else Inr (i, s)) (0, emptyStmt)"

definition readBatchMsg :: "go_text \<Rightarrow> json \<Rightarrow> error + (i32 \<times> batch)" where
  "readBatchMsg T =
    readTyped (\<lambda>(i, b) k j.
        if k = ''stream_id'' then map_sum id (\<lambda>x. (x, b)) (memberInt32 i j)
        else if k = ''batch'' then map_sum id (\<lambda>x. (i, x)) (readBatch T b j)
        else Inr (i, b)) (0, [])"

definition readSqlUse :: "json \<Rightarrow> error + (i32 \<times> string option \<times> i32 option)" where
  "readSqlUse =
    readTyped (\<lambda>(i, q, x) k j.
        if k = ''stream_id'' then map_sum id (\<lambda>y. (y, q, x)) (memberInt32 i j)
        else if k = ''sql'' then map_sum BadJson (\<lambda>y. (i, y, x)) (ptrString j)
        else if k = ''sql_id'' then map_sum BadJson (\<lambda>y. (i, q, y)) (ptrInt32 j)
        else Inr (i, q, x)) (0, None, None)"

definition readOpenCursorReq :: "go_text \<Rightarrow> json \<Rightarrow> error + (i32 \<times> i32 \<times> batch)" where
  "readOpenCursorReq T =
    readTyped (\<lambda>(i, c, b) k j.
        if k = ''stream_id'' then map_sum id (\<lambda>x. (x, c, b)) (memberInt32 i j)
        else if k = ''cursor_id'' then map_sum id (\<lambda>x. (i, x, b)) (memberInt32 c j)
        else if k = ''batch'' then map_sum id (\<lambda>x. (i, c, x)) (readBatch T b j)
        else Inr (i, c, b)) (0, 0, [])"

definition readFetchReq :: "json \<Rightarrow> error + (i32 \<times> u32)" where
  "readFetchReq =
    readTyped (\<lambda>(c, n) k j.
        if k = ''cursor_id'' then map_sum id (\<lambda>x. (x, n)) (memberInt32 c j)
        else if k = ''max_count'' then map_sum BadJson (\<lambda>x. (c, x)) (keepOr n (ptrUint32 j))
        else Inr (c, n)) (0, 0)"

text \<open>\<open>json.Unmarshal\<close> of a document given as bytes; a missing inner request is no document.\<close>

definition fromText :: "(bytes \<Rightarrow> json_error + json) \<Rightarrow> (json \<Rightarrow> error + 'b) \<Rightarrow> bytes \<Rightarrow> error + 'b" where
  "fromText lexJson f bs = (case lexJson bs of Inl e \<Rightarrow> Inl (BadJson e) | Inr j \<Rightarrow> f j)"

definition jsonRequests :: "go_text \<Rightarrow> (bytes \<Rightarrow> json_error + json) \<Rightarrow> ws_decoders \<Rightarrow> ws_decoders" where
  "jsonRequests T lexJson M =
    \<lparr>wsType = viaJson lexJson (\<lambda>j. map_sum BadJson id (decodeType j)) (wsType M),
     decOpenStream = viaJson lexJson readStreamId (decOpenStream M),
     decOpenStreamAssigned = viaJson lexJson readNoFields (decOpenStreamAssigned M),
     decCloseStream = viaJson lexJson readStreamId (decCloseStream M),
     decWsExecute = viaJson lexJson (readExecuteReq T) (decWsExecute M),
     decWsBatch = viaJson lexJson (readBatchMsg T) (decWsBatch M),
     decWsStoreSql = viaJson lexJson readStoreSql (decWsStoreSql M),
     decWsCloseSql = viaJson lexJson readCloseSql (decWsCloseSql M),
     decSqlUse = viaJson lexJson readSqlUse (decSqlUse M),
     decGetAutocommit = viaJson lexJson readStreamId (decGetAutocommit M),
     decOpenCursor = viaJson lexJson (readOpenCursorReq T) (decOpenCursor M),
     decCloseCursor = viaJson lexJson readCursorId (decCloseCursor M),
     decFetchCursor = viaJson lexJson readFetchReq (decFetchCursor M)\<rparr>"

text \<open>\<open>json.RawMessage\<close> is a copy of the text of the inner document: \<open>render\<close> of it.\<close>

definition jsonFrames :: "(bytes \<Rightarrow> json_error + json) \<Rightarrow> (json \<Rightarrow> bytes) \<Rightarrow> frame_decoders \<Rightarrow> frame_decoders" where
  "jsonFrames lexJson render F =
    \<lparr>frameType = viaJson lexJson (\<lambda>j. map_sum BadJson id (decodeType j)) (frameType F),
     decHello = viaJson lexJson readHelloMsg (decHello F),
     decRequestMsg = fromText lexJson (\<lambda>j. map_sum id (\<lambda>(i, r). (i, case r of None \<Rightarrow> [] | Some x \<Rightarrow> render x)) (readRequestMsg j)),
     decAnyRequest = decAnyRequest F, marshalAny = marshalAny F\<rparr>"

section \<open>Writing\<close>

definition jI32 :: "i32 \<Rightarrow> json" where
  "jI32 i = JNum (formatInt (sint i))"

text \<open>\<open>omitempty\<close> leaves out nil pointers and empty slices.\<close>

fun writeEntry :: "go_text \<Rightarrow> cursor_entry \<Rightarrow> error + json" where
  "writeEntry T (StepBegin i cs) =
    Inr (JObj ([(''type'', JStr ''step_begin''), (''step'', jNat (unat i))]
      @ (if cs = [] then [] else [(''cols'', JArr (map writeCol cs))])))"
| "writeEntry T (Row vs) =
    map_sum id (\<lambda>js. JObj ((''type'', JStr ''row'') # (if js = [] then [] else [(''row'', JArr js)])))
      (mapR (marshalValue (fmtFloat T)) vs)"
| "writeEntry T (StepEnd n r) =
    Inr (JObj ([(''type'', JStr ''step_end''), (''affected_row_count'', jNat (unat n))]
      @ omitNil ''last_insert_rowid'' r))"
| "writeEntry T (StepError i e) =
    Inr (JObj [(''type'', JStr ''step_error''), (''step'', jNat (unat i)), (''error'', writeError T e)])"
| "writeEntry T (ErrorEntry e) = Inr (JObj [(''type'', JStr ''error''), (''error'', writeError T e)])"

definition typed :: "string \<Rightarrow> (string \<times> json) list \<Rightarrow> json" where
  "typed t kvs = JObj ((''type'', JStr t) # kvs)"

definition writeWsResponse :: "go_text \<Rightarrow> ws_response \<Rightarrow> error + json" where
  "writeWsResponse T r =
    (let t = wsRespType r in
     case r of
       OpenStreamAssignedResp i \<Rightarrow> Inr (typed t [(''stream_id'', jI32 i)])
     | ExecuteResp x \<Rightarrow> map_sum id (\<lambda>j. typed t [(''result'', j)]) (writeStmtResult T x)
     | BatchResp x \<Rightarrow> map_sum id (\<lambda>j. typed t [(''result'', j)]) (writeBatchResult T x)
     | DescribeResp x \<Rightarrow> Inr (typed t [(''result'', writeDescribeResult x)])
     | GetAutocommitResp b \<Rightarrow> Inr (typed t [(''is_autocommit'', JBool b)])
     | FetchCursorResp es fin \<Rightarrow>
         map_sum id (\<lambda>js. typed t [(''entries'', JArr js), (''done'', JBool fin)]) (mapR (writeEntry T) es)
     | _ \<Rightarrow> Inr (typed t []))"

fun writeWsMessage :: "go_text \<Rightarrow> ws_message \<Rightarrow> error + json" where
  "writeWsMessage T HelloOkMsg = Inr (typed ''hello_ok'' [])"
| "writeWsMessage T (HelloErrorMsg e) = Inr (typed ''hello_error'' [(''error'', writeError T e)])"
| "writeWsMessage T (ResponseOkMsg key r) =
    map_sum id (\<lambda>j. typed ''response_ok'' [(''request_id'', jI32 key), (''response'', j)]) (writeWsResponse T r)"
| "writeWsMessage T (ResponseErrorMsg t key e) =
    Inr (typed t [(''request_id'', jI32 key), (''error'', writeError T e)])"

text \<open>A message is sent exactly when it has a document.\<close>

lemma entry_document: "(\<exists>j. writeEntry T e = Inr j) \<longleftrightarrow> list_all (encodesVal JSONCodec) (entryValues e)"
  by (cases e) (simp_all add: map_sum_ok mapR_ok list_all_iff encodesVal_json[of _ "fmtFloat T"])

lemma message_document:
  "(\<exists>j. writeWsMessage T m = Inr j) \<longleftrightarrow> list_all (encodesVal JSONCodec) (messageValues m)"
proof (cases m)
  case (ResponseOkMsg key r)
  have "list_all (encodesVal JSONCodec) (concat (map entryValues es))
      \<longleftrightarrow> (\<forall>e \<in> set es. list_all (encodesVal JSONCodec) (entryValues e))" for es
    by (auto simp: list_all_iff)
  then show ?thesis
    by (cases r) (simp_all add: ResponseOkMsg writeWsResponse_def map_sum_ok writeStmtResult_ok
        writeBatchResult_ok mapR_ok entry_document)
qed simp_all

end
