(* ===== verification/HttpEndToEnd.thy ===== *)
theory HttpEndToEnd
  imports HttpClient
begin

text \<open>
  The HTTP client of \<open>src/clients/hranago\<close> against the server: what the client writes the
  server reads, and the other way round; then a statement goes the whole way.
\<close>

section \<open>Requests cross\<close>

lemma field_names [simp]:
  "foldName ''sql'' = ''sql''" "foldName ''args'' = ''args''" "foldName ''named_args'' = ''named_args''"
  "foldName ''want_rows'' = ''want_rows''" "foldName ''name'' = ''name''" "foldName ''stmt'' = ''stmt''"
  "foldName ''baton'' = ''baton''" "foldName ''requests'' = ''requests''" "foldName ''cols'' = ''cols''"
  "foldName ''rows'' = ''rows''" "foldName ''affected_row_count'' = ''affected_row_count''"
  "foldName ''last_insert_rowid'' = ''last_insert_rowid''" "foldName ''rows_read'' = ''rows_read''"
  "foldName ''rows_written'' = ''rows_written''" "foldName ''query_duration_ms'' = ''query_duration_ms''"
  "foldName ''decltype'' = ''decltype''" "foldName ''message'' = ''message''" "foldName ''code'' = ''code''"
  "foldName ''result'' = ''result''" "foldName ''response'' = ''response''" "foldName ''error'' = ''error''"
  "foldName ''base_url'' = ''base_url''" "foldName ''results'' = ''results''"
  by code_simp+

lemma mapR_map: "mapR f (map g xs) = mapR (f \<circ> g) xs"
  by (induction xs) (auto split: sum.split)

lemma mapR_cross:
  "\<forall>x \<in> set xs. \<exists>j. f x = Inr j \<and> g j = Inr (h x) \<Longrightarrow>
    \<exists>js. mapR f xs = Inr js \<and> mapR g js = Inr (map h xs)"
proof (induction xs)
  case Nil
  then show ?case by simp
next
  case (Cons x xs)
  then obtain js where "mapR f xs = Inr js" "mapR g js = Inr (map h xs)" by auto
  moreover obtain j where "f x = Inr j" "g j = Inr (h x)" using Cons.prems by auto
  ultimately show ?case by (intro exI[of _ "j # js"]) simp
qed

lemma valid_jStr: "validUtf8 s \<Longrightarrow> jStr s = JStr s"
  by (simp add: jStr_def validUtf8_def)

fun optValid :: "string option \<Rightarrow> bool" where
  "optValid None = True"
| "optValid (Some s) = validUtf8 s"

definition textsAgree :: "go_text \<Rightarrow> bool" where
  "textsAgree T \<longleftrightarrow> floatText (fmtFloat T) (parseFloat T)"

definition valueSafe :: "cvalue \<Rightarrow> bool" where
  "valueSafe v \<longleftrightarrow> cBuilt v \<and> jsonSafe (toServer v)"

lemma value_out:
  assumes "textsAgree T" and "valueSafe v"
  shows "\<exists>j. cMarshalJSON (fmtFloat T) v = Inr j \<and> unmarshalValue (parseFloat T) zeroValue j = Inr (toServer v)"
  using value_json_roundtrip[of "fmtFloat T" "parseFloat T" "toServer v"] assms marshal_agree
  by (auto simp: textsAgree_def valueSafe_def cBuilt_def)

definition toServerNamed :: "cnamed_arg \<Rightarrow> named_arg" where
  "toServerNamed n = \<lparr>naName = cnName n, naValue = toServer (cnValue n)\<rparr>"

definition toServerStmt :: "cstmt \<Rightarrow> stmt" where
  "toServerStmt s =
    \<lparr>SQL = Some (cSQL s), SQLId = None, Args = map toServer (cArgs s),
     NamedArgs = map toServerNamed (cNamedArgs s), WantRows = Some (cWantRows s)\<rparr>"

definition stmtSafe :: "cstmt \<Rightarrow> bool" where
  "stmtSafe s \<longleftrightarrow> validUtf8 (cSQL s) \<and> (\<forall>v \<in> set (cArgs s). valueSafe v)
    \<and> (\<forall>n \<in> set (cNamedArgs s). validUtf8 (cnName n) \<and> valueSafe (cnValue n))"

lemma named_out:
  assumes "textsAgree T" and "validUtf8 (cnName n)" and "valueSafe (cnValue n)"
  shows "\<exists>j. map_sum id (\<lambda>v. JObj [(''name'', jStr (cnName n)), (''value'', v)]) (cMarshalJSON (fmtFloat T) (cnValue n)) = Inr j
    \<and> readNamedArg T j = Inr (toServerNamed n)"
proof -
  obtain j where "cMarshalJSON (fmtFloat T) (cnValue n) = Inr j"
    "unmarshalValue (parseFloat T) zeroValue j = Inr (toServer (cnValue n))"
    using value_out[OF assms(1,3)] by blast
  then show ?thesis
    by (simp add: readNamedArg_def readStruct_def valid_jStr[OF assms(2)] toServerNamed_def)
qed

lemma stmt_out:
  assumes "textsAgree T" and "stmtSafe s"
  shows "\<exists>j. writeCStmt T s = Inr j \<and> readStmt T emptyStmt j = Inr (toServerStmt s)"
proof -
  obtain as where a: "mapR (cMarshalJSON (fmtFloat T)) (cArgs s) = Inr as"
    "mapR (unmarshalValue (parseFloat T) zeroValue) as = Inr (map toServer (cArgs s))"
    using mapR_cross[of "cArgs s" "cMarshalJSON (fmtFloat T)" "unmarshalValue (parseFloat T) zeroValue" toServer]
      value_out[OF assms(1)] assms(2) unfolding stmtSafe_def by blast
  obtain ns where n: "writeCNamed T (cNamedArgs s) = Inr (JArr ns)"
    "mapR (readNamedArg T) ns = Inr (map toServerNamed (cNamedArgs s))"
    using mapR_cross[of "cNamedArgs s" _ "readNamedArg T" toServerNamed] named_out[OF assms(1)] assms(2)
    unfolding stmtSafe_def writeCNamed_def by (metis (no_types, lifting) map_sum.simps(2))
  have q: "jStr (cSQL s) = JStr (cSQL s)" using assms(2) by (simp add: stmtSafe_def valid_jStr)
  show ?thesis
    using a n by (auto simp: writeCStmt_def writeCArgs_def q readStmt_def readStruct_def stmtField_def
        emptyStmt_def toServerStmt_def)
qed

fun toServerRequest :: "crequest \<Rightarrow> stream_request" where
  "toServerRequest (CExecute s) = emptyRequest\<lparr>srType := ''execute'', srExecute := Some (toServerStmt s)\<rparr>"
| "toServerRequest CClose = emptyRequest\<lparr>srType := ''close''\<rparr>"

fun requestSafe :: "crequest \<Rightarrow> bool" where
  "requestSafe (CExecute s) = stmtSafe s"
| "requestSafe CClose = True"

lemma request_out:
  assumes "textsAgree T" and "requestSafe r"
  shows "\<exists>j. writeCRequest T r = Inr j \<and> unmarshalStreamRequest T emptyRequest j = Inr (toServerRequest r)"
proof (cases r)
  case (CExecute s)
  then obtain j where "writeCStmt T s = Inr j" "readStmt T emptyStmt j = Inr (toServerStmt s)"
    using stmt_out[OF assms(1)] assms(2) by auto
  then show ?thesis
    by (simp add: CExecute unmarshalStreamRequest_def decodeType_def payload_def readStmtReq_def readStruct_def)
qed (simp add: unmarshalStreamRequest_def decodeType_def)

lemma pipeline_out:
  assumes "textsAgree T" and "\<forall>r \<in> set reqs. requestSafe r" and "optValid baton"
  shows "\<exists>j. writePipelineReq T baton reqs = Inr j \<and> readPipelineReq T j = Inr (baton, map toServerRequest reqs)"
proof -
  obtain js where "mapR (writeCRequest T) reqs = Inr js"
    "mapR (unmarshalStreamRequest T emptyRequest) js = Inr (map toServerRequest reqs)"
    using mapR_cross[of reqs "writeCRequest T" _ toServerRequest] request_out[OF assms(1)] assms(2) by blast
  then show ?thesis
    using assms(3) by (cases baton) (auto simp: writePipelineReq_def readPipelineReq_def readStruct_def omitNil_def valid_jStr)
qed

section \<open>Answers cross\<close>

definition fromServer :: "val \<Rightarrow> cvalue" where
  "fromServer v = \<lparr>cTyp = vtyp v, cInteger = Integer v, cFloat = Float v, cText = Text v, cBlob = Blob v\<rparr>"

lemma fromServer_built [simp]:
  "fromServer NullValue = nullValue" "fromServer (IntValue i) = integerValue i"
  "fromServer (FloatValue f) = floatValue f" "fromServer (TextValue s) = textValue s"
  "fromServer (BlobValue b) = blobValue b"
  by (simp_all add: fromServer_def cvalue_defs value_defs)

lemma toServer_fromServer:
  assumes "builtValue v"
  shows "toServer (fromServer v) = v"
  using assms
proof (cases rule: builtValue_cases)
  case 1 show ?thesis unfolding 1 by simp next
  case (2 i) show ?thesis unfolding 2 by simp next
  case (3 f) show ?thesis unfolding 3 by simp next
  case (4 t) show ?thesis unfolding 4 by simp next
  case (5 b) show ?thesis unfolding 5 by simp
qed

lemma value_back:
  assumes "textsAgree T" and "builtValue v" and "jsonSafe v"
  shows "\<exists>j. marshalValue (fmtFloat T) v = Inr j \<and> cUnmarshalJSON (parseFloat T) cZero j = Inr (fromServer v)"
proof -
  obtain j where j: "marshalValue (fmtFloat T) v = Inr j" "unmarshalValue (parseFloat T) zeroValue j = Inr v"
    using value_json_roundtrip[OF assms(1)[unfolded textsAgree_def] assms(2,3)] by blast
  then obtain c where "cUnmarshalJSON (parseFloat T) cZero j = Inr c" "v = toServer c"
    using codec_reads by blast
  then have "toServer (fromServer v) = toServer c" using toServer_fromServer[OF assms(2)] by simp
  then have "fromServer v = c" by (simp only: toServer_inj)
  then show ?thesis using j(1) \<open>cUnmarshalJSON (parseFloat T) cZero j = Inr c\<close> by simp
qed

definition fromServerCol :: "col \<Rightarrow> ccol" where
  "fromServerCol c = \<lparr>ccName = Name c, ccDecltype = Decltype c\<rparr>"

definition fromServerResult :: "stmt_result \<Rightarrow> cstmt_result" where
  "fromServerResult r =
    \<lparr>cCols = map fromServerCol (Cols r), cRows = map (map fromServer) (Rows r),
     cAffected = AffectedRowCount r, cRowid = LastInsertRowid r\<rparr>"

text \<open>Results JSON can carry: valid text and finite floats.\<close>

definition resultSafe :: "stmt_result \<Rightarrow> bool" where
  "resultSafe r \<longleftrightarrow>
    (\<forall>c \<in> set (Cols r). optValid (Name c) \<and> optValid (Decltype c))
    \<and> (\<forall>row \<in> set (Rows r). \<forall>v \<in> set row. builtValue v \<and> jsonSafe v)
    \<and> optValid (LastInsertRowid r)"

lemma opt_back: "optValid s \<Longrightarrow> ptrString (jOpt s) = Inr s"
  by (cases s) (simp_all add: jOpt_def valid_jStr)

lemma col_back:
  assumes "optValid (Name c)" and "optValid (Decltype c)"
  shows "readCCol (writeCol c) = Inr (fromServerCol c)"
  using assms by (cases "Decltype c")
    (simp_all add: readCCol_def readStruct_def writeCol_def omitNil_def opt_back valid_jStr fromServerCol_def)

lemma nat_back: "unat x < 2 ^ bits \<Longrightarrow> ptrUint bits (jNat (unat x)) = Inr (Some (unat x))"
  by (simp add: jNat_def)

lemma rows_back:
  assumes "textsAgree T" and "\<forall>row \<in> set rows. \<forall>v \<in> set row. builtValue v \<and> jsonSafe v"
  shows "\<exists>js. writeRows T rows = Inr js
    \<and> mapR (readSlice CBadJson (cUnmarshalJSON (parseFloat T) cZero)) js = Inr (map (map fromServer) rows)"
  unfolding writeRows_def
proof (rule mapR_cross, intro ballI)
  fix row
  assume "row \<in> set rows"
  then obtain js where "mapR (marshalValue (fmtFloat T)) row = Inr js"
    "mapR (cUnmarshalJSON (parseFloat T) cZero) js = Inr (map fromServer row)"
    using mapR_cross[of row "marshalValue (fmtFloat T)" "cUnmarshalJSON (parseFloat T) cZero" fromServer]
      value_back[OF assms(1)] assms(2) by blast
  then show "\<exists>j. map_sum id JArr (mapR (marshalValue (fmtFloat T)) row) = Inr j
      \<and> readSlice CBadJson (cUnmarshalJSON (parseFloat T) cZero) j = Inr (map fromServer row)"
    by simp
qed

lemma result_back:
  assumes "textsAgree T" and "resultSafe r"
  shows "\<exists>j. writeStmtResult T r = Inr j \<and> j \<noteq> JNull \<and> readCResult T noResult j = Inr (fromServerResult r)"
proof -
  obtain js where rows: "writeRows T (Rows r) = Inr js"
    "mapR (readSlice CBadJson (cUnmarshalJSON (parseFloat T) cZero)) js = Inr (map (map fromServer) (Rows r))"
    using rows_back[OF assms(1)] assms(2) unfolding resultSafe_def by blast
  have cols: "mapR readCCol (map writeCol (Cols r)) = Inr (map fromServerCol (Cols r))"
    using mapR_total[of "Cols r" "readCCol \<circ> writeCol" fromServerCol] col_back assms(2)
    by (simp add: resultSafe_def mapR_map)
  have n: "ptrUint 64 (jNat (unat (AffectedRowCount r))) = Inr (Some (unat (AffectedRowCount r)))"
    using unsigned_less[of "AffectedRowCount r", where ?'a = nat] by (intro nat_back) simp
  have "optValid (LastInsertRowid r)" using assms(2) by (simp add: resultSafe_def)
  note o = opt_back[OF this]
  show ?thesis
    using rows by (auto simp: writeStmtResult_def readCResult_def readStruct_def cols n o keepOr_def
        emptyResult_def fromServerResult_def)
qed

fun fromServerStream :: "go_text \<Rightarrow> stream_result \<Rightarrow> cpipe_result" where
  "fromServerStream T (StreamOk resp) =
    \<lparr>crType = ''ok'',
     crResponse = Some (respType resp, case resp of RespExecute r \<Rightarrow> Some (fromServerResult r) | _ \<Rightarrow> None),
     crError = None\<rparr>"
| "fromServerStream T (StreamError e) =
    \<lparr>crType = ''error'', crResponse = None, crError = Some (errText T (Message e))\<rparr>"

text \<open>The answers to the requests this client sends.\<close>

fun answerSafe :: "go_text \<Rightarrow> stream_result \<Rightarrow> bool" where
  "answerSafe T (StreamOk RespClose) = True"
| "answerSafe T (StreamOk (RespExecute r)) = resultSafe r"
| "answerSafe T (StreamError e) = (validUtf8 (errText T (Message e)) \<and> Code e = None)"
| "answerSafe T _ = False"

lemma answer_back:
  assumes "textsAgree T" and "answerSafe T x"
  shows "\<exists>j. writeStreamResult T x = Inr j \<and> readCStreamResult T j = Inr (fromServerStream T x)"
  using assms(2)
proof (cases "(T, x)" rule: answerSafe.cases)
  case 2
  then obtain r where x: "x = StreamOk (RespExecute r)" by blast
  then obtain j where "writeStmtResult T r = Inr j" "j \<noteq> JNull" "readCResult T noResult j = Inr (fromServerResult r)"
    using result_back[OF assms(1), of r] assms(2) by auto
  with x show ?thesis
    by (simp add: writeStreamResult_def marshalStreamResponse_def withResult_def readCStreamResult_def
        readStruct_def readPtr_def readCResponse_def)
qed (simp_all add: writeStreamResult_def marshalStreamResponse_def readCStreamResult_def readStruct_def
    readPtr_def readCResponse_def writeError_def readCError_def valid_jStr omitNil_def)

lemma pipeline_back:
  assumes "textsAgree T" and "\<forall>x \<in> set results. answerSafe T x" and "optValid baton"
  shows "\<exists>j. bodyDoc T (PipelineBody baton results) = Some j
    \<and> readPipelineResp T j
      = Inr \<lparr>prBaton = baton, prBaseURL = None, prResults = map (fromServerStream T) results\<rparr>"
proof -
  obtain js where "mapR (writeStreamResult T) results = Inr js"
    "mapR (readCStreamResult T) js = Inr (map (fromServerStream T) results)"
    using mapR_cross[of results "writeStreamResult T" _ "fromServerStream T"] answer_back[OF assms(1)] assms(2) by blast
  then show ?thesis
    using opt_back[OF assms(3)]
    by (auto simp: writePipelineResp_def docOf_def readPipelineResp_def readStruct_def)
qed

end
