(* ===== verification/ClientServer.thy ===== *)
theory ClientServer
  imports HttpEndToEnd "HOL-Library.Countable"
begin

text \<open>
  A connection of the HTTP client (\<open>src/clients/hranago/conn.go\<close>) whose transport is the
  modelled server (\<open>src/http.go\<close>): statements executed and connections closed end to end.
\<close>

section \<open>The server as a transport\<close>

text \<open>
  Between the two lie the lexical level of JSON (\<open>render\<close> and \<open>lexJson\<close>), the parsing of the
  URL (\<open>path\<close>), and the network, which gives the server the address \<open>remote\<close> of the client.
\<close>

record link =
  render :: "json \<Rightarrow> bytes"
  lexJson :: "bytes \<Rightarrow> json_error + json"
  path :: "string \<Rightarrow> string"
  remote :: string
  msgpackBodies :: body_decoders

definition linkOk :: "link \<Rightarrow> bool" where
  "linkOk L \<longleftrightarrow> (\<forall>j. lexJson L (render L j) = Inr j)"

definition asHttpRequest :: "link \<Rightarrow> string \<Rightarrow> (string \<times> string) list \<Rightarrow> json \<Rightarrow> http_request" where
  "asHttpRequest L u hdrs data =
    \<lparr>rqMethod = ''POST'', rqPath = path L u,
     rqHeader = (\<lambda>h. case map_of hdrs h of None \<Rightarrow> [] | Some v \<Rightarrow> v),
     rqQuery = (\<lambda>k. []), rqBody = render L data, rqRemoteAddr = remote L\<rparr>"

definition serverPost :: "'d env \<Rightarrow> go_text \<Rightarrow> link \<Rightarrow> ('d server \<times> 'd) transport" where
  "serverPost E T L u hdrs data sw =
    (case serveHTTP E (jsonBodies T (lexJson L) (msgpackBodies L)) (fst sw) (asHttpRequest L u hdrs data) (snd sw) of
       (Responded resp, sw') \<Rightarrow> (Inr \<lparr>rpStatus = status resp, rpDoc = bodyDoc T (body resp)\<rparr>, sw')
     | (WSUpgrade, sw') \<Rightarrow> (Inl ''upgraded'', sw'))"

text \<open>
  The server is open for the connection: it is not closing, the address is not blocked, the
  version is enabled and the token accepted; \<open>s1\<close> and \<open>w1\<close> are what these checks leave.
\<close>

definition tokenAccepted :: "'d config \<Rightarrow> string \<Rightarrow> 'd \<Rightarrow> 'd \<Rightarrow> bool" where
  "tokenAccepted conf token w w1 \<longleftrightarrow>
    (case AuthFunc conf of None \<Rightarrow> w1 = w | Some f \<Rightarrow> (case f token w of (Inr _, w') \<Rightarrow> w1 = w' | _ \<Rightarrow> False))"

definition openFor :: "'d env \<Rightarrow> link \<Rightarrow> cconn \<Rightarrow> 'd server \<Rightarrow> 'd \<Rightarrow> 'd server \<Rightarrow> 'd \<Rightarrow> bool" where
  "openFor E L c s w s1 w1 \<longleftrightarrow>
    \<not> closing s
    \<and> \<not> fst (fst (checkBlacklist (remote L) (clock E w) (blacklist s)))
    \<and> s1 = s\<lparr>blacklist := snd (checkBlacklist (remote L) (clock E w) (blacklist s))\<rparr>
    \<and> cfVersion (cnCfg c) \<in> {''v2'', ''v3''}
    \<and> path L (endpoint (cnCfg c) (cnBase c)) = ''/'' @ cfVersion (cnCfg c) @ ''/pipeline''
    \<and> isVersionEnabled (config s) (cfVersion (cnCfg c))
    \<and> tokenAccepted (config s) (cfToken (cnCfg c)) w w1"

section \<open>One pipeline\<close>

lemma sent_bearer: "bearerToken (asHttpRequest L u (requestHeaders cfg) data) = cfToken cfg"
  by (auto simp: bearerToken_def asHttpRequest_def requestHeaders_def Let_def)

lemma sent_codec:
  "selectCodecFromRequest (asHttpRequest L u (requestHeaders cfg) data) = Inr JSONCodec"
proof -
  have "mediaType ''application/json'' = ''application/json''" by code_simp
  then show ?thesis
    by (simp add: selectCodecFromRequest_def asHttpRequest_def requestHeaders_def Let_def)
qed

lemma sent_admitted:
  assumes "linkOk L" and "tokenAccepted conf (cfToken cfg) w w1" and "readPipelineReq T data = Inr x"
  shows "admit conf (decodePipeline (jsonBodies T (lexJson L) M)) (asHttpRequest L u (requestHeaders cfg) data) w
    = (Inr (ModeReadWrite, JSONCodec, x), w1)"
proof -
  let ?r = "asHttpRequest L u (requestHeaders cfg) data"
  have "checkAuth conf ?r w = (None, w1)"
    using assms(2) by (auto simp: checkAuth_def sent_bearer tokenAccepted_def split: option.splits prod.splits sum.splits)
  moreover have "parseMode (rqQuery ?r ''mode'') = Inr ModeReadWrite" by (simp add: asHttpRequest_def parseMode_def)
  moreover have "decodePipeline (jsonBodies T (lexJson L) M) JSONCodec (rqBody ?r) = Inr x"
    using assms(1,3) by (simp add: jsonBodies_def viaJson_def asHttpRequest_def linkOk_def)
  ultimately show ?thesis unfolding admit_def by (simp add: sent_codec)
qed

lemma sent_served:
  fixes data :: json
  assumes "openFor E L c s w s1 w1"
  defines "r \<equiv> asHttpRequest L (endpoint (cnCfg c) (cnBase c)) (requestHeaders (cnCfg c)) data"
  shows "serveHTTP E D s r w = (case handlePipeline E D s1 [] r w of (resp, s', w') \<Rightarrow> (Responded resp, s', w'))"
proof -
  have o: "rqHeader r ''Origin'' = []" "rqHeader r ''Upgrade'' = []" "rqMethod r = ''POST''" "rqRemoteAddr r = remote L"
    by (simp_all add: r_def asHttpRequest_def requestHeaders_def)
  have u: "foldName [] \<noteq> ''websocket''" by code_simp
  have cors: "setCORSHeaders (config s) r [] = (None, [])" by (simp add: setCORSHeaders_def o Let_def)
  obtain ra bl where b: "checkBlacklist (remote L) (clock E w) (blacklist s) = ((False, ra), bl)"
    using assms(1) unfolding openFor_def by (metis prod.collapse)
  have p: "rqPath r = ''/'' @ cfVersion (cnCfg c) @ ''/pipeline''"
    using assms(1) by (simp add: openFor_def r_def asHttpRequest_def)
  have s1: "s1 = s\<lparr>blacklist := bl\<rparr>" and cl: "\<not> closing s"
    and v: "cfVersion (cnCfg c) = ''v2'' \<or> cfVersion (cnCfg c) = ''v3''"
    and e: "isVersionEnabled (config s) (cfVersion (cnCfg c))"
    using assms(1) by (simp_all add: openFor_def b)
  show ?thesis
    using v
  proof
    assume v: "cfVersion (cnCfg c) = ''v2''"
    show ?thesis using e p unfolding v serveHTTP_def by (simp add: cl cors o b u s1 Let_def)
  next
    assume v: "cfVersion (cnCfg c) = ''v3''"
    show ?thesis using e p unfolding v serveHTTP_def by (simp add: cl cors o b u s1 Let_def)
  qed
qed

text \<open>An answered pipeline arrives, and the connection takes over the baton.\<close>

lemma answer_encodes:
  assumes "textsAgree T" and "\<forall>x \<in> set results. answerSafe T x" and "optValid baton"
  shows "body (writeCodec hdr JSONCodec 200 (PipelineBody baton results)) = PipelineBody baton results"
  using pipeline_back[OF assms] by (intro body_document[where T = T]) (auto simp: oneDocument_def)

lemma sendPipeline_answered:
  assumes L: "linkOk L" "textsAgree T" and o: "openFor E L c s w s1 w1"
    and out: "\<forall>r \<in> set reqs. requestSafe r" "optValid (cnBaton c)"
    and run: "\<And>r. admit (config s1) (decodePipeline (jsonBodies T (lexJson L) (msgpackBodies L))) r w
          = (Inr (ModeReadWrite, JSONCodec, cnBaton c, map toServerRequest reqs), w1) \<Longrightarrow>
        handlePipeline E (jsonBodies T (lexJson L) (msgpackBodies L)) s1 [] r w
          = (writeCodec [] JSONCodec 200 (PipelineBody nb results), s', w')"
    and ret: "\<forall>x \<in> set results. answerSafe T x" "optValid nb"
  shows "sendPipeline T (serverPost E T L) c reqs (s, w)
    = (Inr \<lparr>prBaton = nb, prBaseURL = None, prResults = map (fromServerStream T) results\<rparr>,
       c\<lparr>cnBaton := nb\<rparr>, (s', w'))"
proof -
  obtain data where data: "writePipelineReq T (cnBaton c) reqs = Inr data"
    "readPipelineReq T data = Inr (cnBaton c, map toServerRequest reqs)"
    using pipeline_out[OF L(2) out] by blast
  let ?r = "asHttpRequest L (endpoint (cnCfg c) (cnBase c)) (requestHeaders (cnCfg c)) data"
  have "tokenAccepted (config s1) (cfToken (cnCfg c)) w w1" using o by (simp add: openFor_def)
  note run = run[OF sent_admitted[OF L(1) this data(2)]]
  obtain j where j: "bodyDoc T (PipelineBody nb results) = Some j"
    "readPipelineResp T j = Inr \<lparr>prBaton = nb, prBaseURL = None, prResults = map (fromServerStream T) results\<rparr>"
    using pipeline_back[OF L(2) ret] by blast
  have "serverPost E T L (endpoint (cnCfg c) (cnBase c)) (requestHeaders (cnCfg c)) data (s, w)
      = (Inr \<lparr>rpStatus = 200, rpDoc = Some j\<rparr>, (s', w'))"
    unfolding serverPost_def fst_conv snd_conv sent_served[OF o]
    by (simp add: run answer_encodes[OF L(2) ret] j(1) del: bodyDoc.simps) (simp add: writeCodec_def)
  then show ?thesis by (simp add: sendPipeline_def data(1) j(2))
qed

lemma hex_valid: "validUtf8 (hexEncode bs)"
proof (rule validUtf8_ascii)
  have d: "list_all (inRange 0 0x7F) ''0123456789abcdef''" by code_simp
  have "''0123456789abcdef'' ! k \<in> set ''0123456789abcdef''" if "k < 16" for k
    using that by (intro nth_mem) simp
  then have "inRange 0 0x7F (hexDigit n)" if "unat n < 16" for n
    using d that unfolding hexDigit_def list_all_iff by blast
  moreover have "unat (drop_bit 4 b) < 16" "unat (take_bit 4 b) < 16" for b :: "8 word"
    by (simp_all add: word_less_nat_alt[symmetric] drop_bit_eq_div take_bit_eq_mod unat_div unat_mod)
       (use unsigned_less[of b, where ?'a = nat] in simp)
  ultimately show "\<forall>c \<in> set (hexEncode bs). inRange 0 0x7F c"
    by (induction bs) auto
qed

lemma baton_valid: "generateBaton E w = (Inr t, w') \<Longrightarrow> validUtf8 t"
  by (auto simp: generateBaton_def hex_valid split: prod.splits sum.splits)

section \<open>Statements end to end\<close>

definition executed :: "error + stmt_result \<Rightarrow> stream_result" where
  "executed res = (case res of Inl e \<Rightarrow> errorStreamResult e | Inr r \<Rightarrow> StreamOk (RespExecute r))"

lemma served_execute:
  assumes "admit (config s) (decodePipeline D) r w = (Inr (ModeReadWrite, JSONCodec, baton, [toServerRequest (CExecute stm)]), w1)"
    and "resolveStream E s ModeReadWrite baton w1 = (Inr (a, old), bs, w2)"
    and "executeStmt E (heap bs ! a) (toServerStmt stm) (StoredSQL (heap bs ! a)) w2 = (res, w3)"
    and "putBaton E a old bs w3 = (Inr t, bs', w4)"
  shows "handlePipeline E D s hdr r w
    = (writeCodec hdr JSONCodec 200 (PipelineBody (Some t) [executed res]), s\<lparr>batons := bs'\<rparr>, w4)"
proof -
  have "setStream a (heap bs ! a) bs = bs" by (simp add: setStream_def)
  then have "executePipelineRequests E a [toServerRequest (CExecute stm)] False bs w2 = (([executed res], False), bs, w3)"
    using assms(3) by (cases res) (simp_all add: dispatchAt_def dispatchStreamRequest_def answer_def executed_def Let_def)
  then show ?thesis using assms(1,2,4) by (simp add: handlePipeline_def rotateBaton_def)
qed

lemma resolve_finds:
  "resolveStream E s mode baton w = (Inr (a, old), bs, w') \<Longrightarrow> findBaton b bs = findBaton b (batons s)"
  by (auto simp: resolveStream_def allocStream_def split: option.splits list.splits prod.splits sum.splits
      dest: arg_cong[of _ _ "\<lambda>x. findBaton b (snd x)"] cong: findBaton_cong)

lemma execStatement_served:
  assumes "linkOk L" and "textsAgree T" and "openFor E L c s w s1 w1"
    and "stmtSafe stm" and "optValid (cnBaton c)"
    and "resolveStream E s1 ModeReadWrite (cnBaton c) w1 = (Inr (a, old), bs, w2)"
    and "executeStmt E (heap bs ! a) (toServerStmt stm) (StoredSQL (heap bs ! a)) w2 = (res, w3)"
    and "answerSafe T (executed res)" and "generateBaton E w3 = (Inr t, w4)"
    and "putBaton E a old bs w3 = (Inr t, bs', w4)"
  shows "execStatement T (serverPost E T L) c stm (s, w)
    = (map_sum (\<lambda>e. CServerError (errText T e)) fromServerResult res, c\<lparr>cnBaton := Some t\<rparr>, (s1\<lparr>batons := bs'\<rparr>, w4))"
proof -
  have "sendPipeline T (serverPost E T L) c [CExecute stm] (s, w)
      = (Inr \<lparr>prBaton = Some t, prBaseURL = None, prResults = map (fromServerStream T) [executed res]\<rparr>,
         c\<lparr>cnBaton := Some t\<rparr>, (s1\<lparr>batons := bs'\<rparr>, w4))"
    using assms served_execute[OF _ assms(6,7,10)] baton_valid[OF assms(9)]
    by (intro sendPipeline_answered) auto
  then show ?thesis
    by (cases res) (simp_all add: execStatement_def firstResult_def executed_def errorStreamResult_def)
qed

lemma putBaton_generated: "generateBaton E w = (Inr t, w') \<Longrightarrow> \<exists>bs'. putBaton E a old bs w = (Inr t, bs', w')"
  by (simp add: putBaton_def Let_def)

text \<open>
  A statement from \<open>database/sql\<close> to the executor and back: on a server that is open
  for the connection the client gets what the executor returned on the stream of the
  connection, value for value, or the text of its error; the stream continues under the
  baton the client keeps, the baton sent is used up, and no other client's baton changes.
\<close>

theorem client_statement_end_to_end:
  assumes "linkOk L" and "textsAgree T" and "openFor E L c s w s1 w1"
    and "stmtSafe stm" and "optValid (cnBaton c)"
    and "resolveStream E s1 ModeReadWrite (cnBaton c) w1 = (Inr (a, old), bs, w2)"
    and "executeStmt E (heap bs ! a) (toServerStmt stm) (StoredSQL (heap bs ! a)) w2 = (res, w3)"
    and "answerSafe T (executed res)" and "generateBaton E w3 = (Inr t, w4)"
  shows "\<exists>s'. execStatement T (serverPost E T L) c stm (s, w)
      = (map_sum (\<lambda>e. CServerError (errText T e)) fromServerResult res, c\<lparr>cnBaton := Some t\<rparr>, (s', w4))
    \<and> findBaton t (batons s') = Some a \<and> heap (batons s') = heap bs
    \<and> (old \<noteq> [] \<and> old \<noteq> t \<longrightarrow> findBaton old (batons s') = None)
    \<and> (\<forall>b. b \<noteq> t \<and> b \<noteq> old \<longrightarrow> findBaton b (batons s') = findBaton b (batons s))"
proof -
  obtain bs' where put: "putBaton E a old bs w3 = (Inr t, bs', w4)" using putBaton_generated[OF assms(9)] by blast
  note step = putBaton_step[OF put]
  have f: "findBaton t bs' = Some a" "old \<noteq> [] \<Longrightarrow> old \<noteq> t \<Longrightarrow> findBaton old bs' = None"
    "b \<noteq> t \<Longrightarrow> b \<noteq> old \<Longrightarrow> findBaton b bs' = findBaton b bs" for b
    using bm.find_after_put[OF step] by auto
  have k: "findBaton b bs = findBaton b (batons s)" for b
    using resolve_finds[OF assms(6)] assms(3) by (simp add: openFor_def)
  have h: "heap bs' = heap bs" using step by (auto simp: putStep_def)
  show ?thesis
    using execStatement_served[OF assms put] f k h by (intro exI[of _ "s1\<lparr>batons := bs'\<rparr>"]) auto
qed

section \<open>Closing and expiry\<close>

lemma served_close:
  assumes "admit (config s) (decodePipeline D) r w = (Inr (ModeReadWrite, JSONCodec, baton, [toServerRequest CClose]), w1)"
    and "resolveStream E s ModeReadWrite baton w1 = (Inr (a, old), bs, w2)" and "old \<noteq> []"
    and "closeAt E a bs w2 = (bs', w3)"
  shows "handlePipeline E D s hdr r w
    = (writeCodec hdr JSONCodec 200 (PipelineBody None [StreamOk RespClose]), s\<lparr>batons := deleteBaton old bs'\<rparr>, w3)"
proof -
  have "setStream a (heap bs ! a) bs = bs" by (simp add: setStream_def)
  then have "executePipelineRequests E a [toServerRequest CClose] False bs w2 = (([StreamOk RespClose], True), bs, w2)"
    by (simp add: dispatchAt_def dispatchStreamRequest_def Let_def)
  then show ?thesis using assms by (simp add: handlePipeline_def rotateBaton_def)
qed

lemma resolve_baton:
  assumes "findBaton tok (batons s) = Some a" and "tok \<noteq> []"
  shows "resolveStream E s mode (Some tok) w = (Inr (a, tok), snd (getBaton E tok (batons s) w), w)"
proof -
  obtain ch tk where tok: "tok = ch # tk" using assms(2) by (cases tok) auto
  have "getBaton E tok (batons s) w = (Some a, snd (getBaton E tok (batons s) w))"
    using assms(1) getBaton_find by (metis prod.collapse)
  then show ?thesis by (metis (no_types, lifting) tok list.simps(5) old.prod.case option.case(2) resolveStream_def)
qed

text \<open>
  C21.  Closing a connection gives its stream back: the server closes the stream with its
  database connection, nothing leads to the stream any more, the other batons stay, and the
  client forgets the baton.  A second close does nothing.
\<close>

theorem client_close_releases_stream:
  assumes "linkOk L" and "textsAgree T" and "openFor E L c s w s1 w1"
    and "\<not> cnClosed c" and "cnBaton c = Some tok" and "tok \<noteq> []" and "validUtf8 tok"
    and "findBaton tok (batons s) = Some a" and "storeInv (batons s)"
  shows "\<exists>s' w'. closeHttpConn T (serverPost E T L) c (s, w) = (None, c\<lparr>cnClosed := True, cnBaton := None\<rparr>, (s', w'))
    \<and> streamClose E (heap (batons s) ! a) w1 = (heap (batons s') ! a, w')
    \<and> (\<forall>b. findBaton b (batons s') = (if b = tok then None else findBaton b (batons s)))
    \<and> (\<forall>b. findBaton b (batons s') \<noteq> Some a)
    \<and> closeHttpConn T (serverPost E T L) (c\<lparr>cnClosed := True, cnBaton := None\<rparr>) (s', w')
        = (None, c\<lparr>cnClosed := True, cnBaton := None\<rparr>, (s', w'))"
proof -
  let ?c = "c\<lparr>cnClosed := True\<rparr>"
  define bs where "bs = snd (getBaton E tok (batons s) w1)"
  obtain st w' where st: "streamClose E (heap (batons s) ! a) w1 = (st, w')" by (metis surj_pair)
  have h: "heap bs = heap (batons s)" and f: "findBaton b bs = findBaton b (batons s)" for b
    by (simp_all add: bs_def)
  have s1: "batons s1 = batons s" using assms(3) by (simp add: openFor_def)
  have rs: "resolveStream E s1 ModeReadWrite (cnBaton ?c) w1 = (Inr (a, tok), bs, w1)"
    using resolve_baton[of tok s1 a E ModeReadWrite w1] assms(5,6,8) by (simp add: bs_def s1)
  have cl: "closeAt E a bs w1 = (setStream a st bs, w')" using st by (simp add: closeAt_def h)
  let ?s' = "s1\<lparr>batons := deleteBaton tok (setStream a st bs)\<rparr>"
  have "sendPipeline T (serverPost E T L) ?c [CClose] (s, w)
      = (Inr \<lparr>prBaton = None, prBaseURL = None, prResults = map (fromServerStream T) [StreamOk RespClose]\<rparr>,
         ?c\<lparr>cnBaton := None\<rparr>, (?s', w'))"
    using assms served_close[OF _ rs assms(6) cl]
    by (intro sendPipeline_answered) (auto simp: openFor_def)
  then have 1: "closeHttpConn T (serverPost E T L) c (s, w) = (None, ?c\<lparr>cnBaton := None\<rparr>, (?s', w'))"
    using assms(4,5) by (simp add: closeHttpConn_def)
  have f': "findBaton b (batons ?s') = (if b = tok then None else findBaton b (batons s))" for b
    using f findBaton_cong[of "setStream a st bs" bs b] by (simp add: findBaton_delete setStream_def)
  have "findBaton b (batons ?s') \<noteq> Some a" for b
    using f' storeInvD(3)[OF assms(9) assms(8)] by auto
  moreover have "heap (batons ?s') ! a = st"
    using storeInvD(2)[OF assms(9) assms(8)] h by (simp add: deleteBaton_def setStream_def)
  ultimately show ?thesis using 1 f' st by (intro exI[of _ ?s'] exI[of _ w']) (simp add: closeHttpConn_def)
qed

lemma failure_silent: "failureText (Some (writeError T (newError e))) = []"
  by (simp add: failureText_def writeError_def newError_def readStruct_def omitNil_def)

text \<open>
  C38.  A baton the server no longer knows: the statement is not executed, the client gets
  status 400 without the server's text, and keeps the dead baton.  The connection and the
  store are as before, so every further statement of the connection ends the same way.
\<close>

theorem expired_baton_breaks_connection:
  assumes "linkOk L" and "textsAgree T" and "openFor E L c s w s1 w1" and "stmtSafe stm"
    and "cnBaton c = Some tok" and "tok \<noteq> []" and "validUtf8 tok" and "findBaton tok (batons s) = None"
  shows "execStatement T (serverPost E T L) c stm (s, w) = (Inl (CServerReturned 400 []), c, (s1, w1))
    \<and> batons s1 = batons s"
proof -
  obtain data where data: "writePipelineReq T (cnBaton c) [CExecute stm] = Inr data"
    "readPipelineReq T data = Inr (cnBaton c, map toServerRequest [CExecute stm])"
    using pipeline_out[OF assms(2), of "[CExecute stm]" "cnBaton c"] assms(4,5,7) by auto
  have s1: "batons s1 = batons s" "config s1 = config s" using assms(3) by (simp_all add: openFor_def)
  have "tokenAccepted (config s1) (cfToken (cnCfg c)) w w1" using assms(3) s1 by (simp add: openFor_def)
  note ad = sent_admitted[OF assms(1) this data(2)]
  have "getBaton E tok (batons s1) w1 = (None, batons s1)"
    using assms(8) by (simp add: getBaton_def findBaton_def s1)
  then have "resolveStream E s1 ModeReadWrite (Some tok) w1 = (Inl (400, BatonNotFound), batons s1, w1)"
    using assms(6) by (cases tok) (simp_all add: resolveStream_def)
  then have "handlePipeline E (jsonBodies T (lexJson L) M) s1 [] (asHttpRequest L u (requestHeaders (cnCfg c)) data) w
      = (writeHTTPError [] 400 BatonNotFound, s1, w1)" for M u
    using ad by (simp add: handlePipeline_def assms(5))
  then have "serverPost E T L (endpoint (cnCfg c) (cnBase c)) (requestHeaders (cnCfg c)) data (s, w)
      = (Inr \<lparr>rpStatus = 400, rpDoc = Some (writeError T (newError BatonNotFound))\<rparr>, (s1, w1))"
    unfolding serverPost_def fst_conv snd_conv sent_served[OF assms(3)]
    by (simp add: writeHTTPError_def newError_def)
  then show ?thesis
    using failure_silent by (simp add: execStatement_def sendPipeline_def data(1) s1)
qed

section \<open>A concrete connection\<close>

text \<open>Documents are counted, for a \<open>render\<close> that can be read back.\<close>

instance json :: countable
  by countable_datatype

definition demoLink :: link where
  "demoLink =
    \<lparr>render = (\<lambda>j. replicate (to_nat j) 0), lexJson = (\<lambda>bs. Inr (from_nat (length bs))),
     path = (\<lambda>u. drop 8 u), remote = ''10.0.0.1:80'', msgpackBodies = demoDecoders None []\<rparr>"

definition demoText :: go_text where
  "demoText = \<lparr>fmtFloat = bitsText, parseFloat = textBits, fmtMs = (\<lambda>_. ''0''), errText = (\<lambda>_. ''failed'')\<rparr>"

definition demoCfg :: cconfig where
  "demoCfg = \<lparr>cfBaseURL = ''http://h'', cfToken = ''secret'', cfVersion = ''v3'', cfTransport = ''http'', cfCodec = JSONCodec\<rparr>"

definition demoConn :: "string option \<Rightarrow> cconn" where
  "demoConn b = (newHttpConn demoCfg)\<lparr>cnBaton := b\<rparr>"

lemma demo_link: "linkOk demoLink" "textsAgree demoText"
  using floatText_bits by (simp_all add: linkOk_def demoLink_def textsAgree_def demoText_def)

lemma demo_client_open:
  assumes "config s = config demoServer" and "\<not> closing s" and "blacklist s = None"
  shows "openFor demoEnv demoLink (demoConn b) s w s w"
proof -
  have p: "path demoLink (endpoint demoCfg ''http://h'') = ''/v3/pipeline''" by code_simp
  have a: "AuthFunc (config demoServer) = AuthFunc demoConfig" "Versions (config demoServer) = []"
    by (simp_all add: demoServer_def newServer_def demoConfig_def Let_def)
  show ?thesis
    using assms p by (simp add: openFor_def checkBlacklist_def demoConn_def newHttpConn_def demoCfg_def
        isVersionEnabled_def tokenAccepted_def a) (simp add: demoConfig_def)
qed

lemma demo_server_open: "\<not> closing demoServer \<and> blacklist demoServer = None"
  by code_simp

definition demoInsert :: cstmt where
  "demoInsert = \<lparr>cSQL = ''insert'', cArgs = [floatValue 5], cNamedArgs = [], cWantRows = False\<rparr>"

lemma demo_stmtSafe: "stmtSafe demoInsert"
proof -
  have "validUtf8 ''insert''" by code_simp
  moreover have "jsonSafe (FloatValue 5)" by (simp add: jsonSafe_def value_defs f64Finite_def)
  ultimately show ?thesis
    by (simp add: stmtSafe_def demoInsert_def valueSafe_def cBuilt_def) (simp add: value_defs)
qed

theorem client_statement_end_to_end_witness:
  "\<exists>s'. execStatement demoText (serverPost demoEnv demoText demoLink) (demoConn None) demoInsert (demoServer, ((), 0))
    = (Inr (noResult\<lparr>cAffected := 1\<rparr>), demoConn (Some demoBaton), (s', ((), 1)))
    \<and> findBaton demoBaton (batons s') = Some 0"
proof -
  let ?r = "emptyResult\<lparr>AffectedRowCount := 1, RowsWritten := 1\<rparr>"
  let ?run = "resolveStream demoEnv demoServer ModeReadWrite None ((), 0)"
  obtain bs where rs: "?run = (Inr (0, []), bs, ((), 1))"
  proof -
    have "fst ?run = Inr (0, [])" "snd (snd ?run) = ((), 1)" by code_simp+
    then show ?thesis using that[of "fst (snd ?run)"] by (metis prod.collapse)
  qed
  have "case ?run of (r, bs, w2) \<Rightarrow>
      executeStmt demoEnv (heap bs ! 0) (toServerStmt demoInsert) (StoredSQL (heap bs ! 0)) ((), 1) = (Inr ?r, ((), 1))"
    by code_simp
  then have ex: "executeStmt demoEnv (heap bs ! 0) (toServerStmt demoInsert) (StoredSQL (heap bs ! 0)) ((), 1)
      = (Inr ?r, ((), 1))" by (simp add: rs)
  have safe: "answerSafe demoText (executed (Inr ?r))" by code_simp
  have gen: "generateBaton demoEnv ((), 1) = (Inr demoBaton, ((), 1))" by code_simp
  have o: "openFor demoEnv demoLink (demoConn None) demoServer ((), 0) demoServer ((), 0)"
    using demo_client_open demo_server_open by blast
  have b: "cnBaton (demoConn None) = None" "(demoConn None)\<lparr>cnBaton := Some demoBaton\<rparr> = demoConn (Some demoBaton)"
    by (simp_all add: demoConn_def)
  have m: "fromServerResult ?r = noResult\<lparr>cAffected := 1\<rparr>"
    by (simp add: fromServerResult_def emptyResult_def noResult_def)
  have v: "optValid (cnBaton (demoConn None))"
    and rs': "resolveStream demoEnv demoServer ModeReadWrite (cnBaton (demoConn None)) ((), 0) = (Inr (0, []), bs, ((), 1))"
    using rs by (simp_all add: b(1))
  show ?thesis
    using client_statement_end_to_end[OF demo_link o demo_stmtSafe v rs' ex safe gen]
    unfolding map_sum.simps m b(2) by blast
qed

lemma demo_run_open: "openFor demoEnv demoLink (demoConn b) (fst (snd demoRun)) w (fst (snd demoRun)) w"
proof -
  have "\<not> closing (fst (snd demoRun)) \<and> blacklist (fst (snd demoRun)) = None" by code_simp
  then show ?thesis using demo_client_open[OF demo_config] by blast
qed

theorem client_close_releases_stream_witness:
  "\<exists>s' w'. closeHttpConn demoText (serverPost demoEnv demoText demoLink) (demoConn (Some demoBaton)) (fst (snd demoRun), ((), 1))
      = (None, (demoConn None)\<lparr>cnClosed := True\<rparr>, (s', w')) \<and> findBaton demoBaton (batons s') = None"
proof -
  have c: "\<not> cnClosed (demoConn (Some demoBaton))" "cnBaton (demoConn (Some demoBaton)) = Some demoBaton"
    "(demoConn (Some demoBaton))\<lparr>cnClosed := True, cnBaton := None\<rparr> = (demoConn None)\<lparr>cnClosed := True\<rparr>"
    by (simp_all add: demoConn_def newHttpConn_def)
  have "demoBaton \<noteq> []" "validUtf8 demoBaton" by code_simp+
  from client_close_releases_stream[OF demo_link demo_run_open c(1,2) this demo_baton demo_inv, of "((), 1)"]
  obtain s' w' where 1: "closeHttpConn demoText (serverPost demoEnv demoText demoLink) (demoConn (Some demoBaton)) (fst (snd demoRun), ((), 1))
      = (None, (demoConn None)\<lparr>cnClosed := True\<rparr>, (s', w'))"
    and "\<forall>b. findBaton b (batons s') = (if b = demoBaton then None else findBaton b (batons (fst (snd demoRun))))"
    unfolding c(3) by blast
  then have "findBaton demoBaton (batons s') = None" by simp
  with 1 show ?thesis by blast
qed

theorem expired_baton_breaks_connection_witness:
  "execStatement demoText (serverPost demoEnv demoText demoLink) (demoConn (Some ''ff'')) demoInsert (fst (snd demoRun), ((), 1))
    = (Inl (CServerReturned 400 []), demoConn (Some ''ff''), (fst (snd demoRun), ((), 1)))"
proof -
  have "cnBaton (demoConn (Some ''ff'')) = Some ''ff''" by (simp add: demoConn_def)
  moreover have "validUtf8 ''ff''" "findBaton ''ff'' (batons (fst (snd demoRun))) = None" by code_simp+
  ultimately show ?thesis
    using expired_baton_breaks_connection[OF demo_link demo_run_open demo_stmtSafe] by blast
qed

end
