(* ===== verification/WsEndToEnd.thy ===== *)
theory WsEndToEnd
  imports WsClientLive WsJson ClientServer
begin

text \<open>
  The WebSocket client of \<open>src/clients/hranago/ws_conn.go\<close> against the session of the server:
  the messages of each are read by the other, and a statement goes the whole way.
\<close>

section \<open>Requests cross\<close>

lemma ws_field_names [simp]:
  "foldName ''stream_id'' = ''stream_id''" "foldName ''request_id'' = ''request_id''"
  "foldName ''request'' = ''request''" "foldName ''jwt'' = ''jwt''"
  by code_simp+

lemma int32_back: "ptrInt32 (JNum (formatInt (sint i))) = Inr (Some i)" for i :: i32
proof -
  have "- (2 ^ 31) \<le> sint i \<and> sint i < 2 ^ 31" using sint_ge[of i] sint_lt[of i] by simp
  then have "parseInt 32 (formatInt (sint i)) = Inr (sint i)" by (simp add: parseInt_formatInt)
  then show ?thesis by (simp add: ptrInt32_def)
qed

lemma int32_members [simp]:
  "memberInt32 old (jInt32 i) = Inr i" "memberInt32 old (jI32 i) = Inr i"
  "readInt32 old (jInt32 i) = Inr i" "readInt32 old (jI32 i) = Inr i"
  by (simp_all add: memberInt32_def readInt32_def jInt32_def jI32_def int32_back keepOr_def)

text \<open>What a session does with each request of the client.\<close>

fun wsServe :: "'d env \<Rightarrow> 'd server \<Rightarrow> session \<Rightarrow> wpayload \<Rightarrow> 'd \<Rightarrow> 'd handled option" where
  "wsServe E s sess (POpenStream i) w = Some (wsOpenStream E s sess i w)"
| "wsServe E s sess (PExecute i st) w = Some (wsExecute E sess (i, toServerStmt st) w)"
| "wsServe E s sess (PCloseStream i) w = Some (wsCloseStream E sess i w)"
| "wsServe E s sess POpenAssigned w = wsOpenStreamAssigned E s sess w"

fun payloadSafe :: "wpayload \<Rightarrow> bool" where
  "payloadSafe (PExecute i st) = stmtSafe st"
| "payloadSafe _ = True"

lemma ws_payload_out:
  assumes "textsAgree T" and "payloadSafe p" and "\<And>j. lx (rn j) = Inr j"
  shows "\<exists>j. writeWsPayload T p = Inr j
    \<and> dispatchWSRequest E (jsonRequests T lx M) s (rn j) JSONCodec proto sess w = wsServe E s sess p w"
proof (cases p)
  case (PExecute i st)
  then obtain j where "writeCStmt T st = Inr j" "readStmt T emptyStmt j = Inr (toServerStmt st)"
    using stmt_out[OF assms(1)] assms(2) by auto
  then show ?thesis
    by (simp add: PExecute assms(3) dispatchWSRequest_def jsonRequests_def viaJson_def decodeType_def decoded_def
        readExecuteReq_def readTyped_def readStruct_def)
qed (simp_all add: assms(3) dispatchWSRequest_def jsonRequests_def viaJson_def decodeType_def decoded_def
      readStreamId_def readNoFields_def readTyped_def readStruct_def)

lemma ws_request_out:
  assumes "textsAgree T" and "payloadSafe p" and "\<And>j. lx (rn j) = Inr j"
  shows "\<exists>j inner. writeWsRequest T key p = Inr j
    \<and> frameType (jsonFrames lx rn F) JSONCodec (rn j) = Inr ''request''
    \<and> extractWSRequest (jsonFrames lx rn F) JSONCodec (rn j) = Inr (key, rn inner)
    \<and> dispatchWSRequest E (jsonRequests T lx M) s (rn inner) JSONCodec proto sess w = wsServe E s sess p w"
proof -
  obtain inner where i: "writeWsPayload T p = Inr inner"
    "dispatchWSRequest E (jsonRequests T lx M) s (rn inner) JSONCodec proto sess w = wsServe E s sess p w"
    using ws_payload_out[OF assms, of E M s proto sess w] by blast
  then show ?thesis
    by (auto simp: writeWsRequest_def jsonFrames_def viaJson_def fromText_def assms(3) decodeType_def extractWSRequest_def
        readRequestMsg_def readTyped_def readStruct_def)
qed

section \<open>Answers cross\<close>

lemma ws_ok_back:
  assumes "writeWsResponse T r = Inr j"
  shows "\<exists>m. writeWsMessage T (ResponseOkMsg key r) = Inr m \<and> readServerFrame m = FOk key j"
  using assms by (simp add: typed_def readServerFrame_def readBase_def readOk_def readStruct_def)

lemma ws_error_back:
  assumes "validUtf8 (errText T e)"
  shows "\<exists>m. writeWsMessage T (responseMsg key (Inl e)) = Inr m
    \<and> readServerFrame m = (if e = StreamIsSuperseded then FSuperseded key (errText T e) else FError key (errText T e))"
  using valid_jStr[OF assms]
  by (auto simp: responseMsg_def typed_def readServerFrame_def readBase_def readFailed_def readStruct_def
      writeError_def newError_def readCError_def omitNil_def)

lemma ws_executed_back:
  assumes "textsAgree T" and "resultSafe r"
  shows "\<exists>j. writeWsResponse T (ExecuteResp r) = Inr j \<and> readExecuted T j = Inr (fromServerResult r)"
proof -
  obtain j where "writeStmtResult T r = Inr j" "readCResult T noResult j = Inr (fromServerResult r)"
    using result_back[OF assms] by blast
  then show ?thesis by (simp add: writeWsResponse_def typed_def readExecuted_def readStruct_def)
qed

lemma ws_assigned_back:
  "\<exists>j. writeWsResponse T (OpenStreamAssignedResp i) = Inr j \<and> readAssigned j = Inr i"
  by (simp add: writeWsResponse_def typed_def readAssigned_def readStruct_def)

lemma ws_hello_out:
  assumes "\<And>j. lx (rn j) = Inr j" and "validUtf8 (cfToken cfg)"
  shows "decHello (jsonFrames lx rn F) JSONCodec (rn (helloMessage cfg))
    = Inr (if cfToken cfg = [] then None else Some (cfToken cfg))"
  by (simp add: assms(1) jsonFrames_def viaJson_def helloMessage_def readHelloMsg_def readTyped_def readStruct_def
      valid_jStr[OF assms(2)])

lemma ws_hello_back:
  "\<exists>j. writeWsMessage T HelloOkMsg = Inr j \<and> helloVerdict (readHello j) = None"
  "validUtf8 (errText T e) \<Longrightarrow> \<exists>j. writeWsMessage T (HelloErrorMsg (newError e)) = Inr j
    \<and> helloVerdict (readHello j) = Some (CAuthRejected (Some (errText T e)))"
  by (simp_all add: typed_def readHello_def readStruct_def helloVerdict_def writeError_def newError_def omitNil_def
      readPtr_def readCError_def valid_jStr)

section \<open>A statement over a WebSocket\<close>

lemma take_drop_snoc: "take (length xs) (xs @ [x]) @ drop (Suc (length xs)) (xs @ [x]) = xs"
  by simp

text \<open>
  A statement over a WebSocket: the frame a client writes for an \<open>execute\<close> request is
  accepted by the session of its connection and leads to one request under its number; the
  answer the session sends is the statement's result, and the client reads back this result
  under the same number, value for value.  An error arrives with its text, and the error of a
  superseded stream as such.
\<close>

lemma ws_statement_served:
  assumes "textsAgree T" and "stmtSafe st" and lex: "\<And>j. lx (rn j) = Inr j"
    and wc: "wcAuthed wc" "codecForProto (wcProto wc) = (JSONCodec, OpText)" "\<not> closing s"
    and run: "wsExecute E (wcSess wc) (sid, toServerStmt st) w' = (res, sess', w'')"
    and safe: "case res of Inr (ExecuteResp r) \<Rightarrow> resultSafe r | Inr _ \<Rightarrow> False | Inl e \<Rightarrow> validUtf8 (errText T e)"
  shows "\<exists>data raw m wc2. writeWsRequest T key (PExecute sid st) = Inr data
    \<and> readFrame s (jsonFrames lx rn F) (Frame OpText (rn data)) wc w
        = (wc\<lparr>wcMadeRequest := True, wcPending := wcPending wc @ [(key, raw)]\<rparr>, w)
    \<and> respond E (jsonRequests T lx M) s (length (wcPending wc))
        (wc\<lparr>wcMadeRequest := True, wcPending := wcPending wc @ [(key, raw)]\<rparr>) w' = Some (wc2, w'')
    \<and> wcPending wc2 = wcPending wc \<and> wcSess wc2 = sess'
    \<and> wcSent wc2 = wcSent wc @ [responseMsg key res]
    \<and> writeWsMessage T (responseMsg key res) = Inr m
    \<and> (case res of
         Inl e \<Rightarrow> readServerFrame m = (if e = StreamIsSuperseded then FSuperseded key (errText T e) else FError key (errText T e))
       | Inr resp \<Rightarrow> \<exists>r j. resp = ExecuteResp r \<and> readServerFrame m = FOk key j \<and> readExecuted T j = Inr (fromServerResult r))"
proof -
  obtain data raw where out: "writeWsRequest T key (PExecute sid st) = Inr data"
    "frameType (jsonFrames lx rn F) JSONCodec (rn data) = Inr ''request''"
    "extractWSRequest (jsonFrames lx rn F) JSONCodec (rn data) = Inr (key, raw)"
    "dispatchWSRequest E (jsonRequests T lx M) s raw JSONCodec (wcProto wc) (wcSess wc) w'
      = wsServe E s (wcSess wc) (PExecute sid st) w'"
    using ws_request_out[OF assms(1) _ lex, of "PExecute sid st" key F E M s "wcProto wc" "wcSess wc" w'] assms(2) by auto
  let ?wc = "wc\<lparr>wcMadeRequest := True, wcPending := wcPending wc @ [(key, raw)]\<rparr>"
  have frame: "readFrame s (jsonFrames lx rn F) (Frame OpText (rn data)) wc w = (?wc, w)"
    using wc out(2,3) by (simp add: readFrame_def onRequest_def Let_def)
  have ret: "\<exists>m. writeWsMessage T (responseMsg key res) = Inr m \<and> (case res of
         Inl e \<Rightarrow> readServerFrame m = (if e = StreamIsSuperseded then FSuperseded key (errText T e) else FError key (errText T e))
       | Inr resp \<Rightarrow> \<exists>r j. resp = ExecuteResp r \<and> readServerFrame m = FOk key j \<and> readExecuted T j = Inr (fromServerResult r))"
  proof (cases res)
    case (Inl e)
    then show ?thesis using ws_error_back[of T e key] safe by auto
  next
    case (Inr resp)
    then obtain r where r: "resp = ExecuteResp r" "resultSafe r" using safe by (cases resp) simp_all
    obtain j where "writeWsResponse T (ExecuteResp r) = Inr j" "readExecuted T j = Inr (fromServerResult r)"
      using ws_executed_back[OF assms(1) r(2)] by blast
    with ws_ok_back[OF this(1), of key] show ?thesis by (auto simp: Inr r responseMsg_def)
  qed
  from ret obtain m where m: "writeWsMessage T (responseMsg key res) = Inr m" by blast
  then have "list_all (encodesVal JSONCodec) (messageValues (responseMsg key res))" using message_document by blast
  then have "sendMsg JSONCodec (responseMsg key res) (wcSent wc) = wcSent wc @ [responseMsg key res]"
    by (simp add: sendMsg_def)
  then have "respond E (jsonRequests T lx M) s (length (wcPending wc)) ?wc w'
      = Some (?wc\<lparr>wcSess := sess', wcPending := wcPending wc, wcSent := wcSent wc @ [responseMsg key res]\<rparr>, w'')"
    using out(4) wc(2) run by (simp add: respond_def)
  with out(1) frame ret show ?thesis by force
qed

definition demoWs :: ws_conn where
  "demoWs = (newConn ''hrana3'' ModeReadWrite ''10.0.0.1:80'' 0)
    \<lparr>wcAuthed := True, wcSess := addStream (newSession ModeReadWrite) 7 (newStream 1 someConn)\<rparr>"

end
