(* ===== verification/ClientOpen.thy ===== *)
theory ClientOpen
  imports WsEndToEnd
begin

text \<open>
  Opening a connection of the client: \<open>Driver.Open\<close> of \<open>src/clients/hranago/driver.go\<close> and
  \<open>js-driver.go\<close>, with the handshakes of \<open>ws_conn.go\<close> and \<open>js-conn.go\<close>; and the handshake
  against the session of the server.
\<close>

section \<open>Handshakes\<close>

text \<open>
  The network as the handshake meets it: dialling, sending the \<open>hello\<close> message, and the first
  message that comes back.
\<close>

record 'w dialer =
  dial :: "string \<Rightarrow> string \<Rightarrow> 'w \<Rightarrow> string option \<times> 'w"
  sendHello :: "json \<Rightarrow> 'w \<Rightarrow> cl_error option \<times> 'w"
  firstMessage :: "'w \<Rightarrow> (string + json) \<times> 'w"

text \<open>Up to the start of the read loop; stream 0 is then opened over it.\<close>

definition newWSConn :: "'w dialer \<Rightarrow> cconfig \<Rightarrow> 'w \<Rightarrow> (cl_error + wclient) \<times> 'w" where
  "newWSConn N cfg w =
    (case dial N (cfBaseURL cfg) (wsSubproto cfg) w of
       (Some e, w1) \<Rightarrow> (Inl (CDial e), w1)
     | (None, w1) \<Rightarrow>
         (case sendHello N (helloMessage cfg) w1 of
            (Some e, w2) \<Rightarrow> (Inl (CHelloSend e), w2)
          | (None, w2) \<Rightarrow>
              (case firstMessage N w2 of
                 (Inl e, w3) \<Rightarrow> (Inl (CHelloResponse e), w3)
               | (Inr j, w3) \<Rightarrow>
                   (case helloVerdict (readHello j) of
                      Some e \<Rightarrow> (Inl e, w3)
                    | None \<Rightarrow> (Inr newWsClient, w3)))))"

text \<open>
  In the browser the socket opens, fails, or does neither in ten seconds; the answer to
  \<open>hello\<close> arrives or is not waited for any longer.
\<close>

datatype js_opening = JsOpen | JsError | JsNothing

record 'w js_dialer =
  jsOpening :: "string \<Rightarrow> string \<Rightarrow> 'w \<Rightarrow> js_opening \<times> 'w"
  jsSend :: "ws_op \<Rightarrow> json \<Rightarrow> 'w \<Rightarrow> cl_error option \<times> 'w"
  jsFirst :: "'w \<Rightarrow> json option \<times> 'w"

text \<open>\<open>writeMessage\<close>: a binary frame for MessagePack, a text frame for JSON.\<close>

definition writeMessage :: "'w js_dialer \<Rightarrow> cconfig \<Rightarrow> json \<Rightarrow> 'w \<Rightarrow> cl_error option \<times> 'w" where
  "writeMessage N cfg j w = jsSend N (if cfCodec cfg = MsgpackCodec then OpBinary else OpText) j w"

definition newJSWSConn :: "'w js_dialer \<Rightarrow> cconfig \<Rightarrow> 'w \<Rightarrow> (cl_error + wclient) \<times> 'w" where
  "newJSWSConn N cfg w =
    (case jsOpening N (cfBaseURL cfg) (jsSubproto cfg) w of
       (JsError, w1) \<Rightarrow> (Inl (CDial ''websocket connection failed''), w1)
     | (JsNothing, w1) \<Rightarrow> (Inl CConnectTimeout, w1)
     | (JsOpen, w1) \<Rightarrow>
         (case writeMessage N cfg (helloMessage cfg) w1 of
            (Some e, w2) \<Rightarrow> (Inl (CHelloSend e), w2)
          | (None, w2) \<Rightarrow>
              (case jsFirst N w2 of
                 (None, w3) \<Rightarrow> (Inl CHelloTimeout, w3)
               | (Some j, w3) \<Rightarrow>
                   (case helloVerdict (readHello j) of
                      Some e \<Rightarrow> (Inl e, w3)
                    | None \<Rightarrow> (Inr newWsClient, w3)))))"

text \<open>What \<open>openStream\<close> and \<open>execStatement\<close> make of the result of their request.\<close>

definition openStreamResult :: "wresult \<Rightarrow> cl_error option" where
  "openStreamResult r = (case r of Inl e \<Rightarrow> Some (COpenStream e) | Inr _ \<Rightarrow> None)"

definition wsExecResult :: "go_text \<Rightarrow> wresult \<Rightarrow> cl_error + cstmt_result" where
  "wsExecResult T r = (case r of Inl e \<Rightarrow> Inl e | Inr j \<Rightarrow> readExecuted T j)"

datatype client_conn = HttpConn cconn | WsConn wclient

definition driverOpen ::
  "(string \<Rightarrow> string + url) \<Rightarrow> 'w dialer \<Rightarrow> string \<Rightarrow> 'w \<Rightarrow> (cl_error + client_conn) \<times> 'w" where
  "driverOpen urlParse N dsn w =
    (case parseDSN urlParse dsn of
       Inl e \<Rightarrow> (Inl e, w)
     | Inr cfg \<Rightarrow>
         (if cfTransport cfg = ''ws''
          then (case newWSConn N cfg w of (r, w') \<Rightarrow> (map_sum id WsConn r, w'))
          else (Inr (HttpConn (newHttpConn cfg)), w)))"

definition jsDriverOpen ::
  "(string \<Rightarrow> string + url) \<Rightarrow> 'w js_dialer \<Rightarrow> string \<Rightarrow> 'w \<Rightarrow> (cl_error + client_conn) \<times> 'w" where
  "jsDriverOpen urlParse N dsn w =
    (case parseDSN urlParse dsn of
       Inl e \<Rightarrow> (Inl e, w)
     | Inr cfg \<Rightarrow>
         (if cfTransport cfg = ''ws''
          then (case newJSWSConn N cfg w of (r, w') \<Rightarrow> (map_sum id WsConn r, w'))
          else (Inr (HttpConn (newHttpConn cfg)), w)))"

section \<open>The handshake with the server\<close>

text \<open>
  The network of a session: dialling is refused unless the subprotocol is enabled, the
  \<open>hello\<close> frame is read by the session, and the first message is what the session sends.
\<close>

definition sessionDialer ::
  "go_text \<Rightarrow> link \<Rightarrow> frame_decoders \<Rightarrow> 'd server \<Rightarrow> conn_mode \<Rightarrow> instant \<Rightarrow> (ws_conn option \<times> 'd) dialer" where
  "sessionDialer T L F s mode now =
    \<lparr>dial = (\<lambda>u proto (c, w).
       if proto \<in> set (enabledSubprotocols (config s))
       then (None, Some (newConn proto mode (remote L) now), w) else (Some ''bad handshake'', c, w)),
     sendHello = (\<lambda>j (c, w). case c of
         None \<Rightarrow> (Some (CWrite ''closed''), c, w)
       | Some wc \<Rightarrow>
           (case readFrame s (jsonFrames (lexJson L) (render L) F) (Frame OpText (render L j)) wc w of
              (wc', w') \<Rightarrow> (None, Some wc', w'))),
     firstMessage = (\<lambda>(c, w). (case c of
         None \<Rightarrow> Inl ''closed''
       | Some wc \<Rightarrow>
           (case wcSent wc of
              [] \<Rightarrow> Inl ''closed''
            | m # _ \<Rightarrow> (case writeWsMessage T m of Inl e \<Rightarrow> Inl ''closed'' | Inr j \<Rightarrow> Inr j)), c, w))\<rparr>"

lemma ws_proto: "cfVersion cfg \<in> {''v1'', ''v2'', ''v3''} \<Longrightarrow> codecForProto (wsSubproto cfg) = (JSONCodec, OpText)"
  unfolding wsSubproto_def by (elim insertE emptyE; simp only:; code_simp)



end
