(* ===== verification/JsRequests.thy ===== *)
theory JsRequests
  imports JsClient ClientOpen
begin

text \<open>
  The requests of the browser connection as \<open>src/clients/hranago/js-conn.go\<close> has them: its own
  copies of \<open>sendRequestWithRetries\<close>, \<open>retrySupersededRequest\<close>, \<open>recoverStream\<close>, \<open>dispatch\<close> and
  \<open>handleStreamSuperseded\<close>, over payloads that are maps from strings to anything, as the code
  keeps them.  They are shown to take the same steps as those of \<open>ws_conn.go\<close>, whose payloads the
  theory \<open>WsClient\<close> has as a datatype; so what is proved there holds in the browser.
\<close>

section \<open>Payloads\<close>

datatype js_any = MText string | MInt32 i32 | MStmt cstmt

type_synonym js_payload = "(string \<times> js_any) list"

definition jsOpenStream :: "i32 \<Rightarrow> js_payload" where
  "jsOpenStream i = [(''type'', MText ''open_stream''), (''stream_id'', MInt32 i)]"

definition jsExecute :: "i32 \<Rightarrow> cstmt \<Rightarrow> js_payload" where
  "jsExecute i s = [(''type'', MText ''execute''), (''stream_id'', MInt32 i), (''stmt'', MStmt s)]"

definition jsCloseStream :: "i32 \<Rightarrow> js_payload" where
  "jsCloseStream i = [(''type'', MText ''close_stream''), (''stream_id'', MInt32 i)]"

definition jsOpenAssigned :: js_payload where
  "jsOpenAssigned = [(''type'', MText ''open_stream_assigned'')]"

section \<open>Shared state\<close>

record js_pending =
  jpPayload :: js_payload
  jpCh :: nat
  jpRetries :: nat

record js_requests =
  jqSeq :: i32
  jqPending :: "(i32 \<times> js_pending) list"
  jqClosed :: bool
  jqCloseErr :: "cl_error option"
  jqStream :: i32
  jqRecovering :: "nat option"
  jqChans :: "wresult option list"
  jqDones :: "bool list"

definition jsRegister :: "js_payload \<Rightarrow> nat \<Rightarrow> js_requests \<Rightarrow> (cl_error + i32 \<times> nat) \<times> js_requests" where
  "jsRegister p retries r =
    (let key = jqSeq r + 1; ch = length (jqChans r);
         r1 = r\<lparr>jqSeq := key, jqChans := jqChans r @ [None]\<rparr> in
     if jqClosed r then (Inl CConnClosed, r1)
     else (Inr (key, ch),
           r1\<lparr>jqPending := AList.update key \<lparr>jpPayload = p, jpCh = ch, jpRetries = retries\<rparr> (jqPending r)\<rparr>))"

definition jsDrop :: "i32 \<Rightarrow> js_requests \<Rightarrow> js_requests" where
  "jsDrop key r = r\<lparr>jqPending := AList.delete key (jqPending r)\<rparr>"

text \<open>\<open>dispatch\<close> up to its send, on the channel it gives.\<close>

definition jsDispatch :: "i32 \<Rightarrow> wresult \<Rightarrow> js_requests \<Rightarrow> (nat \<times> wresult) option \<times> js_requests" where
  "jsDispatch key x r =
    (case map_of (jqPending r) key of
       None \<Rightarrow> (None, r)
     | Some p \<Rightarrow> (Some (jpCh p, x), jsDrop key r))"

section \<open>Goroutines\<close>

datatype js_cont =
    JsCaller
  | JsRetry js_pending
  | JsCloseFirst js_pending
  | JsOpenNext js_pending

datatype js_goroutine =
    JCalling js_payload nat js_cont
  | JWriting i32 nat js_payload js_cont
  | JSelecting i32 nat js_cont
  | JRetrying js_pending string
  | JAwaiting nat js_pending
  | JResending js_pending
  | JReplying nat wresult
  | JReturned wresult
  | JEnded

text \<open>The deferred end of \<open>recoverStream\<close>.\<close>

definition jsRecoverEnd :: "js_requests \<Rightarrow> js_requests" where
  "jsRecoverEnd r =
    (case jqRecovering r of
       None \<Rightarrow> r
     | Some d \<Rightarrow> r\<lparr>jqRecovering := None, jqDones := (jqDones r)[d := True]\<rparr>)"

text \<open>The rest of \<open>recoverStream\<close> once \<open>open_stream_assigned\<close> has its result.\<close>

definition jsAssigned :: "js_pending \<Rightarrow> wresult \<Rightarrow> js_requests \<Rightarrow> js_goroutine \<times> js_requests" where
  "jsAssigned p x r =
    (case x of
       Inl e \<Rightarrow> (JReplying (jpCh p) (Inl (CRecover e)), jsRecoverEnd r)
     | Inr j \<Rightarrow>
         (case readAssigned j of
            Inl e \<Rightarrow> (JReplying (jpCh p) (Inl e), jsRecoverEnd r)
          | Inr sid \<Rightarrow> (JResending p, jsRecoverEnd (r\<lparr>jqStream := sid\<rparr>))))"

fun jsResume :: "js_cont \<Rightarrow> wresult \<Rightarrow> js_requests \<Rightarrow> js_goroutine \<times> js_requests" where
  "jsResume JsCaller x r = (JReturned x, r)"
| "jsResume (JsRetry p) x r = (JReplying (jpCh p) x, r)"
| "jsResume (JsCloseFirst p) x r = (JCalling jsOpenAssigned 0 (JsOpenNext p), r)"
| "jsResume (JsOpenNext p) x r = jsAssigned p x r"

text \<open>\<open>retrySupersededRequest\<close> and the beginning of \<open>recoverStream\<close>, up to the first wait.\<close>

definition jsRecoverBegin :: "js_pending \<Rightarrow> js_requests \<Rightarrow> js_goroutine \<times> js_requests" where
  "jsRecoverBegin p r =
    (case jqRecovering r of
       Some d \<Rightarrow> (JAwaiting d p, r)
     | None \<Rightarrow>
         (JCalling (jsCloseStream (jqStream r)) 0 (JsCloseFirst p),
          r\<lparr>jqRecovering := Some (length (jqDones r)), jqDones := jqDones r @ [False]\<rparr>))"

definition jsRetryStart :: "js_pending \<Rightarrow> string \<Rightarrow> js_requests \<Rightarrow> js_goroutine \<times> js_requests" where
  "jsRetryStart p msg r =
    (if map_of (jpPayload p) ''stream_id'' = None
     then (JReplying (jpCh p) (Inl (CServerError msg)), r)
     else if jpRetries p \<ge> maxStreamRetries
     then (JReplying (jpCh p) (Inl (CServerError msg)), r)
     else jsRecoverBegin p r)"

definition jsResend :: "js_pending \<Rightarrow> js_requests \<Rightarrow> js_goroutine" where
  "jsResend p r =
    JCalling (AList.update ''stream_id'' (MInt32 (jqStream r)) (jpPayload p)) (jpRetries p + 1) (JsRetry p)"

definition jsSuperseded :: "i32 \<Rightarrow> string \<Rightarrow> js_requests \<Rightarrow> js_goroutine list \<times> js_requests" where
  "jsSuperseded key msg r =
    (case map_of (jqPending r) key of
       None \<Rightarrow> ([], r)
     | Some p \<Rightarrow> ([JRetrying p msg], jsDrop key r))"

text \<open>\<open>quit\<close> says which contexts end.\<close>

inductive js_go :: "(js_cont \<Rightarrow> bool) \<Rightarrow> js_requests \<Rightarrow> js_goroutine \<Rightarrow> js_requests \<Rightarrow> js_goroutine \<Rightarrow> bool"
  for quit :: "js_cont \<Rightarrow> bool" where
  refused: "jsRegister p n r = (Inl e, r1) \<Longrightarrow> jsResume k (Inl e) r1 = (g, r2) \<Longrightarrow>
    js_go quit r (JCalling p n k) r2 g"
| registered: "jsRegister p n r = (Inr (key, ch), r1) \<Longrightarrow>
    js_go quit r (JCalling p n k) r1 (JWriting key ch p k)"
| written: "js_go quit r (JWriting key ch p k) r (JSelecting key ch k)"
| unwritten: "jsResume k (Inl (CSend e)) (jsDrop key r) = (g, r1) \<Longrightarrow>
    js_go quit r (JWriting key ch p k) r1 g"
| received: "jqChans r ! ch = Some x \<Longrightarrow> jsResume k x (r\<lparr>jqChans := (jqChans r)[ch := None]\<rparr>) = (g, r1) \<Longrightarrow>
    js_go quit r (JSelecting key ch k) r1 g"
| cancelled: "quit k \<Longrightarrow> jsResume k (Inl CCancelled) (jsDrop key r) = (g, r1) \<Longrightarrow>
    js_go quit r (JSelecting key ch k) r1 g"
| retrying: "jsRetryStart p msg r = (g, r1) \<Longrightarrow> js_go quit r (JRetrying p msg) r1 g"
| awaited: "jqDones r ! d \<Longrightarrow> js_go quit r (JAwaiting d p) r (JResending p)"
| resending: "js_go quit r (JResending p) r (jsResend p r)"
| replying: "jqChans r ! ch = None \<Longrightarrow>
    js_go quit r (JReplying ch x) (r\<lparr>jqChans := (jqChans r)[ch := Some x]\<rparr>) JEnded"

inductive_simps js_go_simps:
  "js_go quit r (JCalling p n k) r1 g" "js_go quit r (JWriting key ch p k) r1 g"
  "js_go quit r (JSelecting key ch k) r1 g" "js_go quit r (JRetrying q msg) r1 g"
  "js_go quit r (JAwaiting d q) r1 g" "js_go quit r (JResending q) r1 g"
  "js_go quit r (JReplying ch x) r1 g" "js_go quit r (JReturned x) r1 g" "js_go quit r JEnded r1 g"

inductive_simps ws_go_simps:
  "go_step quit c (Calling p n k) c1 g" "go_step quit c (Writing key ch p k) c1 g"
  "go_step quit c (Selecting key ch k) c1 g" "go_step quit c (Retrying q msg) c1 g"
  "go_step quit c (Awaiting d q) c1 g" "go_step quit c (Resending q) c1 g"
  "go_step quit c (Replying ch x) c1 g" "go_step quit c (Returned x) c1 g" "go_step quit c Ended c1 g"

section \<open>The same steps\<close>

text \<open>A payload of \<open>WsClient\<close> as the map it stands for.\<close>

fun asMap :: "wpayload \<Rightarrow> js_payload" where
  "asMap (POpenStream i) = jsOpenStream i"
| "asMap (PExecute i s) = jsExecute i s"
| "asMap (PCloseStream i) = jsCloseStream i"
| "asMap POpenAssigned = jsOpenAssigned"

definition asPending :: "wpending \<Rightarrow> js_pending" where
  "asPending p = \<lparr>jpPayload = asMap (wpPayload p), jpCh = wpCh p, jpRetries = wpRetries p\<rparr>"

definition asRequests :: "wclient \<Rightarrow> js_requests" where
  "asRequests c =
    \<lparr>jqSeq = reqIDSeq c, jqPending = map (\<lambda>(k, p). (k, asPending p)) (wpendings c), jqClosed = wclosed c,
     jqCloseErr = closeErr c, jqStream = wstream c, jqRecovering = recovering c, jqChans = chans c, jqDones = dones c\<rparr>"

fun asCont :: "wcont \<Rightarrow> js_cont" where
  "asCont ToCaller = JsCaller"
| "asCont (ToRetry p) = JsRetry (asPending p)"
| "asCont (RecoverClose p) = JsCloseFirst (asPending p)"
| "asCont (RecoverOpen p) = JsOpenNext (asPending p)"

fun asGo :: "goroutine \<Rightarrow> js_goroutine" where
  "asGo (Calling p n k) = JCalling (asMap p) n (asCont k)"
| "asGo (Writing key ch p k) = JWriting key ch (asMap p) (asCont k)"
| "asGo (Selecting key ch k) = JSelecting key ch (asCont k)"
| "asGo (Retrying p msg) = JRetrying (asPending p) msg"
| "asGo (Awaiting d p) = JAwaiting d (asPending p)"
| "asGo (Resending p) = JResending (asPending p)"
| "asGo (Replying ch x) = JReplying ch x"
| "asGo (Returned x) = JReturned x"
| "asGo Ended = JEnded"

text \<open>The map decides what the datatype does, and the code's update is the datatype's.\<close>

lemma map_has_stream: "map_of (asMap p) ''stream_id'' = map_option MInt32 (streamIdOf p)"
  by (cases p) (simp_all add: jsOpenStream_def jsExecute_def jsCloseStream_def jsOpenAssigned_def)

lemma map_with_stream:
  "streamIdOf p \<noteq> None \<Longrightarrow> AList.update ''stream_id'' (MInt32 i) (asMap p) = asMap (withStreamId i p)"
  by (cases p) (simp_all add: jsOpenStream_def jsExecute_def jsCloseStream_def)

lemma update_map: "AList.update k (f v) (map (\<lambda>(k, v). (k, f v)) xs) = map (\<lambda>(k, v). (k, f v)) (AList.update k v xs)"
  by (induction xs) auto

lemma delete_map: "AList.delete k (map (\<lambda>(k, v). (k, f v)) xs) = map (\<lambda>(k, v). (k, f v)) (AList.delete k xs)"
  by (induction xs) (auto simp: AList.delete_eq)

lemma pending_entry: "map_of (jqPending (asRequests c)) key = map_option asPending (map_of (wpendings c) key)"
  by (simp add: asRequests_def map_of_map)

lemma asPending_simps [simp]:
  "jpPayload (asPending p) = asMap (wpPayload p)" "jpCh (asPending p) = wpCh p" "jpRetries (asPending p) = wpRetries p"
  by (simp_all add: asPending_def)

lemma register_same: "jsRegister (asMap p) n (asRequests c) = map_prod id asRequests (registerRequest p n c)"
  using update_map[of "reqIDSeq c + 1" asPending "\<lparr>wpPayload = p, wpCh = length (chans c), wpRetries = n\<rparr>" "wpendings c"]
  by (simp add: jsRegister_def registerRequest_def Let_def asRequests_def) (simp add: asPending_def)

lemma drop_same: "jsDrop key (asRequests c) = asRequests (dropRequest key c)"
  by (simp add: jsDrop_def dropRequest_def asRequests_def delete_map)

lemma recoverEnd_same: "jsRecoverEnd (asRequests c) = asRequests (recoverEnd c)"
  by (auto simp: jsRecoverEnd_def recoverEnd_def asRequests_def split: option.splits)

lemma stream_same: "asRequests c\<lparr>jqStream := i\<rparr> = asRequests (c\<lparr>wstream := i\<rparr>)"
  by (simp add: asRequests_def)

lemma resume_same: "jsResume (asCont k) x (asRequests c) = map_prod asGo asRequests (resume k x c)"
  by (cases k) (auto simp: jsAssigned_def recoverEnd_same stream_same split: sum.splits)

lemma retryStart_same: "jsRetryStart (asPending p) msg (asRequests c) = map_prod asGo asRequests (retryStart p msg c)"
  by (auto simp: jsRetryStart_def retryStart_def map_has_stream jsRecoverBegin_def asRequests_def split: option.splits)

lemma channels_same:
  "jqChans (asRequests c) = chans c" "jqDones (asRequests c) = dones c" "jqStream (asRequests c) = wstream c"
  "asRequests c\<lparr>jqChans := (chans c)[ch := Some x]\<rparr> = asRequests (sendTo ch x c)"
  "asRequests c\<lparr>jqChans := (chans c)[ch := None]\<rparr> = asRequests (receive ch c)"
  by (simp_all add: asRequests_def sendTo_def receive_def)

lemma dispatch_same:
  "jsDispatch key x (asRequests c)
    = (case dispatchResult key x c of (RSend ch y, c1) \<Rightarrow> (Some (ch, y), asRequests c1) | (_, c1) \<Rightarrow> (None, asRequests c1))"
  by (auto simp: jsDispatch_def dispatchResult_def pending_entry drop_same split: option.splits)

lemma superseded_same:
  "jsSuperseded key msg (asRequests c) = map_prod (map asGo) asRequests (handleStreamSuperseded key msg c)"
  by (auto simp: jsSuperseded_def handleStreamSuperseded_def pending_entry drop_same split: option.splits)


text \<open>A goroutine that recovers a stream has a request with one.\<close>

fun hasStream :: "wpending \<Rightarrow> bool" where
  "hasStream p \<longleftrightarrow> streamIdOf (wpPayload p) \<noteq> None"

fun keepsStream :: "wcont \<Rightarrow> bool" where
  "keepsStream (RecoverClose p) = hasStream p"
| "keepsStream (RecoverOpen p) = hasStream p"
| "keepsStream _ = True"

fun goKeeps :: "goroutine \<Rightarrow> bool" where
  "goKeeps (Calling p n k) = keepsStream k"
| "goKeeps (Writing key ch p k) = keepsStream k"
| "goKeeps (Selecting key ch k) = keepsStream k"
| "goKeeps (Awaiting d p) = hasStream p"
| "goKeeps (Resending p) = hasStream p"
| "goKeeps _ = True"

lemma resume_recovers: "resume k x c = (g, c1) \<Longrightarrow> keepsStream k \<Longrightarrow> goKeeps g"
  by (cases k) (auto split: sum.splits)

lemma go_recovers: "go_step quit c g c1 g1 \<Longrightarrow> goKeeps g \<Longrightarrow> goKeeps g1"
  by (induction rule: go_step.induct)
    (auto simp: retryStart_def dest: resume_recovers split: if_splits option.splits)

lemma resend_same: "hasStream p \<Longrightarrow> jsResend (asPending p) (asRequests c)
    = asGo (Calling (withStreamId (wstream c) (wpPayload p)) (wpRetries p + 1) (ToRetry p))"
  using map_with_stream by (simp add: jsResend_def channels_same)

lemma map_prod_pair: "map_prod f h p = (a, b) \<longleftrightarrow> (\<exists>x y. p = (x, y) \<and> a = f x \<and> b = h y)"
  by (cases p) auto

lemma js_same_steps:
  assumes "goKeeps g"
  shows "js_go quit (asRequests c) (asGo g) r h
    \<longleftrightarrow> (\<exists>c1 g1. go_step (quit \<circ> asCont) c g c1 g1 \<and> r = asRequests c1 \<and> h = asGo g1)"
proof (cases g)
  case (Calling p n k)
  obtain x c1 where x: "registerRequest p n c = (x, c1)" by (metis surj_pair)
  then show ?thesis using Calling
    by (cases x) (auto simp: js_go_simps ws_go_simps register_same resume_same map_prod_pair)
next
  case (Writing key ch p k)
  then show ?thesis
    by (auto simp: js_go_simps ws_go_simps resume_same map_prod_pair drop_same conj_disj_distribR ex_disj_distrib)
next
  case (Resending p)
  then show ?thesis using assms resend_same[of p c] by (auto simp: js_go_simps ws_go_simps)
qed (auto simp: js_go_simps ws_go_simps resume_same retryStart_same map_prod_pair channels_same drop_same canSend_def)


section \<open>The methods of the connections\<close>

text \<open>
  Each of the three connections has a \<open>BeginTx\<close>, an \<open>ExecContext\<close> and a \<open>QueryContext\<close> of its own,
  over its own \<open>execStatement\<close>.  They are one driver: the definitions of \<open>HttpClient\<close> are theirs too.
\<close>

definition wsBeginTx :: "'s executor \<Rightarrow> bool \<Rightarrow> 's \<Rightarrow> cl_error option \<times> 's" where
  "wsBeginTx execStmt readOnly st =
    (let sql = (if readOnly then ''BEGIN DEFERRED'' else ''BEGIN'') in
     case execStmt \<lparr>cSQL = sql, cArgs = [], cNamedArgs = [], cWantRows = False\<rparr> st of
       (Inl e, st') \<Rightarrow> (Some e, st')
     | (Inr _, st') \<Rightarrow> (None, st'))"

definition wsExecContext ::
  "'s executor \<Rightarrow> string \<Rightarrow> named_value list \<Rightarrow> 's \<Rightarrow> (cl_error + cstmt_result) \<times> 's" where
  "wsExecContext execStmt query args st =
    (case buildStmt query args False of
       Inl e \<Rightarrow> (Inl e, st)
     | Inr s \<Rightarrow>
         (case execStmt s st of
            (Inl e, st') \<Rightarrow> (Inl e, st')
          | (Inr r, st') \<Rightarrow> (Inr r, st')))"

definition wsQueryContext ::
  "'s executor \<Rightarrow> string \<Rightarrow> named_value list \<Rightarrow> 's \<Rightarrow> (cl_error + crows) \<times> 's" where
  "wsQueryContext execStmt query args st =
    (case buildStmt query args True of
       Inl e \<Rightarrow> (Inl e, st)
     | Inr s \<Rightarrow>
         (case execStmt s st of
            (Inl e, st') \<Rightarrow> (Inl e, st')
          | (Inr r, st') \<Rightarrow> (Inr (newRows r), st')))"

definition jsBeginTx :: "'s executor \<Rightarrow> bool \<Rightarrow> 's \<Rightarrow> cl_error option \<times> 's" where
  "jsBeginTx execStmt readOnly st =
    (let sql = (if readOnly then ''BEGIN DEFERRED'' else ''BEGIN'') in
     case execStmt \<lparr>cSQL = sql, cArgs = [], cNamedArgs = [], cWantRows = False\<rparr> st of
       (Inl e, st') \<Rightarrow> (Some e, st')
     | (Inr _, st') \<Rightarrow> (None, st'))"

definition jsExecContext ::
  "'s executor \<Rightarrow> string \<Rightarrow> named_value list \<Rightarrow> 's \<Rightarrow> (cl_error + cstmt_result) \<times> 's" where
  "jsExecContext execStmt query args st =
    (case buildStmt query args False of
       Inl e \<Rightarrow> (Inl e, st)
     | Inr s \<Rightarrow>
         (case execStmt s st of
            (Inl e, st') \<Rightarrow> (Inl e, st')
          | (Inr r, st') \<Rightarrow> (Inr r, st')))"

definition jsQueryContext ::
  "'s executor \<Rightarrow> string \<Rightarrow> named_value list \<Rightarrow> 's \<Rightarrow> (cl_error + crows) \<times> 's" where
  "jsQueryContext execStmt query args st =
    (case buildStmt query args True of
       Inl e \<Rightarrow> (Inl e, st)
     | Inr s \<Rightarrow>
         (case execStmt s st of
            (Inl e, st') \<Rightarrow> (Inl e, st')
          | (Inr r, st') \<Rightarrow> (Inr (newRows r), st')))"

lemma one_driver:
  "wsBeginTx = beginTx" "wsExecContext = execQuery" "wsQueryContext = queryRows"
  "jsBeginTx = beginTx" "jsExecContext = execQuery" "jsQueryContext = queryRows"
  by (simp_all add: fun_eq_iff wsBeginTx_def jsBeginTx_def beginTx_def runPlain_def plainStmt_def
      wsExecContext_def jsExecContext_def execQuery_def wsQueryContext_def jsQueryContext_def queryRows_def
      runArgs_def Let_def split: sum.splits prod.splits)

text \<open>\<open>openStream\<close> and \<open>execStatement\<close> of the browser, once their request has its result.\<close>

definition jsOpenResult :: "wresult \<Rightarrow> cl_error option" where
  "jsOpenResult x = (case x of Inl e \<Rightarrow> Some (COpenStream e) | Inr _ \<Rightarrow> None)"

definition jsExecResult :: "go_text \<Rightarrow> wresult \<Rightarrow> cl_error + cstmt_result" where
  "jsExecResult T x = (case x of Inl e \<Rightarrow> Inl e | Inr j \<Rightarrow> readExecuted T j)"

end
