(* ===== verification/Stresser.thy ===== *)
theory Stresser
  imports Blacklist HttpClient "HOL-Library.Multiset"
begin

text \<open>
  The statistics of the load generator, \<open>src/cmd/stresser/metrics.go\<close>: samples, the report
  over them and the table, CSV and JSON it is printed as.
\<close>

section \<open>Samples and statistics\<close>

record sample =
  smDsn :: string
  smLatency :: duration
  smErr :: "cl_error option"

text \<open>
  Queries per second: not finite for a duration of zero, and zero with a sign for none in a
  negative one.
\<close>

datatype rate = Rate flt | PosInf | NotANumber | NegZero

record target_stats =
  tsDsn :: string
  tsQueries :: nat
  tsErrors :: nat
  tsQps :: rate
  tsP50 :: duration
  tsP95 :: duration
  tsP99 :: duration
  tsMax :: duration

record stress_report =
  rtTargets :: "target_stats list"
  rtAggregate :: target_stats

text \<open>\<open>Duration.Seconds\<close>\<close>

definition inSeconds :: "duration \<Rightarrow> flt" where
  "inSeconds d =
    (let s = quotGo d second
     in addF (intF s) (divF (intF (d - s * second)) (intF 1000000000)))"

definition qps :: "nat \<Rightarrow> duration \<Rightarrow> rate" where
  "qps n d =
    (if mant (inSeconds d) = 0 then (if n = 0 then NotANumber else PosInf)
     else if n = 0 \<and> d < 0 then NegZero
     else Rate (divF (intF (int n)) (inSeconds d)))"

text \<open>The constants 0.50, 0.95 and 0.99, and an index that may be out of range.\<close>

definition p50F :: flt where "p50F = Flt 1 (-1)"
definition p95F :: flt where "p95F = Flt 4278419646001971 (-52)"
definition p99F :: flt where "p99F = Flt 4458563631096791 (-52)"

definition percentile :: "duration list \<Rightarrow> flt \<Rightarrow> duration option" where
  "percentile xs p =
    (let i = truncF (mulF (intF (int (length xs) - 1)) p)
     in if 0 \<le> i \<and> i < int (length xs) then Some (xs ! nat i) else None)"

text \<open>The percentiles of sorted latencies are filled in if there are any.\<close>

definition withLatencies :: "duration list \<Rightarrow> target_stats \<Rightarrow> target_stats option" where
  "withLatencies xs st =
    (if xs = [] then Some st
     else (case (percentile xs p50F, percentile xs p95F, percentile xs p99F) of
             (Some a, Some b, Some c) \<Rightarrow> Some (st\<lparr>tsP50 := a, tsP95 := b, tsP99 := c, tsMax := last xs\<rparr>)
           | _ \<Rightarrow> None))"

definition goodLatencies :: "sample list \<Rightarrow> duration list" where
  "goodLatencies ss = map smLatency (filter (\<lambda>s. smErr s = None) ss)"

definition computeStats :: "string \<Rightarrow> sample list \<Rightarrow> duration \<Rightarrow> target_stats option" where
  "computeStats dsn ss d =
    (let xs = goodLatencies ss; errs = length (filter (\<lambda>s. smErr s \<noteq> None) ss)
     in withLatencies (sort xs)
          \<lparr>tsDsn = dsn, tsQueries = length xs + errs, tsErrors = errs, tsQps = qps (length xs) d,
           tsP50 = 0, tsP95 = 0, tsP99 = 0, tsMax = 0\<rparr>)"

definition samplesOf :: "(string \<rightharpoonup> sample list) \<Rightarrow> string \<Rightarrow> sample list" where
  "samplesOf collected dsn = (case collected dsn of None \<Rightarrow> [] | Some ss \<Rightarrow> ss)"

definition buildReport :: "(string \<rightharpoonup> sample list) \<Rightarrow> string list \<Rightarrow> duration \<Rightarrow> stress_report option" where
  "buildReport collected dsns d =
    (case those (map (\<lambda>dsn. computeStats dsn (samplesOf collected dsn) d) dsns) of
       None \<Rightarrow> None
     | Some ts \<Rightarrow>
         (let q = sum_list (map tsQueries ts); e = sum_list (map tsErrors ts) in
          map_option (\<lambda>agg. \<lparr>rtTargets = ts, rtAggregate = agg\<rparr>)
            (withLatencies (sort (concat (map (\<lambda>dsn. goodLatencies (samplesOf collected dsn)) dsns)))
              \<lparr>tsDsn = ''TOTAL'', tsQueries = q, tsErrors = e, tsQps = qps (q - e) d,
               tsP50 = 0, tsP95 = 0, tsP99 = 0, tsMax = 0\<rparr>)))"

text \<open>The collector appends each sample to those of its target.\<close>

definition collect :: "(string \<rightharpoonup> sample list) \<Rightarrow> sample \<Rightarrow> (string \<rightharpoonup> sample list)" where
  "collect collected s = collected(smDsn s \<mapsto> samplesOf collected (smDsn s) @ [s])"

section \<open>Output\<close>

definition msFloat :: "duration \<Rightarrow> flt" where
  "msFloat d = divF (intF d) (intF 1000000)"

definition fmtLatency :: "duration \<Rightarrow> string" where
  "fmtLatency d =
    (if d = 0 then ''-''
     else if d < 1000000 then formatFixed 0 (divF (intF d) (intF 1000)) @ [CHR 0xC2, CHR 0xB5, CHR ''s'']
     else if d < 10 * 1000000 then formatFixed 1 (msFloat d) @ ''ms''
     else formatFixed 0 (msFloat d) @ ''ms'')"

text \<open>A slice beyond the text, or before it, is a panic.\<close>

definition truncateText :: "string \<Rightarrow> int \<Rightarrow> string option" where
  "truncateText s n =
    (if int (length s) \<le> n then Some s
     else if n < 3 then None else Some (take (nat (n - 3)) s @ ''...''))"

fun formatRate :: "nat \<Rightarrow> rate \<Rightarrow> string" where
  "formatRate k (Rate f) = formatFixed k f"
| "formatRate k PosInf = ''+Inf''"
| "formatRate k NotANumber = ''NaN''"
| "formatRate k NegZero = CHR ''-'' # formatFixed k (Flt 0 0)"

text \<open>A column is as wide as its number of runes.\<close>

function runeCount :: "string \<Rightarrow> nat" where
  "runeCount [] = 0"
| "runeCount (a # s) = Suc (runeCount (drop (max 1 (runeLen (a # s))) (a # s)))"
  by pat_completeness auto
termination by (relation "measure length") auto

definition padLeft :: "nat \<Rightarrow> string \<Rightarrow> string" where
  "padLeft n s = replicate (n - runeCount s) (CHR '' '') @ s"

definition padRight :: "nat \<Rightarrow> string \<Rightarrow> string" where
  "padRight n s = s @ replicate (n - runeCount s) (CHR '' '')"

definition colTarget :: nat where "colTarget = 35"

definition columns :: "string \<Rightarrow> string list \<Rightarrow> string" where
  "columns target cs =
    CHR '' '' # padRight colTarget target
      @ concat (map2 (\<lambda>n c. '' '' @ [CHR 0xE2, CHR 0x94, CHR 0x82] @ '' '' @ padLeft n c) [10, 8, 9, 9, 9, 9] cs)"

definition tableHeader :: string where
  "tableHeader = columns ''Target'' [''Queries'', ''Errors'', ''QPS'', ''p50'', ''p95'', ''p99'']"

definition tableRow :: "target_stats \<Rightarrow> string option" where
  "tableRow t =
    map_option (\<lambda>target.
        columns target
          [natDigits (tsQueries t), natDigits (tsErrors t), formatRate 0 (tsQps t),
           fmtLatency (tsP50 t), fmtLatency (tsP95 t), fmtLatency (tsP99 t)])
      (truncateText (tsDsn t) (int colTarget))"

definition csvRow :: "target_stats \<Rightarrow> string list" where
  "csvRow t =
    [tsDsn t, natDigits (tsQueries t), natDigits (tsErrors t), formatRate 2 (tsQps t)]
    @ map (formatFixed 3 \<circ> msFloat) [tsP50 t, tsP95 t, tsP99 t, tsMax t]"

definition csvRows :: "stress_report \<Rightarrow> string list list" where
  "csvRows r =
    [''target'', ''queries'', ''errors'', ''qps'', ''p50_ms'', ''p95_ms'', ''p99_ms'', ''max_ms'']
    # map csvRow (rtTargets r)
    @ (if length (rtTargets r) > 1 then [csvRow (rtAggregate r)] else [])"

text \<open>
  The rows of the table between its separators, and the JSON document.  The encoder refuses a
  number that is not finite, and then nothing is printed; \<open>showF\<close> is its rendering of floats.
\<close>

definition tableRows :: "stress_report \<Rightarrow> string list option" where
  "tableRows r =
    map_option (\<lambda>rows. tableHeader # rows)
      (those (map tableRow (rtTargets r @ (if length (rtTargets r) > 1 then [rtAggregate r] else []))))"

fun jsonRate :: "(flt \<Rightarrow> string) \<Rightarrow> rate \<Rightarrow> string option" where
  "jsonRate showF (Rate f) = Some (showF f)"
| "jsonRate showF NegZero = Some ''-0''"
| "jsonRate showF _ = None"

definition jsonTarget :: "(flt \<Rightarrow> string) \<Rightarrow> target_stats \<Rightarrow> json option" where
  "jsonTarget showF t =
    map_option (\<lambda>q. JObj
        [(''dsn'', jStr (tsDsn t)), (''queries'', JNum (natDigits (tsQueries t))),
         (''errors'', JNum (natDigits (tsErrors t))), (''qps'', JNum q),
         (''p50_ms'', JNum (showF (msFloat (tsP50 t)))), (''p95_ms'', JNum (showF (msFloat (tsP95 t)))),
         (''p99_ms'', JNum (showF (msFloat (tsP99 t)))), (''max_ms'', JNum (showF (msFloat (tsMax t))))])
      (jsonRate showF (tsQps t))"

definition printJSON :: "(flt \<Rightarrow> string) \<Rightarrow> stress_report \<Rightarrow> string \<Rightarrow> int \<Rightarrow> json option" where
  "printJSON showF r label workers =
    (case (those (map (jsonTarget showF) (rtTargets r)), jsonTarget showF (rtAggregate r)) of
       (Some ts, Some a) \<Rightarrow>
         Some (JObj
           [(''workload'', jStr label), (''workers_per_target'', JNum (formatInt workers)),
            (''targets'', JArr ts), (''aggregate'', a)])
     | _ \<Rightarrow> None)"

section \<open>The percentiles\<close>

lemma rank_floor:
  assumes k: "k < 2 ^ 45"
  shows "truncF (mulF (intF (int k)) p50F) = int (k div 2)"
    and "truncF (mulF (intF (int k)) p95F) = int (19 * k div 20)"
    and "truncF (mulF (intF (int k)) p99F) = int (99 * k div 100)"
proof -
  have k53: "k < 2 ^ 53" using k by (rule less_le_trans) simp
  then have b: "bitLength k \<le> 53" by (simp only: bitLength_bound)
  have "intF (int k) = Flt (int k) 0" using k53 by (intro intF_exact) simp
  then have "mulF (intF (int k)) p50F = Flt (int k) (-1)"
    using b mulF_nat[of k 1 "-1"] by (simp only: p50F_def roundF_nat of_nat_1 mult_1_right if_True)
  then show "truncF (mulF (intF (int k)) p50F) = int (k div 2)" by (simp add: zdiv_int zsgn_def)
  have "truncF (mulF (intF (int k)) (Flt (int 4278419646001971) (-52))) = int (19 * k div 20)"
    by (rule product_floor[where e = 4]) (use k in simp_all)
  then show "truncF (mulF (intF (int k)) p95F) = int (19 * k div 20)" by (simp only: p95F_def of_nat_numeral)
  have "truncF (mulF (intF (int k)) (Flt (int 4458563631096791) (-52))) = int (99 * k div 100)"
    by (rule product_floor[where e = 4]) (use k in simp_all)
  then show "truncF (mulF (intF (int k)) p99F) = int (99 * k div 100)" by (simp only: p99F_def of_nat_numeral)
qed

lemma percentile_exact:
  assumes "xs \<noteq> []" and "length xs \<le> 2 ^ 45"
  shows "percentile xs p50F = Some (xs ! ((length xs - 1) div 2))"
    and "percentile xs p95F = Some (xs ! (19 * (length xs - 1) div 20))"
    and "percentile xs p99F = Some (xs ! (99 * (length xs - 1) div 100))"
proof -
  obtain k where k: "length xs = Suc k" using assms(1) by (cases xs) simp_all
  then have "k < 2 ^ 45" using assms(2) by simp
  note floor = rank_floor[OF this]
  have i: "int (length xs) - 1 = int k" "length xs - 1 = k" by (simp_all add: k)
  have in_range: "percentile xs p = Some (xs ! j)" if "truncF (mulF (intF (int k)) p) = int j" "j \<le> k" for p j
    unfolding percentile_def i that(1) Let_def using that(2) k by simp
  show "percentile xs p50F = Some (xs ! ((length xs - 1) div 2))"
    and "percentile xs p95F = Some (xs ! (19 * (length xs - 1) div 20))"
    and "percentile xs p99F = Some (xs ! (99 * (length xs - 1) div 100))"
    unfolding i by (rule in_range[OF floor(1)], linarith, rule in_range[OF floor(2)], linarith, rule in_range[OF floor(3)], linarith)
qed

section \<open>The report\<close>

text \<open>The statistics of sorted latencies by rank, in integers.\<close>

definition ranked :: "duration list \<Rightarrow> target_stats \<Rightarrow> target_stats" where
  "ranked xs st =
    (if xs = [] then st
     else (let n = length xs - 1 in
           st\<lparr>tsP50 := xs ! (n div 2), tsP95 := xs ! (19 * n div 20), tsP99 := xs ! (99 * n div 100),
              tsMax := xs ! n\<rparr>))"

lemma withLatencies_ranked: "length xs \<le> 2 ^ 45 \<Longrightarrow> withLatencies xs st = Some (ranked xs st)"
  by (cases "xs = []") (simp_all add: withLatencies_def ranked_def percentile_exact last_conv_nth Let_def)

lemma ranked_counts [simp]:
  "tsDsn (ranked xs st) = tsDsn st" "tsQueries (ranked xs st) = tsQueries st" "tsErrors (ranked xs st) = tsErrors st"
  by (simp_all add: ranked_def Let_def)

lemma ranked_idem [simp]: "ranked xs (ranked xs st) = ranked xs st"
  by (simp add: ranked_def Let_def)

lemma samplesOf_collect:
  "samplesOf (foldl collect m ss) dsn = samplesOf m dsn @ filter (\<lambda>s. smDsn s = dsn) ss"
  by (induction ss arbitrary: m) (simp_all add: collect_def samplesOf_def split: option.splits)

lemma mset_by_key:
  assumes "distinct ks"
  shows "mset (concat (map (\<lambda>k. filter (\<lambda>s. f s = k) ss) ks)) = mset (filter (\<lambda>s. f s \<in> set ks) ss)"
  using assms
proof (induction ks)
  case (Cons k ks)
  have "mset (filter (\<lambda>s. f s = k) xs) + mset (filter (\<lambda>s. f s \<in> set ks) xs)
      = mset (filter (\<lambda>s. f s \<in> set (k # ks)) xs)" for xs
    using Cons.prems by (induction xs) auto
  then show ?case using Cons by simp
qed simp

lemma goodLatencies_append [simp]: "goodLatencies (xs @ ys) = goodLatencies xs @ goodLatencies ys"
  by (simp add: goodLatencies_def)

lemma goodLatencies_concat: "concat (map (\<lambda>k. goodLatencies (f k)) ks) = goodLatencies (concat (map f ks))"
  by (induction ks) (simp_all add: goodLatencies_def)

lemma good_and_bad: "length (goodLatencies ss) + length (filter (\<lambda>s. smErr s \<noteq> None) ss) = length ss"
  by (induction ss) (auto simp: goodLatencies_def)

text \<open>
  Targets given twice: their samples are collected under one name and counted for each.  And
  without a duration there is no rate, which the JSON encoder refuses.
\<close>

lemma withLatencies_keeps:
  assumes "withLatencies xs st = Some st'"
  shows "tsQueries st' = tsQueries st \<and> tsQps st' = tsQps st"
  using assms by (auto simp: withLatencies_def split: if_splits option.splits)

lemma repeated_target:
  assumes "buildReport collected [dsn, dsn] d = Some r"
  shows "tsQueries (rtAggregate r) = 2 * length (samplesOf collected dsn)"
proof -
  let ?st = "computeStats dsn (samplesOf collected dsn) d"
  obtain t where t: "?st = Some t" using assms by (cases ?st) (simp_all add: buildReport_def)
  then have "tsQueries t = length (samplesOf collected dsn)"
    using withLatencies_keeps good_and_bad[of "samplesOf collected dsn"] by (fastforce simp: computeStats_def Let_def)
  moreover have "tsQueries (rtAggregate r) = tsQueries t + tsQueries t"
    using assms withLatencies_keeps by (fastforce simp: buildReport_def t Let_def)
  ultimately show ?thesis by simp
qed

lemma report_without_duration:
  assumes "buildReport collected dsns 0 = Some r"
  shows "printJSON showF r label k = None"
proof -
  have "mant (divF (Flt 0 0) y) = 0" for y by (cases y) (simp add: roundF_def Let_def)
  then obtain f where "divF (Flt 0 0) (intF 1000000000) = Flt 0 f" by (metis flt.exhaust_sel)
  then have z: "mant (inSeconds 0) = 0" by (simp add: inSeconds_def quotGo_def intF_exact roundF_def)
  obtain xs st where "withLatencies xs st = Some (rtAggregate r)" "tsQps st \<in> {NotANumber, PosInf}"
    using assms by (auto simp: buildReport_def Let_def qps_def z split: option.splits if_splits)
  then have "tsQps (rtAggregate r) \<in> {NotANumber, PosInf}" using withLatencies_keeps by metis
  then have "jsonTarget showF (rtAggregate r) = None" by (auto simp: jsonTarget_def)
  then show ?thesis by (simp add: printJSON_def split: option.splits)
qed

text \<open>
  The workers send their samples into one channel, in whatever order they come to it: the
  report is the same for every order.
\<close>

lemma sort_order: "mset xs = mset ys \<Longrightarrow> sort xs = sort ys" for xs :: "duration list"
  by (rule properties_for_sort) simp_all

lemma computeStats_order: "mset xs = mset ys \<Longrightarrow> computeStats dsn xs d = computeStats dsn ys d"
proof -
  assume m: "mset xs = mset ys"
  then have "mset (goodLatencies xs) = mset (goodLatencies ys)" by (simp add: goodLatencies_def)
  then have "sort (goodLatencies xs) = sort (goodLatencies ys)" "length (goodLatencies xs) = length (goodLatencies ys)"
    by (rule sort_order, rule mset_eq_length)
  moreover have "length (filter (\<lambda>s. smErr s \<noteq> None) xs) = length (filter (\<lambda>s. smErr s \<noteq> None) ys)"
    using m by (metis mset_filter size_mset)
  ultimately show ?thesis by (simp add: computeStats_def Let_def)
qed

lemma report_order:
  assumes m: "mset xs = mset ys"
  shows "buildReport (foldl collect Map.empty xs) dsns d = buildReport (foldl collect Map.empty ys) dsns d"
proof -
  have of: "mset (samplesOf (foldl collect Map.empty xs) dsn) = mset (samplesOf (foldl collect Map.empty ys) dsn)" for dsn
    using m by (simp only: samplesOf_collect) (simp add: samplesOf_def)
  have "mset (concat (map (\<lambda>dsn. goodLatencies (samplesOf (foldl collect Map.empty xs) dsn)) dsns))
      = mset (concat (map (\<lambda>dsn. goodLatencies (samplesOf (foldl collect Map.empty ys) dsn)) dsns))"
    using of by (simp add: mset_concat goodLatencies_def comp_def)
  note lat = sort_order[OF this]
  show ?thesis by (simp only: buildReport_def computeStats_order[OF of] lat)
qed

lemma report_counts:
  assumes "distinct dsns" and "\<forall>s \<in> set ss. smDsn s \<in> set dsns" and "length ss \<le> 2 ^ 45"
  shows "\<exists>ts agg. buildReport (foldl collect Map.empty ss) dsns d = Some \<lparr>rtTargets = ts, rtAggregate = agg\<rparr>
    \<and> map tsDsn ts = dsns
    \<and> map tsQueries ts = map (\<lambda>dsn. length (filter (\<lambda>s. smDsn s = dsn) ss)) dsns
    \<and> tsQueries agg = length ss \<and> tsErrors agg = length (filter (\<lambda>s. smErr s \<noteq> None) ss)
    \<and> agg = ranked (sort (goodLatencies ss)) agg"
proof -
  let ?of = "\<lambda>dsn. filter (\<lambda>s. smDsn s = dsn) ss" and ?bad = "filter (\<lambda>s. smErr s \<noteq> None)"
  define st where "st = (\<lambda>dsn. ranked (sort (goodLatencies (?of dsn)))
      \<lparr>tsDsn = dsn, tsQueries = length (?of dsn), tsErrors = length (?bad (?of dsn)),
       tsQps = qps (length (goodLatencies (?of dsn))) d, tsP50 = 0, tsP95 = 0, tsP99 = 0, tsMax = 0\<rparr>)"
  have small: "length (goodLatencies xs) \<le> length xs" for xs
    using good_and_bad[of xs] by simp
  have sent: "samplesOf (foldl collect Map.empty ss) dsn = ?of dsn" for dsn
    by (simp only: samplesOf_collect) (simp add: samplesOf_def)
  have each: "computeStats dsn (samplesOf (foldl collect Map.empty ss) dsn) d = Some (st dsn)" for dsn
  proof -
    have "length (?of dsn) \<le> length ss" by (rule length_filter_le)
    then have "length (goodLatencies (?of dsn)) \<le> 2 ^ 45" using small[of "?of dsn"] assms(3) by linarith
    then show ?thesis
      using good_and_bad[of "?of dsn"]
      by (simp add: computeStats_def sent Let_def withLatencies_ranked st_def)
  qed
  have ts: "those (map (\<lambda>dsn. computeStats dsn (samplesOf (foldl collect Map.empty ss) dsn) d) dsns) = Some (map st dsns)"
    unfolding each by (induction dsns) simp_all
  have all: "mset (concat (map ?of dsns)) = mset ss"
    using assms(1,2) by (simp only: mset_by_key) (simp cong: filter_cong)
  have bad: "length (?bad (concat (map ?of dsns))) = length (?bad ss)"
    using all by (metis mset_filter size_mset)
  have counts: "sum_list (map tsQueries (map st dsns)) = length ss" "sum_list (map tsErrors (map st dsns)) = length (?bad ss)"
  proof -
    have "sum_list (map tsQueries (map st dsns)) = length (concat (map ?of dsns))"
      by (simp add: st_def length_concat comp_def)
    then show "sum_list (map tsQueries (map st dsns)) = length ss" using all by (metis size_mset)
    have "sum_list (map tsErrors (map st dsns)) = length (?bad (concat (map ?of dsns)))"
      by (simp add: st_def length_concat filter_concat comp_def)
    then show "sum_list (map tsErrors (map st dsns)) = length (?bad ss)" using bad by simp
  qed
  have "mset (goodLatencies (concat (map ?of dsns))) = mset (goodLatencies ss)"
    using all by (simp add: goodLatencies_def)
  then have lat: "sort (concat (map (\<lambda>dsn. goodLatencies (samplesOf (foldl collect Map.empty ss) dsn)) dsns)) = sort (goodLatencies ss)"
    by (simp add: sent goodLatencies_concat properties_for_sort)
  have len: "length (sort (goodLatencies ss)) \<le> 2 ^ 45" using small[of ss] assms(3) by simp
  show ?thesis
  proof (intro exI conjI)
    let ?b = "\<lparr>tsDsn = ''TOTAL'', tsQueries = length ss, tsErrors = length (?bad ss),
       tsQps = qps (length ss - length (?bad ss)) d, tsP50 = 0, tsP95 = 0, tsP99 = 0, tsMax = 0\<rparr>"
    let ?agg = "ranked (sort (goodLatencies ss)) ?b"
    show "buildReport (foldl collect Map.empty ss) dsns d = Some \<lparr>rtTargets = map st dsns, rtAggregate = ?agg\<rparr>"
      unfolding buildReport_def ts lat option.case Let_def counts withLatencies_ranked[OF len] by simp
    show "map tsDsn (map st dsns) = dsns" "map tsQueries (map st dsns) = map (\<lambda>dsn. length (?of dsn)) dsns"
      by (simp_all add: st_def comp_def)
    show "tsQueries ?agg = length ss" "tsErrors ?agg = length (?bad ss)" by simp_all
    show "?agg = ranked (sort (goodLatencies ss)) ?agg" by (simp only: ranked_idem)
  qed
qed

text \<open>
  The report over what the workers sent, with targets that differ: never an index out of
  range, one entry for each target with its own samples, all samples counted once in the total,
  and the percentiles computed in floating point are those of the integer ranks.
\<close>

theorem report_exact:
  assumes "distinct dsns" and "\<forall>s \<in> set ss. smDsn s \<in> set dsns" and "length ss \<le> 2 ^ 45"
  shows "\<exists>ts agg. buildReport (foldl collect Map.empty ss) dsns d = Some \<lparr>rtTargets = ts, rtAggregate = agg\<rparr>
    \<and> map tsDsn ts = dsns
    \<and> map tsQueries ts = map (\<lambda>dsn. length (filter (\<lambda>s. smDsn s = dsn) ss)) dsns
    \<and> tsQueries agg = length ss \<and> tsErrors agg = length (filter (\<lambda>s. smErr s \<noteq> None) ss)
    \<and> agg = ranked (sort (goodLatencies ss)) agg"
  by (rule report_counts[OF assms])

theorem report_exact_witness:
  "\<exists>ts agg. buildReport (foldl collect Map.empty
       [\<lparr>smDsn = ''a'', smLatency = 7, smErr = None\<rparr>, \<lparr>smDsn = ''b'', smLatency = 3, smErr = None\<rparr>,
        \<lparr>smDsn = ''a'', smLatency = 5, smErr = Some CConnClosed\<rparr>]) [''a'', ''b''] second
     = Some \<lparr>rtTargets = ts, rtAggregate = agg\<rparr>
    \<and> map tsQueries ts = [2, 1] \<and> tsQueries agg = 3 \<and> tsErrors agg = 1 \<and> tsP50 agg = 3 \<and> tsMax agg = 7"
proof -
  let ?ss = "[\<lparr>smDsn = ''a'', smLatency = 7, smErr = None\<rparr>, \<lparr>smDsn = ''b'', smLatency = 3, smErr = None\<rparr>,
        \<lparr>smDsn = ''a'', smLatency = 5, smErr = Some CConnClosed\<rparr>] :: sample list"
  have "distinct [''a'', ''b'']" "\<forall>s \<in> set ?ss. smDsn s \<in> set [''a'', ''b'']" "length ?ss \<le> 2 ^ 45" by simp_all
  from report_exact[OF this, of second] obtain ts agg where
    r: "buildReport (foldl collect Map.empty ?ss) [''a'', ''b''] second = Some \<lparr>rtTargets = ts, rtAggregate = agg\<rparr>"
      "map tsQueries ts = map (\<lambda>dsn. length (filter (\<lambda>s. smDsn s = dsn) ?ss)) [''a'', ''b'']"
      "tsQueries agg = length ?ss" "tsErrors agg = length (filter (\<lambda>s. smErr s \<noteq> None) ?ss)"
    and a: "agg = ranked (sort (goodLatencies ?ss)) agg"
    by blast
  have "sort (goodLatencies ?ss) = [3, 7]" by (simp add: goodLatencies_def)
  with a have a': "agg = agg\<lparr>tsP50 := 3, tsP95 := 3, tsP99 := 3, tsMax := 7\<rparr>"
    by (simp add: ranked_def Let_def)
  have "tsP50 agg = 3" "tsMax agg = 7" by (subst a', simp)+
  with r show ?thesis by simp
qed

end
