(* ===== verification/StressRun.thy ===== *)
theory StressRun
  imports Stresser "HOL-Library.Sublist"
begin

text \<open>
  What the load generator runs, \<open>schema.go\<close>, \<open>workload.go\<close> and \<open>main.go\<close> of
  \<open>src/cmd/stresser\<close>: the table with its rows, the workloads, the workers and the flags.
  Everything goes through an executor of the client, as \<open>database/sql\<close> hands it on; the
  contexts that end a run are in the list of what a worker meets.
\<close>

section \<open>Schema\<close>

definition execDone :: "(cl_error + 'a) \<times> 's \<Rightarrow> cl_error option \<times> 's" where
  "execDone x = (case x of (Inl e, st) \<Rightarrow> (Some e, st) | (Inr _, st) \<Rightarrow> (None, st))"

definition newline :: string where "newline = [CHR 0x0A]"

definition createTableSQL :: string where
  "createTableSQL =
    newline @ ''CREATE TABLE IF NOT EXISTS stress_kv ('' @ newline
    @ ''    id  INTEGER PRIMARY KEY,'' @ newline
    @ ''    val TEXT    NOT NULL'' @ newline @ '')''"

definition setupSchema :: "'s executor \<Rightarrow> 's \<Rightarrow> cl_error option \<times> 's" where
  "setupSchema run st = execDone (execQuery run createTableSQL [] st)"

definition teardownSchema :: "'s executor \<Rightarrow> 's \<Rightarrow> cl_error option \<times> 's" where
  "teardownSchema run st = execDone (execQuery run ''DROP TABLE IF EXISTS stress_kv'' [] st)"

definition insertSQL :: string where
  "insertSQL = ''INSERT OR IGNORE INTO stress_kv(id, val) VALUES (?, ?)''"

definition seedInsert :: "'s executor \<Rightarrow> int \<Rightarrow> 's \<Rightarrow> cl_error option \<times> 's" where
  "seedInsert run i st =
    execDone (preparedExec run insertSQL
      [DInt64 (word_of_int i), DString (''seed-'' @ formatInt i)] st)"

text \<open>A failure inside a transaction rolls it back; the error of the rollback is dropped.\<close>

definition abandon :: "'s executor \<Rightarrow> cl_error \<Rightarrow> 's \<Rightarrow> cl_error option \<times> 's" where
  "abandon run e st = (Some e, snd (rollbackTx run st))"

fun seedRows :: "'s executor \<Rightarrow> int list \<Rightarrow> 's \<Rightarrow> cl_error option \<times> 's" where
  "seedRows run [] st = commitTx run st"
| "seedRows run (i # is) st =
    (case seedInsert run i st of
       (Some e, st1) \<Rightarrow> abandon run e st1
     | (None, st1) \<Rightarrow> seedRows run is st1)"

definition seedBatch :: "'s executor \<Rightarrow> int \<Rightarrow> int \<Rightarrow> 's \<Rightarrow> cl_error option \<times> 's" where
  "seedBatch run lo hi st =
    (case beginTx run False st of
       (Some e, st1) \<Rightarrow> (Some e, st1)
     | (None, st1) \<Rightarrow> seedRows run [lo..hi] st1)"

definition batchSize :: int where "batchSize = 500"

function seedFrom :: "'s executor \<Rightarrow> int \<Rightarrow> int \<Rightarrow> 's \<Rightarrow> cl_error option \<times> 's" where
  "seedFrom run start rows st =
    (if start \<le> rows
     then (case seedBatch run start (min (start + batchSize - 1) rows) st of
             (Some e, st1) \<Rightarrow> (Some e, st1)
           | (None, st1) \<Rightarrow> seedFrom run (start + batchSize) rows st1)
     else (None, st))"
  by pat_completeness auto
termination by (relation "measure (\<lambda>(run, start, rows, st). nat (rows + 1 - start))") (auto simp: batchSize_def)

declare seedFrom.simps [simp del]

definition seedSchema :: "'s executor \<Rightarrow> int \<Rightarrow> 's \<Rightarrow> cl_error option \<times> 's" where
  "seedSchema run rows st = seedFrom run 1 rows st"

definition needsSeed :: "string \<Rightarrow> bool" where
  "needsSeed w \<longleftrightarrow> w \<in> set [''read'', ''mixed'', ''tx'']"

definition needsRows :: "string \<Rightarrow> bool" where
  "needsRows w \<longleftrightarrow> w \<in> set [''read'', ''write'', ''mixed'', ''tx'']"

section \<open>Workloads\<close>

record workload_cfg =
  wlRows :: int
  wlReadRatio :: flt

text \<open>\<open>IntN\<close> and \<open>Float64\<close> of a source of random numbers; \<open>IntN\<close> panics for nothing to choose from.\<close>

record 'g rng_ops =
  rngIntN :: "int \<Rightarrow> 'g \<Rightarrow> nat \<times> 'g"
  rngFloat64 :: "'g \<Rightarrow> flt \<times> 'g"

datatype outcome = Done "cl_error option" | Panic

type_synonym ('s, 'g) workload = "'s \<Rightarrow> 'g \<Rightarrow> outcome \<times> 's \<times> 'g"

definition pickId :: "'g rng_ops \<Rightarrow> workload_cfg \<Rightarrow> 'g \<Rightarrow> (int \<times> 'g) option" where
  "pickId R cfg g =
    (if wlRows cfg \<le> 0 then None
     else (case rngIntN R (wlRows cfg) g of (k, g1) \<Rightarrow> Some (int k + 1, g1)))"

definition randChars :: string where
  "randChars = ''abcdefghijklmnopqrstuvwxyzABCDEFGHIJKLMNOPQRSTUVWXYZ0123456789''"

fun randString :: "'g rng_ops \<Rightarrow> nat \<Rightarrow> 'g \<Rightarrow> string \<times> 'g" where
  "randString R 0 g = ([], g)"
| "randString R (Suc n) g =
    (case rngIntN R (int (length randChars)) g of
       (k, g1) \<Rightarrow> (case randString R n g1 of (s, g2) \<Rightarrow> (randChars ! k # s, g2)))"

text \<open>The loop over the rows, each read into a slice as wide as the columns.\<close>

function drainRows :: "crows \<Rightarrow> bool" where
  "drainRows r =
    (case rowsNext r (replicate (length (rowsColumns r)) DNil) of
       (EndOfRows, _) \<Rightarrow> True
     | (IndexPanic, _) \<Rightarrow> False
     | (NextRow _, r') \<Rightarrow> drainRows r')"
  by pat_completeness auto
termination
  by (relation "measure (\<lambda>r. length (cRows (rwResult r)) - rwPos r)")
     (auto simp: rowsNext_def Let_def split: if_splits)

declare drainRows.simps [simp del]

definition queryAll :: "'s executor \<Rightarrow> string \<Rightarrow> driver_value list \<Rightarrow> 's \<Rightarrow> outcome \<times> 's" where
  "queryAll run sql vals st =
    (case queryRows run sql (valuesToNamedValues vals) st of
       (Inl e, st1) \<Rightarrow> (Done (Some e), st1)
     | (Inr r, st1) \<Rightarrow> (if drainRows r then Done None else Panic, st1))"

definition execArgs :: "'s executor \<Rightarrow> string \<Rightarrow> driver_value list \<Rightarrow> 's \<Rightarrow> cl_error option \<times> 's" where
  "execArgs run sql vals st = execDone (execQuery run sql (valuesToNamedValues vals) st)"

definition workloadPing :: "'s executor \<Rightarrow> ('s, 'g) workload" where
  "workloadPing run st g = (case queryAll run ''SELECT 1'' [] st of (x, st1) \<Rightarrow> (x, st1, g))"

definition workloadRead :: "'s executor \<Rightarrow> 'g rng_ops \<Rightarrow> workload_cfg \<Rightarrow> ('s, 'g) workload" where
  "workloadRead run R cfg st g =
    (case pickId R cfg g of
       None \<Rightarrow> (Panic, st, g)
     | Some (i, g1) \<Rightarrow>
         (case queryAll run ''SELECT val FROM stress_kv WHERE id = ?'' [DInt64 (word_of_int i)] st of
            (x, st1) \<Rightarrow> (x, st1, g1)))"

definition upsertSQL :: string where
  "upsertSQL = ''INSERT INTO stress_kv(id, val) VALUES (?, ?)'' @ newline @ [CHR 0x09, CHR 0x09]
    @ '' ON CONFLICT(id) DO UPDATE SET val = excluded.val''"

definition workloadWrite :: "'s executor \<Rightarrow> 'g rng_ops \<Rightarrow> workload_cfg \<Rightarrow> ('s, 'g) workload" where
  "workloadWrite run R cfg st g =
    (case pickId R cfg g of
       None \<Rightarrow> (Panic, st, g)
     | Some (i, g1) \<Rightarrow>
         (case randString R 16 g1 of
            (v, g2) \<Rightarrow>
              (case execArgs run upsertSQL [DInt64 (word_of_int i), DString v] st of
                 (e, st1) \<Rightarrow> (Done e, st1, g2))))"

definition workloadMixed :: "'s executor \<Rightarrow> 'g rng_ops \<Rightarrow> workload_cfg \<Rightarrow> ('s, 'g) workload" where
  "workloadMixed run R cfg st g =
    (case rngFloat64 R g of
       (x, g1) \<Rightarrow>
         (if lessF x (wlReadRatio cfg) then workloadRead run R cfg st g1 else workloadWrite run R cfg st g1))"

definition rollback :: "'s executor \<Rightarrow> cl_error \<Rightarrow> 's \<Rightarrow> outcome \<times> 's" where
  "rollback run e st = (case abandon run e st of (r, st1) \<Rightarrow> (Done r, st1))"

definition txSteps :: "'s executor \<Rightarrow> int \<Rightarrow> string \<Rightarrow> 's \<Rightarrow> outcome \<times> 's" where
  "txSteps run i v st =
    (case beginTx run False st of
       (Some e, st1) \<Rightarrow> (Done (Some e), st1)
     | (None, st1) \<Rightarrow>
         (case execArgs run ''UPDATE stress_kv SET val = ? WHERE id = ?'' [DString v, DInt64 (word_of_int i)] st1 of
            (Some e, st2) \<Rightarrow> rollback run e st2
          | (None, st2) \<Rightarrow>
              (case queryAll run ''SELECT val FROM stress_kv WHERE id = ?'' [DInt64 (word_of_int i)] st2 of
                 (Panic, st3) \<Rightarrow> (Panic, st3)
               | (Done (Some e), st3) \<Rightarrow> rollback run e st3
               | (Done None, st3) \<Rightarrow> (case commitTx run st3 of (e, st4) \<Rightarrow> (Done e, st4)))))"

definition workloadTx :: "'s executor \<Rightarrow> 'g rng_ops \<Rightarrow> workload_cfg \<Rightarrow> ('s, 'g) workload" where
  "workloadTx run R cfg st g =
    (case pickId R cfg g of
       None \<Rightarrow> (Panic, st, g)
     | Some (i, g1) \<Rightarrow>
         (case randString R 16 g1 of (v, g2) \<Rightarrow> (case txSteps run i v st of (x, st1) \<Rightarrow> (x, st1, g2))))"

definition resolveWorkload ::
  "'s executor \<Rightarrow> 'g rng_ops \<Rightarrow> workload_cfg \<Rightarrow> string \<Rightarrow> ('s, 'g) workload option" where
  "resolveWorkload run R cfg name =
    (if name = ''ping'' then Some (workloadPing run)
     else if name = ''read'' then Some (workloadRead run R cfg)
     else if name = ''write'' then Some (workloadWrite run R cfg)
     else if name = ''mixed'' then Some (workloadMixed run R cfg)
     else if name = ''tx'' then Some (workloadTx run R cfg)
     else None)"

section \<open>Workers\<close>

text \<open>
  What a worker meets in one turn of its loop: whether the context has ended before the query,
  the time the query took, whether the context has ended after it, whether the warm-up is over,
  and whether the context ends during the pause.
\<close>

record turn =
  tnEnded :: bool
  tnElapsed :: duration
  tnEndedAfter :: bool
  tnWarm :: bool
  tnEndedPause :: bool

datatype worker_end = Returned | StillRunning | Crashed

fun runWorker ::
  "('s, 'g) workload \<Rightarrow> string \<Rightarrow> duration \<Rightarrow> turn list \<Rightarrow> 's \<Rightarrow> 'g \<Rightarrow> sample list \<times> worker_end \<times> 's \<times> 'g" where
  "runWorker wl dsn think [] st g = ([], StillRunning, st, g)"
| "runWorker wl dsn think (t # ts) st g =
    (if tnEnded t then ([], Returned, st, g)
     else (case wl st g of
             (Panic, st1, g1) \<Rightarrow> ([], Crashed, st1, g1)
           | (Done e, st1, g1) \<Rightarrow>
               (if tnEndedAfter t then ([], Returned, st1, g1)
                else (let new = (if tnWarm t then [\<lparr>smDsn = dsn, smLatency = tnElapsed t, smErr = e\<rparr>] else []) in
                      if think > 0 \<and> tnEndedPause t then (new, Returned, st1, g1)
                      else (case runWorker wl dsn think ts st1 g1 of (ss, x) \<Rightarrow> (new @ ss, x))))))"

section \<open>Flags\<close>

record stress_flags =
  fDsns :: "string list"
  fWorkload :: string
  fReadRatio :: flt
  fRows :: int
  fWorkers :: int
  fOutput :: string

datatype flag_error = NoDsn | UnknownWorkload string | ReadRatioRange | RowsNotPositive | UnknownOutput

definition checkFlags :: "stress_flags \<Rightarrow> flag_error + workload_cfg" where
  "checkFlags f =
    (if fDsns f = [] then Inl NoDsn
     else if fWorkload f \<notin> set [''ping'', ''read'', ''write'', ''mixed'', ''tx''] then Inl (UnknownWorkload (fWorkload f))
     else if lessF (fReadRatio f) (intF 0) \<or> lessF (intF 1) (fReadRatio f) then Inl ReadRatioRange
     else if fRows f \<le> 0 \<and> needsRows (fWorkload f) then Inl RowsNotPositive
     else if fOutput f \<notin> set [''table'', ''json'', ''csv''] then Inl UnknownOutput
     else Inr \<lparr>wlRows = fRows f, wlReadRatio = fReadRatio f\<rparr>)"

text \<open>
  The size of the channel for the samples.  \<open>make\<close> panics for a negative one and for a buffer
  larger than the address space of the runtime, of 48 bits on a 64-bit machine; a sample has 40
  bytes, the channel itself 96.
\<close>

definition wrapInt :: "int \<Rightarrow> int" where
  "wrapInt n = sint (word_of_int n :: i64)"

definition resultsCap :: "stress_flags \<Rightarrow> nat option" where
  "resultsCap f =
    (let n = wrapInt (wrapInt (int (length (fDsns f)) * fWorkers f) * 64)
     in if n < 0 \<or> n * 40 > 2 ^ 48 - 96 then None else Some (nat n))"

definition setupTarget :: "'s executor \<Rightarrow> stress_flags \<Rightarrow> 's \<Rightarrow> cl_error option \<times> 's" where
  "setupTarget run f st =
    (case setupSchema run st of
       (Some e, st1) \<Rightarrow> (Some e, st1)
     | (None, st1) \<Rightarrow> (if needsSeed (fWorkload f) then seedSchema run (fRows f) st1 else (None, st1)))"

definition workloadLabel :: "string \<Rightarrow> flt \<Rightarrow> string" where
  "workloadLabel w ratio =
    (if w = ''mixed''
     then ''mixed (read '' @ formatFixed 0 (mulF ratio (intF 100)) @ ''% / write ''
       @ formatFixed 0 (mulF (addF (intF 1) (case ratio of Flt m e \<Rightarrow> Flt (- m) e)) (intF 100)) @ ''%)''
     else w)"

section \<open>Transactions of the generator\<close>

text \<open>An executor that records each statement and whether it succeeded.\<close>

definition recorded :: "'s executor \<Rightarrow> ('s \<times> (cstmt \<times> bool) list) executor" where
  "recorded run s x =
    (case x of (st, log) \<Rightarrow> (case run s st of (r, st1) \<Rightarrow> (r, st1, log @ [(s, \<not> isl r)])))"

text \<open>
  Transactions of at most \<open>batchSize\<close> statements: begun outside of one, rolled back at once
  when a statement fails, and otherwise ended.
\<close>

fun bracketed :: "nat option \<Rightarrow> (cstmt \<times> bool) list \<Rightarrow> bool" where
  "bracketed t [] = (t = None)"
| "bracketed None ((s, ok) # log) =
    (s = plainStmt ''BEGIN'' \<and> bracketed (if ok then Some 0 else None) log)"
| "bracketed (Some k) ((s, ok) # log) =
    (if s = plainStmt ''COMMIT'' then bracketed None log
     else s \<noteq> plainStmt ''BEGIN'' \<and> s \<noteq> plainStmt ''ROLLBACK'' \<and> int k < batchSize
       \<and> (if ok then bracketed (Some (Suc k)) log
          else (case log of [] \<Rightarrow> False | (s', _) # log' \<Rightarrow> s' = plainStmt ''ROLLBACK'' \<and> bracketed None log')))"

lemma bracketed_append: "bracketed t xs \<Longrightarrow> bracketed None ys \<Longrightarrow> bracketed t (xs @ ys)"
  by (induction t xs rule: bracketed.induct) (auto split: list.splits if_splits)

lemma runPlain_recorded:
  "\<exists>e st1. runPlain (recorded run) q (st, log) = (e, st1, log @ [(plainStmt q, e = None)])"
  by (auto simp: runPlain_def recorded_def split: prod.splits sum.splits)

lemma execArgs_recorded:
  assumes "buildStmt sql (valuesToNamedValues vals) False = Inr s"
  shows "\<exists>e st1. execArgs (recorded run) sql vals (st, log) = (e, st1, log @ [(s, e = None)])"
  using assms by (auto simp: execArgs_def execDone_def execQuery_def runArgs_def recorded_def split: prod.splits sum.splits)

lemma queryAll_recorded:
  assumes "buildStmt sql (valuesToNamedValues vals) True = Inr s"
  shows "\<exists>x st1. queryAll (recorded run) sql vals (st, log) = (x, st1, log @ [(s, \<forall>e. x \<noteq> Done (Some e))])"
  using assms by (auto simp: queryAll_def queryRows_def runArgs_def recorded_def split: prod.splits sum.splits)

definition seedStmt :: "int \<Rightarrow> cstmt" where
  "seedStmt i =
    \<lparr>cSQL = insertSQL, cArgs = [integerValue (word_of_int i), textValue (''seed-'' @ formatInt i)],
     cNamedArgs = [], cWantRows = False\<rparr>"

lemma buildStmt_vals:
  assumes "vals \<noteq> []" and "map (\<lambda>v. driverValueToHrana v) vals = map Inr vs"
  shows "buildStmt sql (valuesToNamedValues vals) want = Inr \<lparr>cSQL = sql, cArgs = vs, cNamedArgs = [], cWantRows = want\<rparr>"
proof -
  have conv: "convertArgs k (map (\<lambda>(i, v). \<lparr>nvName = [], nvOrdinal = i + 1, nvValue = v\<rparr>) (enumerate n vals))
      = Inr (map (\<lambda>v. ([], v)) vs)" for k n
    using assms(2) by (induction vals arbitrary: vs k n) auto
  have names: "\<not> list_ex (\<lambda>a. nvName a \<noteq> []) (valuesToNamedValues vals)"
    by (auto simp: valuesToNamedValues_def list_ex_iff in_set_enumerate_eq)
  have "valuesToNamedValues vals \<noteq> []" using assms(1) by (cases vals) (simp_all add: valuesToNamedValues_def)
  moreover have "convertArgs 0 (valuesToNamedValues vals) = Inr (map (\<lambda>v. ([], v)) vs)"
    by (simp only: valuesToNamedValues_def conv)
  ultimately show ?thesis
    using names by (simp add: buildStmt_def Let_def comp_def)
qed

lemma seedInsert_recorded:
  "\<exists>e st1. seedInsert (recorded run) i (st, log) = (e, st1, log @ [(seedStmt i, e = None)])"
proof -
  have "seedInsert (recorded run) i (st, log)
      = execArgs (recorded run) insertSQL [DInt64 (word_of_int i), DString (''seed-'' @ formatInt i)] (st, log)"
    by (simp add: seedInsert_def execArgs_def preparedExec_def)
  then show ?thesis
    by (simp only: seedStmt_def) (rule execArgs_recorded, rule buildStmt_vals, simp_all)
qed

lemma abandon_recorded: "\<exists>st1 ok. abandon (recorded run) e (st, log) = (Some e, st1, log @ [(plainStmt ''ROLLBACK'', ok)])"
  using runPlain_recorded[of run "''ROLLBACK''" st log] by (auto simp: abandon_def rollbackTx_def)

definition inserted :: "(cstmt \<times> bool) list \<Rightarrow> cstmt list" where
  "inserted log = filter (\<lambda>s. cSQL s = insertSQL) (map fst log)"

lemma inserted_simps [simp]:
  "inserted [] = []" "inserted (xs @ ys) = inserted xs @ inserted ys"
  "inserted ((seedStmt i, ok) # log) = seedStmt i # inserted log"
  "inserted ((plainStmt ''BEGIN'', ok) # log) = inserted log"
  "inserted ((plainStmt ''COMMIT'', ok) # log) = inserted log"
  "inserted ((plainStmt ''ROLLBACK'', ok) # log) = inserted log"
  by (simp_all add: inserted_def seedStmt_def plainStmt_def insertSQL_def)

lemma seedStmt_plain [simp]:
  "seedStmt i \<noteq> plainStmt ''BEGIN''" "seedStmt i \<noteq> plainStmt ''COMMIT''" "seedStmt i \<noteq> plainStmt ''ROLLBACK''"
  by (simp_all add: seedStmt_def plainStmt_def)

lemma plain_distinct [simp]:
  "plainStmt ''ROLLBACK'' \<noteq> plainStmt ''BEGIN''" "plainStmt ''ROLLBACK'' \<noteq> plainStmt ''COMMIT''"
  "plainStmt ''COMMIT'' \<noteq> plainStmt ''BEGIN''"
  by (simp_all add: plainStmt_def)

text \<open>What a part of the seeding leaves in the log.\<close>

definition seeds :: "nat option \<Rightarrow> int list \<Rightarrow> cl_error option \<Rightarrow> (cstmt \<times> bool) list \<Rightarrow> bool" where
  "seeds t is r L \<longleftrightarrow> bracketed t L \<and> prefix (inserted L) (map seedStmt is)
    \<and> (r = None \<longrightarrow> inserted L = map seedStmt is \<and> list_all snd L)"

lemma seedRows_recorded:
  "int k + int (length is) \<le> batchSize \<Longrightarrow>
    \<exists>r st1 L. seedRows (recorded run) is (st, log) = (r, st1, log @ L) \<and> seeds (Some k) is r L"
proof (induction "is" arbitrary: k st log)
  case Nil
  then show ?case
    using runPlain_recorded[of run "''COMMIT''" st log] by (auto simp: commitTx_def seeds_def)
next
  case (Cons i "is")
  obtain e st1 where i: "seedInsert (recorded run) i (st, log) = (e, st1, log @ [(seedStmt i, e = None)])"
    using seedInsert_recorded[of run i st log] by blast
  show ?case
  proof (cases e)
    case None
    obtain r st2 L where "seedRows (recorded run) is (st1, log @ [(seedStmt i, True)])
        = (r, st2, (log @ [(seedStmt i, True)]) @ L)" "seeds (Some (Suc k)) is r L"
      using Cons.IH[of "Suc k" st1 "log @ [(seedStmt i, True)]"] Cons.prems by auto
    then show ?thesis using i None Cons.prems
      by (intro exI[of _ r] exI[of _ st2] exI[of _ "(seedStmt i, True) # L"]) (auto simp: seeds_def)
  next
    case (Some x)
    obtain st2 ok where "abandon (recorded run) x (st1, log @ [(seedStmt i, False)])
        = (Some x, st2, (log @ [(seedStmt i, False)]) @ [(plainStmt ''ROLLBACK'', ok)])"
      using abandon_recorded[of run x st1 "log @ [(seedStmt i, False)]"] by blast
    then show ?thesis using i Some Cons.prems
      by (intro exI[of _ e] exI[of _ st2] exI[of _ "[(seedStmt i, False), (plainStmt ''ROLLBACK'', ok)]"])
         (simp add: seeds_def)
  qed
qed

lemma seedBatch_recorded:
  assumes "hi - lo < batchSize"
  shows "\<exists>r st1 L. seedBatch (recorded run) lo hi (st, log) = (r, st1, log @ L) \<and> seeds None [lo..hi] r L"
proof -
  obtain e st1 where b: "beginTx (recorded run) False (st, log) = (e, st1, log @ [(plainStmt ''BEGIN'', e = None)])"
    using runPlain_recorded[of run "''BEGIN''" st log] by (auto simp: beginTx_def)
  show ?thesis
  proof (cases e)
    case (Some x)
    then show ?thesis using b
      by (intro exI[of _ e] exI[of _ st1] exI[of _ "[(plainStmt ''BEGIN'', False)]"]) (simp add: seedBatch_def seeds_def)
  next
    case None
    have "int 0 + int (length [lo..hi]) \<le> batchSize" using assms by (simp add: batchSize_def)
    from seedRows_recorded[OF this, of run st1 "log @ [(plainStmt ''BEGIN'', True)]"]
    obtain r st2 L where "seedRows (recorded run) [lo..hi] (st1, log @ [(plainStmt ''BEGIN'', True)])
        = (r, st2, (log @ [(plainStmt ''BEGIN'', True)]) @ L)" "seeds (Some 0) [lo..hi] r L"
      by blast
    then show ?thesis using b None
      by (intro exI[of _ r] exI[of _ st2] exI[of _ "(plainStmt ''BEGIN'', True) # L"]) (simp add: seedBatch_def seeds_def)
  qed
qed

lemma seeds_append:
  assumes "seeds None xs None L" and "seeds None ys r M"
  shows "seeds None (xs @ ys) r (L @ M)"
  using assms by (simp add: seeds_def bracketed_append)

text \<open>
  C20.  Seeding the table with \<open>n\<close> rows, over any executor: the statements sent are
  transactions of at most 500 rows, each begun outside of another, rolled back at once when a
  statement fails and committed otherwise; the rows are inserted once, in order, from 1; and if
  no error is reported, all \<open>n\<close> are and every statement has succeeded.
\<close>

theorem seed_transactions:
  "\<exists>r st1 L. seedSchema (recorded run) n (st, log) = (r, st1, log @ L)
    \<and> bracketed None L \<and> prefix (inserted L) (map seedStmt [1..n])
    \<and> (r = None \<longrightarrow> inserted L = map seedStmt [1..n] \<and> list_all snd L)"
proof -
  have "\<exists>r st1 L. seedFrom (recorded run) start n (st, log) = (r, st1, log @ L) \<and> seeds None [start..n] r L" for start
  proof (induction "recorded run" start n "(st, log)" arbitrary: st log rule: seedFrom.induct)
    case (1 start n st log)
    show ?case
    proof (cases "start \<le> n")
      case True
      let ?hi = "min (start + batchSize - 1) n"
      have small: "?hi - start < batchSize" by (simp add: batchSize_def min_def)
      obtain r st1 L where b: "seedBatch (recorded run) start ?hi (st, log) = (r, st1, log @ L)"
        "seeds None [start..?hi] r L"
        using seedBatch_recorded[OF small, of run st log] by blast
      have split: "[start..n] = [start..?hi] @ [start + batchSize..n]"
        using upto_split2[of start ?hi n] True by (cases "start + batchSize - 1 \<le> n") (auto simp: batchSize_def add.commute)
      show ?thesis
      proof (cases r)
        case (Some e)
        then show ?thesis using b True split
          by (intro exI[of _ r] exI[of _ st1] exI[of _ L]) (simp add: seedFrom.simps seeds_def)
      next
        case None
        obtain r2 st2 M where "seedFrom (recorded run) (start + batchSize) n (st1, log @ L) = (r2, st2, (log @ L) @ M)"
          "seeds None [start + batchSize..n] r2 M"
          using 1[OF True b(1)[unfolded None, symmetric] refl] by blast
        then show ?thesis using b True split None seeds_append
          by (intro exI[of _ r2] exI[of _ st2] exI[of _ "L @ M"]) (simp add: seedFrom.simps[of _ start])
      qed
    qed (simp add: seedFrom.simps seeds_def)
  qed
  from this[of 1] show ?thesis by (simp add: seedSchema_def seeds_def)
qed

definition countingRun :: "nat executor" where
  "countingRun s n = (Inr noResult, Suc n)"

theorem seed_transactions_witness:
  "\<exists>L. seedSchema (recorded countingRun) 1 (0, []) = (None, 3, L)
    \<and> bracketed None L \<and> inserted L = [seedStmt 1] \<and> list_all snd L"
proof -
  obtain r n L where t: "seedSchema (recorded countingRun) 1 (0, []) = (r, n, [] @ L)" "bracketed None L"
    "r = None \<longrightarrow> inserted L = map seedStmt [1..1] \<and> list_all snd L"
    using seed_transactions[of countingRun 1 0 "[]"] by blast
  have "fst (seedSchema (recorded countingRun) 1 (0, [])) = None \<and> fst (snd (seedSchema (recorded countingRun) 1 (0, []))) = 3"
    by code_simp
  then show ?thesis using t by (intro exI[of _ L]) simp
qed

text \<open>The transaction of the \<open>tx\<close> workload is ended the same way, unless it panics.\<close>

lemma txSteps_bracketed:
  assumes "txSteps (recorded run) i v (st, log) = (x, st1, log')" and "x \<noteq> Panic"
  shows "\<exists>L. log' = log @ L \<and> bracketed None L"
proof -
  let ?u = "\<lparr>cSQL = ''UPDATE stress_kv SET val = ? WHERE id = ?'', cArgs = [textValue v, integerValue (word_of_int i)],
      cNamedArgs = [], cWantRows = False\<rparr>"
  let ?s = "\<lparr>cSQL = ''SELECT val FROM stress_kv WHERE id = ?'', cArgs = [integerValue (word_of_int i)],
      cNamedArgs = [], cWantRows = True\<rparr>"
  have upd: "buildStmt (cSQL ?u) (valuesToNamedValues [DString v, DInt64 (word_of_int i)]) False = Inr ?u"
    and sel: "buildStmt (cSQL ?s) (valuesToNamedValues [DInt64 (word_of_int i)]) True = Inr ?s"
    by (subst buildStmt_vals, simp_all)+
  note upd = upd[simplified] and sel = sel[simplified]
  have plain [simp]: "?u \<noteq> plainStmt q" "?s \<noteq> plainStmt q" for q by (simp_all add: plainStmt_def)
  obtain e1 s1 where 1: "beginTx (recorded run) False (st, log) = (e1, s1, log @ [(plainStmt ''BEGIN'', e1 = None)])"
    using runPlain_recorded[of run "''BEGIN''" st log] by (auto simp: beginTx_def)
  obtain e2 s2 where 2: "execArgs (recorded run) ''UPDATE stress_kv SET val = ? WHERE id = ?''
      [DString v, DInt64 (word_of_int i)] (s1, log @ [(plainStmt ''BEGIN'', True)])
    = (e2, s2, (log @ [(plainStmt ''BEGIN'', True)]) @ [(?u, e2 = None)])"
    using execArgs_recorded[OF upd, of run s1 "log @ [(plainStmt ''BEGIN'', True)]"] by blast
  let ?log2 = "log @ [(plainStmt ''BEGIN'', True), (?u, True)]"
  obtain y s3 where 3: "queryAll (recorded run) ''SELECT val FROM stress_kv WHERE id = ?'' [DInt64 (word_of_int i)] (s2, ?log2)
    = (y, s3, ?log2 @ [(?s, \<forall>e. y \<noteq> Done (Some e))])"
    using queryAll_recorded[OF sel, of run s2 ?log2] by blast
  obtain e4 s4 where 4: "commitTx (recorded run) (s3, ?log2 @ [(?s, True)]) = (e4, s4, (?log2 @ [(?s, True)]) @ [(plainStmt ''COMMIT'', e4 = None)])"
    using runPlain_recorded[of run "''COMMIT''" s3 "?log2 @ [(?s, True)]"] by (auto simp: commitTx_def)
  have roll: "\<exists>st' ok. rollback (recorded run) e (st, xs) = (Done (Some e), st', xs @ [(plainStmt ''ROLLBACK'', ok)])" for e st xs
    using abandon_recorded[of run e st xs] by (auto simp: rollback_def)
  show ?thesis
  proof (cases e1)
    case (Some e)
    then show ?thesis using assms 1 by (auto simp: txSteps_def intro!: exI[of _ "[(plainStmt ''BEGIN'', False)]"])
  next
    case begun: None
    show ?thesis
    proof (cases e2)
      case (Some e)
      then show ?thesis using assms 1 2 begun roll[of e s2 "log @ [(plainStmt ''BEGIN'', True), (?u, False)]"]
        by (auto simp: txSteps_def batchSize_def)
    next
      case None
      show ?thesis
      proof (cases y)
        case Panic
        then show ?thesis using assms 1 2 3 begun None by (simp add: txSteps_def)
      next
        case (Done w)
        show ?thesis
        proof (cases w)
          case (Some e)
          then show ?thesis using assms 1 2 3 begun None Done roll[of e s3 "?log2 @ [(?s, False)]"]
            by (auto simp: txSteps_def batchSize_def)
        next
          case all: None
          then show ?thesis using assms 1 2 3 4 begun None Done by (auto simp: txSteps_def batchSize_def)
        qed
      qed
    qed
  qed
qed

text \<open>With the flags \<open>main\<close> accepts, and rows as wide as their columns, no workload panics.\<close>

definition rectangular :: "cstmt_result \<Rightarrow> bool" where
  "rectangular r \<longleftrightarrow> list_all (\<lambda>row. length row \<le> length (cCols r)) (cRows r)"

lemma drainRows_rectangular: "rectangular (rwResult r) \<Longrightarrow> drainRows r"
proof (induction r rule: drainRows.induct)
  case (1 r)
  let ?next = "rowsNext r (replicate (length (rowsColumns r)) DNil)"
  have cols: "length (rowsColumns r) = length (cCols (rwResult r))" by (simp add: rowsColumns_def)
  show ?case
  proof (cases "rwPos r \<ge> length (cRows (rwResult r))")
    case True
    then show ?thesis by (simp add: drainRows.simps[of r] rowsNext_def)
  next
    case False
    let ?row = "cRows (rwResult r) ! rwPos r" and ?r = "r\<lparr>rwPos := rwPos r + 1\<rparr>"
    have "length ?row \<le> length (cCols (rwResult r))"
      using 1(2) False by (auto simp: rectangular_def list_all_iff)
    then have n: "\<exists>vs. ?next = (NextRow vs, ?r)" using False cols by (auto simp: rowsNext_def Let_def)
    then have "drainRows ?r" using 1 by fastforce
    then show ?thesis using n by (auto simp: drainRows.simps[of r])
  qed
qed

lemma queryAll_safe:
  assumes "\<forall>s st r st1. run s st = (Inr r, st1) \<longrightarrow> rectangular r"
  shows "fst (queryAll run sql vals st) \<noteq> Panic"
  using assms by (auto simp: queryAll_def queryRows_def runArgs_def newRows_def split: prod.splits sum.splits)
    (metis drainRows_rectangular crows.select_convs(1))

lemma accepted_flags_run:
  assumes "checkFlags f = Inr cfg" and "resolveWorkload run R cfg (fWorkload f) = Some wl"
    and "\<forall>s st r st1. run s st = (Inr r, st1) \<longrightarrow> rectangular r"
  shows "fst (wl st g) \<noteq> Panic"
proof -
  have rows: "0 < wlRows cfg \<or> fWorkload f = ''ping''"
    using assms(1) by (auto simp: checkFlags_def needsRows_def split: if_splits)
  have q: "fst (queryAll run sql vals st) \<noteq> Panic" for sql vals st by (rule queryAll_safe[OF assms(3)])
  have rd: "fst (workloadRead run R cfg st g) \<noteq> Panic" if "0 < wlRows cfg" for st g
    using that q by (auto simp: workloadRead_def pickId_def split: prod.splits)
       (metis fst_conv)
  have wr: "fst (workloadWrite run R cfg st g) \<noteq> Panic" if "0 < wlRows cfg" for st g
    using that by (auto simp: workloadWrite_def pickId_def split: prod.splits)
  have steps: "fst (txSteps run i v st) \<noteq> Panic" for i v st
    using q by (auto simp: txSteps_def rollback_def abandon_def split: prod.splits option.splits outcome.splits) (metis fst_conv)
  have "fst (workloadPing run st g) \<noteq> Panic"
    using q[of "''SELECT 1''" "[]" st] by (auto simp: workloadPing_def split: prod.splits)
  moreover have "fst (workloadMixed run R cfg st g) \<noteq> Panic" if "0 < wlRows cfg"
    using rd[OF that] wr[OF that] by (auto simp: workloadMixed_def split: prod.splits)
  moreover have "fst (workloadTx run R cfg st g) \<noteq> Panic" if "0 < wlRows cfg"
    using that steps by (auto simp: workloadTx_def pickId_def split: prod.splits) (metis fst_conv)
  ultimately show ?thesis
    using rows assms(2) rd wr by (auto simp: resolveWorkload_def split: if_splits)
qed

end
