(* ===== verification/SqlConnection.thy ===== *)
theory SqlConnection
  imports HttpClient
begin

text \<open>
  The interface the driver works on, \<open>stmtExecutor\<close> of \<open>src/clients/hranago/stmt.go\<close>: its
  providers are the HTTP connection and the WebSocket connection.  The contract is that a
  connection in use executes a statement as the database would directly; from it follow
  prepared statements, queries and transactions, once for both transports.
\<close>

text \<open>Statements one after the other, by an executor or by any other function of a state.\<close>

fun runStmts :: "('a \<Rightarrow> 's \<Rightarrow> 'r \<times> 's) \<Rightarrow> 'a list \<Rightarrow> 's \<Rightarrow> 'r list \<times> 's" where
  "runStmts run [] st = ([], st)"
| "runStmts run (x # xs) st =
    (case run x st of (r, st1) \<Rightarrow> (case runStmts run xs st1 of (rs, st2) \<Rightarrow> (r # rs, st2)))"

locale sql_connection =
  fixes run :: "'s executor" and direct :: "'db executor"
    and usable :: "'s \<Rightarrow> bool" and view :: "'s \<Rightarrow> 'db" and safe :: "cstmt \<Rightarrow> bool"
  assumes run_direct: "usable st \<Longrightarrow> safe stm \<Longrightarrow> run stm st = (r, st') \<Longrightarrow>
    usable st' \<and> direct stm (view st) = (r, view st')"
begin

lemma runs_direct:
  "usable st \<Longrightarrow> list_all safe stms \<Longrightarrow> runStmts run stms st = (rs, st') \<Longrightarrow>
    usable st' \<and> runStmts direct stms (view st) = (rs, view st')"
proof (induction stms arbitrary: st rs)
  case (Cons stm stms)
  obtain r st1 qs where 1: "run stm st = (r, st1)" "runStmts run stms st1 = (qs, st')" "rs = r # qs"
    using Cons.prems(3) by (auto split: prod.splits)
  have "usable st1 \<and> direct stm (view st) = (r, view st1)"
    using run_direct[OF Cons.prems(1) _ 1(1)] Cons.prems(2) by simp
  then show ?case using Cons.IH[OF _ _ 1(2)] Cons.prems(2) 1(3) by simp
qed simp

lemma plain_direct:
  assumes "usable st" and "safe (plainStmt q)" and "runPlain run q st = (e, st')"
  shows "usable st' \<and> runPlain direct q (view st) = (e, view st')"
proof -
  obtain r where r: "run (plainStmt q) st = (r, st')" and e: "e = (case r of Inl x \<Rightarrow> Some x | Inr y \<Rightarrow> None)"
    using assms(3) by (auto simp: runPlain_def split: prod.splits sum.splits)
  show ?thesis using run_direct[OF assms(1,2) r] e by (auto simp: runPlain_def split: sum.splits)
qed

lemma args_direct:
  assumes "usable st" and "\<And>s. buildStmt sql args want = Inr s \<Longrightarrow> safe s"
    and "runArgs run want sql args st = (r, st')"
  shows "usable st' \<and> runArgs direct want sql args (view st) = (r, view st')"
proof (cases "buildStmt sql args want")
  case (Inl e)
  then show ?thesis using assms(1,3) by (simp add: runArgs_def)
next
  case (Inr s)
  then show ?thesis using run_direct[OF assms(1) assms(2)[OF Inr]] assms(3) by (simp add: runArgs_def)
qed

lemma query_direct:
  assumes "usable st" and "\<And>s. buildStmt sql args True = Inr s \<Longrightarrow> safe s"
    and "queryRows run sql args st = (r, st')"
  shows "usable st' \<and> queryRows direct sql args (view st) = (r, view st')"
proof -
  obtain x where x: "runArgs run True sql args st = (x, st')" and r: "r = map_sum id newRows x"
    using assms(3) by (auto simp: queryRows_def split: prod.splits sum.splits)
  show ?thesis using args_direct[OF assms(1,2) x] r by (auto simp: queryRows_def split: sum.splits)
qed

end

end
