(* ===== verification/HttpSession.thy ===== *)
theory HttpSession
  imports ClientServer SqlConnection
begin

text \<open>
  A connection of the HTTP client as a whole.  The protocol below it has no connections: each
  statement is a request of its own, and a baton that changes with every answer leads back to
  the stream.  Here it is shown that a connection nevertheless is what \<open>database/sql\<close> takes it
  for: its statements run one after the other on one stream of the server, as if they were
  executed there directly.
\<close>

section \<open>The database behind the server\<close>

text \<open>
  What is behind the server is seen through \<open>view\<close>: the database as the connection of a stream
  sees it.  \<open>direct\<close> executes a statement there, with its result as the client has results,
  which leave out the duration; the clock, the random source and the check of tokens are
  beside it.
\<close>

definition clientResult :: "go_text \<Rightarrow> error + stmt_result \<Rightarrow> cl_error + cstmt_result" where
  "clientResult T = map_sum (\<lambda>e. CServerError (errText T e)) fromServerResult"

definition executesAs ::
  "go_text \<Rightarrow> 'd env \<Rightarrow> stream \<Rightarrow> ('d \<Rightarrow> 'db) \<Rightarrow> 'db executor \<Rightarrow> bool" where
  "executesAs T E st view direct \<longleftrightarrow>
    (\<forall>stm w. case executeStmt E st (toServerStmt stm) (StoredSQL st) w of
       (r, w') \<Rightarrow> answerSafe T (executed r) \<and> direct stm (view w) = (clientResult T r, view w'))"

definition staysOpen :: "'d env \<Rightarrow> link \<Rightarrow> cconn \<Rightarrow> 'd server \<Rightarrow> ('d \<Rightarrow> 'db) \<Rightarrow> bool" where
  "staysOpen E L c s view \<longleftrightarrow>
    \<not> closing s \<and> blacklist s = None
    \<and> cfVersion (cnCfg c) \<in> {''v2'', ''v3''}
    \<and> path L (endpoint (cnCfg c) (cnBase c)) = ''/'' @ cfVersion (cnCfg c) @ ''/pipeline''
    \<and> isVersionEnabled (config s) (cfVersion (cnCfg c))
    \<and> (\<forall>w. \<exists>w1. tokenAccepted (config s) (cfToken (cnCfg c)) w w1 \<and> view w1 = view w)
    \<and> (\<forall>w. \<exists>t w1. generateBaton E w = (Inr t, w1) \<and> t \<noteq> [] \<and> view w1 = view w)"

text \<open>The baton of the connection leads to the stream at \<open>a\<close>.\<close>

definition attached :: "cconn \<Rightarrow> 'd server \<Rightarrow> nat \<Rightarrow> bool" where
  "attached c s a \<longleftrightarrow>
    (\<exists>tok. cnBaton c = Some tok \<and> tok \<noteq> [] \<and> validUtf8 tok \<and> findBaton tok (batons s) = Some a)"

section \<open>One stream\<close>

lemma staysOpen_openFor:
  assumes "staysOpen E L c s view"
  obtains w1 where "openFor E L c s w s w1" and "view w1 = view w"
  using assms by (fastforce simp: staysOpen_def openFor_def checkBlacklist_def)

lemma staysOpen_step:
  "staysOpen E L c s view \<Longrightarrow> staysOpen E L (c\<lparr>cnBaton := b\<rparr>) (s\<lparr>batons := bs\<rparr>) view"
  by (simp add: staysOpen_def)

text \<open>A connection in use, and what is behind it.\<close>

definition httpUsable ::
  "go_text \<Rightarrow> link \<Rightarrow> 'd env \<Rightarrow> nat \<Rightarrow> ('d \<Rightarrow> 'db) \<Rightarrow> 'db executor \<Rightarrow> cconn \<times> ('d server \<times> 'd) \<Rightarrow> bool" where
  "httpUsable T L E a view direct x \<longleftrightarrow> (case x of (c, (s, w)) \<Rightarrow>
    linkOk L \<and> textsAgree T \<and> staysOpen E L c s view \<and> attached c s a
    \<and> executesAs T E (heap (batons s) ! a) view direct)"

lemma http_run_direct:
  assumes "httpUsable T L E a view direct (c, (s, w))" and safe: "stmtSafe stm"
  shows "\<exists>r b bs w'. direct stm (view w) = (r, view w')
    \<and> httpExecutor T (serverPost E T L) stm (c, (s, w)) = (r, (c\<lparr>cnBaton := b\<rparr>, (s\<lparr>batons := bs\<rparr>, w')))
    \<and> httpUsable T L E a view direct (c\<lparr>cnBaton := b\<rparr>, (s\<lparr>batons := bs\<rparr>, w'))"
proof -
  have L: "linkOk L" "textsAgree T" and o: "staysOpen E L c s view" and a: "attached c s a"
    and x: "executesAs T E (heap (batons s) ! a) view direct"
    using assms(1) by (simp_all add: httpUsable_def)
  obtain tok where tok: "cnBaton c = Some tok" "tok \<noteq> []" "validUtf8 tok" "findBaton tok (batons s) = Some a"
    using a by (auto simp: attached_def)
  obtain w1 where w1: "openFor E L c s w s w1" "view w1 = view w" using staysOpen_openFor[OF o] by blast
  let ?bs = "snd (getBaton E tok (batons s) w1)"
  have rs: "resolveStream E s ModeReadWrite (cnBaton c) w1 = (Inr (a, tok), ?bs, w1)"
    using resolve_baton[OF tok(4,2)] tok(1) by simp
  have h: "heap ?bs = heap (batons s)" by simp
  obtain res w3 where ex: "executeStmt E (heap ?bs ! a) (toServerStmt stm) (StoredSQL (heap ?bs ! a)) w1 = (res, w3)"
    by (metis surj_pair)
  then have d: "direct stm (view w) = (clientResult T res, view w3)" "answerSafe T (executed res)"
    using x[unfolded executesAs_def, rule_format, of stm w1] h w1(2) by simp_all
  have "\<exists>t w4. generateBaton E w3 = (Inr t, w4) \<and> t \<noteq> [] \<and> view w4 = view w3"
    using o by (simp only: staysOpen_def)
  then obtain t w4 where g: "generateBaton E w3 = (Inr t, w4)" "t \<noteq> []" "view w4 = view w3" by blast
  obtain bs where put: "putBaton E a tok ?bs w3 = (Inr t, bs, w4)" using putBaton_generated[OF g(1)] by blast
  from execStatement_served[OF L w1(1) safe _ rs ex d(2) g(1) put] tok
  have run: "httpExecutor T (serverPost E T L) stm (c, (s, w))
      = (clientResult T res, (c\<lparr>cnBaton := Some t\<rparr>, (s\<lparr>batons := bs\<rparr>, w4)))"
    by (simp add: httpExecutor_def clientResult_def)
  have "findBaton t bs = Some a" "heap bs = heap (batons s)"
    using bm.find_after_put[OF putBaton_step[OF put]] putBaton_step[OF put] h by (auto simp: putStep_def)
  then have "httpUsable T L E a view direct (c\<lparr>cnBaton := Some t\<rparr>, (s\<lparr>batons := bs\<rparr>, w4))"
    using L x staysOpen_step[OF o] g baton_valid[OF g(1)] by (simp add: httpUsable_def attached_def)
  then show ?thesis using run d(1) g(3)
    by (intro exI[of _ "clientResult T res"] exI[of _ "Some t"] exI[of _ bs] exI[of _ w4]) simp
qed

interpretation http: sql_connection "httpExecutor T (serverPost E T L)" direct
    "httpUsable T L E a view direct" "\<lambda>(c, (s, w)). view w" stmtSafe
  for T E L a view direct
proof
  fix st stm r st'
  assume u: "httpUsable T L E a view direct st" "stmtSafe stm"
    and r: "httpExecutor T (serverPost E T L) stm st = (r, st')"
  obtain c s w where st: "st = (c, (s, w))" by (metis surj_pair)
  show "httpUsable T L E a view direct st'
      \<and> direct stm (case st of (c, s, w) \<Rightarrow> view w) = (r, case st' of (c, s, w) \<Rightarrow> view w)"
    using http_run_direct[OF u(1)[unfolded st] u(2)] r st by auto
qed


section \<open>A concrete connection\<close>

text \<open>A database that keeps the statements it executed, a clock and a random source that go on.\<close>

definition logEnv :: "(string list \<times> nat) env" where
  "logEnv =
    \<lparr>drvExec = (\<lambda>h sql args (log, n).
        (Inr \<lparr>RowsAffected = of_nat (length log), LastInsertId = 0\<rparr>, (log @ [sql], Suc n))),
     drvQuery = (\<lambda>h sql args w. (Inl ''no query'', w)),
     drvConn = (\<lambda>db w. (Inr 0, w)),
     drvRelease = (\<lambda>h w. w),
     randRead = (\<lambda>k (log, n). (Inr (replicate k (of_nat n)), (log, Suc n))),
     clock = (\<lambda>(log, n). int n)\<rparr>"

definition logStream :: stream where
  "logStream = (newStream 1 someConn)\<lparr>Mode := ModeReadWrite\<rparr>"

definition logServer :: "(string list \<times> nat) server" where
  "logServer =
    (newServer 0 \<lparr>AuthFunc = None, BatonTTL = 0, Versions = [], AllowOrigins = [],
       BlacklistConf = testCfg\<lparr>Enabled := False\<rparr>\<rparr>)
      \<lparr>batons := \<lparr>heap = [logStream], batonEntries = [(demoBaton, \<lparr>bStream = 0, lastSeen = 0\<rparr>)], ttl = minute\<rparr>\<rparr>"

definition directLog :: "string list executor" where
  "directLog stm log =
    (case executeStmt logEnv logStream (toServerStmt stm) [] (log, 0) of (r, w) \<Rightarrow> (clientResult demoText r, fst w))"

lemma log_executes: "executesAs demoText logEnv logStream fst directLog"
proof -
  have c: "Conn logStream = someConn" "StoredSQL logStream = []" by (simp_all add: logStream_def newStream_def)
  have ok: "validUtf8 (errText demoText e)" for e by (simp add: demoText_def) code_simp
  show ?thesis
    unfolding executesAs_def directLog_def
    by (auto simp: executeStmt_def c execContext_def queryContext_def logEnv_def Let_def executed_def
        errorStreamResult_def newError_def execResultToStmtResult_def emptyResult_def resultSafe_def
        clientResult_def fromServerResult_def ok lastRowid_def split: sum.splits prod.splits)
qed

lemma log_open: "staysOpen logEnv demoLink (demoConn b) logServer fst"
proof -
  have p: "path demoLink (endpoint demoCfg ''http://h'') = ''/v3/pipeline''" by code_simp
  have "hexEncode (replicate 32 x) \<noteq> []" for x by (simp add: numeral_eq_Suc)
  then have "\<exists>t w1. generateBaton logEnv w = (Inr t, w1) \<and> t \<noteq> [] \<and> fst w1 = fst w" for w
    by (cases w) (simp add: generateBaton_def logEnv_def)
  moreover have "\<exists>w1. tokenAccepted (config logServer) t w w1 \<and> fst w1 = fst w" for t w
    by (simp add: tokenAccepted_def logServer_def newServer_def Let_def)
  moreover have "\<not> closing logServer" "blacklist logServer = None" "Versions (config logServer) = []"
    by (simp_all add: logServer_def newServer_def Let_def blacklistDefaults_def)
  ultimately show ?thesis
    using p by (simp add: staysOpen_def isVersionEnabled_def demoConn_def newHttpConn_def demoCfg_def)
qed

lemma log_attached: "attached (demoConn (Some demoBaton)) logServer 0"
proof -
  have "demoBaton \<noteq> [] \<and> validUtf8 demoBaton" by code_simp
  then show ?thesis by (simp add: attached_def demoConn_def logServer_def findBaton_def)
qed


end
