(* ===== verification/WsSession.thy ===== *)
theory WsSession
  imports WsEndToEnd HttpSession
begin

text \<open>
  A connection of the WebSocket client as a whole, as long as its stream is not superseded and
  one statement runs at a time, which is how \<open>database/sql\<close> uses a connection.  It has the
  contract of the HTTP connection: its statements run in order on one stream of the session.
\<close>

section \<open>One call\<close>

text \<open>
  What the read loop makes of the messages the session sent, for a call that waits on the
  channel \<open>ch\<close>.
\<close>

definition wsDelivered :: "go_text \<Rightarrow> nat \<Rightarrow> ws_message list \<Rightarrow> wclient \<Rightarrow> (wresult \<times> wclient) option" where
  "wsDelivered T ch ms c =
    (case ms of
       [m] \<Rightarrow>
         (case writeWsMessage T m of
            Inl _ \<Rightarrow> None
          | Inr j \<Rightarrow>
              (case handleFrame (readServerFrame j) c of
                 (RSend d x, [], c1) \<Rightarrow>
                   (if d = ch \<and> canSend d c1 then Some (x, receive ch (sendTo d x c1)) else None)
               | _ \<Rightarrow> None))
     | _ \<Rightarrow> None)"

text \<open>
  \<open>execStatement\<close> of \<open>ws_conn.go\<close> with the session at the other end: the request is registered
  and written, the session reads and answers it, the answer is delivered.  A call that gets no
  answer is given up when its context ends.
\<close>

definition wsExecutor ::
  "go_text \<Rightarrow> link \<Rightarrow> 'd env \<Rightarrow> ws_decoders \<Rightarrow> frame_decoders \<Rightarrow> 'd server \<Rightarrow> (wclient \<times> ws_conn \<times> 'd) executor" where
  "wsExecutor T L E M F s stm x =
    (case x of (c, wc, w) \<Rightarrow>
       (case registerRequest (PExecute (wstream c) stm) 0 c of
          (Inl e, c1) \<Rightarrow> (Inl e, (c1, wc, w))
        | (Inr (key, ch), c1) \<Rightarrow>
            (case writeWsRequest T key (PExecute (wstream c) stm) of
               Inl e \<Rightarrow> (Inl (CSend (CMarshal e)), (dropRequest key c1, wc, w))
             | Inr j \<Rightarrow>
                 (case readFrame s (jsonFrames (lexJson L) (render L) F) (Frame OpText (render L j)) wc w of
                    (wc1, w1) \<Rightarrow>
                      (if length (wcPending wc1) = length (wcPending wc)
                       then (Inl CCancelled, (dropRequest key c1, wc1, w1))
                       else (case respond E (jsonRequests T (lexJson L) M) s (length (wcPending wc)) wc1 w1 of
                          None \<Rightarrow> (Inl CCancelled, (dropRequest key c1, wc1, w1))
                        | Some (wc2, w2) \<Rightarrow>
                            (case wsDelivered T ch (drop (length (wcSent wc)) (wcSent wc2)) c1 of
                               None \<Rightarrow> (Inl CCancelled, (dropRequest key c1, wc2, w2))
                             | Some (r, c2) \<Rightarrow>
                                 ((case r of Inl e \<Rightarrow> Inl e | Inr j' \<Rightarrow> readExecuted T j'), (c2, wc2, w2)))))))))"

section \<open>The contract\<close>

definition wsUsable ::
  "go_text \<Rightarrow> link \<Rightarrow> 'd env \<Rightarrow> 'd server \<Rightarrow> ('d \<Rightarrow> 'db) \<Rightarrow> 'db executor \<Rightarrow> wclient \<times> ws_conn \<times> 'd \<Rightarrow> bool" where
  "wsUsable T L E s view direct x \<longleftrightarrow> (case x of (c, wc, w) \<Rightarrow>
    linkOk L \<and> textsAgree T \<and> \<not> closing s
    \<and> \<not> wclosed c \<and> wpendings c = []
    \<and> wcAuthed wc \<and> codecForProto (wcProto wc) = (JSONCodec, OpText) \<and> wcPending wc = []
    \<and> (\<exists>st. getStream (wcSess wc) (wstream c) = Some st \<and> \<not> IsSuperseded st \<and> executesAs T E st view direct))"

text \<open>The client sends texts, so the stored texts of the stream or the session play no part.\<close>

lemma executeStmt_sent: "executeStmt E st (toServerStmt stm) m w = executeStmt E st (toServerStmt stm) m' w"
  by (simp add: executeStmt_def resolveStmtSQL_def resolveSQL_def toServerStmt_def)

lemma buildArgs_error: "buildArgs args named = Inl e \<Longrightarrow> e \<noteq> StreamIsSuperseded"
  by (auto simp: buildArgs_def valueToAny_def dest!: mapR_error split: if_splits sum.splits)

lemma execute_not_superseded: "executeStmt E st s m w = (r, w') \<Longrightarrow> r \<noteq> Inl StreamIsSuperseded"
  by (auto simp: executeStmt_def resolveStmtSQL_def execContext_def queryContext_def rowsToStmtResult_def Let_def
      dest: buildArgs_error split: if_splits sum.splits prod.splits option.splits)

text \<open>An answer to the only pending request is delivered to its call.\<close>

lemma delivered_answer:
  assumes reg: "registerRequest p 0 c = (Inr (key, ch), c1)" and c: "wpendings c = []"
    and m: "writeWsMessage T m = Inr j" "readServerFrame j = (case r of Inl e \<Rightarrow> FError key e | Inr d \<Rightarrow> FOk key d)"
  shows "\<exists>c2. wsDelivered T ch [m] c1 = Some (map_sum CServerError id r, c2)
    \<and> wstream c2 = wstream c \<and> wclosed c2 = wclosed c \<and> wpendings c2 = []"
proof -
  let ?p = "\<lparr>wpPayload = p, wpCh = ch, wpRetries = 0\<rparr>"
  have c1: "wpendings c1 = [(key, ?p)]" "canSend ch c1" "wstream c1 = wstream c" "wclosed c1 = wclosed c"
    using reg c by (auto simp: registerRequest_def Let_def canSend_def split: if_splits)
  have "handleFrame (readServerFrame j) c1 = (RSend ch (map_sum CServerError id r), [], dropRequest key c1)"
    using m(2) c1(1) by (cases r) (simp_all add: dispatchResult_def)
  then show ?thesis using m(1) c1
    by (simp add: wsDelivered_def canSend_def dropRequest_def receive_def sendTo_def)
qed

lemma ws_run_direct:
  assumes u: "wsUsable T L E s view direct (c, wc, w)" and safe: "stmtSafe stm"
  shows "\<exists>r c' wc' w'. direct stm (view w) = (r, view w')
    \<and> wsExecutor T L E M F s stm (c, wc, w) = (r, (c', wc', w'))
    \<and> wsUsable T L E s view direct (c', wc', w')"
proof -
  obtain st where st: "getStream (wcSess wc) (wstream c) = Some st" "\<not> IsSuperseded st" "executesAs T E st view direct"
    and L: "linkOk L" "textsAgree T" and c: "\<not> wclosed c" "wpendings c = []"
    and wc: "wcAuthed wc" "codecForProto (wcProto wc) = (JSONCodec, OpText)" "\<not> closing s" "wcPending wc = []"
    using u by (auto simp: wsUsable_def)
  obtain key ch c1 where reg: "registerRequest (PExecute (wstream c) stm) 0 c = (Inr (key, ch), c1)"
    using c(1) by (auto simp: registerRequest_def Let_def)
  obtain res w' where ex: "executeStmt E st (toServerStmt stm) (sessSQL (wcSess wc)) w = (res, w')" by (metis surj_pair)
  have d: "direct stm (view w) = (clientResult T res, view w')" "answerSafe T (executed res)"
    using st(3)[unfolded executesAs_def, rule_format, of stm w] ex executeStmt_sent[of E st stm "StoredSQL st" w "sessSQL (wcSess wc)"]
    by simp_all
  define out where "out = map_sum id ExecuteResp res"
  have run: "wsExecute E (wcSess wc) (wstream c, toServerStmt stm) w = (out, wcSess wc, w')"
    using st(1,2) ex by (cases res) (simp_all add: wsExecute_def withStream_def out_def)
  have ok: "case out of Inr (ExecuteResp r) \<Rightarrow> resultSafe r | Inr _ \<Rightarrow> False | Inl e \<Rightarrow> validUtf8 (errText T e)"
    using d(2) by (cases res) (simp_all add: out_def executed_def errorStreamResult_def newError_def)
  have "lexJson L (render L j) = Inr j" for j using L(1) by (simp add: linkOk_def)
  from ws_statement_served[OF L(2) safe this wc(1-3) run ok, of key F w M] wc(4)
  obtain data raw m wc2 where 1: "writeWsRequest T key (PExecute (wstream c) stm) = Inr data"
    "readFrame s (jsonFrames (lexJson L) (render L) F) (Frame OpText (render L data)) wc w
      = (wc\<lparr>wcMadeRequest := True, wcPending := [(key, raw)]\<rparr>, w)"
    "respond E (jsonRequests T (lexJson L) M) s 0 (wc\<lparr>wcMadeRequest := True, wcPending := [(key, raw)]\<rparr>) w = Some (wc2, w')"
    and 2: "wcPending wc2 = []" "wcSess wc2 = wcSess wc" "wcSent wc2 = wcSent wc @ [responseMsg key out]"
      "writeWsMessage T (responseMsg key out) = Inr m"
    and ret: "case out of
         Inl e \<Rightarrow> readServerFrame m = (if e = StreamIsSuperseded then FSuperseded key (errText T e) else FError key (errText T e))
       | Inr resp \<Rightarrow> \<exists>r j. resp = ExecuteResp r \<and> readServerFrame m = FOk key j \<and> readExecuted T j = Inr (fromServerResult r)"
    by auto
  obtain x where x: "readServerFrame m = (case x of Inl e \<Rightarrow> FError key e | Inr d \<Rightarrow> FOk key d)"
    "(case map_sum CServerError id x of Inl e \<Rightarrow> Inl e | Inr j \<Rightarrow> readExecuted T j) = clientResult T res"
  proof (cases res)
    case (Inl e)
    then show ?thesis using that[of "Inl (errText T e)"] ret execute_not_superseded[OF ex]
      by (simp add: out_def clientResult_def)
  next
    case (Inr r)
    then obtain j where "readServerFrame m = FOk key j" "readExecuted T j = Inr (fromServerResult r)"
      using ret by (auto simp: out_def)
    then show ?thesis using that[of "Inr j"] Inr by (simp add: clientResult_def)
  qed
  obtain c2 where c2: "wsDelivered T ch [responseMsg key out] c1 = Some (map_sum CServerError id x, c2)"
    "wstream c2 = wstream c" "wclosed c2 = wclosed c" "wpendings c2 = []"
    using delivered_answer[OF reg c(2) 2(4) x(1)] by blast
  have "wsExecutor T L E M F s stm (c, wc, w) = (clientResult T res, (c2, wc2, w'))"
    using x(2) by (simp add: wsExecutor_def reg 1 2(3) wc(4) c2(1))
  moreover have "wcAuthed wc2 \<and> wcProto wc2 = wcProto wc"
    using 1(3) wc(1) by (auto simp: respond_def split: option.splits prod.splits)
  then have "wsUsable T L E s view direct (c2, wc2, w')"
    using st L c wc 2 c2 by (auto simp: wsUsable_def)
  ultimately show ?thesis using d(1) by blast
qed

interpretation wsc: sql_connection "wsExecutor T L E M F s" direct "wsUsable T L E s view direct"
    "\<lambda>(c, wc, w). view w" stmtSafe
  for T L E M F s view direct
proof
  fix st stm r st'
  assume u: "wsUsable T L E s view direct st" "stmtSafe stm"
    and r: "wsExecutor T L E M F s stm st = (r, st')"
  obtain c wc w where st: "st = (c, wc, w)" by (metis surj_pair)
  show "wsUsable T L E s view direct st'
      \<and> direct stm (case st of (c, wc, w) \<Rightarrow> view w) = (r, case st' of (c, wc, w) \<Rightarrow> view w)"
    using ws_run_direct[OF u(1)[unfolded st] u(2), of M F] r st by auto
qed


section \<open>A concrete session\<close>

definition logClient :: wclient where
  "logClient = newWsClient\<lparr>wstream := 1\<rparr>"

definition logWs :: ws_conn where
  "logWs = demoWs\<lparr>wcSess := addStream (newSession ModeReadWrite) 1 logStream\<rparr>"


end
