(* ===== verification/SeedSession.thy ===== *)
theory SeedSession
  imports StressRun WsSession
begin

text \<open>
  The load generator on a connection of the client: what \<open>seedSchema\<close> of
  \<open>src/cmd/stresser/schema.go\<close> does to the database behind a server, over HTTP or over a
  WebSocket, is what it would do to the database itself.
\<close>

section \<open>On any connection\<close>

lemma seed_built:
  "buildStmt insertSQL (valuesToNamedValues [DInt64 (word_of_int i), DString (''seed-'' @ formatInt i)]) False
    = Inr (seedStmt i)"
  by (subst buildStmt_vals[where vs = "[integerValue (word_of_int i), textValue (''seed-'' @ formatInt i)]"])
     (simp_all add: seedStmt_def)

text \<open>The statements a program for \<open>database/sql\<close> sends beside its own.\<close>

definition txTexts :: "string set" where
  "txTexts = {''BEGIN'', ''COMMIT'', ''ROLLBACK''}"

context sql_connection
begin

lemma insert_direct:
  assumes "usable st" and "safe (seedStmt i)" and "seedInsert run i st = (e, st')"
  shows "usable st' \<and> seedInsert direct i (view st) = (e, view st')"
proof -
  obtain r where r: "runArgs run False insertSQL (valuesToNamedValues [DInt64 (word_of_int i), DString (''seed-'' @ formatInt i)]) st
      = (r, st')" and e: "e = (case r of Inl x \<Rightarrow> Some x | Inr y \<Rightarrow> None)"
    using assms(3) by (auto simp: seedInsert_def execDone_def preparedExec_def execQuery_def split: prod.splits sum.splits)
  from args_direct[OF assms(1) _ r] assms(2) seed_built[of i] e show ?thesis
    by (auto simp: seedInsert_def execDone_def preparedExec_def execQuery_def split: sum.splits)
qed

lemma rows_direct:
  assumes "\<And>q. q \<in> txTexts \<Longrightarrow> safe (plainStmt q)" and "\<And>i. safe (seedStmt i)"
  shows "usable st \<Longrightarrow> seedRows run is st = (e, st') \<Longrightarrow> usable st' \<and> seedRows direct is (view st) = (e, view st')"
proof (induction "is" arbitrary: st)
  case Nil
  then show ?case using plain_direct[OF Nil(1) assms(1), of "''COMMIT''"] by (simp add: commitTx_def txTexts_def)
next
  case (Cons i "is")
  obtain d st1 where 1: "seedInsert run i st = (d, st1)" by (metis surj_pair)
  then have 2: "usable st1" "seedInsert direct i (view st) = (d, view st1)"
    using insert_direct[OF Cons(2) assms(2)] by blast+
  show ?case
  proof (cases d)
    case None
    then show ?thesis using Cons.IH[OF 2(1)] Cons.prems(2) 1 2(2) by simp
  next
    case (Some x)
    obtain r where r: "runPlain run ''ROLLBACK'' st1 = (r, st')" "e = Some x"
      using Cons.prems(2) 1 Some by (auto simp: abandon_def rollbackTx_def) (metis prod.collapse)
    then show ?thesis using plain_direct[OF 2(1) assms(1) r(1)] 2(2) Some
      by (simp add: abandon_def rollbackTx_def txTexts_def)
  qed
qed

lemma batch_direct:
  assumes "\<And>q. q \<in> txTexts \<Longrightarrow> safe (plainStmt q)" and "\<And>i. safe (seedStmt i)"
    and "usable st" and "seedBatch run lo hi st = (e, st')"
  shows "usable st' \<and> seedBatch direct lo hi (view st) = (e, view st')"
proof -
  obtain d st1 where b: "runPlain run ''BEGIN'' st = (d, st1)" by (metis surj_pair)
  have "usable st1 \<and> runPlain direct ''BEGIN'' (view st) = (d, view st1)"
    using plain_direct[OF assms(3) assms(1) b] by (simp add: txTexts_def)
  then show ?thesis using assms(4) b rows_direct[OF assms(1,2), of st1 "[lo..hi]" e st']
    by (cases d) (auto simp: seedBatch_def beginTx_def)
qed

lemma seed_direct:
  assumes "\<And>q. q \<in> txTexts \<Longrightarrow> safe (plainStmt q)" and "\<And>i. safe (seedStmt i)"
  shows "usable st \<Longrightarrow> seedFrom run lo n st = (e, st') \<Longrightarrow> usable st' \<and> seedFrom direct lo n (view st) = (e, view st')"
proof (induction "nat (n + 1 - lo)" arbitrary: lo st rule: less_induct)
  case less
  obtain d st1 where b: "seedBatch run lo (min (lo + batchSize - 1) n) st = (d, st1)" by (metis surj_pair)
  show ?case
  proof (cases "lo \<le> n")
    case True
    note e = batch_direct[OF assms less(2) b]
    show ?thesis
    proof (cases d)
      case None
      then show ?thesis using less(1)[of "lo + batchSize" st1] less(3) b e True
        by (simp add: seedFrom.simps[of _ lo] batchSize_def)
    next
      case (Some x)
      then show ?thesis using less(3) b e True by (auto simp: seedFrom.simps[of _ lo])
    qed
  qed (use less in \<open>simp add: seedFrom.simps\<close>)
qed

end

section \<open>On both transports\<close>

lemma seed_text_valid: "validUtf8 (''seed-'' @ formatInt i)"
proof (rule validUtf8_ascii)
  have "inRange 0 0x7F c" if "digitVal c \<noteq> None" for c
    using that by (auto simp: digitVal_def inRange_def Let_def split: if_splits)
  moreover have "list_all (inRange 0 0x7F) ''seed-''" by code_simp
  ultimately show "\<forall>c \<in> set (''seed-'' @ formatInt i). inRange 0 0x7F c"
    using natDigits_digit by (auto simp: formatInt_def split: if_splits)
qed

lemma seed_statements_safe: "q \<in> txTexts \<Longrightarrow> stmtSafe (plainStmt q)" "stmtSafe (seedStmt i)"
proof -
  have v: "validUtf8 ''BEGIN''" "validUtf8 ''COMMIT''" "validUtf8 ''ROLLBACK''" "validUtf8 insertSQL"
    by code_simp+
  then show "q \<in> txTexts \<Longrightarrow> stmtSafe (plainStmt q)" by (auto simp: txTexts_def stmtSafe_def plainStmt_def)
  have "jsonSafe (IntValue j)" "jsonSafe (TextValue (''seed-'' @ formatInt i))" for j
    using seed_text_valid[of i] by (simp_all add: jsonSafe_def value_defs)
  then show "stmtSafe (seedStmt i)"
    using v by (simp add: stmtSafe_def seedStmt_def valueSafe_def cBuilt_def) (simp add: value_defs)
qed

lemma http_seeds:
  assumes "httpUsable T L E a view direct (c, (s, w))"
    and "seedSchema (httpExecutor T (serverPost E T L)) n (c, (s, w)) = (e, (c', (s', w')))"
  shows "seedSchema direct n (view w) = (e, view w') \<and> attached c' s' a"
  using http.seed_direct[OF seed_statements_safe assms(1) assms(2)[unfolded seedSchema_def]]
  by (simp add: seedSchema_def httpUsable_def)

lemma ws_seeds:
  assumes "wsUsable T L E s view direct (c, wc, w)"
    and "seedSchema (wsExecutor T L E M F s) n (c, wc, w) = (e, (c', wc', w'))"
  shows "seedSchema direct n (view w) = (e, view w') \<and> wpendings c' = []"
  using wsc.seed_direct[OF seed_statements_safe assms(1) assms(2)[unfolded seedSchema_def]]
  by (simp add: seedSchema_def wsUsable_def)

end
