(* ===== verification/WsHistory.thy ===== *)
theory WsHistory
  imports WsClientLive
begin

text \<open>
  Which call gets which answer.  The WebSocket client sends the requests of all its callers over
  one connection and sorts the answers by their numbers; a request whose stream was superseded is
  sent again under another number.  Runs are followed here together with what went over the
  connection, and it is shown that whatever a call returns was an answer to it, under every
  schedule of the callers, the read loop and the recoveries.
\<close>

section \<open>Histories\<close>

text \<open>
  \<open>Sent i ch key p rt\<close>: goroutine \<open>i\<close> registered \<open>p\<close> under the number \<open>key\<close>, waits on the channel
  \<open>ch\<close>, and does so on behalf of the request on channel \<open>rt\<close>, if that one is repeated.
\<close>

datatype wevent =
    Sent nat nat i32 wpayload "nat option"
  | Got wframe
  | Over cl_error

fun forRetry :: "wcont \<Rightarrow> nat option" where
  "forRetry (ToRetry p) = Some (wpCh p)"
| "forRetry _ = None"

fun sentBy :: "nat \<Rightarrow> goroutine \<Rightarrow> goroutine \<Rightarrow> wevent list" where
  "sentBy i (Calling p n k) (Writing key ch _ _) = [Sent i ch key p (forRetry k)]"
| "sentBy _ _ _ = []"

text \<open>The steps of the client, each with what it adds to the history.\<close>

inductive hstep :: "wsystem \<Rightarrow> wevent list \<Rightarrow> wsystem \<Rightarrow> bool" where
  opens: "hstep (c, r, gs) [] (c, r, gs @ [Calling (POpenStream (wstream c)) 0 ToCaller])"
| executes: "hstep (c, r, gs) [] (c, r, gs @ [Calling (PExecute (wstream c) s) 0 ToCaller])"
| closes: "closeWsBegin c = (new, c') \<Longrightarrow> hstep (c, r, gs) [] (c', r, gs @ new)"
| goes: "i < length gs \<Longrightarrow> go_step mayCancel c (gs ! i) c' g \<Longrightarrow>
    hstep (c, r, gs) (sentBy i (gs ! i) g) (c', r, gs[i := g])"
| frame: "handleFrame f c = (r, new, c') \<Longrightarrow> hstep (c, RLoop, gs) [Got f] (c', r, gs @ new)"
| delivers: "canSend ch c \<Longrightarrow> hstep (c, RSend ch x, gs) [] (sendTo ch x c, RLoop, gs)"
| ends: "readLoopEnd e c = Some c' \<Longrightarrow> hstep (c, RLoop, gs) [Over e] (c', REnd, gs)"

lemma hstep_iff: "wstep s s' \<longleftrightarrow> (\<exists>l. hstep s l s')"
  by (blast intro: wstep.intros hstep.intros elim: wstep.cases hstep.cases)

inductive ws_history :: "wevent list \<Rightarrow> wsystem \<Rightarrow> bool" where
  start: "ws_history [] (newWsClient, RLoop, [])"
| step: "ws_history h s \<Longrightarrow> hstep s l s' \<Longrightarrow> ws_history (h @ l) s'"

text \<open>The runs of the client are those with a history.\<close>

lemma runs_have_history: "ws_running s \<longleftrightarrow> (\<exists>h. ws_history h s)"
proof
  show "ws_running s \<Longrightarrow> \<exists>h. ws_history h s"
    by (induction rule: ws_running.induct) (auto simp: hstep_iff intro: ws_history.intros)
next
  assume "\<exists>h. ws_history h s"
  then obtain h where "ws_history h s" by blast
  then show "ws_running s"
    by (induction rule: ws_history.induct) (use ws_running.intros hstep_iff in blast)+
qed

section \<open>Answers\<close>

text \<open>The numbers under which the request on a channel was asked: its own, and those of its repetitions.\<close>

inductive asked :: "wevent list \<Rightarrow> nat \<Rightarrow> i32 \<Rightarrow> bool" for h where
  first: "Sent i ch key p rt \<in> set h \<Longrightarrow> asked h ch key"
| again: "Sent i ch key0 p rt \<in> set h \<Longrightarrow> Sent i' ch' key' (withStreamId sid p) (Some ch) \<in> set h \<Longrightarrow>
    asked h ch' key \<Longrightarrow> asked h ch key"

fun answers :: "wframe \<Rightarrow> i32 \<Rightarrow> wresult \<Rightarrow> bool" where
  "answers (FOk key j) key' x \<longleftrightarrow> key = key' \<and> x = Inr j"
| "answers (FError key m) key' x \<longleftrightarrow> key = key' \<and> x = Inl (CServerError m)"
| "answers (FSuperseded key m) key' x \<longleftrightarrow> key = key' \<and> x = Inl (CServerError m)"
| "answers FSkip key' x \<longleftrightarrow> False"

text \<open>The answer came after the request it answers.\<close>

definition answered :: "wevent list \<Rightarrow> nat \<Rightarrow> wresult \<Rightarrow> bool" where
  "answered h ch x \<longleftrightarrow> (\<exists>key f h1 h2. h = h1 @ Got f # h2 \<and> answers f key x \<and> asked h ch key
    \<and> (\<exists>i ch' p rt. Sent i ch' key p rt \<in> set h1))"

text \<open>Errors that are no answers: those of the client itself and the end of the read loop.\<close>

fun localError :: "cl_error \<Rightarrow> bool" where
  "localError (CServerError m) = False"
| "localError e = True"

definition comes :: "wevent list \<Rightarrow> nat \<Rightarrow> wresult \<Rightarrow> bool" where
  "comes h ch x \<longleftrightarrow> answered h ch x \<or> (\<exists>e. x = Inl e \<and> (localError e \<or> Over e \<in> set h))"

lemma asked_mono: "asked h ch key \<Longrightarrow> set h \<subseteq> set h' \<Longrightarrow> asked h' ch key"
  by (induction rule: asked.induct) (blast intro: asked.intros)+

lemma answered_append: "answered h ch x \<Longrightarrow> answered (h @ h') ch x"
  unfolding answered_def using asked_mono[of h _ _ "h @ h'"] by fastforce

lemma comes_append: "comes h ch x \<Longrightarrow> comes (h @ h') ch x"
  using answered_append by (auto simp: comes_def)

lemma comes_local: "localError e \<Longrightarrow> comes h ch (Inl e)"
  by (simp add: comes_def)

text \<open>The answer to a repeated request is an answer to the request.\<close>

lemma answered_again:
  assumes "Sent i ch key0 p rt \<in> set h" and "Sent i' ch' key' (withStreamId sid p) (Some ch) \<in> set h"
    and "answered h ch' x"
  shows "answered h ch x"
proof -
  obtain key f h1 h2 where a: "h = h1 @ Got f # h2" "answers f key x" "asked h ch' key"
    "\<exists>i ch p rt. Sent i ch key p rt \<in> set h1"
    using assms(3) unfolding answered_def by blast
  have "asked h ch key" using asked.again[OF assms(1,2) a(3)] .
  then show ?thesis using a(1,2,4) unfolding answered_def by blast
qed

lemma answered_now:
  assumes "Sent i ch key p rt \<in> set h" and "answers f key x"
  shows "answered (h @ [Got f]) ch x"
proof -
  have "asked (h @ [Got f]) ch key" using asked.first[of i ch key p rt] assms(1) by simp
  then show ?thesis unfolding answered_def using assms by blast
qed

section \<open>The invariant\<close>

text \<open>A request that is to be repeated was sent and refused, its stream being superseded.\<close>

definition refusedOn :: "wevent list \<Rightarrow> nat \<Rightarrow> bool" where
  "refusedOn h ch \<longleftrightarrow> (\<exists>i key p rt m. Sent i ch key p rt \<in> set h \<and> Got (FSuperseded key m) \<in> set h)"

definition pendingOk :: "wevent list \<Rightarrow> wpending \<Rightarrow> bool" where
  "pendingOk h p \<longleftrightarrow> refusedOn h (wpCh p) \<and> (\<exists>i key rt. Sent i (wpCh p) key (wpPayload p) rt \<in> set h)"

fun contOk :: "wevent list \<Rightarrow> wcont \<Rightarrow> bool" where
  "contOk h ToCaller = True"
| "contOk h (ToRetry p) = pendingOk h p"
| "contOk h (RecoverClose p) = pendingOk h p"
| "contOk h (RecoverOpen p) = pendingOk h p"

fun repeats :: "wpayload \<Rightarrow> wcont \<Rightarrow> bool" where
  "repeats p (ToRetry q) \<longleftrightarrow> (\<exists>sid. p = withStreamId sid (wpPayload q))"
| "repeats p _ \<longleftrightarrow> True"

definition returnOk :: "wevent list \<Rightarrow> nat \<Rightarrow> wresult \<Rightarrow> bool" where
  "returnOk h i x \<longleftrightarrow> (\<exists>ch key p. Sent i ch key p None \<in> set h \<and> comes h ch x) \<or> (\<exists>e. x = Inl e \<and> localError e)"

fun goOk :: "wevent list \<Rightarrow> nat \<Rightarrow> goroutine \<Rightarrow> bool" where
  "goOk h i (Calling p n k) \<longleftrightarrow> contOk h k \<and> repeats p k"
| "goOk h i (Writing key ch p k) \<longleftrightarrow> contOk h k \<and> repeats p k \<and> Sent i ch key p (forRetry k) \<in> set h"
| "goOk h i (Selecting key ch k) \<longleftrightarrow> contOk h k \<and> (\<exists>p. repeats p k \<and> Sent i ch key p (forRetry k) \<in> set h)"
| "goOk h i (Retrying p m) \<longleftrightarrow> pendingOk h p \<and> comes h (wpCh p) (Inl (CServerError m))"
| "goOk h i (Awaiting d p) \<longleftrightarrow> pendingOk h p"
| "goOk h i (Resending p) \<longleftrightarrow> pendingOk h p"
| "goOk h i (Replying ch x) \<longleftrightarrow> comes h ch x"
| "goOk h i (Returned x) \<longleftrightarrow> returnOk h i x"
| "goOk h i Ended \<longleftrightarrow> True"

text \<open>A channel belongs to one request, and the number of a request is that of its channel.\<close>

definition sentOk :: "wevent list \<Rightarrow> wclient \<Rightarrow> bool" where
  "sentOk h c \<longleftrightarrow> reqIDSeq c = of_nat (length (chans c))
    \<and> (\<forall>i ch key p rt. Sent i ch key p rt \<in> set h \<longrightarrow> ch < length (chans c) \<and> key = of_nat (ch + 1)
        \<and> (\<forall>i' key' p' rt'. Sent i' ch key' p' rt' \<in> set h \<longrightarrow> i' = i \<and> p' = p \<and> rt' = rt))"

text \<open>Pending requests were sent, and what is in a channel is an answer to its request.\<close>

definition clientOk :: "wevent list \<Rightarrow> wclient \<Rightarrow> bool" where
  "clientOk h c \<longleftrightarrow> sentOk h c
    \<and> (\<forall>(key, p) \<in> set (wpendings c). \<exists>i rt. Sent i (wpCh p) key (wpPayload p) rt \<in> set h)
    \<and> (\<forall>ch x. ch < length (chans c) \<and> chans c ! ch = Some x \<longrightarrow> comes h ch x)
    \<and> (\<forall>i ch key p ch0. Sent i ch key p (Some ch0) \<in> set h \<longrightarrow> refusedOn h ch0)"

definition historyOk :: "wevent list \<Rightarrow> wsystem \<Rightarrow> bool" where
  "historyOk h s = (case s of (c, r, gs) \<Rightarrow>
    clientOk h c \<and> (\<forall>ch x. r = RSend ch x \<longrightarrow> comes h ch x) \<and> (\<forall>i < length gs. goOk h i (gs ! i)))"

lemma refusedOn_append: "refusedOn h ch \<Longrightarrow> refusedOn (h @ h') ch"
  unfolding refusedOn_def by fastforce

lemma pendingOk_append: "pendingOk h p \<Longrightarrow> pendingOk (h @ h') p"
  using refusedOn_append by (auto simp: pendingOk_def)

lemma goOk_append: "goOk h i g \<Longrightarrow> goOk (h @ h') i g"
proof (cases g)
  case (Returned x)
  then show "goOk h i g \<Longrightarrow> ?thesis" using comes_append by (fastforce simp: returnOk_def)
next
  case (Calling p n k)
  then show "goOk h i g \<Longrightarrow> ?thesis" by (cases k) (auto dest: pendingOk_append)
next
  case (Writing key ch p k)
  then show "goOk h i g \<Longrightarrow> ?thesis" by (cases k) (auto dest: pendingOk_append)
next
  case (Selecting key ch k)
  then show "goOk h i g \<Longrightarrow> ?thesis" by (cases k) (auto dest: pendingOk_append)
qed (auto dest: pendingOk_append comes_append)

section \<open>Steps\<close>

lemma readMembers_error:
  assumes "\<And>r k j e. f r k j = Inl e \<Longrightarrow> P e"
  shows "readMembers f r kvs = Inl e \<Longrightarrow> P e"
  using assms by (induction f r kvs rule: readMembers.induct) (auto split: sum.splits prod.splits)

lemma map_sum_error: "map_sum f g x = Inl e \<longleftrightarrow> (\<exists>y. x = Inl y \<and> e = f y)"
  by (cases x) auto

lemma readAssigned_error: "readAssigned j = Inl e \<Longrightarrow> localError e"
  unfolding readAssigned_def readStruct_def
  by (auto simp: map_sum_error split: json.splits dest!: readMembers_error[where P = localError, rotated] split: if_splits sum.splits)

lemma resume_ok:
  assumes "resume k x c = (g, c')" and "contOk h k" and "clientOk h c"
    and "k = ToCaller \<Longrightarrow> returnOk h i x" and "\<And>p. k = ToRetry p \<Longrightarrow> comes h (wpCh p) x"
  shows "clientOk h c' \<and> goOk h i g \<and> sentBy i g0 g = []"
proof (cases k)
  case (RecoverOpen p)
  have f: "chans c' = chans c" "wpendings c' = wpendings c" "reqIDSeq c' = reqIDSeq c"
    using resume_frame[OF assms(1), of 0] by simp_all
  then have "clientOk h c'" using assms(3) by (simp add: clientOk_def sentOk_def)
  moreover have "goOk h i g" "sentBy i g0 g = []"
    using assms(1,2) RecoverOpen readAssigned_error comes_local by (auto split: sum.splits)
  ultimately show ?thesis by blast
qed (use assms in auto)


text \<open>A call that waits on \<open>ch\<close> may go on with what comes to the channel.\<close>

lemma waiting_resumes:
  assumes "resume k x c = (g, c')" and "contOk h k" and "clientOk h c"
    and "Sent i ch key p (forRetry k) \<in> set h" and "repeats p k" and "comes h ch x"
  shows "clientOk h c' \<and> goOk h i g \<and> sentBy i g0 g = []"
proof (rule resume_ok[OF assms(1-3)])
  show "returnOk h i x" if "k = ToCaller"
    using assms(4,6) that unfolding returnOk_def by auto
  show "comes h (wpCh q) x" if k: "k = ToRetry q" for q
  proof -
    obtain sid where "p = withStreamId sid (wpPayload q)" using assms(5) k by auto
    then have again: "Sent i ch key (withStreamId sid (wpPayload q)) (Some (wpCh q)) \<in> set h" using assms(4) k by simp
    obtain i0 key0 rt where "Sent i0 (wpCh q) key0 (wpPayload q) rt \<in> set h"
      using assms(2) k by (auto simp: pendingOk_def)
    from answered_again[OF this again] assms(6) show ?thesis by (auto simp: comes_def)
  qed
qed

lemma fails_locally:
  assumes "resume k (Inl e) c = (g, c')" and "contOk h k" and "clientOk h c" and "localError e"
  shows "clientOk h c' \<and> goOk h i g \<and> sentBy i g0 g = []"
  using assms by (intro resume_ok[OF assms(1-3)]) (auto simp: returnOk_def comes_local)

lemma clientOk_drop: "clientOk h c \<Longrightarrow> clientOk h (dropRequest key c)"
  unfolding clientOk_def sentOk_def dropRequest_def by (auto simp: AList.delete_eq)

lemma clientOk_receive: "clientOk h c \<Longrightarrow> clientOk h (receive ch c)"
  unfolding clientOk_def sentOk_def receive_def
  by (auto simp: nth_list_update) (metis nth_list_update_eq nth_list_update_neq option.distinct(1))

lemma clientOk_send: "clientOk h c \<Longrightarrow> comes h ch x \<Longrightarrow> clientOk h (sendTo ch x c)"
  unfolding clientOk_def sentOk_def sendTo_def
  by auto (metis nth_list_update_eq nth_list_update_neq option.inject)

lemma clientOk_sent:
  assumes "registerRequest p n c = (Inr (key, ch), c1)" and "clientOk h c" and "\<And>ch0. rt = Some ch0 \<Longrightarrow> refusedOn h ch0"
  shows "clientOk (h @ [Sent i ch key p rt]) c1"
proof -
  note r = assms(1)[unfolded registered_iff]
  have c: "sentOk h c" "\<forall>(key, p) \<in> set (wpendings c). \<exists>i rt. Sent i (wpCh p) key (wpPayload p) rt \<in> set h"
    "\<forall>ch x. ch < length (chans c) \<and> chans c ! ch = Some x \<longrightarrow> comes h ch x"
    "\<forall>i ch key p ch0. Sent i ch key p (Some ch0) \<in> set h \<longrightarrow> refusedOn h ch0"
    using assms(2) by (simp_all add: clientOk_def)
  have "sentOk (h @ [Sent i ch key p rt]) c1" using c(1) r unfolding sentOk_def by fastforce
  moreover have "\<exists>i' rt'. Sent i' (wpCh q) key' (wpPayload q) rt' \<in> set (h @ [Sent i ch key p rt])"
    if "(key', q) \<in> set (wpendings c1)" for key' q
  proof -
    have "(key', q) = (key, \<lparr>wpPayload = p, wpCh = ch, wpRetries = n\<rparr>) \<or> (key', q) \<in> set (wpendings c)"
      using that r set_update_le by fastforce
    then show ?thesis
    proof
      assume "(key', q) \<in> set (wpendings c)"
      then obtain i' rt' where "Sent i' (wpCh q) key' (wpPayload q) rt' \<in> set h" using c(2) by blast
      then show ?thesis by (intro exI[of _ i'] exI[of _ rt']) simp
    qed (auto intro!: exI[of _ i] exI[of _ rt])
  qed
  moreover have "comes (h @ [Sent i ch key p rt]) d x" if "d < length (chans c1)" "chans c1 ! d = Some x" for d x
    using that c(3) r by (auto simp: nth_append split: if_splits intro: comes_append)
  moreover have "refusedOn (h @ [Sent i ch key p rt]) ch0" if "Sent i' ch' key' p' (Some ch0) \<in> set (h @ [Sent i ch key p rt])"
    for i' ch' key' p' ch0
    using that c(4) assms(3) by (auto intro: refusedOn_append)
  ultimately show ?thesis unfolding clientOk_def by blast
qed

lemma go_history:
  assumes "go_step quit c g c' g'" and "clientOk h c" and "goOk h i g"
  shows "clientOk (h @ sentBy i g g') c' \<and> goOk (h @ sentBy i g g') i g'"
  using assms
proof (induction rule: go_step.induct)
  case (refused p n c e c1 k g c2)
  have "clientOk h c1" using refused(1,3) unfolding refused_iff clientOk_def sentOk_def
    by (auto simp: nth_append less_Suc_eq)
  from fails_locally[OF refused(2) _ this, of i "Calling p n k"] refused show ?case by (auto simp: refused_iff)
next
  case (registered p n c key ch c1 k)
  note r = registered(1)[unfolded registered_iff]
  let ?e = "Sent i ch key p (forRetry k)"
  have "clientOk (h @ [?e]) c1" 
  proof (rule clientOk_sent[OF registered(1,2)])
    show "refusedOn h ch0" if "forRetry k = Some ch0" for ch0 using that registered(3) by (cases k) (auto simp: pendingOk_def)
  qed
  then show ?case using registered(3) goOk_append[of h i "Calling p n k" "[?e]"] by simp
next
  case (unwritten k e key c g c1 ch p)
  from fails_locally[OF unwritten(1) _ clientOk_drop[OF unwritten(2)], of i "Writing key ch p k"] unwritten(3)
  show ?case by simp
next
  case (received c ch r k g c1 key)
  obtain p where p: "repeats p k" "Sent i ch key p (forRetry k) \<in> set h" and k: "contOk h k" using received(4) by auto
  then have "ch < length (chans c)" using received(3) unfolding clientOk_def sentOk_def by blast
  then have x: "comes h ch r" using received(1,3) by (simp add: clientOk_def)
  from waiting_resumes[OF received(2) k clientOk_receive[OF received(3)] p(2,1) x, of "Selecting key ch k"]
  show ?case by simp
next
  case (cancelled k key c g c1 ch)
  from fails_locally[OF cancelled(2) _ clientOk_drop[OF cancelled(3)], of i "Selecting key ch k"] cancelled(4)
  show ?case by simp
next
  case (retrying p msg c g c1)
  then show ?case
    by (auto simp: retryStart_def clientOk_def sentOk_def split: if_splits option.splits)
next
  case (resending p c)
  then show ?case by auto
next
  case (replying ch c x)
  then show ?case using clientOk_send by simp
qed auto


lemma clientOk_append:
  assumes "clientOk h c" and "\<And>i ch key p rt. e \<noteq> Sent i ch key p rt"
  shows "clientOk (h @ [e]) c"
proof -
  have "Sent i ch key p rt \<in> set (h @ [e]) \<longleftrightarrow> Sent i ch key p rt \<in> set h" for i ch key p rt
    using assms(2) by (metis UnE Un_iff empty_iff insert_iff list.set set_append)
  then show ?thesis using assms(1) comes_append[of h _ _ "[e]"] refusedOn_append[of h _ "[e]"]
    unfolding clientOk_def sentOk_def by simp
qed

lemma frame_history:
  assumes "handleFrame f c = (r, new, c')" and "clientOk h c"
  shows "clientOk (h @ [Got f]) c' \<and> (\<forall>ch x. r = RSend ch x \<longrightarrow> comes (h @ [Got f]) ch x)
    \<and> (\<forall>g \<in> set new. \<forall>i. goOk (h @ [Got f]) i g)"
proof -
  have now: "comes (h @ [Got f]) (wpCh p) x" "f = FSuperseded key m \<Longrightarrow> pendingOk (h @ [Got f]) p"
    if p: "map_of (wpendings c) key = Some p" and x: "answers f key x" for key p x m
  proof -
    have "(key, p) \<in> set (wpendings c)" using p by (rule map_of_SomeD)
    then obtain i rt where s: "Sent i (wpCh p) key (wpPayload p) rt \<in> set h" using assms(2) unfolding clientOk_def by blast
    show "comes (h @ [Got f]) (wpCh p) x" using answered_now[OF s x] by (simp add: comes_def)
    show "pendingOk (h @ [Got f]) p" if "f = FSuperseded key m"
      using s that unfolding pendingOk_def refusedOn_def by fastforce
  qed
  have ok: "clientOk (h @ [Got f]) c" "clientOk (h @ [Got f]) (dropRequest key c)" for key
    using clientOk_append[OF assms(2), of "Got f"] clientOk_drop by blast+
  show ?thesis
  proof (cases f)
    case (FOk key j)
    then show ?thesis using assms(1) ok now(1)[of key _ "Inr j"]
      by (auto simp: dispatchResult_def split: option.splits)
  next
    case (FError key m)
    then show ?thesis using assms(1) ok now(1)[of key _ "Inl (CServerError m)"]
      by (auto simp: dispatchResult_def split: option.splits)
  next
    case (FSuperseded key m)
    then show ?thesis using assms(1) ok now(1)[of key _ "Inl (CServerError m)"] now(2)[of key _ "Inl (CServerError m)" m]
      by (auto simp: handleStreamSuperseded_def split: option.splits)
  next
    case FSkip
    then show ?thesis using assms(1) ok by auto
  qed
qed

lemma failAll_history:
  "failAll e ps c = Some c' \<Longrightarrow> clientOk h c \<Longrightarrow> Over e \<in> set h \<Longrightarrow> clientOk h c'"
proof (induction ps arbitrary: c)
  case (Cons x ps)
  obtain key p where x: "x = (key, p)" by fastforce
  have "comes h (wpCh p) (Inl e)" using Cons.prems(3) by (simp add: comes_def)
  from clientOk_drop[OF clientOk_send[OF Cons.prems(2) this]] Cons.IH Cons.prems(1,3) show ?case
    by (auto simp: x split: if_splits)
qed simp

lemma hstep_ok: "hstep s l s' \<Longrightarrow> historyOk h s \<Longrightarrow> historyOk (h @ l) s'"
proof (induction rule: hstep.induct)
  case (closes c new c' r gs)
  have "clientOk h c' = clientOk h c" "\<forall>g \<in> set new. \<forall>i. goOk h i g"
    using closes.hyps by (auto simp: closeWsBegin_def clientOk_def sentOk_def split: if_splits)
  then show ?case using closes.prems by (auto simp: historyOk_def nth_append)
next
  case (goes i gs c c' g r)
  let ?l = "sentBy i (gs ! i) g"
  have o: "clientOk h c" "goOk h i (gs ! i)" using goes by (simp_all add: historyOk_def)
  note s = go_history[OF goes.hyps(2) o]
  have "goOk (h @ ?l) k (gs[i := g] ! k)" if "k < length gs" for k
    using that s goes.prems goOk_append by (cases "k = i") (auto simp: historyOk_def)
  then show ?case using s goes.prems comes_append by (auto simp: historyOk_def)
next
  case (frame f c r new c' gs)
  have o: "clientOk h c" using frame.prems by (simp add: historyOk_def)
  show ?case using frame_history[OF frame.hyps o] frame.prems goOk_append by (auto simp: historyOk_def nth_append)
next
  case (delivers ch c x gs)
  then show ?case using clientOk_send by (auto simp: historyOk_def)
next
  case (ends e c c' gs)
  have "clientOk (h @ [Over e]) c" using ends.prems clientOk_append[of h c "Over e"] by (simp add: historyOk_def)
  then have "clientOk (h @ [Over e]) (c\<lparr>wclosed := True, closeErr := Some e\<rparr>)" by (simp add: clientOk_def sentOk_def)
  from failAll_history[OF ends.hyps[unfolded readLoopEnd_def Let_def] this] ends.prems show ?case
    using goOk_append by (auto simp: historyOk_def)
qed (auto simp: historyOk_def nth_append less_Suc_eq)

lemma history_ok: "ws_history h s \<Longrightarrow> historyOk h s"
proof (induction rule: ws_history.induct)
  case start
  show ?case by (simp add: historyOk_def clientOk_def sentOk_def newWsClient_def)
next
  case (step h s l s')
  then show ?case using hstep_ok by blast
qed

section \<open>Calls and answers\<close>

lemma same_request: "\<exists>sid. p = withStreamId sid p" "withStreamId i (withStreamId j p) = withStreamId i p"
  by (cases p; auto)+

text \<open>What was asked for a request is the request, on its stream or another.\<close>

lemma asked_request:
  assumes "asked h ch key" and "sentOk h c" and "Sent i ch key0 p rt \<in> set h"
  shows "\<exists>i' ch' rt' sid. Sent i' ch' key (withStreamId sid p) rt' \<in> set h"
  using assms
proof (induction arbitrary: i key0 p rt rule: asked.induct)
  case (first i1 ch key p1 rt1)
  then have "p = p1" unfolding sentOk_def by blast
  then show ?case using first.hyps same_request(1)[of p] by metis
next
  case (again i1 ch key1 p1 rt1 i2 ch2 key2 sid key)
  then have "p = p1" unfolding sentOk_def by blast
  then show ?case using again.IH[OF again.prems(1) again.hyps(2)] same_request(2) by auto
qed

lemma call_answered:
  assumes "ws_history h (c, r, gs)" and "i < length gs" and "gs ! i = Returned (Inr j)" and "noWrap c"
  shows "\<exists>ch key0 p key i' ch' rt sid. Sent i ch key0 p None \<in> set h \<and> asked h ch key
    \<and> Got (FOk key j) \<in> set h \<and> Sent i' ch' key (withStreamId sid p) rt \<in> set h
    \<and> (\<forall>i2 ch2 p2 rt2. Sent i2 ch2 key p2 rt2 \<in> set h \<longrightarrow> i2 = i' \<and> ch2 = ch' \<and> p2 = withStreamId sid p)"
proof -
  have o: "sentOk h c" "goOk h i (Returned (Inr j))"
    using history_ok[OF assms(1)] assms(2,3) by (auto simp: historyOk_def clientOk_def)
  obtain ch key0 p where s: "Sent i ch key0 p None \<in> set h" "comes h ch (Inr j)" using o(2) by (auto simp: returnOk_def)
  obtain key f where a: "Got f \<in> set h" "answers f key (Inr j)" "asked h ch key"
    using s(2) unfolding comes_def answered_def by fastforce
  have f: "f = FOk key j" using a(2) by (cases f) simp_all
  obtain i' ch' rt sid where q: "Sent i' ch' key (withStreamId sid p) rt \<in> set h"
    using asked_request[OF a(3) o(1) s(1)] by blast
  have "i2 = i' \<and> ch2 = ch' \<and> p2 = withStreamId sid p" if e: "Sent i2 ch2 key p2 rt2 \<in> set h" for i2 ch2 p2 rt2
  proof -
    have "ch2 < length (chans c)" "ch' < length (chans c)" "(of_nat (ch2 + 1) :: i32) = of_nat (ch' + 1)"
      using o(1) e q unfolding sentOk_def by metis+
    then have "ch2 = ch'" using i32_of_nat_inj[of "ch2 + 1" "ch' + 1"] assms(4) by simp
    then show ?thesis using o(1) e q unfolding sentOk_def by blast
  qed
  with s(1) a(1,3) f q show ?thesis by blast
qed

end
