(* ===== verification/WsRepeats.thy ===== *)
theory WsRepeats
  imports WsHistory
begin

text \<open>
  A request of the WebSocket client is repeated at most once on its channel: the repetition has a
  channel of its own, and may itself be refused and repeated.  So the numbers a request was asked
  under form a chain, and all but the last were refused.
\<close>

section \<open>Who may still repeat\<close>

fun recoverOwn :: "nat \<Rightarrow> wcont \<Rightarrow> nat" where
  "recoverOwn ch (RecoverClose p) = one (wpCh p = ch)"
| "recoverOwn ch (RecoverOpen p) = one (wpCh p = ch)"
| "recoverOwn ch _ = 0"

fun mayRepeat :: "nat \<Rightarrow> goroutine \<Rightarrow> nat" where
  "mayRepeat ch (Calling p n k) = contOwn ch k"
| "mayRepeat ch (Writing key c p k) = recoverOwn ch k"
| "mayRepeat ch (Selecting key c k) = recoverOwn ch k"
| "mayRepeat ch (Retrying p m) = one (wpCh p = ch)"
| "mayRepeat ch (Awaiting d p) = one (wpCh p = ch)"
| "mayRepeat ch (Resending p) = one (wpCh p = ch)"
| "mayRepeat ch _ = 0"

fun repeatsOn :: "nat \<Rightarrow> wevent \<Rightarrow> bool" where
  "repeatsOn ch (Sent i c key p rt) \<longleftrightarrow> rt = Some ch"
| "repeatsOn ch _ \<longleftrightarrow> False"

definition repetitions :: "nat \<Rightarrow> wevent list \<Rightarrow> nat" where
  "repetitions ch h = length (filter (repeatsOn ch) h)"

abbreviation waitingOn :: "nat \<Rightarrow> wclient \<Rightarrow> nat" where
  "waitingOn ch c \<equiv> tally (\<lambda>p. wpCh p = ch) (wpendings c)"

lemma repetitions_simps [simp]:
  "repetitions ch [] = 0" "repetitions ch (h @ l) = repetitions ch h + repetitions ch l"
  "repetitions ch [Got f] = 0" "repetitions ch [Over e] = 0"
  "repetitions ch [Sent i c key p rt] = one (rt = Some ch)"
  by (simp_all add: repetitions_def)

lemma resume_repeat: "resume k x c = (g, c') \<Longrightarrow>
    mayRepeat ch g \<le> recoverOwn ch k \<and> sentBy i g0 g = [] \<and> wpendings c' = wpendings c \<and> chans c' = chans c"
  using resume_frame[of k x c g c' ch] by (cases k) (auto split: sum.splits)

lemma contOwn_split: "contOwn ch k = recoverOwn ch k + one (forRetry k = Some ch)"
  by (cases k) auto

lemma go_repeats:
  "go_step quit c g c' g' \<Longrightarrow>
    waitingOn ch c' + mayRepeat ch g' + repetitions ch (sentBy i g g') \<le> waitingOn ch c + mayRepeat ch g + fresh ch c c'
    \<and> length (chans c) \<le> length (chans c')"
proof (induction rule: go_step.induct)
  case (refused p n c e c1 k g c2)
  then show ?case
    using resume_repeat[OF refused(2), of ch i "Calling p n k"] contOwn_split[of ch k] by (auto simp: refused_iff)
next
  case (registered p n c key ch' c1 k)
  note r = registered(1)[unfolded registered_iff]
  have "waitingOn ch c1 \<le> waitingOn ch c + one (ch = length (chans c))"
    using tally_update_le[of "\<lambda>p. wpCh p = ch" key "\<lparr>wpPayload = p, wpCh = ch', wpRetries = n\<rparr>" "wpendings c"] r
    by (simp add: eq_commute[of ch])
  then show ?case using r contOwn_split[of ch k] fresh_next[of c1 c ch] by simp
next
  case (unwritten k e key c g c1 ch' p)
  then show ?case
    using resume_repeat[OF unwritten(1), of ch i "Writing key ch' p k"] tally_delete_le[of "\<lambda>p. wpCh p = ch" key "wpendings c"]
    by (simp add: dropRequest_def)
next
  case (received c ch' x k g c1 key)
  then show ?case using resume_repeat[OF received(2), of ch i "Selecting key ch' k"] by (simp add: receive_def)
next
  case (cancelled k key c g c1 ch')
  then show ?case
    using resume_repeat[OF cancelled(2), of ch i "Selecting key ch' k"] tally_delete_le[of "\<lambda>p. wpCh p = ch" key "wpendings c"]
    by (simp add: dropRequest_def)
next
  case (retrying p msg c g c1)
  then show ?case by (auto simp: retryStart_def split: if_splits option.splits)
qed (auto simp: sendTo_def)

definition repeaters :: "nat \<Rightarrow> wevent list \<Rightarrow> wsystem \<Rightarrow> nat" where
  "repeaters ch h s = (case s of (c, r, gs) \<Rightarrow>
    waitingOn ch c + sum_list (map (mayRepeat ch) gs) + repetitions ch h)"

definition repeatInv :: "wevent list \<Rightarrow> wsystem \<Rightarrow> bool" where
  "repeatInv h s \<longleftrightarrow> (\<forall>ch. repeaters ch h s \<le> one (ch < length (chans (fst s))))"

lemma repeatInv_mono:
  assumes "repeatInv h s" and "\<And>ch. repeaters ch h' s' \<le> repeaters ch h s"
    and "length (chans (fst s')) = length (chans (fst s))"
  shows "repeatInv h' s'"
  using assms unfolding repeatInv_def by (metis order_trans)

lemma failAll_waiting:
  "failAll e ps c = Some c' \<Longrightarrow> waitingOn ch c' \<le> waitingOn ch c \<and> length (chans c') = length (chans c)"
proof (induction ps arbitrary: c)
  case (Cons x ps)
  obtain key p where x: "x = (key, p)" by fastforce
  let ?c = "dropRequest key (sendTo (wpCh p) (Inl e) c)"
  have "failAll e ps ?c = Some c'" using Cons.prems by (simp add: x split: if_splits)
  from Cons.IH[OF this] tally_delete_le[of "\<lambda>p. wpCh p = ch" key "wpendings c"] show ?case
    by (simp add: dropRequest_def sendTo_def)
qed simp

lemma frame_waiting:
  assumes "handleFrame f c = (r, new, c')" and "wf_map (wpendings c)"
  shows "waitingOn ch c' + sum_list (map (mayRepeat ch) new) \<le> waitingOn ch c \<and> chans c' = chans c"
proof -
  have d: "waitingOn ch (dropRequest key c) \<le> waitingOn ch c" "chans (dropRequest key c) = chans c" for key
    using tally_delete_le by (simp_all add: dropRequest_def)
  have e: "map_of (wpendings c) key = Some p \<Longrightarrow> waitingOn ch (dropRequest key c) + one (wpCh p = ch) = waitingOn ch c" for key p
    using tally_delete[OF _ assms(2), of key p "\<lambda>p. wpCh p = ch"] by (simp add: dropRequest_def)
  show ?thesis
  proof (cases f)
    case (FSuperseded key m)
    then show ?thesis using assms(1) e[of key] d by (cases "map_of (wpendings c) key") (auto simp: handleStreamSuperseded_def)
  next
    case (FOk key j)
    then show ?thesis using assms(1) d by (cases "map_of (wpendings c) key") (auto simp: dispatchResult_def)
  next
    case (FError key m)
    then show ?thesis using assms(1) d by (cases "map_of (wpendings c) key") (auto simp: dispatchResult_def)
  qed (use assms in simp)
qed

lemma hstep_repeats:
  assumes "hstep s l s'" and "repeatInv h s" and "chanInv s"
  shows "repeatInv (h @ l) s'"
  using assms
proof (induction rule: hstep.induct)
  case (closes c new c' r gs)
  have "repeaters ch h (c', r, gs @ new) = repeaters ch h (c, r, gs)" "chans c' = chans c" for ch
    using closes(1) by (auto simp: closeWsBegin_def repeaters_def split: if_splits)
  then show ?case by (intro repeatInv_mono[OF closes(2)]) simp_all
next
  case (goes i gs c c' g r)
  let ?l = "sentBy i (gs ! i) g"
  have "repeaters ch (h @ ?l) (c', r, gs[i := g]) \<le> one (ch < length (chans c'))" for ch
  proof -
    have "repeaters ch (h @ ?l) (c', r, gs[i := g]) \<le> repeaters ch h (c, r, gs) + fresh ch c c'"
      using go_repeats[OF goes(2), of ch i] sum_list_update_nat[OF goes(1), of "mayRepeat ch" g] by (simp add: repeaters_def)
    moreover have "repeaters ch h (c, r, gs) \<le> one (ch < length (chans c))" using goes(3) by (simp add: repeatInv_def)
    ultimately show ?thesis using go_repeats[OF goes(2), of ch i] by (cases "ch < length (chans c)") (auto simp: fresh_def)
  qed
  then show ?case by (simp add: repeatInv_def)
next
  case (frame f c r new c' gs)
  have w: "wf_map (wpendings c)" using frame(3) by (simp add: chanInv_def)
  note W = frame_waiting[OF frame(1) w]
  have "repeaters ch (h @ [Got f]) (c', r, gs @ new) \<le> repeaters ch h (c, RLoop, gs)" for ch
    using W[of ch] by (simp add: repeaters_def)
  then show ?case using W by (intro repeatInv_mono[OF frame(2)]) simp_all
next
  case (ends e c c' gs)
  have "waitingOn ch c' \<le> waitingOn ch c \<and> length (chans c') = length (chans c)" for ch
    using failAll_waiting[OF ends(1)[unfolded readLoopEnd_def Let_def], of ch] by simp
  then show ?case by (intro repeatInv_mono[OF ends(2)]) (simp_all add: repeaters_def)
next
  case (delivers ch c x gs)
  then show ?case by (intro repeatInv_mono[OF delivers(2)]) (simp_all add: repeaters_def sendTo_def)
qed (auto intro: repeatInv_mono simp: repeaters_def)

lemma history_repeats: "ws_history h s \<Longrightarrow> repeatInv h s"
proof (induction rule: ws_history.induct)
  case start
  show ?case by (simp add: repeatInv_def repeaters_def newWsClient_def)
next
  case (step h s l s')
  then have "chanInv s" using runs_have_history running_chanInv by blast
  then show ?case using hstep_repeats step by blast
qed

text \<open>Two repetitions on one channel are the same.\<close>

lemma repeated_once:
  assumes "ws_history h s" and "Sent i ch key p (Some ch0) \<in> set h" and "Sent i' ch' key' p' (Some ch0) \<in> set h"
  shows "ch = ch'"
proof -
  obtain c r gs where s: "s = (c, r, gs)" by (cases s)
  have "repeaters ch0 h (c, r, gs) \<le> one (ch0 < length (chans c))"
    using history_repeats[OF assms(1)] unfolding repeatInv_def s fst_conv by blast
  moreover have "repetitions ch0 h \<le> repeaters ch0 h (c, r, gs)" by (simp add: repeaters_def)
  ultimately have "repetitions ch0 h \<le> one (ch0 < length (chans c))" by (rule order_trans[rotated])
  also have "\<dots> \<le> 1" by simp
  finally have "length (filter (repeatsOn ch0) h) \<le> 1" by (simp only: repetitions_def)
  moreover have "Sent i ch key p (Some ch0) \<in> set (filter (repeatsOn ch0) h)"
    "Sent i' ch' key' p' (Some ch0) \<in> set (filter (repeatsOn ch0) h)" using assms(2,3) by simp_all
  ultimately show ?thesis
    by (cases "filter (repeatsOn ch0) h") auto
qed

end
