(* ===== verification/WsConcurrent.thy ===== *)
theory WsConcurrent
  imports WsRepeats WsEndToEnd
begin

text \<open>
  The WebSocket client with all its goroutines and the session at the other end, together: any
  number of calls at a time, requests in flight, requests the session works on in any order,
  answers on their way back, superseded streams and their recovery, under every interleaving.
  Requests hold texts that JSON can carry (\<open>payloadSafe\<close>).
  A result that a call returns is what the session made of the statement of this call.
\<close>

section \<open>The two ends and the connection\<close>

text \<open>
  The session answers a request in some state of its own and of the server.  A record of it: the
  number of the request, the server, the session and the world it was served in, and the outcome.
\<close>

datatype 'd served = Served i32 "'d server" session 'd "error + ws_response"

text \<open>
  What is between the two: requests the client has written and the session has not read, in
  order, and how many messages of the session the client has read.
\<close>

type_synonym 'd wsys = "wsystem \<times> ws_conn \<times> 'd \<times> (i32 \<times> wpayload) list \<times> nat"

definition quietEvents :: "wevent list \<Rightarrow> bool" where
  "quietEvents l \<longleftrightarrow> (\<forall>f. Got f \<notin> set l) \<and> (\<forall>i ch key p rt. Sent i ch key p rt \<in> set l \<longrightarrow> payloadSafe p)"

text \<open>
  The client moves on by itself, and a request it writes may be lost with the connection; it
  writes a request; the session reads the next one, answers any of those it has, sends the
  message; the client reads it.  Meanwhile the database, other connections and \<open>EvolveDatabase\<close>
  may change the session's streams and the world.
\<close>

inductive ws_joint ::
  "go_text \<Rightarrow> link \<Rightarrow> 'd env \<Rightarrow> ws_decoders \<Rightarrow> frame_decoders \<Rightarrow> wevent list \<Rightarrow> 'd served list \<Rightarrow> 'd wsys \<Rightarrow> bool"
  for T L E M F where
  start: "wcAuthed wc \<Longrightarrow> codecForProto (wcProto wc) = (JSONCodec, OpText) \<Longrightarrow> wcPending wc = [] \<Longrightarrow>
    ws_joint T L E M F [] [] ((newWsClient, RLoop, []), wc, w, [], length (wcSent wc))"
| client: "ws_joint T L E M F h lg (x, wc, w, up, n) \<Longrightarrow> hstep x l x' \<Longrightarrow> quietEvents l \<Longrightarrow>
    ws_joint T L E M F (h @ l) lg (x', wc, w, up, n)"
| writes: "ws_joint T L E M F h lg ((c, r, gs), wc, w, up, n) \<Longrightarrow> i < length gs \<Longrightarrow> gs ! i = Writing key ch p k \<Longrightarrow>
    ws_joint T L E M F h lg ((c, r, gs[i := Selecting key ch k]), wc, w, up @ [(key, p)], n)"
| reads: "ws_joint T L E M F h lg (x, wc, w, (key, p) # up, n) \<Longrightarrow> writeWsRequest T key p = Inr j \<Longrightarrow>
    readFrame s (jsonFrames (lexJson L) (render L) F) (Frame OpText (render L j)) wc w = (wc', w') \<Longrightarrow>
    ws_joint T L E M F h lg (x, wc', w', up, n)"
| serves: "ws_joint T L E M F h lg (x, wc, w, up, n) \<Longrightarrow> m < length (wcPending wc) \<Longrightarrow>
    respond E (jsonRequests T (lexJson L) M) s m wc w = Some (wc', w') \<Longrightarrow> wcPending wc ! m = (key, raw) \<Longrightarrow>
    dispatchWSRequest E (jsonRequests T (lexJson L) M) s raw JSONCodec (wcProto wc) (wcSess wc) w = Some (res, y) \<Longrightarrow>
    ws_joint T L E M F h (lg @ [Served key s (wcSess wc) w res]) (x, wc', w', up, n)"
| receives: "ws_joint T L E M F h lg ((c, RLoop, gs), wc, w, up, n) \<Longrightarrow> n < length (wcSent wc) \<Longrightarrow>
    writeWsMessage T (wcSent wc ! n) = Inr j \<Longrightarrow> hstep (c, RLoop, gs) [Got (readServerFrame j)] x' \<Longrightarrow>
    ws_joint T L E M F (h @ [Got (readServerFrame j)]) lg (x', wc, w, up, n + 1)"
| outside: "ws_joint T L E M F h lg (x, wc, w, up, n) \<Longrightarrow>
    ws_joint T L E M F h lg (x, wc\<lparr>wcSess := sess\<rparr>, w', up, n)"

section \<open>What is in flight\<close>

definition sentAs :: "wevent list \<Rightarrow> i32 \<Rightarrow> wpayload \<Rightarrow> bool" where
  "sentAs h key p \<longleftrightarrow> payloadSafe p \<and> (\<exists>i ch rt. Sent i ch key p rt \<in> set h)"

text \<open>A request the session has read is the one that was sent under its number.\<close>

definition carries :: "go_text \<Rightarrow> link \<Rightarrow> 'd env \<Rightarrow> ws_decoders \<Rightarrow> bytes \<Rightarrow> wpayload \<Rightarrow> bool" where
  "carries T L E M raw p \<longleftrightarrow> (\<forall>s proto sess w.
    dispatchWSRequest E (jsonRequests T (lexJson L) M) s raw JSONCodec proto sess w = wsServe E s sess p w)"

text \<open>The session served a request that was sent under its number.\<close>

definition servedFor :: "'d env \<Rightarrow> wevent list \<Rightarrow> 'd served list \<Rightarrow> i32 \<Rightarrow> error + ws_response \<Rightarrow> bool" where
  "servedFor E h lg key res \<longleftrightarrow> (\<exists>p s sess w sess' w'. sentAs h key p \<and> Served key s sess w res \<in> set lg
    \<and> wsServe E s sess p w = Some (res, sess', w'))"

text \<open>What a frame of the session tells the client was so.\<close>

fun frameServed :: "go_text \<Rightarrow> 'd env \<Rightarrow> wevent list \<Rightarrow> 'd served list \<Rightarrow> wframe \<Rightarrow> bool" where
  "frameServed T E h lg (FOk key j) \<longleftrightarrow> (\<exists>resp. servedFor E h lg key (Inr resp) \<and> writeWsResponse T resp = Inr j)"
| "frameServed T E h lg (FSuperseded key m) \<longleftrightarrow> servedFor E h lg key (Inl StreamIsSuperseded)"
| "frameServed T E h lg f \<longleftrightarrow> True"

definition jointOk :: "go_text \<Rightarrow> link \<Rightarrow> 'd env \<Rightarrow> ws_decoders \<Rightarrow> wevent list \<Rightarrow> 'd served list \<Rightarrow> 'd wsys \<Rightarrow> bool" where
  "jointOk T L E M h lg y \<longleftrightarrow> (case y of (x, wc, w, up, n) \<Rightarrow>
    ws_history h x
    \<and> (\<forall>i ch key p rt. Sent i ch key p rt \<in> set h \<longrightarrow> payloadSafe p)
    \<and> codecForProto (wcProto wc) = (JSONCodec, OpText)
    \<and> (\<forall>(key, p) \<in> set up. sentAs h key p)
    \<and> (\<forall>(key, raw) \<in> set (wcPending wc). \<exists>p. sentAs h key p \<and> carries T L E M raw p)
    \<and> (\<forall>m \<in> set (drop n (wcSent wc)). \<exists>key res. m = responseMsg key res \<and> servedFor E h lg key res)
    \<and> (\<forall>f. Got f \<in> set h \<longrightarrow> frameServed T E h lg f))"

lemma sentAs_append: "sentAs h key p \<Longrightarrow> sentAs (h @ l) key p"
  by (auto simp: sentAs_def)

lemma servedFor_append: "servedFor E h lg key res \<Longrightarrow> servedFor E (h @ l) (lg @ lg') key res"
  unfolding servedFor_def using sentAs_append by fastforce

lemma frameServed_append: "frameServed T E h lg f \<Longrightarrow> frameServed T E (h @ l) (lg @ lg') f"
  using servedFor_append by (cases f) (auto; blast)+

lemma request_carried:
  fixes E :: "'d env"
  assumes "textsAgree T" and "linkOk L" and "payloadSafe p" and "writeWsRequest T key p = Inr j"
  obtains raw where "frameType (jsonFrames (lexJson L) (render L) F) JSONCodec (render L j) = Inr ''request''"
    and "extractWSRequest (jsonFrames (lexJson L) (render L) F) JSONCodec (render L j) = Inr (key, raw)"
    and "carries T L E M raw p"
proof -
  have lex: "lexJson L (render L j) = Inr j" for j using assms(2) by (simp add: linkOk_def)
  have out: "\<exists>inner. frameType (jsonFrames (lexJson L) (render L) F) JSONCodec (render L j) = Inr ''request''
      \<and> extractWSRequest (jsonFrames (lexJson L) (render L) F) JSONCodec (render L j) = Inr (key, render L inner)
      \<and> dispatchWSRequest E (jsonRequests T (lexJson L) M) s (render L inner) JSONCodec proto sess w = wsServe E s sess p w"
    for s proto sess w
    using ws_request_out[OF assms(1,3) lex, of key F E M s proto sess w] assms(4) by auto
  obtain inner where i: "frameType (jsonFrames (lexJson L) (render L) F) JSONCodec (render L j) = Inr ''request''"
      "extractWSRequest (jsonFrames (lexJson L) (render L) F) JSONCodec (render L j) = Inr (key, render L inner)"
    using out by blast
  have "dispatchWSRequest E (jsonRequests T (lexJson L) M) s (render L inner) JSONCodec proto sess w = wsServe E s sess p w"
    for s proto sess w
    using out[of s proto sess w] i(2) by auto
  then show ?thesis using that i by (simp add: carries_def)
qed

lemma error_frame:
  assumes "m = typed t [(''request_id'', jI32 key), (''error'', x)]"
  shows "readBase m = Inr (t, key)" and "readFailed m = Inr (i, txt) \<Longrightarrow> i = key"
  unfolding assms
  by (simp add: typed_def readBase_def readStruct_def)
    (cases "readCError x"; auto simp: typed_def readFailed_def readStruct_def map_sum_error split: sum.splits if_splits)

lemma frame_of_response:
  assumes "writeWsMessage T (responseMsg key res) = Inr m" and "servedFor E h lg key res"
  shows "frameServed T E h lg (readServerFrame m)"
proof (cases res)
  case (Inl e)
  let ?t = "if e = StreamIsSuperseded then ''stream_superseded_error'' else ''response_error''"
  have m: "m = typed ?t [(''request_id'', jI32 key), (''error'', writeError T (newError e))]"
    using assms(1) Inl by (simp add: responseMsg_def)
  note b = error_frame[OF m]
  consider "readServerFrame m = FSkip" | msg where "e \<noteq> StreamIsSuperseded" and "readServerFrame m = FError key msg"
    | msg where "e = StreamIsSuperseded" and "readServerFrame m = FSuperseded key msg"
    using b by (cases "readFailed m"; auto simp: readServerFrame_def split: if_splits)
  then show ?thesis using assms(2) Inl by cases simp_all
next
  case (Inr resp)
  then obtain j' where j: "writeWsResponse T resp = Inr j'" "m = typed ''response_ok'' [(''request_id'', jI32 key), (''response'', j')]"
    using assms(1) by (cases "writeWsResponse T resp") (auto simp: responseMsg_def)
  then have "readServerFrame m = FOk key j'" using ws_ok_back[of T resp j' key] by auto
  then show ?thesis using j(1) assms(2) Inr by auto
qed

section \<open>Every step keeps it\<close>

lemma joint_history_more:
  assumes "jointOk T L E M h lg (x, wc, w, up, n)" and "ws_history (h @ l) x'"
    and "\<forall>i ch key p rt. Sent i ch key p rt \<in> set l \<longrightarrow> payloadSafe p"
    and "\<forall>f. Got f \<in> set l \<longrightarrow> frameServed T E h lg f"
  shows "jointOk T L E M (h @ l) lg (x', wc, w, up, n)"
proof -
  have o: "codecForProto (wcProto wc) = (JSONCodec, OpText)" "\<forall>i ch key p rt. Sent i ch key p rt \<in> set h \<longrightarrow> payloadSafe p"
    "\<forall>(key, p) \<in> set up. sentAs h key p" "\<forall>(key, raw) \<in> set (wcPending wc). \<exists>p. sentAs h key p \<and> carries T L E M raw p"
    "\<forall>m \<in> set (drop n (wcSent wc)). \<exists>key res. m = responseMsg key res \<and> servedFor E h lg key res"
    "\<forall>f. Got f \<in> set h \<longrightarrow> frameServed T E h lg f"
    using assms(1) by (simp_all add: jointOk_def)
  have more: "servedFor E h lg key res \<Longrightarrow> servedFor E (h @ l) lg key res" for key res
    using servedFor_append[of E h lg key res l "[]"] by simp
  have "\<forall>(key, p) \<in> set up. sentAs (h @ l) key p" using o(3) sentAs_append by fast
  moreover have "\<forall>(key, raw) \<in> set (wcPending wc). \<exists>p. sentAs (h @ l) key p \<and> carries T L E M raw p"
    using o(4) sentAs_append by fast
  moreover have "\<forall>m \<in> set (drop n (wcSent wc)). \<exists>key res. m = responseMsg key res \<and> servedFor E (h @ l) lg key res"
    using o(5) more by fast
  moreover have "\<forall>f. Got f \<in> set (h @ l) \<longrightarrow> frameServed T E (h @ l) lg f"
    using o(6) assms(4) frameServed_append[of T E h lg _ l "[]"] by auto
  moreover have "\<forall>i ch key p rt. Sent i ch key p rt \<in> set (h @ l) \<longrightarrow> payloadSafe p"
    using o(2) assms(3) by (metis Un_iff set_append)
  ultimately show ?thesis using assms(2) o(1) unfolding jointOk_def prod.case by blast
qed

lemma joint_ok:
  assumes "textsAgree T" and "linkOk L" and "ws_joint T L E M F h lg y"
  shows "jointOk T L E M h lg y"
  using assms(3)
proof (induction rule: ws_joint.induct)
  case (start wc w)
  then show ?case by (simp add: jointOk_def ws_history.start)
next
  case (client h lg x wc w up n l x')
  have "ws_history h x" using client.IH by (simp add: jointOk_def)
  from ws_history.step[OF this client.hyps(2)] have "ws_history (h @ l) x'" .
  with client.IH client.hyps(3) show ?case by (intro joint_history_more) (auto simp: quietEvents_def)
next
  case (writes h lg c r gs wc w up n i key ch p k)
  have h: "ws_history h (c, r, gs)" using writes.IH by (simp add: jointOk_def)
  have "hstep (c, r, gs) [] (c, r, gs[i := Selecting key ch k])"
    using hstep.goes[OF writes.hyps(2), of c c "Selecting key ch k" r] go_step.written writes.hyps(3) by fastforce
  from ws_history.step[OF h this] have h': "ws_history h (c, r, gs[i := Selecting key ch k])" by simp
  have "goOk h i (Writing key ch p k)" using history_ok[OF h] writes.hyps(2,3) by (auto simp: historyOk_def)
  then have "Sent i ch key p (forRetry k) \<in> set h" by simp
  then have "sentAs h key p" using writes.IH unfolding jointOk_def sentAs_def by blast
  then show ?case using writes.IH h' by (auto simp: jointOk_def)
next
  case (reads h lg x wc w key p up n j s wc' w')
  have s: "sentAs h key p" "codecForProto (wcProto wc) = (JSONCodec, OpText)" using reads.IH by (auto simp: jointOk_def)
  obtain raw where raw: "frameType (jsonFrames (lexJson L) (render L) F) JSONCodec (render L j) = Inr ''request''"
    "extractWSRequest (jsonFrames (lexJson L) (render L) F) JSONCodec (render L j) = Inr (key, raw)" "carries T L E M raw p"
    using request_carried[OF assms(1,2) _ reads.hyps(2), of F E M] s(1) by (auto simp: sentAs_def)
  have "wcProto wc' = wcProto wc \<and> wcSent wc' = wcSent wc \<and> set (wcPending wc') \<subseteq> insert (key, raw) (set (wcPending wc))"
    using reads.hyps(3) raw s(2) by (auto simp: readFrame_def onRequest_def Let_def split: if_splits)
  then show ?case using reads.IH s raw(3) unfolding jointOk_def prod.case by auto
next
  case (serves h lg x wc w up n m s wc' w' key raw res y)
  have "(key, raw) \<in> set (wcPending wc)" using serves.hyps(2,4) by (metis nth_mem)
  then obtain p where p: "sentAs h key p" "carries T L E M raw p" using serves.IH by (auto simp: jointOk_def)
  obtain sess' w2 where y: "y = (sess', w2)" by fastforce
  let ?lg = "lg @ [Served key s (wcSess wc) w res]"
  have "wsServe E s (wcSess wc) p w = Some (res, sess', w2)" using serves.hyps(5) p(2) y by (simp add: carries_def)
  then have f: "servedFor E h ?lg key res" using p(1) unfolding servedFor_def by fastforce
  have "codecForProto (wcProto wc) = (JSONCodec, OpText)" using serves.IH by (simp add: jointOk_def)
  then have wc': "wc' = wc\<lparr>wcSess := sess', wcPending := take m (wcPending wc) @ drop (Suc m) (wcPending wc),
      wcSent := sendMsg JSONCodec (responseMsg key res) (wcSent wc)\<rparr>"
    using serves.hyps(3-5) y by (simp add: respond_def)
  have pend: "set (wcPending wc') \<subseteq> set (wcPending wc)" unfolding wc' by (auto dest: in_set_takeD in_set_dropD)
  have sent: "set (drop n (wcSent wc')) \<subseteq> insert (responseMsg key res) (set (drop n (wcSent wc)))"
    unfolding wc' by (auto simp: sendMsg_def dest: in_set_dropD)
  show ?case
    using serves.IH f pend sent servedFor_append[of E h lg _ _ "[]" "[Served key s (wcSess wc) w res]"]
      frameServed_append[of T E h lg _ "[]" "[Served key s (wcSess wc) w res]"]
    unfolding jointOk_def prod.case by (simp add: wc') blast
next
  case (receives h lg c gs wc w up n j x')
  have m: "wcSent wc ! n \<in> set (drop n (wcSent wc))" using receives.hyps(2) by (metis Cons_nth_drop_Suc list.set_intros(1))
  obtain key res where k: "wcSent wc ! n = responseMsg key res" "servedFor E h lg key res"
    using receives.IH m by (auto simp: jointOk_def)
  have g: "frameServed T E h lg (readServerFrame j)"
    using frame_of_response[of T key res j E h lg] receives.hyps(3) k by simp
  have "ws_history h (c, RLoop, gs)" using receives.IH by (simp add: jointOk_def)
  from ws_history.step[OF this receives.hyps(4)] have "ws_history (h @ [Got (readServerFrame j)]) x'" .
  then have "jointOk T L E M (h @ [Got (readServerFrame j)]) lg (x', wc, w, up, n)"
    using g by (intro joint_history_more[OF receives.IH]) auto
  moreover have "set (drop (n + 1) (wcSent wc)) \<subseteq> set (drop n (wcSent wc))" by (rule set_drop_subset_set_drop) simp
  ultimately show ?case unfolding jointOk_def prod.case by blast
next
  case (outside h lg x wc w up n sess w')
  then show ?case by (simp add: jointOk_def)
qed


section \<open>No request is served twice\<close>

fun servedKey :: "'d served \<Rightarrow> i32" where
  "servedKey (Served key s sess w res) = key"

text \<open>Where the number of a request can be once it is written: under way, with the session, served.\<close>

definition places :: "'d served list \<Rightarrow> ws_conn \<Rightarrow> (i32 \<times> wpayload) list \<Rightarrow> i32 list" where
  "places lg wc up = map fst up @ map fst (wcPending wc) @ map servedKey lg"

definition flightOk :: "wevent list \<Rightarrow> 'd served list \<Rightarrow> 'd wsys \<Rightarrow> bool" where
  "flightOk h lg y \<longleftrightarrow> (case y of ((c, r, gs), wc, w, up, n) \<Rightarrow>
    distinct (places lg wc up)
    \<and> (\<forall>key \<in> set (places lg wc up). \<exists>i ch p rt. Sent i ch key p rt \<in> set h)
    \<and> (\<forall>i < length gs. \<forall>key ch p k. gs ! i = Writing key ch p k \<longrightarrow> key \<notin> set (places lg wc up)))"

lemma hstep_grows: "ws_history h s \<Longrightarrow> hstep s l s' \<Longrightarrow> length (chans (fst s)) \<le> length (chans (fst s'))"
  using running_grows runs_have_history hstep_iff by blast

lemma go_writes:
  "go_step quit c g c' g' \<Longrightarrow> g' = Writing key ch p k \<Longrightarrow> \<exists>n. registerRequest p n c = (Inr (key, ch), c')"
proof (induction rule: go_step.induct)
  case (retrying q msg c g c1)
  then show ?case by (auto simp: retryStart_def split: if_splits option.splits)
qed (auto dest: resume_waits[where ch = ch])

lemma hstep_writing:
  assumes "hstep (c, r, gs) l (c', r', gs')" and "i < length gs'" and "gs' ! i = Writing key ch p k"
  shows "i < length gs \<and> gs ! i = Writing key ch p k \<or> key = reqIDSeq c + 1 \<and> length (chans c') = length (chans c) + 1"
  using assms
proof (induction "(c, r, gs)" l "(c', r', gs')" rule: hstep.induct)
  case (closes new)
  then show ?case by (auto simp: closeWsBegin_def nth_append less_Suc_eq split: if_splits)
next
  case (goes i' g)
  show ?case
  proof (cases "i = i'")
    case True
    then have "g = Writing key ch p k" using goes by (metis nth_list_update_eq)
    then obtain n where "registerRequest p n c = (Inr (key, ch), c')" using go_writes[OF goes(2)] by blast
    then show ?thesis by (auto simp: registered_iff)
  next
    case False
    then have "gs' ! i = gs ! i" "i < length gs" using goes by (metis nth_list_update_neq length_list_update)+
    then show ?thesis using goes by metis
  qed
next
  case (frame f new)
  have "new ! m \<noteq> Writing key ch p k" if "m < length new" for m
    using handleFrame_new[OF frame(1), of "new ! m" ch] that by auto
  then show ?case using frame by (auto simp: nth_append split: if_splits)
qed (auto simp: nth_append less_Suc_eq)

lemma sent_unique:
  assumes "sentOk h c" and "noWrap c" and "Sent i ch key p rt \<in> set h" and "Sent i' ch' key p' rt' \<in> set h"
  shows "i' = i \<and> ch' = ch \<and> p' = p \<and> rt' = rt"
proof -
  have "ch < length (chans c)" "ch' < length (chans c)" "(of_nat (ch' + 1) :: i32) = of_nat (ch + 1)"
    using assms(1,3,4) unfolding sentOk_def by metis+
  then have "ch' = ch" using i32_of_nat_inj[of "ch' + 1" "ch + 1"] assms(2) by simp
  then show ?thesis using assms(1,3,4) unfolding sentOk_def by blast
qed

lemma history_sentOk: "ws_history h (c, r, gs) \<Longrightarrow> sentOk h c"
  using history_ok by (fastforce simp: historyOk_def clientOk_def)

lemma flight_hstep:
  assumes "ws_history h x" and "hstep x l x'" and "noWrap (fst x')" and "flightOk h lg (x, wc, w, up, n)"
  shows "flightOk (h @ l) lg (x', wc, w, up, n')"
proof -
  obtain c r gs c' r' gs' where x: "x = (c, r, gs)" "x' = (c', r', gs')" by (metis prod_cases3)
  have o: "sentOk h c" using history_sentOk assms(1) x(1) by simp
  have "length (chans c) \<le> length (chans c')" using hstep_grows[OF assms(1,2)] x by simp
  then have nw: "noWrap c" using assms(3) x by simp
  have "key \<notin> set (places lg wc up)" if w: "i < length gs'" "gs' ! i = Writing key ch p k" for i key ch p k
  proof (cases "i < length gs \<and> gs ! i = Writing key ch p k")
    case True
    then show ?thesis using assms(4) x by (auto simp: flightOk_def)
  next
    case False
    then have "key = reqIDSeq c + 1" and l: "length (chans c') = length (chans c) + 1"
      using hstep_writing[OF assms(2)[unfolded x] w] by blast+
    then have key: "key = of_nat (length (chans c) + 1)" using o by (simp add: sentOk_def add.commute)
    show ?thesis
    proof
      assume "key \<in> set (places lg wc up)"
      then obtain i0 ch0 p0 rt0 where "Sent i0 ch0 key p0 rt0 \<in> set h" using assms(4) x by (auto simp: flightOk_def)
      then have "ch0 < length (chans c)" "(of_nat (ch0 + 1) :: i32) = of_nat (length (chans c) + 1)"
        using o key unfolding sentOk_def by metis+
      moreover have "length (chans c) + 1 < 2 ^ 32" using assms(3) l x by simp
      ultimately show False using i32_of_nat_inj[of "ch0 + 1" "length (chans c) + 1"] by simp
    qed
  qed
  then show ?thesis using assms(4) x unfolding flightOk_def by fastforce
qed


lemma distinct_submset:
  assumes "distinct ys" and "mset xs \<subseteq># mset ys"
  shows "distinct xs"
  unfolding distinct_count_atmost_1
proof
  fix a
  have "count (mset xs) a \<le> count (mset ys) a" using assms(2) by (rule mset_subset_eq_count)
  also have "\<dots> \<le> 1" using assms(1) by (simp add: distinct_count_atmost_1)
  finally have le: "count (mset xs) a \<le> 1" .
  show "count (mset xs) a = (if a \<in> set xs then 1 else 0)"
  proof (cases "a \<in> set xs")
    case True
    then have "count (mset xs) a \<noteq> 0" by (metis count_mset_0_iff)
    then have "count (mset xs) a = 1" using le by linarith
    then show ?thesis using True by simp
  qed (simp add: not_in_iff[symmetric])
qed

lemma mset_without:
  "m < length xs \<Longrightarrow> mset (map f xs) = mset (map f (take m xs @ drop (Suc m) xs)) + {#f (xs ! m)#}"
proof (induction xs arbitrary: m)
  case (Cons x xs)
  then show ?case by (cases m) simp_all
qed simp

lemma flight_moved:
  assumes "flightOk h lg (x, wc, w, up, n)" and "mset (places lg' wc' up') \<subseteq># mset (places lg wc up)"
  shows "flightOk h lg' (x, wc', w', up', n')"
proof -
  have "set (places lg' wc' up') \<subseteq> set (places lg wc up)" using set_mset_mono[OF assms(2)] by simp
  moreover have "distinct (places lg wc up) \<Longrightarrow> distinct (places lg' wc' up')"
    using distinct_submset[OF _ assms(2)] .
  ultimately show ?thesis using assms(1) unfolding flightOk_def by (auto split: prod.splits)
qed

lemma flight_ok:
  assumes T: "textsAgree T" and L: "linkOk L"
  shows "ws_joint T L E M F h lg y \<Longrightarrow> noWrap (fst (fst y)) \<Longrightarrow> flightOk h lg y"
proof (induction rule: ws_joint.induct)
  case (start wc w)
  then show ?case by (simp add: flightOk_def places_def)
next
  case (client h lg x wc w up n l x')
  have hx: "ws_history h x" using joint_ok[OF T L client.hyps(1)] by (simp add: jointOk_def)
  have "noWrap (fst x)" using hstep_grows[OF hx client.hyps(2)] client.prems by simp
  with flight_hstep[OF hx client.hyps(2)] client show ?case by simp
next
  case (writes h lg c r gs wc w up n i key ch p k)
  have hx: "ws_history h (c, r, gs)" using joint_ok[OF T L writes.hyps(1)] by (simp add: jointOk_def)
  have f: "flightOk h lg ((c, r, gs), wc, w, up, n)" using writes by simp
  have s: "Sent i ch key p (forRetry k) \<in> set h"
    using history_ok[OF hx] writes.hyps(2,3) by (auto simp: historyOk_def dest: spec[of _ i])
  have o: "sentOk h c" "noWrap c" using history_sentOk[OF hx] writes.prems by simp_all
  have "key' \<noteq> key" if "i' < length gs" "i' \<noteq> i" "gs ! i' = Writing key' ch' p' k'" for i' key' ch' p' k'
  proof -
    have "Sent i' ch' key' p' (forRetry k') \<in> set h"
      using history_ok[OF hx] that by (auto simp: historyOk_def dest: spec[of _ i'])
    then show ?thesis using sent_unique[OF o s] that(2) by blast
  qed
  moreover have "set (places lg wc (up @ [(key, p)])) = insert key (set (places lg wc up))"
    "distinct (places lg wc (up @ [(key, p)])) = (key \<notin> set (places lg wc up) \<and> distinct (places lg wc up))"
    by (auto simp: places_def)
  ultimately show ?case using f s writes.hyps(2,3)
    unfolding flightOk_def prod.case by (auto simp: nth_list_update split: if_splits) blast+
next
  case (reads h lg x wc w key p up n j s wc' w')
  have J: "jointOk T L E M h lg (x, wc, w, (key, p) # up, n)" using joint_ok[OF T L reads.hyps(1)] .
  then have s: "sentAs h key p" "codecForProto (wcProto wc) = (JSONCodec, OpText)" by (auto simp: jointOk_def)
  obtain raw where raw: "frameType (jsonFrames (lexJson L) (render L) F) JSONCodec (render L j) = Inr ''request''"
    "extractWSRequest (jsonFrames (lexJson L) (render L) F) JSONCodec (render L j) = Inr (key, raw)" "carries T L E M raw p"
    using request_carried[OF T L _ reads.hyps(2), of F E M] s(1) by (auto simp: sentAs_def)
  have "wcPending wc' = wcPending wc \<or> wcPending wc' = wcPending wc @ [(key, raw)]"
    using reads.hyps(3) raw s(2) by (auto simp: readFrame_def onRequest_def Let_def split: if_splits)
  then have m: "mset (places lg wc' up) \<subseteq># mset (places lg wc ((key, p) # up))" by (auto simp: places_def)
  have "flightOk h lg (x, wc, w, (key, p) # up, n)" using reads.IH reads.prems by simp
  from flight_moved[OF this m] show ?case .
next
  case (serves h lg x wc w up n m s wc' w' key raw res y)
  have "codecForProto (wcProto wc) = (JSONCodec, OpText)" using joint_ok[OF T L serves.hyps(1)] by (simp add: jointOk_def)
  then have "wcPending wc' = take m (wcPending wc) @ drop (Suc m) (wcPending wc)"
    using serves.hyps(3-5) by (cases y) (auto simp: respond_def)
  moreover have "mset (map fst (wcPending wc)) = mset (map fst (take m (wcPending wc) @ drop (Suc m) (wcPending wc))) + {#key#}"
    using mset_without[OF serves.hyps(2), of fst] serves.hyps(4) by simp
  ultimately have "mset (places (lg @ [Served key s (wcSess wc) w res]) wc' up) = mset (places lg wc up)"
    by (simp add: places_def)
  then show ?case using flight_moved[of h lg x wc w up n "lg @ [Served key s (wcSess wc) w res]" wc' up w' n] serves by simp
next
  case (receives h lg c gs wc w up n j x')
  have hx: "ws_history h (c, RLoop, gs)" using joint_ok[OF T L receives.hyps(1)] by (simp add: jointOk_def)
  have "noWrap (fst (c, RLoop, gs))" using hstep_grows[OF hx receives.hyps(4)] receives.prems by simp
  with flight_hstep[OF hx receives.hyps(4)] receives show ?case by simp
next
  case (outside h lg x wc w up n sess w')
  then show ?case by (simp add: flightOk_def places_def split: prod.splits)
qed


section \<open>One execution for one call\<close>

text \<open>What the session executed under the numbers the request on a channel was asked under.\<close>

definition executions :: "wevent list \<Rightarrow> 'd served list \<Rightarrow> nat \<Rightarrow> 'd served list" where
  "executions h lg ch = filter (\<lambda>e. case e of Served key s sess w res \<Rightarrow> asked h ch key \<and> \<not> isl res) lg"

lemma served_same:
  "distinct (map servedKey lg) \<Longrightarrow> e \<in> set lg \<Longrightarrow> e' \<in> set lg \<Longrightarrow> servedKey e = servedKey e' \<Longrightarrow> e = e'"
  by (metis distinct_map inj_onD)

text \<open>A request that was repeated was refused, not executed.\<close>

lemma repeated_refused:
  assumes "jointOk T L E M h lg ((c, r, gs), y)" and "noWrap c" and "distinct (map servedKey lg)"
    and "Sent i ch key p rt \<in> set h" and "Sent i' ch' key' p' (Some ch) \<in> set h"
  shows "Served key s sess w (Inr resp) \<notin> set lg"
proof
  assume e: "Served key s sess w (Inr resp) \<in> set lg"
  obtain wc w0 up n where y: "y = (wc, w0, up, n)" by (metis prod_cases4)
  have hx: "ws_history h (c, r, gs)" and f: "\<forall>f. Got f \<in> set h \<longrightarrow> frameServed T E h lg f"
    using assms(1) by (simp_all add: jointOk_def y)
  have "refusedOn h ch" using history_ok[OF hx] assms(5) unfolding historyOk_def clientOk_def prod.case by blast
  then obtain i0 key0 p0 rt0 m where r: "Sent i0 ch key0 p0 rt0 \<in> set h" "Got (FSuperseded key0 m) \<in> set h"
    by (auto simp: refusedOn_def)
  have "key0 = key" using history_sentOk[OF hx] assms(4) r(1) unfolding sentOk_def by metis
  then have "servedFor E h lg key (Inl StreamIsSuperseded)" using f r(2) by fastforce
  then obtain s' sess' w' where "Served key s' sess' w' (Inl StreamIsSuperseded) \<in> set lg"
    unfolding servedFor_def by blast
  from served_same[OF assms(3) e this] show False by simp
qed

lemma executed_under_one:
  assumes J: "jointOk T L E M h lg ((c, r, gs), y)" "noWrap c" "distinct (map servedKey lg)"
  shows "asked h ch key \<Longrightarrow> asked h ch key' \<Longrightarrow> Served key s sess w (Inr resp) \<in> set lg \<Longrightarrow>
    Served key' s' sess' w' (Inr resp') \<in> set lg \<Longrightarrow> key = key'"
proof (induction arbitrary: key' rule: asked.induct)
  case (first i ch key p rt)
  have hx: "ws_history h (c, r, gs)" using J(1) by (cases y) (simp add: jointOk_def)
  from first.prems(1) show ?case
  proof (cases rule: asked.cases)
    case (first i2 p2 rt2)
    then show ?thesis using history_sentOk[OF hx] \<open>Sent i ch key p rt \<in> set h\<close> unfolding sentOk_def by metis
  next
    case (again i0 key0 p0 rt0 i2 ch2 key2 sid)
    then show ?thesis using repeated_refused[OF J first.hyps again(2)] first.prems(2) by blast
  qed
next
  case (again i ch key0 p rt i1 ch1 key1 sid key)
  have hx: "ws_history h (c, r, gs)" using J(1) by (cases y) (simp add: jointOk_def)
  from again.prems(1) show ?case
  proof (cases rule: asked.cases)
    case (first i2 p2 rt2)
    then show ?thesis using repeated_refused[OF J first again.hyps(2)] again.prems(3) by blast
  next
    case a: (again i0 key00 p0 rt0 i2 ch2 key2 sid')
    have "ch2 = ch1" using repeated_once[OF hx a(2) again.hyps(2)] .
    then show ?thesis using again.IH[OF _ again.prems(2,3)] a(3) by simp
  qed
qed

lemma filter_single:
  "distinct xs \<Longrightarrow> x \<in> set xs \<Longrightarrow> P x \<Longrightarrow> (\<And>y. y \<in> set xs \<Longrightarrow> P y \<Longrightarrow> y = x) \<Longrightarrow> filter P xs = [x]"
proof (induction xs)
  case (Cons z xs)
  show ?case
  proof (cases "z = x")
    case True
    have "\<not> P y" if y: "y \<in> set xs" for y
    proof
      assume "P y"
      then have "y = z" using Cons.prems(4)[of y] y True by simp
      then show False using y Cons.prems(1) by simp
    qed
    then show ?thesis using True Cons.prems(3) by (simp add: filter_empty_conv)
  next
    case False
    then have "x \<in> set xs" "distinct xs" using Cons.prems(1,2) by simp_all
    then have "filter P xs = [x]" using Cons.prems(3,4) by (intro Cons.IH) simp_all
    moreover have "\<not> P z" using Cons.prems(4)[of z] False by auto
    ultimately show ?thesis by simp
  qed
qed simp

text \<open>
  C6.  Any number of calls at a time over one WebSocket: a call that returns a result had its own
  request executed by the session, exactly once, on its stream or on the one that replaced it,
  and what it returns is the document of the outcome.  However the callers, the read loop,
  the recoveries and the session's goroutines interleave, no call gets another's answer and no
  request is executed twice, although requests refused for a superseded stream are sent again.
\<close>

theorem ws_calls_executed_once:
  assumes "textsAgree T" and "linkOk L"
    and "ws_joint T L E M F h lg ((c, r, gs), wc, w, up, n)" and "noWrap c"
    and "i < length gs" and "gs ! i = Returned (Inr j)"
  shows "\<exists>ch key0 p key s sess w0 resp sid sess' w1. Sent i ch key0 p None \<in> set h
    \<and> executions h lg ch = [Served key s sess w0 (Inr resp)]
    \<and> wsServe E s sess (withStreamId sid p) w0 = Some (Inr resp, sess', w1)
    \<and> writeWsResponse T resp = Inr j"
proof -
  have J: "jointOk T L E M h lg ((c, r, gs), wc, w, up, n)" using joint_ok[OF assms(1-3)] .
  then have hx: "ws_history h (c, r, gs)" and f: "\<forall>f. Got f \<in> set h \<longrightarrow> frameServed T E h lg f"
    by (simp_all add: jointOk_def)
  have "flightOk h lg ((c, r, gs), wc, w, up, n)" using flight_ok[OF assms(1-3)] assms(4) by simp
  then have d: "distinct (map servedKey lg)" by (simp add: flightOk_def places_def)
  obtain ch key0 p key i' ch' rt sid where a: "Sent i ch key0 p None \<in> set h" "asked h ch key" "Got (FOk key j) \<in> set h"
    "\<And>i2 ch2 p2 rt2. Sent i2 ch2 key p2 rt2 \<in> set h \<Longrightarrow> p2 = withStreamId sid p"
    using call_answered[OF hx assms(5,6,4)] by blast
  obtain resp where "servedFor E h lg key (Inr resp)" and w: "writeWsResponse T resp = Inr j" using f a(3) by fastforce
  then obtain q s sess w0 sess' w1 where q: "sentAs h key q" "Served key s sess w0 (Inr resp) \<in> set lg"
    "wsServe E s sess q w0 = Some (Inr resp, sess', w1)"
    unfolding servedFor_def by blast
  have "q = withStreamId sid p" using q(1) a(4) by (auto simp: sentAs_def)
  moreover have "executions h lg ch = [Served key s sess w0 (Inr resp)]"
    unfolding executions_def
  proof (rule filter_single)
    show "distinct lg" using d by (simp add: distinct_map)
    show "e = Served key s sess w0 (Inr resp)"
      if e: "e \<in> set lg" "case e of Served key s sess w res \<Rightarrow> asked h ch key \<and> \<not> isl res" for e
    proof -
      obtain key' s' sess2 w2 resp' where k: "e = Served key' s' sess2 w2 (Inr resp')" "asked h ch key'"
        using e(2) by (cases e; cases "case e of Served key s sess w res \<Rightarrow> res") auto
      then have "key = key'" using executed_under_one[OF J assms(4) d a(2) k(2) q(2)] e(1) by blast
      then show ?thesis using served_same[OF d e(1) q(2)] k(1) by simp
    qed
  qed (use q(2) a(2) in simp_all)
  ultimately show ?thesis using a(1) q(3) w by blast
qed


section \<open>A concrete run\<close>

text \<open>One call, from its beginning to its return.\<close>

definition demoSession :: ws_conn where
  "demoSession = demoWs\<lparr>wcSess := addStream (newSession ModeReadWrite) 0 (newStream 1 someConn)\<rparr>"

lemma demo_joint:
  "\<exists>h lg c wc w up n j. ws_joint demoText demoLink demoEnv (fixedDecoders ''execute'' []) demoFrames h lg
      ((c, RLoop, [Returned (Inr j)]), wc, w, up, n) \<and> noWrap c \<and> length lg = 1"
proof -
  let ?J = "ws_joint demoText demoLink demoEnv (fixedDecoders ''execute'' []) demoFrames"
  let ?p = "PExecute 0 demoInsert" and ?w = "((), 1 :: int)"
  define c1 where "c1 = newWsClient\<lparr>reqIDSeq := 1, chans := [None], wpendings := [(1, \<lparr>wpPayload = ?p, wpCh = 0, wpRetries = 0\<rparr>)]\<rparr>"
  let ?h = "[Sent 0 0 1 ?p None]"
  have wc: "wcAuthed demoSession" "codecForProto (wcProto demoSession) = (JSONCodec, OpText)" "wcPending demoSession = []"
    by code_simp+
  have sent: "wcSent demoSession = []" by (simp add: demoSession_def demoWs_def newConn_def)
  have 0: "?J [] [] ((newWsClient, RLoop, []), demoSession, ?w, [], 0)"
    using ws_joint.start[OF wc, of demoText demoLink demoEnv "fixedDecoders ''execute'' []" demoFrames ?w] sent by simp
  have 1: "?J [] [] ((newWsClient, RLoop, [Calling ?p 0 ToCaller]), demoSession, ?w, [], 0)"
    using ws_joint.client[OF 0 hstep.executes[of newWsClient RLoop "[]" demoInsert]] by (simp add: quietEvents_def newWsClient_def)
  have reg: "registerRequest ?p 0 newWsClient = (Inr (1, 0), c1)"
    by (simp add: registerRequest_def Let_def newWsClient_def c1_def)
  have 2: "?J ?h [] ((c1, RLoop, [Writing 1 0 ?p ToCaller]), demoSession, ?w, [], 0)"
    using ws_joint.client[OF 1 hstep.goes[of 0 "[Calling ?p 0 ToCaller]" newWsClient c1 "Writing 1 0 ?p ToCaller" RLoop]]
      go_step.registered[OF reg] demo_stmtSafe by (simp add: quietEvents_def)
  have 3: "?J ?h [] ((c1, RLoop, [Selecting 1 0 ToCaller]), demoSession, ?w, [(1, ?p)], 0)"
    using ws_joint.writes[OF 2, of 0] by simp
  have lex: "lexJson demoLink (render demoLink j) = Inr j" for j using demo_link(1) by (simp add: linkOk_def)
  have safe: "payloadSafe ?p" using demo_stmtSafe by simp
  obtain j where j: "writeWsRequest demoText 1 ?p = Inr j"
    using ws_request_out[OF demo_link(2) safe lex, of 1 demoFrames demoEnv "fixedDecoders ''execute'' []" demoServer "[]" "wcSess demoSession" ?w] by blast
  obtain raw where raw: "frameType (jsonFrames (lexJson demoLink) (render demoLink) demoFrames) JSONCodec (render demoLink j) = Inr ''request''"
    "extractWSRequest (jsonFrames (lexJson demoLink) (render demoLink) demoFrames) JSONCodec (render demoLink j) = Inr (1, raw)"
    "carries demoText demoLink demoEnv (fixedDecoders ''execute'' []) raw ?p"
    by (rule request_carried[OF demo_link(2,1) safe j])
  let ?wc = "demoSession\<lparr>wcMadeRequest := True, wcPending := [(1, raw)]\<rparr>"
  have "\<not> closing demoServer" by code_simp
  then have "readFrame demoServer (jsonFrames (lexJson demoLink) (render demoLink) demoFrames) (Frame OpText (render demoLink j)) demoSession ?w
      = (?wc, ?w)" using wc raw(1,2) by (simp add: readFrame_def onRequest_def Let_def)
  from ws_joint.reads[OF 3 j this] have 4: "?J ?h [] ((c1, RLoop, [Selecting 1 0 ToCaller]), ?wc, ?w, [], 0)" .
  let ?r = "emptyResult\<lparr>AffectedRowCount := 1, RowsWritten := 1\<rparr>"
  have ex: "wsExecute demoEnv (wcSess demoSession) (0, toServerStmt demoInsert) ?w = (Inr (ExecuteResp ?r), wcSess demoSession, ?w)"
    by code_simp
  let ?res = "Inr (ExecuteResp ?r) :: error + ws_response"
  have dis: "dispatchWSRequest demoEnv (jsonRequests demoText (lexJson demoLink) (fixedDecoders ''execute'' [])) demoServer raw JSONCodec
      (wcProto ?wc) (wcSess ?wc) ?w = Some (?res, wcSess demoSession, ?w)"
    using raw(3) ex by (simp add: carries_def)
  have "resultSafe ?r" by (simp add: resultSafe_def emptyResult_def)
  from ws_executed_back[OF demo_link(2) this] obtain d where d: "writeWsResponse demoText (ExecuteResp ?r) = Inr d" by blast
  obtain m where m: "writeWsMessage demoText (ResponseOkMsg 1 (ExecuteResp ?r)) = Inr m" "readServerFrame m = FOk 1 d"
    using ws_ok_back[OF d] by blast
  let ?wc' = "demoSession\<lparr>wcMadeRequest := True, wcPending := [], wcSent := [ResponseOkMsg 1 (ExecuteResp ?r)]\<rparr>"
  have "list_all (encodesVal JSONCodec) (messageValues (ResponseOkMsg 1 (ExecuteResp ?r)))" using message_document m(1) by blast
  then have res: "respond demoEnv (jsonRequests demoText (lexJson demoLink) (fixedDecoders ''execute'' [])) demoServer 0 ?wc ?w
      = Some (?wc', ?w)"
    using dis wc(2) sent by (simp add: respond_def sendMsg_def responseMsg_def)
  let ?lg = "[Served 1 demoServer (wcSess demoSession) ?w ?res]"
  have 5: "?J ?h ?lg ((c1, RLoop, [Selecting 1 0 ToCaller]), ?wc', ?w, [], 0)"
    using ws_joint.serves[OF 4 _ res _ dis, of 1] by simp
  define c2 where "c2 = dropRequest 1 c1"
  have hf: "handleFrame (FOk 1 d) c1 = (RSend 0 (Inr d), [], c2)"
    by (simp add: dispatchResult_def c1_def c2_def)
  have 6: "?J (?h @ [Got (FOk 1 d)]) ?lg ((c2, RSend 0 (Inr d), [Selecting 1 0 ToCaller]), ?wc', ?w, [], 1)"
    using ws_joint.receives[OF 5, of m] m hstep.frame[OF hf, of "[Selecting 1 0 ToCaller]"] by simp
  have can: "canSend 0 c2" by (simp add: canSend_def c2_def c1_def dropRequest_def)
  have 7: "?J (?h @ [Got (FOk 1 d)]) ?lg ((sendTo 0 (Inr d) c2, RLoop, [Selecting 1 0 ToCaller]), ?wc', ?w, [], 1)"
    using ws_joint.client[OF 6 hstep.delivers[OF can]] by (simp add: quietEvents_def)
  let ?c3 = "receive 0 (sendTo 0 (Inr d) c2)"
  have go: "go_step mayCancel (sendTo 0 (Inr d) c2) ([Selecting 1 0 ToCaller] ! 0) ?c3 (Returned (Inr d))"
    unfolding nth_Cons_0 by (rule go_step.received) (simp_all add: sendTo_def c2_def c1_def dropRequest_def)
  have 8: "?J (?h @ [Got (FOk 1 d)]) ?lg ((?c3, RLoop, [Returned (Inr d)]), ?wc', ?w, [], 1)"
    using ws_joint.client[OF 7 hstep.goes[OF _ go, of RLoop]] by (simp add: quietEvents_def)
  have "noWrap ?c3" by (simp add: receive_def sendTo_def c2_def c1_def dropRequest_def)
  then show ?thesis using 8
    by (intro exI[of _ "?h @ [Got (FOk 1 d)]"] exI[of _ ?lg] exI[of _ ?c3] exI[of _ ?wc'] exI[of _ ?w] exI[of _ "[]"]
        exI[of _ 1] exI[of _ d]) simp
qed

theorem ws_calls_executed_once_witness:
  "\<exists>h lg c wc w up n j ch key s sess w0 resp. ws_joint demoText demoLink demoEnv (fixedDecoders ''execute'' []) demoFrames h lg
      ((c, RLoop, [Returned (Inr j)]), wc, w, up, n)
    \<and> executions h lg ch = [Served key s sess w0 (Inr resp)] \<and> writeWsResponse demoText resp = Inr j"
proof -
  obtain h lg c wc w up n j where r: "ws_joint demoText demoLink demoEnv (fixedDecoders ''execute'' []) demoFrames h lg
      ((c, RLoop, [Returned (Inr j)]), wc, w, up, n)" "noWrap c"
    using demo_joint by blast
  have i: "0 < length [Returned (Inr j)]" "[Returned (Inr j)] ! 0 = Returned (Inr j)" by simp_all
  show ?thesis using ws_calls_executed_once[OF demo_link(2,1) r i] r(1) by blast
qed

end
