(* ===== verification/StressMain.thy ===== *)
theory StressMain
  imports StressRun
begin

text \<open>
  The load generator as a whole: \<open>main\<close> of \<open>src/cmd/stresser/main.go\<close> with the output of
  \<open>metrics.go\<close>.  The flags are checked, the databases opened and set up, the workers run, their
  samples come to the collector over one channel, the report is printed, the table dropped.
\<close>

section \<open>Durations as text\<close>

text \<open>\<open>Duration.String\<close> of the standard library: the fraction of a unit without its zeros at the end.\<close>

definition fracText :: "nat \<Rightarrow> nat \<Rightarrow> string" where
  "fracText prec u =
    (let ds = rev (dropWhile (\<lambda>c. c = CHR ''0'') (rev (padZeros prec (natDigits (u mod 10 ^ prec)))))
     in if ds = [] then [] else CHR ''.'' # ds)"

definition durationText :: "duration \<Rightarrow> string" where
  "durationText d =
    (let u = nat \<bar>d\<bar>; sec = u div 1000000000; m = sec div 60; h = m div 60
     in if u = 0 then ''0s''
        else (if d < 0 then ''-'' else [])
          @ (if u < 1000 then natDigits u @ ''ns''
             else if u < 1000000 then natDigits (u div 1000) @ fracText 3 u @ [CHR 0xC2, CHR 0xB5, CHR ''s'']
             else if u < 1000000000 then natDigits (u div 1000000) @ fracText 6 u @ ''ms''
             else (if h > 0 then natDigits h @ ''h'' else [])
               @ (if m > 0 then natDigits (m mod 60) @ ''m'' else [])
               @ natDigits (sec mod 60) @ fracText 9 u @ ''s''))"

lemma digit_chars:
  "char_of (48 :: nat) = CHR ''0''" "char_of (49 :: nat) = CHR ''1''" "char_of (51 :: nat) = CHR ''3''"
  "char_of (53 :: nat) = CHR ''5''"
  by code_simp+

lemma duration_texts:
  "durationText 30000000000 = ''30s''" "durationText 5400000000000 = ''1h30m0s''" "durationText 1500000 = ''1.5ms''"
  by (simp_all add: durationText_def fracText_def Let_def padZeros_def natDigits.simps digit_chars)

section \<open>Output\<close>

definition separator :: string where
  "separator = concat (replicate (length tableHeader) [CHR 0xE2, CHR 0x94, CHR 0x80])"

text \<open>The lines of the table, if no name has to be cut where it cannot be.\<close>

definition printTable :: "stress_report \<Rightarrow> string \<Rightarrow> int \<Rightarrow> duration \<Rightarrow> duration \<Rightarrow> string list option" where
  "printTable r label workers d warmup =
    (case (those (map tableRow (rtTargets r)), tableRow (rtAggregate r)) of
       (Some rows, Some agg) \<Rightarrow>
         Some ([''Workload:  '' @ label,
            (if length (rtTargets r) > 1
             then ''Workers:   '' @ formatInt workers @ '' per target ('' @ formatInt (wrapInt (workers * int (length (rtTargets r)))) @ '' total)''
             else ''Workers:   '' @ formatInt workers),
            ''Duration:  '' @ durationText d @ ''  (warmup: '' @ durationText warmup @ '')'', [], tableHeader, separator]
          @ rows @ (if length (rtTargets r) > 1 then [separator, agg] else []) @ [separator])
     | _ \<Rightarrow> None)"

datatype stress_output = JsonOut "json option" | CsvOut "string list list" | TableOut "string list option"

definition printReport ::
  "(flt \<Rightarrow> string) \<Rightarrow> stress_report \<Rightarrow> string \<Rightarrow> string \<Rightarrow> int \<Rightarrow> duration \<Rightarrow> duration \<Rightarrow> stress_output" where
  "printReport showF r format label workers d warmup =
    (if format = ''json'' then JsonOut (printJSON showF r label workers)
     else if format = ''csv'' then CsvOut (csvRows r)
     else TableOut (printTable r label workers d warmup))"

text \<open>The table is always printed.\<close>

lemma tableRow_some: "tableRow t \<noteq> None"
  by (simp add: tableRow_def truncateText_def colTarget_def)

lemma printTable_some: "printTable r label workers d warmup \<noteq> None"
proof -
  have "those (map tableRow ts) \<noteq> None" for ts using tableRow_some by (induction ts) (auto split: option.splits)
  then show ?thesis using tableRow_some[of "rtAggregate r"] by (auto simp: printTable_def split: option.splits)
qed

section \<open>Opening and setting up\<close>

fun firstNotOpened :: "(string \<Rightarrow> cl_error option) \<Rightarrow> string list \<Rightarrow> (string \<times> cl_error) option" where
  "firstNotOpened openDb [] = None"
| "firstNotOpened openDb (dsn # dsns) =
    (case openDb dsn of Some e \<Rightarrow> Some (dsn, e) | None \<Rightarrow> firstNotOpened openDb dsns)"

text \<open>
  The targets are set up at the same time, each on its own database; afterwards the first error
  in the order of the flags is reported.
\<close>

definition setupAll :: "'s executor \<Rightarrow> stress_flags \<Rightarrow> 's list \<Rightarrow> (cl_error option \<times> 's) list" where
  "setupAll run f = map (setupTarget run f)"

fun firstError :: "cl_error option list \<Rightarrow> cl_error option" where
  "firstError [] = None"
| "firstError (Some e # es) = Some e"
| "firstError (None # es) = firstError es"

section \<open>Workers\<close>

text \<open>
  A worker has a connection of its own, or the error it got instead, its random numbers, and what
  it meets while it runs.  The connection is the state of its executor: it answers whatever the
  database, which the workers of a target share, answers at that moment.
\<close>

record ('s, 'g) worker =
  wkConn :: "cl_error + 's"
  wkRng :: 'g
  wkTurns :: "turn list"

definition startWorker ::
  "('s, 'g) workload \<Rightarrow> duration \<Rightarrow> string \<Rightarrow> ('s, 'g) worker \<Rightarrow> sample list \<times> worker_end" where
  "startWorker wl think dsn wk =
    (case wkConn wk of
       Inl e \<Rightarrow> ([], Returned)
     | Inr st \<Rightarrow> (case runWorker wl dsn think (wkTurns wk) st (wkRng wk) of (ss, end, _) \<Rightarrow> (ss, end)))"

text \<open>\<open>workers\<close> of them for each target; \<open>team i j\<close> is the \<open>j\<close>th worker of the \<open>i\<close>th target.\<close>

definition runAll ::
  "('s, 'g) workload \<Rightarrow> duration \<Rightarrow> stress_flags \<Rightarrow> (nat \<Rightarrow> nat \<Rightarrow> ('s, 'g) worker) \<Rightarrow> (sample list \<times> worker_end) list" where
  "runAll wl think f team =
    concat (map (\<lambda>(i, dsn). map (\<lambda>j. startWorker wl think dsn (team i j)) [0..<nat (fWorkers f)])
      (enumerate 0 (fDsns f)))"

section \<open>The program\<close>

datatype exit =
    Refused flag_error
  | NotOpened string cl_error
  | NotSetUp cl_error
  | Panicked
  | Running
  | Finished stress_output "cl_error option list"

text \<open>
  \<open>order\<close> is the order in which the samples of all workers come to the collector, \<open>team\<close> has the
  workers of each target, \<open>left\<close> the databases as the workers leave them.
\<close>

definition stressMain ::
  "(flt \<Rightarrow> string) \<Rightarrow> (string \<Rightarrow> cl_error option) \<Rightarrow> 's executor \<Rightarrow> 'g rng_ops \<Rightarrow> (sample list \<Rightarrow> sample list) \<Rightarrow>
   stress_flags \<Rightarrow> duration \<Rightarrow> duration \<Rightarrow> duration \<Rightarrow> bool \<Rightarrow> 's list \<Rightarrow> (nat \<Rightarrow> nat \<Rightarrow> ('s, 'g) worker) \<Rightarrow> 's list \<Rightarrow> exit" where
  "stressMain showF openDb run R order f d warmup think keepSchema states team left =
    (case checkFlags f of
       Inl e \<Rightarrow> Refused e
     | Inr cfg \<Rightarrow>
         (case (firstNotOpened openDb (fDsns f), firstError (map fst (setupAll run f states)), resultsCap f,
                resolveWorkload run R cfg (fWorkload f)) of
            (Some (dsn, e), _) \<Rightarrow> NotOpened dsn e
          | (None, Some e, _) \<Rightarrow> NotSetUp e
          | (None, None, Some _, Some wl) \<Rightarrow>
              (let outs = runAll wl think f team
               in if Crashed \<in> set (map snd outs) then Panicked
                  else if StillRunning \<in> set (map snd outs) then Running
                  else (case buildReport (foldl collect Map.empty (order (concat (map fst outs)))) (fDsns f) d of
                          None \<Rightarrow> Panicked
                        | Some r \<Rightarrow>
                            Finished
                              (printReport showF r (fOutput f) (workloadLabel (fWorkload f) (fReadRatio f)) (fWorkers f) d warmup)
                              (if keepSchema then [] else map (fst \<circ> teardownSchema run) left)))
          | _ \<Rightarrow> Panicked))"

section \<open>What it reports\<close>

lemma runWorker_ends:
  assumes "\<And>st g. fst (wl st g) \<noteq> Panic"
  shows "runWorker wl dsn think ts st g = (ss, e, x) \<Longrightarrow> e \<noteq> Crashed \<and> (\<forall>s \<in> set ss. smDsn s = dsn) \<and> length ss \<le> length ts"
proof (induction ts arbitrary: st g ss)
  case (Cons t ts)
  obtain e1 st1 g1 where w: "wl st g = (Done e1, st1, g1)"
    using assms[of st g] by (cases "wl st g"; cases "fst (wl st g)") auto
  obtain qs y where q: "runWorker wl dsn think ts st1 g1 = (qs, y)" by (metis surj_pair)
  show ?case
  proof (cases y)
    case (fields e' x1 x2)
    then show ?thesis using Cons.prems Cons.IH[of st1 g1 qs] w q by (auto simp: Let_def split: if_splits)
  qed
qed simp


lemma startWorker_ends:
  assumes "\<And>st g. fst (wl st g) \<noteq> Panic"
  shows "snd (startWorker wl think dsn wk) \<noteq> Crashed \<and> (\<forall>s \<in> set (fst (startWorker wl think dsn wk)). smDsn s = dsn)"
proof (cases "wkConn wk")
  case (Inr st)
  obtain ss e x where "runWorker wl dsn think (wkTurns wk) st (wkRng wk) = (ss, e, x)" by (metis prod_cases3)
  then show ?thesis using runWorker_ends[where wl = wl and dsn = dsn and think = think, OF assms] Inr
    by (auto simp: startWorker_def)
qed (simp add: startWorker_def)

lemma runAll_worker:
  "x \<in> set (runAll wl think f team) \<Longrightarrow> \<exists>dsn wk. dsn \<in> set (fDsns f) \<and> x = startWorker wl think dsn wk"
  by (force simp: runAll_def in_set_enumerate_eq)

lemma runAll_ends:
  assumes "\<And>st g. fst (wl st g) \<noteq> Panic"
  shows "Crashed \<notin> set (map snd (runAll wl think f team))"
    and "\<forall>s \<in> set (concat (map fst (runAll wl think f team))). smDsn s \<in> set (fDsns f)"
proof -
  have own: "snd x \<noteq> Crashed \<and> (\<forall>s \<in> set (fst x). smDsn s \<in> set (fDsns f))"
    if x: "x \<in> set (runAll wl think f team)" for x
    using runAll_worker[OF x] startWorker_ends[where wl = wl and think = think, OF assms] by metis
  then show "Crashed \<notin> set (map snd (runAll wl think f team))" by (metis image_iff set_map)
  show "\<forall>s \<in> set (concat (map fst (runAll wl think f team))). smDsn s \<in> set (fDsns f)"
  proof
    fix s assume "s \<in> set (concat (map fst (runAll wl think f team)))"
    then obtain x where "x \<in> set (runAll wl think f team)" "s \<in> set (fst x)" by auto
    then show "smDsn s \<in> set (fDsns f)" using own by blast
  qed
qed

definition sampled :: "('s, 'g) workload \<Rightarrow> duration \<Rightarrow> stress_flags \<Rightarrow> (nat \<Rightarrow> nat \<Rightarrow> ('s, 'g) worker) \<Rightarrow> sample list" where
  "sampled wl think f team = concat (map fst (runAll wl think f team))"

text \<open>
  What a worker has to measure: the queries after the warm-up, up to the first pause or query in
  which the run ends.
\<close>

fun measured :: "duration \<Rightarrow> turn list \<Rightarrow> nat" where
  "measured think [] = 0"
| "measured think (t # ts) =
    (if tnEnded t \<or> tnEndedAfter t then 0
     else (if tnWarm t then 1 else 0) + (if think > 0 \<and> tnEndedPause t then 0 else measured think ts))"

definition measuredBy :: "duration \<Rightarrow> ('s, 'g) worker \<Rightarrow> nat" where
  "measuredBy think wk = (if isl (wkConn wk) then 0 else measured think (wkTurns wk))"

lemma runWorker_measured:
  assumes "\<And>st g. fst (wl st g) \<noteq> Panic"
  shows "length (fst (runWorker wl dsn think ts st g)) = measured think ts"
proof (induction ts arbitrary: st g)
  case (Cons t ts)
  obtain e st1 g1 where w: "wl st g = (Done e, st1, g1)"
    using assms[of st g] by (cases "wl st g"; cases "fst (wl st g)") auto
  then show ?case using Cons.IH[of st1 g1] by (auto simp: Let_def split: prod.splits)
qed simp

lemma startWorker_measured:
  assumes "\<And>st g. fst (wl st g) \<noteq> Panic"
  shows "length (fst (startWorker wl think dsn wk)) = measuredBy think wk"
  using runWorker_measured[where wl = wl, OF assms]
  by (auto simp: startWorker_def measuredBy_def split: sum.splits prod.splits) (metis fst_conv)

text \<open>The samples under the name of a target are those of its own workers.\<close>

lemma concat_maps: "concat (concat (map g xs)) = concat (map (\<lambda>x. concat (g x)) xs)"
  by (induction xs) simp_all

lemma filter_concat_single:
  "distinct is \<Longrightarrow> i \<in> set is \<Longrightarrow> (\<And>k. k \<in> set is \<Longrightarrow> filter P (S k) = (if k = i then S k else [])) \<Longrightarrow>
    filter P (concat (map S is)) = S i"
proof (induction "is")
  case (Cons k "is")
  show ?case
  proof (cases "k = i")
    case True
    then have "filter P (S m) = []" if "m \<in> set is" for m using Cons.prems(1) Cons.prems(3)[of m] that by (auto split: if_splits)
    then have "filter P (concat (map S is)) = []" by (auto simp: filter_empty_conv)
    then show ?thesis using True Cons.prems(3)[of k] by simp
  next
    case False
    then show ?thesis using Cons by simp
  qed
qed simp

lemma sampled_of:
  assumes np: "\<And>st g. fst (wl st g) \<noteq> Panic" and "distinct (fDsns f)" and i: "i < length (fDsns f)"
  shows "length (filter (\<lambda>s. smDsn s = fDsns f ! i) (sampled wl think f team))
    = (\<Sum>j < nat (fWorkers f). measuredBy think (team i j))"
proof -
  define S where "S = (\<lambda>k. concat (map (\<lambda>j. fst (startWorker wl think (fDsns f ! k) (team k j))) [0..<nat (fWorkers f)]))"
  have "enumerate 0 (fDsns f) = map (\<lambda>k. (k, fDsns f ! k)) [0..<length (fDsns f)]"
    by (rule nth_equalityI) (simp_all add: nth_enumerate_eq)
  then have all: "sampled wl think f team = concat (map S [0..<length (fDsns f)])"
    by (simp add: sampled_def runAll_def S_def map_concat comp_def concat_maps)
  have own: "smDsn s = fDsns f ! k" if "s \<in> set (S k)" for s k
    using that startWorker_ends[where wl = wl and think = think, OF np] by (fastforce simp: S_def)
  have "filter (\<lambda>s. smDsn s = fDsns f ! i) (S k) = (if k = i then S k else [])" if "k \<in> set [0..<length (fDsns f)]" for k
  proof (cases "k = i")
    case True
    then show ?thesis using own by (simp add: filter_id_conv)
  next
    case False
    then have "fDsns f ! k \<noteq> fDsns f ! i" using that assms(2,3) by (simp add: nth_eq_iff_index_eq)
    then show ?thesis using own False by (fastforce simp: filter_empty_conv)
  qed
  then have "filter (\<lambda>s. smDsn s = fDsns f ! i) (sampled wl think f team) = S i"
    unfolding all using i by (intro filter_concat_single) simp_all
  then show ?thesis
    using startWorker_measured[where wl = wl and think = think, OF np]
    by (simp add: S_def length_concat comp_def interv_sum_list_conv_sum_set_nat atLeast0LessThan)
qed


text \<open>Two targets, one worker each: one with a failed connection, the other with three queries, the first in the warm-up.\<close>

definition twoTargets :: stress_flags where
  "twoTargets = \<lparr>fDsns = [''a'', ''b''], fWorkload = ''ping'', fReadRatio = intF 0, fRows = 0, fWorkers = 1, fOutput = ''csv''\<rparr>"

definition queryTurn :: "bool \<Rightarrow> bool \<Rightarrow> turn" where
  "queryTurn warm ended = \<lparr>tnEnded = False, tnElapsed = 1000, tnEndedAfter = ended, tnWarm = warm, tnEndedPause = False\<rparr>"

definition twoTeams :: "nat \<Rightarrow> nat \<Rightarrow> (nat, unit) worker" where
  "twoTeams i j = \<lparr>wkConn = if i = 0 then Inl CConnectTimeout else Inr j, wkRng = (),
    wkTurns = [queryTurn False False, queryTurn True False, queryTurn True False, queryTurn True True]\<rparr>"

definition noRng :: "unit rng_ops" where
  "noRng = \<lparr>rngIntN = \<lambda>_ g. (0, g), rngFloat64 = \<lambda>g. (intF 0, g)\<rparr>"


end
