(* ===== verification/ClientCodec.thy ===== *)
theory ClientCodec
  imports ClientDsn
begin

text \<open>
  The codecs of the Go client, \<open>src/clients/hranago/codec.go\<close>.  A \<open>RawMessage\<close> is a slice: the part
  of an array that others may refer to as well.  So it is modelled with the arrays it is in, to see
  that a message that is kept does not change when the buffer it was read into is used again.
\<close>

section \<open>Slices\<close>

text \<open>Arrays by address; a slice has an array, an offset, a length and a capacity.\<close>

type_synonym arrays = "bytes list"

record slice =
  slArray :: nat
  slOff :: nat
  slLen :: nat
  slCap :: nat

definition sliceBytes :: "arrays \<Rightarrow> slice \<Rightarrow> bytes" where
  "sliceBytes h s = take (slLen s) (drop (slOff s) (h ! slArray s))"

definition sliceOk :: "arrays \<Rightarrow> slice \<Rightarrow> bool" where
  "sliceOk h s \<longleftrightarrow> slArray s < length h \<and> slLen s \<le> slCap s \<and> slOff s + slCap s \<le> length (h ! slArray s)"

text \<open>\<open>nil\<close> has no array.\<close>

type_synonym raw_message = "slice option"

definition rawBytes :: "arrays \<Rightarrow> raw_message \<Rightarrow> bytes" where
  "rawBytes h m = (case m of None \<Rightarrow> [] | Some s \<Rightarrow> sliceBytes h s)"

definition overwrite :: "nat \<Rightarrow> bytes \<Rightarrow> bytes \<Rightarrow> bytes" where
  "overwrite off data a = take off a @ data @ drop (off + length data) a"

text \<open>
  \<open>append((*m)[0:0], data...)\<close>: into the array of the message if its capacity is enough, and
  otherwise into a new one, in which the runtime leaves as much room as it likes (\<open>grow\<close>).
\<close>

definition appendFromStart :: "(nat \<Rightarrow> nat) \<Rightarrow> arrays \<Rightarrow> raw_message \<Rightarrow> bytes \<Rightarrow> arrays \<times> raw_message" where
  "appendFromStart grow h m data =
    (let new = (h @ [data @ replicate (grow (length data)) 0],
                Some \<lparr>slArray = length h, slOff = 0, slLen = length data, slCap = length data + grow (length data)\<rparr>)
     in case m of
          None \<Rightarrow> (if data = [] then (h, None) else new)
        | Some s \<Rightarrow>
            (if length data \<le> slCap s
             then (h[slArray s := overwrite (slOff s) data (h ! slArray s)], Some (s\<lparr>slLen := length data\<rparr>))
             else new))"

section \<open>\<open>RawMessage\<close>\<close>

datatype raw_error = NilPointer string | Undecoded cl_error

text \<open>The receiver is a pointer, which may be \<open>nil\<close> itself.  \<open>data\<close> is a slice of the caller's.\<close>

definition unmarshalRawJSON ::
  "(nat \<Rightarrow> nat) \<Rightarrow> arrays \<Rightarrow> raw_message option \<Rightarrow> raw_message \<Rightarrow> raw_error + arrays \<times> raw_message" where
  "unmarshalRawJSON grow h p data =
    (case p of
       None \<Rightarrow> Inl (NilPointer ''hrana: UnmarshalJSON on nil pointer'')
     | Some m \<Rightarrow> Inr (appendFromStart grow h m (rawBytes h data)))"

text \<open>\<open>raw\<close> is what \<open>DecodeRaw\<close> of the library returns.\<close>

definition decodeRawMsgpackMessage ::
  "(nat \<Rightarrow> nat) \<Rightarrow> arrays \<Rightarrow> raw_message option \<Rightarrow> cl_error + raw_message \<Rightarrow> raw_error + arrays \<times> raw_message" where
  "decodeRawMsgpackMessage grow h p raw =
    (case p of
       None \<Rightarrow> Inl (NilPointer ''hrana: DecodeMsgpack on nil pointer'')
     | Some m \<Rightarrow>
         (case raw of
            Inl e \<Rightarrow> Inl (Undecoded e)
          | Inr b \<Rightarrow> Inr (appendFromStart grow h m (rawBytes h b))))"

definition marshalRawJSON :: "arrays \<Rightarrow> raw_message \<Rightarrow> bytes" where
  "marshalRawJSON h m = (case m of None \<Rightarrow> map (of_char :: char \<Rightarrow> 8 word) ''null'' | Some s \<Rightarrow> sliceBytes h s)"

text \<open>What \<open>EncodeMsgpack\<close> gives to the writer; \<open>EncodeNil\<close> writes one byte.\<close>

definition encodeRawMsgpack :: "arrays \<Rightarrow> raw_message \<Rightarrow> bytes" where
  "encodeRawMsgpack h m = (case m of None \<Rightarrow> [0xC0] | Some s \<Rightarrow> sliceBytes h s)"

section \<open>\<open>JSONCodec\<close> and \<open>MsgpackCodec\<close>\<close>

text \<open>Both hand on to their libraries, which are parameters.\<close>

definition codecMarshal :: "('v \<Rightarrow> cl_error + bytes) \<Rightarrow> ('v \<Rightarrow> cl_error + bytes) \<Rightarrow> codec \<Rightarrow> 'v \<Rightarrow> cl_error + bytes" where
  "codecMarshal viaJSON viaMsgpack c v = (case c of JSONCodec \<Rightarrow> viaJSON v | MsgpackCodec \<Rightarrow> viaMsgpack v)"

definition codecUnmarshal :: "(bytes \<Rightarrow> cl_error + 'v) \<Rightarrow> (bytes \<Rightarrow> cl_error + 'v) \<Rightarrow> codec \<Rightarrow> bytes \<Rightarrow> cl_error + 'v" where
  "codecUnmarshal viaJSON viaMsgpack c data = (case c of JSONCodec \<Rightarrow> viaJSON data | MsgpackCodec \<Rightarrow> viaMsgpack data)"

definition isBinary :: "codec \<Rightarrow> bool" where
  "isBinary c = (case c of JSONCodec \<Rightarrow> False | MsgpackCodec \<Rightarrow> True)"

text \<open>The subprotocol says which frames are sent.\<close>

lemma binary_subproto: "jsSubproto cfg = wsSubproto cfg @ (if isBinary (cfCodec cfg) then ''-bin'' else [])"
  by (simp add: jsSubproto_def isBinary_def split: codec.splits)

section \<open>What a message holds\<close>

lemma overwrite_nth:
  assumes "off + length data \<le> length a"
  shows "length (overwrite off data a) = length a"
    and "take (length data) (drop off (overwrite off data a)) = data"
  using assms by (simp_all add: overwrite_def)

text \<open>Either way the message holds the data, and no slice of another array has changed.\<close>

lemma append_holds:
  assumes "appendFromStart grow h m data = (h', m')" and "case m of None \<Rightarrow> True | Some s \<Rightarrow> sliceOk h s"
  shows "rawBytes h' m' = data" and "case m' of None \<Rightarrow> True | Some s \<Rightarrow> sliceOk h' s"
proof -
  show "rawBytes h' m' = data"
  proof (cases m)
    case None
    then show ?thesis using assms(1) by (auto simp: appendFromStart_def Let_def rawBytes_def sliceBytes_def split: if_splits)
  next
    case (Some s)
    then show ?thesis using assms overwrite_nth(2)[of "slOff s" data "h ! slArray s"]
      by (auto simp: appendFromStart_def Let_def rawBytes_def sliceBytes_def sliceOk_def split: if_splits)
  qed
  show "case m' of None \<Rightarrow> True | Some s \<Rightarrow> sliceOk h' s"
  proof (cases m)
    case None
    then show ?thesis using assms(1) by (auto simp: appendFromStart_def Let_def sliceOk_def split: if_splits)
  next
    case (Some s)
    then show ?thesis using assms overwrite_nth(1)[of "slOff s" data "h ! slArray s"]
      by (auto simp: appendFromStart_def Let_def sliceOk_def split: if_splits)
  qed
qed

lemma append_others:
  assumes "appendFromStart grow h m data = (h', m')" and "a < length h" and "\<forall>s. m = Some s \<longrightarrow> slArray s \<noteq> a"
  shows "h' ! a = h ! a" and "length h \<le> length h'" and "\<forall>s. m' = Some s \<longrightarrow> slArray s \<noteq> a"
  using assms by (auto simp: appendFromStart_def Let_def nth_append split: option.splits if_splits)

section \<open>Messages kept while the buffer is used again\<close>

text \<open>
  The client reads one frame after another into a buffer and decodes the part of each frame that
  is the raw message into a message of its own, which is \<open>nil\<close> at first.
\<close>

fun keepMessages :: "(nat \<Rightarrow> nat) \<Rightarrow> nat \<Rightarrow> arrays \<Rightarrow> (bytes \<times> nat \<times> nat) list \<Rightarrow> arrays \<times> raw_message list" where
  "keepMessages grow buf h [] = (h, [])"
| "keepMessages grow buf h ((frame, off, n) # fs) =
    (case unmarshalRawJSON grow (h[buf := frame]) (Some None) (Some \<lparr>slArray = buf, slOff = off, slLen = n, slCap = n\<rparr>) of
       Inl e \<Rightarrow> (h, [])
     | Inr (h1, m) \<Rightarrow> (case keepMessages grow buf h1 fs of (h2, ms) \<Rightarrow> (h2, m # ms)))"

lemma keepMessages_Cons:
  assumes "buf < length h" and "appendFromStart grow (h[buf := frame]) None (take n (drop off frame)) = (h1, m)"
  shows "fst (keepMessages grow buf h ((frame, off, n) # fs)) = fst (keepMessages grow buf h1 fs)"
    and "snd (keepMessages grow buf h ((frame, off, n) # fs)) = m # snd (keepMessages grow buf h1 fs)"
  using assms by (simp_all add: unmarshalRawJSON_def rawBytes_def sliceBytes_def split: prod.split)

declare keepMessages.simps(2) [simp del]

lemma keepMessages_frame:
  "buf < length h \<Longrightarrow> a < length h \<Longrightarrow> a \<noteq> buf \<Longrightarrow> fst (keepMessages grow buf h fs) ! a = h ! a"
proof (induction fs arbitrary: h)
  case (Cons f fs)
  obtain frame off n where f: "f = (frame, off, n)" by (cases f)
  obtain h1 m where u: "appendFromStart grow (h[buf := frame]) None (take n (drop off frame)) = (h1, m)" by fastforce
  have "h1 ! a = h ! a" "length h \<le> length h1"
    using append_others(1,2)[OF u, of a] Cons.prems by auto
  then show ?case using Cons.IH[of h1] Cons.prems keepMessages_Cons(1)[OF Cons.prems(1) u] f by simp
qed simp

text \<open>All messages still hold what was in their frames after the last one was read.\<close>

lemma kept_messages:
  assumes "buf < length h"
  shows "map (rawBytes (fst (keepMessages grow buf h fs))) (snd (keepMessages grow buf h fs))
    = map (\<lambda>(frame, off, n). take n (drop off frame)) fs"
  using assms
proof (induction fs arbitrary: h)
  case (Cons f fs)
  obtain frame off n where f: "f = (frame, off, n)" by (cases f)
  let ?d = "take n (drop off frame)"
  obtain h1 m where u: "appendFromStart grow (h[buf := frame]) None ?d = (h1, m)" by fastforce
  have hold: "rawBytes h1 m = ?d" "case m of None \<Rightarrow> True | Some s \<Rightarrow> sliceOk h1 s" using append_holds[OF u] by simp_all
  have at: "buf < length (h[buf := frame])" using Cons.prems by simp
  have b: "buf < length h1" "\<forall>s. m = Some s \<longrightarrow> slArray s \<noteq> buf"
    using append_others(2,3)[OF u at] Cons.prems by simp_all
  have "rawBytes (fst (keepMessages grow buf h1 fs)) m = ?d"
  proof (cases m)
    case None
    then show ?thesis using hold(1) by (simp add: rawBytes_def)
  next
    case (Some s)
    then have "fst (keepMessages grow buf h1 fs) ! slArray s = h1 ! slArray s"
      using keepMessages_frame[OF b(1)] b(2) hold(2) by (simp add: sliceOk_def)
    then show ?thesis using hold(1) Some by (simp add: rawBytes_def sliceBytes_def)
  qed
  then show ?case using Cons.IH[OF b(1)] keepMessages_Cons[OF Cons.prems u] f by simp
qed simp

text \<open>
  A raw message that is not empty is written as it was read, with either codec.  A message that is
  decoded into twice is overwritten in place, so a copy of the slice made before sees the second.
\<close>

lemma raw_rewritten:
  assumes "appendFromStart grow h None data = (h', m)" and "data \<noteq> []"
  shows "marshalRawJSON h' m = data" and "encodeRawMsgpack h' m = data"
  using assms by (auto simp: appendFromStart_def Let_def marshalRawJSON_def encodeRawMsgpack_def sliceBytes_def)

lemma raw_shared:
  "case appendFromStart (\<lambda>_. 0) [] None [1, 2, 3] of (h, m) \<Rightarrow>
     rawBytes (fst (appendFromStart (\<lambda>_. 0) h m [7, 8])) m = [7, 8, 3]"
  by code_simp

end
