(* ===== verification/Logging.thy ===== *)
theory Logging
  imports Prelude
begin

text \<open>
  The loggers of the parts of the server, \<open>prefixHandler\<close> and \<open>subLogger\<close> of \<open>src/utils.go\<close>.  A
  handler of \<open>log/slog\<close> is whatever the application gives to the server, so its operations are
  parameters: \<open>'h\<close> is a handler, \<open>'c\<close> a context, \<open>'a\<close> an attribute, \<open>'o\<close> what was written.
\<close>

record 'a log_record =
  lrTime :: int
  lrLevel :: int
  lrMessage :: string
  lrPC :: nat
  lrAttrs :: "'a list"

record ('h, 'c, 'a, 'o) log_handler =
  lhEnabled :: "'h \<Rightarrow> 'c \<Rightarrow> int \<Rightarrow> bool"
  lhHandle :: "'h \<Rightarrow> 'c \<Rightarrow> 'a log_record \<Rightarrow> 'o"
  lhWithAttrs :: "'h \<Rightarrow> 'a list \<Rightarrow> 'h"
  lhWithGroup :: "'h \<Rightarrow> string \<Rightarrow> 'h"

record 'h prefix_handler =
  phHandler :: 'h
  phPrefix :: string

definition newRecord :: "int \<Rightarrow> int \<Rightarrow> string \<Rightarrow> nat \<Rightarrow> 'a log_record" where
  "newRecord t level msg pc = \<lparr>lrTime = t, lrLevel = level, lrMessage = msg, lrPC = pc, lrAttrs = []\<rparr>"

definition addAttr :: "'a \<Rightarrow> 'a log_record \<Rightarrow> 'a log_record" where
  "addAttr a r = r\<lparr>lrAttrs := lrAttrs r @ [a]\<rparr>"

definition prefixEnabled :: "('h, 'c, 'a, 'o) log_handler \<Rightarrow> 'h prefix_handler \<Rightarrow> 'c \<Rightarrow> int \<Rightarrow> bool" where
  "prefixEnabled H h ctx level = lhEnabled H (phHandler h) ctx level"

text \<open>The attributes are copied one at a time; empty groups, which \<open>AddAttrs\<close> omits, are in no record.\<close>

definition prefixHandle :: "('h, 'c, 'a, 'o) log_handler \<Rightarrow> 'h prefix_handler \<Rightarrow> 'c \<Rightarrow> 'a log_record \<Rightarrow> 'o" where
  "prefixHandle H h ctx r =
    lhHandle H (phHandler h) ctx
      (fold addAttr (lrAttrs r) (newRecord (lrTime r) (lrLevel r) (phPrefix h @ '' '' @ lrMessage r) (lrPC r)))"

definition prefixWithAttrs :: "('h, 'c, 'a, 'o) log_handler \<Rightarrow> 'h prefix_handler \<Rightarrow> 'a list \<Rightarrow> 'h prefix_handler" where
  "prefixWithAttrs H h as = \<lparr>phHandler = lhWithAttrs H (phHandler h) as, phPrefix = phPrefix h\<rparr>"

definition prefixWithGroup :: "('h, 'c, 'a, 'o) log_handler \<Rightarrow> 'h prefix_handler \<Rightarrow> string \<Rightarrow> 'h prefix_handler" where
  "prefixWithGroup H h name = \<lparr>phHandler = lhWithGroup H (phHandler h) name, phPrefix = phPrefix h\<rparr>"

definition subLogger :: "'h \<Rightarrow> string \<Rightarrow> 'h prefix_handler" where
  "subLogger base part = \<lparr>phHandler = base, phPrefix = ''[hrana.'' @ part @ '']''\<rparr>"

section \<open>What a part's logger writes\<close>

datatype 'a log_with = WithAttrs "'a list" | WithGroup string

primrec baseWith :: "('h, 'c, 'a, 'o) log_handler \<Rightarrow> 'a log_with \<Rightarrow> 'h \<Rightarrow> 'h" where
  "baseWith H (WithAttrs as) h = lhWithAttrs H h as"
| "baseWith H (WithGroup name) h = lhWithGroup H h name"

primrec prefixWith :: "('h, 'c, 'a, 'o) log_handler \<Rightarrow> 'a log_with \<Rightarrow> 'h prefix_handler \<Rightarrow> 'h prefix_handler" where
  "prefixWith H (WithAttrs as) h = prefixWithAttrs H h as"
| "prefixWith H (WithGroup name) h = prefixWithGroup H h name"

lemma attrs_copied: "fold addAttr as r = r\<lparr>lrAttrs := lrAttrs r @ as\<rparr>"
  by (induction as arbitrary: r) (simp_all add: addAttr_def)

lemma prefix_kept:
  "phPrefix (fold (prefixWith H) ws h) = phPrefix h \<and> phHandler (fold (prefixWith H) ws h) = fold (baseWith H) ws (phHandler h)"
proof (induction ws arbitrary: h)
  case (Cons x ws)
  then show ?case by (cases x) (simp_all add: prefixWithAttrs_def prefixWithGroup_def)
qed simp

text \<open>
  However attributes and groups have been added to the logger of a part, a record reaches the
  handler of the application, with the same added to it, under the name of the part and is
  otherwise as it was.
\<close>

lemma sub_logger_writes:
  "prefixHandle H (fold (prefixWith H) ws (subLogger base part)) ctx r
    = lhHandle H (fold (baseWith H) ws base) ctx (r\<lparr>lrMessage := ''[hrana.'' @ part @ ''] '' @ lrMessage r\<rparr>)"
  "prefixEnabled H (fold (prefixWith H) ws (subLogger base part)) ctx level = lhEnabled H (fold (baseWith H) ws base) ctx level"
  by (cases r, simp_all add: prefixHandle_def prefixEnabled_def prefix_kept attrs_copied newRecord_def subLogger_def)

end
