(* ===== verification/Spec2Isabelle.thy ===== *)
theory Spec2Isabelle
  imports Lifecycle JsRequests SeedSession WsConcurrent StressMain ClientCodec Logging
begin

text \<open>
  Hrana: a server that gives remote clients access to an SQL database over HTTP and over
  WebSockets, its client for \<open>database/sql\<close>, and a load generator.  This development models the
  Go code of the repository, file by file, and proves what makes it correct; where the code does
  something else than it means to, the model does the same and a lemma says so.

  \<^bold>\<open>The program and how its parts interact.\<close>  A client opens a \<^emph>\<open>stream\<close>, a connection of the
  database's pool with the stored SQL texts and the cursors that belong to it, and sends requests
  for it.  Over HTTP a request is a pipeline of stream requests, and a \<^emph>\<open>baton\<close>, changed by every
  answer, leads the next request back to the stream.  Over a WebSocket a session holds any number
  of streams under numbers, and requests of one connection run concurrently.  Both sides call the
  executor, which asks the driver.  A blacklist keeps out addresses that misbehave, an interval
  sweeps expired batons and blocks, \<open>EvolveDatabase\<close> puts another database behind the streams of a
  later generation, \<open>Close\<close> shuts everything down.  The client has one driver over three
  connections: HTTP, a WebSocket, and the WebSocket of a browser.

  \<^bold>\<open>Theories of the server\<close>, in the order the code calls (files are under \<open>src/\<close>):
    \<^item> \<open>Prelude\<close>, \<open>GoText\<close>, \<open>Floats\<close>, \<open>Encoding\<close>, \<open>Json\<close>: Go's integers, strings, UTF-8, base64,
      float64 and JSON documents as far as the code uses them.
    \<^item> \<open>SqlClass\<close>: the classification of read and write statements (\<open>utils.go\<close>).
    \<^item> \<open>Errors\<close>, \<open>Values\<close>, \<open>Msgpack\<close>, \<open>Wire\<close>, \<open>StructJson\<close>, \<open>HttpJson\<close>, \<open>WsJson\<close>: errors, SQLite values with both
      codecs, the types of \<open>types.go\<close> as records and datatypes, and their JSON documents.
    \<^item> \<open>DbConn\<close>, \<open>Streams\<close>, \<open>Executor\<close>: the database pool behind a parameter, \<open>stream.go\<close>, and
      \<open>executor.go\<close> with statements, conditional batches, sequences, describe and cursors.
      \<open>Batches\<close>, \<open>Readonly\<close> and \<open>CursorBatch\<close> hold what the executor guarantees.
    \<^item> \<open>Batons\<close>, \<open>Pipeline\<close>, \<open>Http\<close>: \<open>baton.go\<close>, and \<open>http.go\<close> with the HTTP parts of \<open>hrana.go\<close>;
      \<open>HttpProps\<close> and \<open>Interleave\<close> hold the properties of a request and of concurrent requests.
    \<^item> \<open>Blacklist\<close>: \<open>blacklist.go\<close>.
    \<^item> \<open>Sessions\<close>, \<open>Websocket\<close>, \<open>Upgrade\<close>: the request handlers, the message loop and the handshake of
      \<open>websocket.go\<close>; \<open>SessionProps\<close>, \<open>SessionRequests\<close> and \<open>WebsocketProps\<close> hold the properties.
    \<^item> \<open>Lifecycle\<close>: \<open>interval_func.go\<close>, \<open>Close\<close> of \<open>hrana.go\<close>, and all traffic of a server together.
    \<^item> \<open>Logging\<close>: the loggers of its parts (\<open>utils.go\<close>).

  \<^bold>\<open>Theories of the client\<close> (\<open>src/clients/hranago\<close>) \<^bold>\<open>and of the load generator\<close> (\<open>src/cmd/stresser\<close>):
    \<^item> \<open>ClientData\<close>, \<open>ClientDsn\<close>, \<open>ClientCodec\<close>: values, conversions, rows, the data source name, and
      raw messages with the arrays they share.
    \<^item> \<open>HttpClient\<close>: \<open>conn.go\<close>, \<open>stmt.go\<close>, \<open>tx.go\<close>.  \<open>WsClient\<close>: \<open>ws_conn.go\<close> as a step relation on its
      shared state, its read loop and its goroutines; \<open>WsClientProps\<close> and \<open>WsClientLive\<close> hold its
      safety and liveness.  \<open>JsClient\<close>, \<open>JsRequests\<close>: \<open>js-conn.go\<close>.
    \<^item> \<open>SqlConnection\<close>: what the driver relies on, \<open>stmtExecutor\<close>, as an interface.
    \<^item> \<open>HttpEndToEnd\<close>, \<open>ClientServer\<close>, \<open>HttpSession\<close>: the HTTP client whose transport is the modelled
      server.  \<open>WsEndToEnd\<close>, \<open>ClientOpen\<close>, \<open>WsSession\<close>: the same for a WebSocket.
    \<^item> \<open>WsHistory\<close>, \<open>WsRepeats\<close>, \<open>WsConcurrent\<close>: what the client sent and read in a run, which
      requests it sends again, and the client with all its goroutines together with the session.
    \<^item> \<open>Stresser\<close>, \<open>StressRun\<close>, \<open>StressMain\<close>: \<open>metrics.go\<close>; \<open>schema.go\<close>, \<open>workload.go\<close> and the
      worker of \<open>main.go\<close>; \<open>main\<close> as a whole.  \<open>SeedSession\<close> runs its seeding over both connections.

  \<^bold>\<open>State.\<close>  Structs are records with the fields of the source, under its names where these are
  free.  What Go shares by reference (the streams behind batons, the elements of the LRU list) is
  in a heap and referred to by address; where an object has one owner it is a value.  Everything
  outside the program is one state \<open>'d\<close> that the environment \<open>'d env\<close> changes: the driver, the
  clock, the random source.  Errors are values of \<open>error + 'a\<close>.

  \<^bold>\<open>What the lemmas show.\<close>  In four groups:
    \<^item> \<^emph>\<open>Resources.\<close>  Every connection taken from the pool is back or belongs to an open stream that
      a client can reach: for HTTP requests, for any interleaving of them, for sessions, for all
      traffic up to a shutdown; and a shutdown can always finish.
    \<^item> \<^emph>\<open>Access.\<close>  A rejected token gets nothing, nothing happens on a WebSocket before a
      successful \<open>hello\<close>, a read-only stream sends the database no text classified as a write (and which
      paths are not checked at all), a superseded stream runs nothing, a blocked address stays
      blocked until its time is over and not longer than \<open>MaxBlock\<close>.
    \<^item> \<^emph>\<open>Function.\<close>  Codecs are inverse to each other and the client's agree with the server's; one
      answer per request, in order or under its number; batches, cursors and stored texts mean
      what they say; the blacklist implements a bounded LRU list; the report of the load
      generator is exact.
    \<^item> \<^emph>\<open>The whole.\<close>  A connection of the client, over HTTP or a WebSocket, executes statements as
      if they were executed on one stream of the server directly; its calls return, no send on a
      channel of it blocks, in the browser either; of any number of concurrent calls over a
      WebSocket each that returns a result had its own request executed exactly once, however the
      goroutines of both ends interleave; seeding through it seeds the database; a run of the
      load generator reports what its workers measured.

  \<^bold>\<open>Interfaces.\<close>  Locales state what one part relies on, and each is interpreted on the model:
  \<open>rune_code\<close> (sets of runes to trim), \<open>baton_map\<close> (what is found after a put or a delete),
  \<open>blacklist_checker\<close> (what the server expects of \<open>BlacklistChecker\<close>), \<open>sql_registry\<close> (stored texts),
  \<open>driver_invariant\<close> with \<open>driver_frame\<close> (what no call of the driver breaks), \<open>session_keeper\<close> (what
  every handler of a session keeps), \<open>sql_connection\<close> (a connection executes as the database does),
  interpreted for both transports.

  \<^bold>\<open>Bounds and termination.\<close>  There is no fuel.  The one loop of the code that may run for ever,
  drawing a free number in \<open>AddStreamAssinged\<close>, is a partial function, and a theorem says when it
  returns; every other function is total.  Bounds appear as hypotheses where the code has them
  unchecked: fewer than \<open>2\<^sup>3\<^sup>2\<close> requests of one client connection (their numbers would come
  round; \<open>noWrap\<close>), blocks of less than \<open>2\<^sup>5\<^sup>3\<close> nanoseconds (float64 is exact up to there), at most \<open>2\<^sup>4\<^sup>5\<close>
  samples in a report (the ranks computed in float64 are exact).

  \<^bold>\<open>Steps.\<close>  What is atomic: an operation of the baton store or the blacklist, under its mutex; a
  request of a pipeline, under the lock of its stream; one request of a WebSocket session, and its
  end; reading one frame; the check and the registration of a new session; a critical section or a
  channel operation of the WebSocket client, the increment of the request number taken together
  with the registration; a callback of the browser, which the page runs to its end.

  \<^bold>\<open>Parameters.\<close>  The database driver, the clock and the random source; the token check of the
  configuration; the lexical level of JSON and the decimal text of floats (\<open>strconv\<close>), with the
  documented laws as \<open>textsAgree\<close> and \<open>linkOk\<close>; the MessagePack library and its documents of structs;
  \<open>url.Parse\<close>; the WebSocket libraries; the transport of the client, which the theorems about the
  whole instantiate with the server.

  \<^bold>\<open>Not modelled.\<close>  The calls of the loggers, which only write diagnostics.
  The encoding of structs by the MessagePack library, which is not part of the repository.  Real
  time: a timeout is a step that may happen.  Of the load generator, the parsing of the command line
  by \<open>flag\<close>, and the clock: what a worker meets in each turn of its loop (how long the query took,
  whether the context has ended) is an argument, as is the order in which the samples of all
  workers come to the collector, and the theorems hold for all of them.  The TypeScript and
  Python clients, which are other programs.
\<close>

end
